(* ===== verification/Prelude.thy ===== *)
theory Prelude
  imports Main "HOL-Library.Char_ord" "HOL-Library.List_Lexorder" "HOL-Library.Sublist"
    "HOL-Library.Multiset" "HOL-Library.Word"
begin

text \<open>
  Shared vocabulary of the development. A Go string and a Go byte slice are both a
  \<open>string\<close>, that is a list of 8-bit characters; comparison of strings is Go's
  byte-wise comparison (the lexicographic order on \<open>char list\<close>). The theory holds the
  operations of Go's standard library that the program calls (package strings, strconv,
  net, net/textproto, net/http), a stable sort with the facts a client needs, packaged as
  the locale \<open>weak_order\<close>, and the association lists that stand for Go maps.

  The Unicode case tables are the one thing left open: \<open>strings.ToLower\<close> works byte by
  byte on ASCII strings and consults the tables otherwise, so the functions that lower or
  upper a string take the table-driven part as an argument of type \<open>unicode_map\<close>.
\<close>

named_theorems go_simps \<open>unfolding rules for the string operations\<close>
named_theorems sorted_facts \<open>what a stable sort guarantees\<close>

type_synonym counter = "64 word"
type_synonym unicode_map = "string \<Rightarrow> string"
type_synonym time = int
type_synonym hmap = "(string \<times> string list) list"

section \<open>Package strings\<close>

definition has_prefix :: "string \<Rightarrow> string \<Rightarrow> bool" where
  "has_prefix s p = prefix p s"

definition has_suffix :: "string \<Rightarrow> string \<Rightarrow> bool" where
  "has_suffix s p = prefix (rev p) (rev s)"

fun contains :: "string \<Rightarrow> string \<Rightarrow> bool" where
  "contains [] p = (p = [])"
| "contains (c # cs) p = (prefix p (c # cs) \<or> contains cs p)"

definition ascii_lower :: "char \<Rightarrow> char" where
  "ascii_lower c = (if 65 \<le> (of_char c :: nat) \<and> (of_char c :: nat) \<le> 90
     then char_of ((of_char c :: nat) + 32) else c)"

definition ascii_upper :: "char \<Rightarrow> char" where
  "ascii_upper c = (if 97 \<le> (of_char c :: nat) \<and> (of_char c :: nat) \<le> 122
     then char_of ((of_char c :: nat) - 32) else c)"

definition is_ascii :: "string \<Rightarrow> bool" where
  "is_ascii s = list_all (\<lambda>c. (of_char c :: nat) < 128) s"

text \<open>\<open>strings.ToLower\<close> and \<open>bytes.ToLower\<close>: the ASCII path, else the Unicode tables.\<close>

definition ToLower :: "unicode_map \<Rightarrow> string \<Rightarrow> string" where
  "ToLower ul s = (if is_ascii s then map ascii_lower s else ul s)"

definition ToUpper :: "unicode_map \<Rightarrow> string \<Rightarrow> string" where
  "ToUpper uu s = (if is_ascii s then map ascii_upper s else uu s)"

text \<open>
  The white space of \<open>unicode.IsSpace\<close>, each code point as its UTF-8 bytes. A UTF-8
  sequence is self-delimiting, so trimming decoded runes is stripping these byte strings.
\<close>

definition go_spaces :: "string list" where
  "go_spaces =
     [[CHR 0x20], [CHR 0x09], [CHR 0x0A], [CHR 0x0B], [CHR 0x0C], [CHR 0x0D],
      [CHR 0xC2, CHR 0x85], [CHR 0xC2, CHR 0xA0], [CHR 0xE1, CHR 0x9A, CHR 0x80],
      [CHR 0xE2, CHR 0x80, CHR 0x80], [CHR 0xE2, CHR 0x80, CHR 0x81],
      [CHR 0xE2, CHR 0x80, CHR 0x82], [CHR 0xE2, CHR 0x80, CHR 0x83],
      [CHR 0xE2, CHR 0x80, CHR 0x84], [CHR 0xE2, CHR 0x80, CHR 0x85],
      [CHR 0xE2, CHR 0x80, CHR 0x86], [CHR 0xE2, CHR 0x80, CHR 0x87],
      [CHR 0xE2, CHR 0x80, CHR 0x88], [CHR 0xE2, CHR 0x80, CHR 0x89],
      [CHR 0xE2, CHR 0x80, CHR 0x8A], [CHR 0xE2, CHR 0x80, CHR 0xA8],
      [CHR 0xE2, CHR 0x80, CHR 0xA9], [CHR 0xE2, CHR 0x80, CHR 0xAF],
      [CHR 0xE2, CHR 0x81, CHR 0x9F], [CHR 0xE3, CHR 0x80, CHR 0x80]]"

function strip :: "string list \<Rightarrow> string \<Rightarrow> string" where
  "strip ps s = (case find (\<lambda>p. p \<noteq> [] \<and> prefix p s) ps of
       None \<Rightarrow> s
     | Some p \<Rightarrow> strip ps (drop (length p) s))"
  by pat_completeness auto
termination
proof (relation "measure (\<lambda>(ps, s). length s)")
  fix ps :: "string list" and s p :: string
  assume "find (\<lambda>p. p \<noteq> [] \<and> prefix p s) ps = Some p"
  then have "p \<noteq> []" and "prefix p s" by (auto simp: find_Some_iff)
  then have "0 < length p" and "length p \<le> length s" by (auto dest: prefix_length_le)
  then have "length s - length p < length s" by linarith
  then show "((ps, drop (length p) s), (ps, s)) \<in> measure (\<lambda>(ps, s). length s)" by simp
qed simp

declare strip.simps [simp del]

definition TrimSpace :: "string \<Rightarrow> string" where
  "TrimSpace s = rev (strip (map rev go_spaces) (rev (strip go_spaces s)))"

text \<open>\<open>strings.TrimLeft(s, " \t")\<close>.\<close>

definition trim_blanks :: "string \<Rightarrow> string" where
  "trim_blanks s = dropWhile (\<lambda>c. c = CHR '' '' \<or> c = CHR 0x09) s"

text \<open>\<open>strings.Split\<close> with a one-byte separator, and \<open>strings.Join\<close>.\<close>

fun split_on :: "char \<Rightarrow> string \<Rightarrow> string list" where
  "split_on sep [] = [[]]"
| "split_on sep (c # cs) =
     (if c = sep then [] # split_on sep cs
      else (case split_on sep cs of p # ps \<Rightarrow> (c # p) # ps | [] \<Rightarrow> [[c]]))"

fun join :: "string \<Rightarrow> string list \<Rightarrow> string" where
  "join sep [] = []"
| "join sep [p] = p"
| "join sep (p # q # ps) = p @ sep @ join sep (q # ps)"

text \<open>\<open>strings.IndexByte\<close>: None is the negative result.\<close>

fun index_byte :: "string \<Rightarrow> char \<Rightarrow> nat option" where
  "index_byte [] b = None"
| "index_byte (c # cs) b = (if c = b then Some 0 else map_option Suc (index_byte cs b))"

definition last_index_byte :: "string \<Rightarrow> char \<Rightarrow> nat option" where
  "last_index_byte s b = map_option (\<lambda>i. length s - 1 - i) (index_byte (rev s) b)"

text \<open>\<open>strings.ReplaceAll\<close> for a non-empty needle (the only use the program makes).\<close>

function replace_all :: "string \<Rightarrow> string \<Rightarrow> string \<Rightarrow> string" where
  "replace_all old new [] = []"
| "replace_all old new (c # cs) =
     (if old \<noteq> [] \<and> prefix old (c # cs)
      then new @ replace_all old new (drop (length old) (c # cs))
      else c # replace_all old new cs)"
  by pat_completeness auto
termination by (relation "measure (\<lambda>(old, new, s). length s)") auto

section \<open>Package strconv\<close>

definition digit_val :: "char \<Rightarrow> nat option" where
  "digit_val c = (let n = (of_char c :: nat) in if 48 \<le> n \<and> n \<le> 57 then Some (n - 48) else None)"

fun parse_digits :: "nat \<Rightarrow> string \<Rightarrow> nat option" where
  "parse_digits acc [] = Some acc"
| "parse_digits acc (c # cs) =
     (case digit_val c of None \<Rightarrow> None | Some d \<Rightarrow> parse_digits (10 * acc + d) cs)"

definition in_int64 :: "int \<Rightarrow> bool" where
  "in_int64 i = (- (2 ^ 63) \<le> i \<and> i < 2 ^ 63)"

text \<open>\<open>strconv.ParseInt(s, 10, 64)\<close>, and \<open>strconv.Atoi\<close> on a 64-bit machine.\<close>

definition ParseInt :: "string \<Rightarrow> int option" where
  "ParseInt s =
     (let (neg, ds) = (case s of
          c # cs \<Rightarrow> if c = CHR ''-'' then (True, cs) else if c = CHR ''+'' then (False, cs) else (False, s)
        | [] \<Rightarrow> (False, s))
      in if ds = [] then None
         else (case parse_digits 0 ds of
             None \<Rightarrow> None
           | Some n \<Rightarrow> (let v = (if neg then - int n else int n) in if in_int64 v then Some v else None)))"

definition digit_char :: "nat \<Rightarrow> char" where
  "digit_char d = char_of (48 + d)"

fun nat_digits :: "nat \<Rightarrow> string" where
  "nat_digits n = (if n < 10 then [digit_char n] else nat_digits (n div 10) @ [digit_char (n mod 10)])"

declare nat_digits.simps [simp del]

text \<open>The verb \<open>%d\<close> of package fmt, and \<open>strconv.Itoa\<close>.\<close>

definition Itoa :: "int \<Rightarrow> string" where
  "Itoa i = (if i < 0 then CHR ''-'' # nat_digits (nat (- i)) else nat_digits (nat i))"


section \<open>Packages net, net/textproto and net/http\<close>

text \<open>
  \<open>net.SplitHostPort\<close>: None is the error. The port starts after the last colon; a
  bracketed host must end just before it.
\<close>

definition SplitHostPort :: "string \<Rightarrow> (string \<times> string) option" where
  "SplitHostPort hp =
     (case last_index_byte hp (CHR '':'') of
        None \<Rightarrow> None
      | Some i \<Rightarrow>
          (if hd hp = CHR ''['' then
             (case index_byte hp (CHR '']'') of
                None \<Rightarrow> None
              | Some e \<Rightarrow>
                  if e + 1 = length hp \<or> e + 1 \<noteq> i then None
                  else if CHR ''['' \<in> set (drop 1 hp) then None
                  else if CHR '']'' \<in> set (drop (e + 1) hp) then None
                  else Some (drop 1 (take e hp), drop (i + 1) hp))
           else
             (let host = take i hp in
              if CHR '':'' \<in> set host then None
              else if CHR ''['' \<in> set hp then None
              else if CHR '']'' \<in> set hp then None
              else Some (host, drop (i + 1) hp))))"

text \<open>The token characters of RFC 7230, which \<open>textproto\<close> accepts in a field name.\<close>

definition valid_header_byte :: "char \<Rightarrow> bool" where
  "valid_header_byte c =
     (let n = (of_char c :: nat) in
      (48 \<le> n \<and> n \<le> 57) \<or> (65 \<le> n \<and> n \<le> 90) \<or> (97 \<le> n \<and> n \<le> 122) \<or>
      c \<in> set ''!#$%&*+-.^_`|~'' \<or> n = 39)"

fun canon_walk :: "bool \<Rightarrow> string \<Rightarrow> string" where
  "canon_walk up [] = []"
| "canon_walk up (c # cs) =
     (let d = (if up then ascii_upper c else ascii_lower c) in d # canon_walk (d = CHR ''-'') cs)"

text \<open>\<open>textproto.CanonicalMIMEHeaderKey\<close>: a name with an invalid byte is returned unchanged.\<close>

definition CanonicalMIMEHeaderKey :: "string \<Rightarrow> string" where
  "CanonicalMIMEHeaderKey s = (if list_all valid_header_byte s then canon_walk True s else s)"

text \<open>\<open>http.Header.Get\<close>, \<open>Set\<close> and \<open>Add\<close> on the association list of a header map.\<close>

definition header_get :: "hmap \<Rightarrow> string \<Rightarrow> string" where
  "header_get h name = (case map_of h (CanonicalMIMEHeaderKey name) of
      Some (v # vs) \<Rightarrow> v | _ \<Rightarrow> [])"

fun hm_update :: "string \<Rightarrow> string list \<Rightarrow> hmap \<Rightarrow> hmap" where
  "hm_update k vs [] = [(k, vs)]"
| "hm_update k vs ((k', vs') # h) = (if k = k' then (k, vs) # h else (k', vs') # hm_update k vs h)"

definition header_set :: "hmap \<Rightarrow> string \<Rightarrow> string \<Rightarrow> hmap" where
  "header_set h name v = hm_update (CanonicalMIMEHeaderKey name) [v] h"

definition header_add :: "hmap \<Rightarrow> string \<Rightarrow> string \<Rightarrow> hmap" where
  "header_add h name v =
     (let k = CanonicalMIMEHeaderKey name in
      hm_update k ((case map_of h k of Some vs \<Rightarrow> vs | None \<Rightarrow> []) @ [v]) h)"

section \<open>Package time\<close>

text \<open>Go's int and int64 wrap around at 64 bits (two's complement).\<close>

definition wrap64 :: "int \<Rightarrow> int" where
  "wrap64 i = sint (word_of_int i :: 64 word)"

text \<open>
  An instant is the number of nanoseconds since the Unix epoch. \<open>UnixNano\<close> keeps the low
  64 bits, as the source's int64 arithmetic does; the zero time is 1 January of year 1.
\<close>

definition UnixNano :: "time \<Rightarrow> int" where
  "UnixNano t = wrap64 t"

definition zero_time :: time where
  "zero_time = -62135596800 * 1000000000"

text \<open>Go's integer division truncates towards zero.\<close>

definition go_div :: "int \<Rightarrow> int \<Rightarrow> int" where
  "go_div a b = sgn a * sgn b * (\<bar>a\<bar> div \<bar>b\<bar>)"

section \<open>Package sort\<close>

fun insert_by :: "('a \<Rightarrow> 'a \<Rightarrow> bool) \<Rightarrow> 'a \<Rightarrow> 'a list \<Rightarrow> 'a list" where
  "insert_by lt x [] = [x]"
| "insert_by lt x (y # ys) = (if lt y x then y # insert_by lt x ys else x # y # ys)"

text \<open>
  \<open>sort.SliceStable\<close>: a stable sort has one possible result, so insertion sort computes it.
\<close>

definition SliceStable :: "('a \<Rightarrow> 'a \<Rightarrow> bool) \<Rightarrow> 'a list \<Rightarrow> 'a list" where
  "SliceStable lt xs = foldr (insert_by lt) xs []"


section \<open>Facts about the string operations\<close>

lemma has_suffix_suffix: "has_suffix s p \<longleftrightarrow> suffix p s"
  by (simp add: has_suffix_def suffix_to_prefix)

lemma contains_sublist: "contains s p \<longleftrightarrow> sublist p s"
  by (induction s) (auto simp: sublist_Cons_right)

lemma contains_Nil [simp]: "contains s []"
  by (cases s) auto

lemma is_ascii_simps [simp]:
  "is_ascii []"
  "is_ascii (c # cs) \<longleftrightarrow> (of_char c :: nat) < 128 \<and> is_ascii cs"
  "is_ascii (xs @ ys) \<longleftrightarrow> is_ascii xs \<and> is_ascii ys"
  by (simp_all add: is_ascii_def)

lemma ascii_lower_code: "(of_char (ascii_lower c) :: nat) =
   (if 65 \<le> (of_char c :: nat) \<and> (of_char c :: nat) \<le> 90 then of_char c + 32 else of_char c)"
  by (auto simp: ascii_lower_def)

lemma ascii_upper_code: "(of_char (ascii_upper c) :: nat) =
   (if 97 \<le> (of_char c :: nat) \<and> (of_char c :: nat) \<le> 122 then of_char c - 32 else of_char c)"
  by (auto simp: ascii_upper_def)

lemma char_eq_code: "(c :: char) = d \<longleftrightarrow> (of_char c :: nat) = of_char d"
  by (metis char_of_char)

lemma ascii_lower_idem [simp]: "ascii_lower (ascii_lower c) = ascii_lower c"
  by (simp add: char_eq_code ascii_lower_code)

lemma ascii_upper_idem [simp]: "ascii_upper (ascii_upper c) = ascii_upper c"
  by (auto simp: char_eq_code ascii_upper_code)

lemma ascii_lower_upper [simp]: "ascii_lower (ascii_upper c) = ascii_lower c"
  by (auto simp: char_eq_code [of "ascii_lower (ascii_upper c)"] ascii_lower_code ascii_upper_code)

lemma is_ascii_map_lower [simp]: "is_ascii (map ascii_lower s) \<longleftrightarrow> is_ascii s"
  by (induction s) (auto simp: ascii_lower_code)

lemma is_ascii_map_upper [simp]: "is_ascii (map ascii_upper s) \<longleftrightarrow> is_ascii s"
  by (induction s) (auto simp: ascii_upper_code)

lemma ToLower_ascii: "is_ascii s \<Longrightarrow> ToLower ul s = map ascii_lower s"
  by (simp add: ToLower_def)

lemma strip_unfold_None:
  "\<forall>p \<in> set ps. p \<noteq> [] \<longrightarrow> \<not> prefix p s \<Longrightarrow> strip ps s = s"
  by (subst strip.simps) (auto simp: find_None_iff split: option.splits dest: find_Some_iff [THEN iffD1])

lemma strip_result: "p \<in> set ps \<Longrightarrow> p \<noteq> [] \<Longrightarrow> \<not> prefix p (strip ps s)"
proof (induction ps s rule: strip.induct)
  case (1 ps s)
  show ?case
  proof (cases "find (\<lambda>p. p \<noteq> [] \<and> prefix p s) ps")
    case None
    then have "strip ps s = s" by (subst strip.simps) simp
    with None "1.prems" show ?thesis by (auto simp: find_None_iff)
  next
    case (Some q)
    then have "strip ps s = strip ps (drop (length q) s)" by (subst strip.simps) simp
    with "1.IH" [OF Some "1.prems"] show ?thesis by simp
  qed
qed

lemma strip_suffix: "suffix (strip ps s) s"
proof (induction ps s rule: strip.induct)
  case (1 ps s)
  then show ?case
    by (subst strip.simps) (auto split: option.splits intro: suffix_order.trans suffix_drop)
qed

lemma strip_idem [simp]: "strip ps (strip ps s) = strip ps s"
  by (rule strip_unfold_None) (auto dest: strip_result)

lemma prefix_prefix_trans: "prefix p q \<Longrightarrow> prefix q s \<Longrightarrow> prefix p s"
  by (rule prefix_order.trans)

lemma TrimSpace_prefix: "prefix (TrimSpace s) (strip go_spaces s)"
proof -
  have "suffix (strip (map rev go_spaces) (rev (strip go_spaces s))) (rev (strip go_spaces s))"
    by (rule strip_suffix)
  then show ?thesis by (simp add: TrimSpace_def suffix_to_prefix)
qed

lemma TrimSpace_sublist: "sublist (TrimSpace s) s"
  using TrimSpace_prefix [of s] strip_suffix [of go_spaces s]
  by (meson prefix_imp_sublist suffix_imp_sublist sublist_order.order.trans)

lemma TrimSpace_Nil [simp]: "TrimSpace [] = []"
  using TrimSpace_sublist [of "[]"] by simp

lemma TrimSpace_idem [simp]: "TrimSpace (TrimSpace s) = TrimSpace s"
proof -
  have "\<forall>p \<in> set go_spaces. p \<noteq> [] \<longrightarrow> \<not> prefix p (TrimSpace s)"
    using TrimSpace_prefix [of s] strip_result [of _ go_spaces s] prefix_prefix_trans by blast
  then have "strip go_spaces (TrimSpace s) = TrimSpace s" by (rule strip_unfold_None)
  then show ?thesis
    by (simp add: TrimSpace_def [of "TrimSpace s"]) (simp add: TrimSpace_def)
qed

text \<open>Mapping the characters of a string commutes with stripping when no separator is affected.\<close>

definition unaffected :: "(char \<Rightarrow> char) \<Rightarrow> string \<Rightarrow> bool" where
  "unaffected f p \<longleftrightarrow> (\<forall>c \<in> set p. \<forall>x. f x = c \<longleftrightarrow> x = c)"

lemma prefix_map_iff: "unaffected f p \<Longrightarrow> prefix p (map f s) \<longleftrightarrow> prefix p s"
proof (induction p arbitrary: s)
  case (Cons a p)
  have "a = f y \<longleftrightarrow> a = y" for y using Cons.prems unfolding unaffected_def by (metis list.set_intros(1))
  moreover have "unaffected f p" using Cons.prems by (simp add: unaffected_def)
  ultimately show ?case by (cases s) (simp_all add: Cons.IH)
qed simp

lemma strip_map: "\<forall>p \<in> set ps. unaffected f p \<Longrightarrow> strip ps (map f s) = map f (strip ps s)"
proof (induction ps s rule: strip.induct)
  case (1 ps s)
  have eq: "find (\<lambda>p. p \<noteq> [] \<and> prefix p (map f s)) ps = find (\<lambda>p. p \<noteq> [] \<and> prefix p s) ps"
    by (rule find_cong) (use "1.prems" in \<open>simp_all add: prefix_map_iff\<close>)
  show ?case
    using "1.IH" "1.prems" unfolding strip.simps [of ps s] strip.simps [of ps "map f s"] eq
    by (auto simp: drop_map split: option.splits)
qed

lemma ascii_lower_eq_iff: "\<not> (97 \<le> (of_char c :: nat) \<and> (of_char c :: nat) \<le> 122) \<Longrightarrow>
   \<not> (65 \<le> (of_char c :: nat) \<and> (of_char c :: nat) \<le> 90) \<Longrightarrow> ascii_lower x = c \<longleftrightarrow> x = c"
  unfolding char_eq_code [of _ c] ascii_lower_code by (auto split: if_splits)

lemma go_spaces_no_letters:
  "list_all (list_all (\<lambda>c. \<not> (97 \<le> (of_char c :: nat) \<and> (of_char c :: nat) \<le> 122) \<and>
     \<not> (65 \<le> (of_char c :: nat) \<and> (of_char c :: nat) \<le> 90))) go_spaces"
  by (simp add: go_spaces_def)

lemma go_spaces_unaffected: "p \<in> set go_spaces \<Longrightarrow> unaffected ascii_lower p"
  using go_spaces_no_letters ascii_lower_eq_iff unfolding unaffected_def list_all_iff by blast

lemma unaffected_rev [simp]: "unaffected f (rev p) = unaffected f p"
  by (simp add: unaffected_def)

lemma TrimSpace_map_lower: "TrimSpace (map ascii_lower s) = map ascii_lower (TrimSpace s)"
  by (simp add: TrimSpace_def strip_map go_spaces_unaffected rev_map)

lemma split_on_ne [simp]: "split_on sep s \<noteq> []"
  by (induction s) (auto split: list.splits)

lemma split_on_sep_free: "p \<in> set (split_on sep s) \<Longrightarrow> sep \<notin> set p"
  by (induction s arbitrary: p) (auto split: if_splits list.splits)

lemma join_split_on: "join [sep] (split_on sep s) = s"
proof (induction s)
  case (Cons c cs)
  then show ?case by (cases "split_on sep cs" rule: list.exhaust; cases "tl (split_on sep cs)") auto
qed simp

lemma split_on_join:
  "ps \<noteq> [] \<Longrightarrow> \<forall>p \<in> set ps. sep \<notin> set p \<Longrightarrow> split_on sep (join [sep] ps) = ps"
proof (induction "[sep]" ps rule: join.induct)
  case (2 p)
  then show ?case by (induction p) auto
next
  case (3 p q ps)
  then have IH: "split_on sep (join [sep] (q # ps)) = q # ps" by auto
  have "sep \<notin> set p" using "3.prems" by auto
  then show ?case by (induction p) (use IH in auto)
qed simp

lemma index_byte_Some: "index_byte s b = Some i \<Longrightarrow> i < length s \<and> s ! i = b \<and> b \<notin> set (take i s)"
  by (induction s arbitrary: i) (auto split: if_splits)

lemma index_byte_None [simp]: "index_byte s b = None \<longleftrightarrow> b \<notin> set s"
  by (induction s) auto

lemma index_byte_append: "b \<notin> set xs \<Longrightarrow> index_byte (xs @ b # ys) b = Some (length xs)"
  by (induction xs) auto


section \<open>Facts about lists\<close>

lemma map_filter_append [simp]: "List.map_filter f (xs @ ys) = List.map_filter f xs @ List.map_filter f ys"
  by (simp add: List.map_filter_def)

lemma find_append: "find P (xs @ ys) = (case find P xs of None \<Rightarrow> find P ys | Some x \<Rightarrow> Some x)"
  by (induction xs) auto

lemma find_map: "find P (map f xs) = map_option f (find (\<lambda>x. P (f x)) xs)"
  by (induction xs) auto

lemma upt_0_Suc: "[0..<Suc n] = 0 # map Suc [0..<n]"
  by (simp add: map_Suc_upt upt_conv_Cons del: upt_Suc)

lemma take_upt_0: "take m [0..<n] = [0..<min m n]"
  by (cases "m \<le> n") auto

section \<open>Facts about numbers and header names\<close>

lemma digit_val_digit_char [simp]: "d < 10 \<Longrightarrow> digit_val (digit_char d) = Some d"
  by (simp add: digit_val_def digit_char_def)

lemma parse_digits_append:
  "parse_digits a (xs @ ys) = Option.bind (parse_digits a xs) (\<lambda>b. parse_digits b ys)"
  by (induction xs arbitrary: a) (auto split: option.splits)

lemma parse_nat_digits [simp]: "parse_digits 0 (nat_digits n) = Some n"
proof (induction n rule: nat_digits.induct)
  case (1 n)
  then show ?case
    by (subst nat_digits.simps) (auto simp: parse_digits_append)
qed

lemma nat_digits_ne [simp]: "nat_digits n \<noteq> []"
  by (subst nat_digits.simps) simp

lemma nat_digits_chars: "c \<in> set (nat_digits n) \<Longrightarrow> 48 \<le> (of_char c :: nat) \<and> (of_char c :: nat) \<le> 57"
proof (induction n rule: nat_digits.induct)
  case (1 n)
  then show ?case
    by (subst (asm) (2) nat_digits.simps) (auto simp: digit_char_def split: if_splits)
qed

lemma nat_digits_hd:
  obtains c cs where "nat_digits n = c # cs" and "c \<noteq> CHR ''-''" and "c \<noteq> CHR ''+''"
proof (cases "nat_digits n")
  case (Cons c cs)
  then have "48 \<le> (of_char c :: nat)" using nat_digits_chars [of c n] by simp
  then have "c \<noteq> CHR ''-''" and "c \<noteq> CHR ''+''" by auto
  with Cons show thesis by (rule that)
qed simp

lemma ParseInt_Itoa: "in_int64 i \<Longrightarrow> ParseInt (Itoa i) = Some i"
proof (cases "i < 0")
  case False
  assume "in_int64 i"
  obtain c cs where "nat_digits (nat i) = c # cs" and "c \<noteq> CHR ''-''" and "c \<noteq> CHR ''+''"
    by (rule nat_digits_hd)
  moreover from this have "parse_digits 0 (c # cs) = Some (nat i)" by (metis parse_nat_digits)
  ultimately show ?thesis using False \<open>in_int64 i\<close>
    by (simp add: ParseInt_def Itoa_def Let_def del: parse_digits.simps)
qed (simp add: ParseInt_def Itoa_def Let_def)

lemma Itoa_no_colon: "CHR '':'' \<notin> set (Itoa i)"
  by (auto simp: Itoa_def dest: nat_digits_chars)

lemma valid_header_byte_ascii: "valid_header_byte c \<Longrightarrow> (of_char c :: nat) < 128"
  by (auto simp: valid_header_byte_def Let_def)

lemma valid_header_byte_upper [simp]: "valid_header_byte c \<Longrightarrow> valid_header_byte (ascii_upper c)"
  by (cases "97 \<le> (of_char c :: nat) \<and> (of_char c :: nat) \<le> 122")
     (auto simp: valid_header_byte_def ascii_upper_def Let_def)

lemma valid_header_byte_lower [simp]: "valid_header_byte c \<Longrightarrow> valid_header_byte (ascii_lower c)"
  by (cases "65 \<le> (of_char c :: nat) \<and> (of_char c :: nat) \<le> 90")
     (auto simp: valid_header_byte_def ascii_lower_def Let_def)

lemma canon_walk_valid: "list_all valid_header_byte s \<Longrightarrow> list_all valid_header_byte (canon_walk up s)"
  by (induction s arbitrary: up) (auto simp: Let_def)

lemma canon_walk_idem: "canon_walk up (canon_walk up s) = canon_walk up s"
  by (induction s arbitrary: up) (auto simp: Let_def)

lemma Canonical_idem [simp]:
  "CanonicalMIMEHeaderKey (CanonicalMIMEHeaderKey s) = CanonicalMIMEHeaderKey s"
  by (simp add: CanonicalMIMEHeaderKey_def canon_walk_valid canon_walk_idem)

lemma canon_walk_length [simp]: "length (canon_walk up s) = length s"
  by (induction s arbitrary: up) (auto simp: Let_def)

lemma Canonical_Nil_iff [simp]: "CanonicalMIMEHeaderKey s = [] \<longleftrightarrow> s = []"
  by (metis CanonicalMIMEHeaderKey_def canon_walk_length length_0_conv)

lemma map_of_hm_update [simp]: "map_of (hm_update k vs h) k' = (if k' = k then Some vs else map_of h k')"
  by (induction k vs h rule: hm_update.induct) auto

lemma keys_hm_update: "set (map fst (hm_update k vs h)) = insert k (set (map fst h))"
  by (induction k vs h rule: hm_update.induct) auto

lemma distinct_hm_update: "distinct (map fst h) \<Longrightarrow> distinct (map fst (hm_update k vs h))"
  by (induction k vs h rule: hm_update.induct) (use keys_hm_update in auto)

lemma header_get_set:
  "header_get (header_set h n v) m =
     (if CanonicalMIMEHeaderKey m = CanonicalMIMEHeaderKey n then v else header_get h m)"
  by (simp add: header_get_def header_set_def)

lemma wrap64_id: "in_int64 i \<Longrightarrow> wrap64 i = i"
  by (simp add: wrap64_def in_int64_def sint_sbintrunc' signed_take_bit_int_eq_self)

lemma UnixNano_id: "in_int64 t \<Longrightarrow> UnixNano t = t"
  by (simp add: UnixNano_def wrap64_id)

section \<open>Stable sorting by a strict weak order\<close>

text \<open>
  What \<open>sort.SliceStable\<close> asks of its comparison, and what a caller may rely on. The
  program sorts rows and records by (timestamp, id) pairs; each comparison is an
  interpretation of this locale next to its definition.
\<close>

locale weak_order =
  fixes lt :: "'a \<Rightarrow> 'a \<Rightarrow> bool"
  assumes irrefl: "\<not> lt x x"
    and lt_trans: "lt x y \<Longrightarrow> lt y z \<Longrightarrow> lt x z"
    and neg_trans: "lt x z \<Longrightarrow> lt x y \<or> lt y z"
begin

lemma asym: "lt x y \<Longrightarrow> \<not> lt y x"
  using irrefl lt_trans by blast

lemma mset_insert_by: "mset (insert_by lt x xs) = add_mset x (mset xs)"
  by (induction xs) auto

lemma mset_sort: "mset (SliceStable lt xs) = mset xs"
  by (induction xs) (auto simp: SliceStable_def mset_insert_by)

lemma set_sort: "set (SliceStable lt xs) = set xs"
  using mset_sort by (metis set_mset_mset)

lemma length_sort: "length (SliceStable lt xs) = length xs"
  using mset_sort by (metis size_mset)

lemma insert_by_sorted:
  "sorted_wrt (\<lambda>a b. \<not> lt b a) xs \<Longrightarrow> sorted_wrt (\<lambda>a b. \<not> lt b a) (insert_by lt x xs)"
proof (induction xs)
  case (Cons y ys)
  show ?case
  proof (cases "lt y x")
    case True
    have "set (insert_by lt x ys) = insert x (set ys)"
      by (metis mset_insert_by set_mset_add_mset_insert set_mset_mset)
    with True Cons show ?thesis by (auto dest: asym)
  next
    case False
    with Cons.prems show ?thesis by (auto dest: neg_trans)
  qed
qed simp

lemma sort_sorted: "sorted_wrt (\<lambda>a b. \<not> lt b a) (SliceStable lt xs)"
  by (induction xs) (auto simp: SliceStable_def insert_by_sorted)

lemma sorted_strict:
  "\<lbrakk>sorted_wrt (\<lambda>a b. \<not> lt b a) xs; distinct xs;
    \<And>x y. x \<in> set xs \<Longrightarrow> y \<in> set xs \<Longrightarrow> x \<noteq> y \<Longrightarrow> lt x y \<or> lt y x\<rbrakk>
   \<Longrightarrow> sorted_wrt lt xs"
  by (induction xs) (simp, metis distinct.simps(2) list.set_intros(1) list.set_intros(2) sorted_wrt.simps(2))

lemma sort_strict:
  assumes "\<And>x y. x \<in> set xs \<Longrightarrow> y \<in> set xs \<Longrightarrow> x \<noteq> y \<Longrightarrow> lt x y \<or> lt y x" and "distinct xs"
  shows "sorted_wrt lt (SliceStable lt xs)"
proof (rule sorted_strict [OF sort_sorted])
  show "distinct (SliceStable lt xs)" using assms(2) mset_sort by (metis mset_eq_imp_distinct_iff)
qed (use assms(1) set_sort in blast)

text \<open>In a strictly sorted list, what sorts after an element is what follows it.\<close>

lemma filter_after:
  "sorted_wrt lt xs \<Longrightarrow> j < length xs \<Longrightarrow> filter (lt (xs ! j)) xs = drop (Suc j) xs"
proof (induction xs arbitrary: j)
  case (Cons x xs)
  show ?case
  proof (cases j)
    case 0
    with Cons.prems show ?thesis by (simp add: irrefl)
  next
    case (Suc i)
    then have "lt x (xs ! i)" using Cons.prems by simp
    with Cons Suc show ?thesis by (simp add: asym)
  qed
qed simp

text \<open>A strictly sorted list is determined by its elements.\<close>

lemma strict_unique:
  "sorted_wrt lt xs \<Longrightarrow> sorted_wrt lt ys \<Longrightarrow> set xs = set ys \<Longrightarrow> xs = ys"
proof (induction xs arbitrary: ys)
  case (Cons x xs)
  then obtain y ys' where ys: "ys = y # ys'" by (cases ys) auto
  have "x = y"
  proof (rule ccontr)
    assume "x \<noteq> y"
    then have "x \<in> set ys'" "y \<in> set xs" using Cons.prems(3) ys by auto
    then have "lt y x" "lt x y" using Cons.prems(1,2) ys by auto
    then show False using asym by blast
  qed
  moreover have "x \<notin> set xs" "y \<notin> set ys'" using Cons.prems(1,2) ys irrefl by auto
  ultimately have "set xs = set ys'" using Cons.prems(3) ys by auto
  with Cons ys \<open>x = y\<close> show ?case by simp
qed simp

lemma take_insert_by:
  "n \<le> length (filter (\<lambda>x. lt x y) xs) \<Longrightarrow> sorted_wrt lt xs \<Longrightarrow> take n (insert_by lt y xs) = take n xs"
proof (induction xs arbitrary: n)
  case (Cons x xs)
  show ?case
  proof (cases "lt x y")
    case True
    with Cons show ?thesis by (cases n) auto
  next
    case False
    have "filter (\<lambda>z. lt z y) xs = []"
      using False Cons.prems(2) lt_trans by (auto simp: filter_empty_conv)
    with False Cons.prems(1) show ?thesis by simp
  qed
qed simp

text \<open>Sorting and filtering commute.\<close>

lemma insert_by_head: "\<forall>y \<in> set ys. \<not> lt y x \<Longrightarrow> insert_by lt x ys = x # ys"
  by (cases ys) auto

lemma filter_insert_by:
  "sorted_wrt (\<lambda>a b. \<not> lt b a) xs \<Longrightarrow>
   filter P (insert_by lt x xs) = (if P x then insert_by lt x (filter P xs) else filter P xs)"
proof (induction xs)
  case (Cons y ys)
  show ?case
  proof (cases "lt y x")
    case False
    with Cons.prems have "\<forall>z \<in> set (filter P ys). \<not> lt z x" using neg_trans by fastforce
    with False insert_by_head show ?thesis by auto
  qed (use Cons in auto)
qed simp

lemma sort_filter: "filter P (SliceStable lt xs) = SliceStable lt (filter P xs)"
proof (induction xs)
  case (Cons x xs)
  have "SliceStable lt (x # xs) = insert_by lt x (SliceStable lt xs)" by (simp add: SliceStable_def)
  with Cons filter_insert_by [OF sort_sorted, of P x xs] show ?case by (simp add: SliceStable_def)
qed (simp add: SliceStable_def)

end

text \<open>\<open>sort.Strings\<close> compares byte strings lexicographically.\<close>

interpretation name_order: weak_order "(<) :: string \<Rightarrow> string \<Rightarrow> bool"
  by unfold_locales auto

end
