(* ===== verification/Records.thy ===== *)
theory Records
  imports Prelude
begin

text \<open>
  The data of internal/capture/record.go: the three record variants that flow through the
  queue, the redactor and the sinks, and the accessors of the Record interface. A Go map is
  an association list (its order is one possible iteration order), \<open>None\<close> the nil map. A
  nil and an empty byte slice are both the empty string. \<open>int\<close> fields are unbounded
  integers: the program only copies and compares them.
\<close>

record cookie =
  ck_name :: string
  ck_value :: string

record captured_request =
  cr_id :: string
  cr_timestamp :: time
  cr_method :: string
  cr_path :: string
  cr_query :: "hmap option"
  cr_headers :: "hmap option"
  cr_cookies :: "cookie list"
  cr_body :: string
  cr_body_truncated :: bool
  cr_body_original_size :: int
  cr_content_type :: string
  cr_source_ip :: string
  cr_service :: string
  cr_service_source :: string
  cr_correlation_id :: string
  cr_correlation_source :: string

record response_event =
  re_id :: string
  re_timestamp :: time
  re_correlation_id :: string
  re_correlation_source :: string
  re_service :: string
  re_service_source :: string
  re_status :: int
  re_headers :: "hmap option"
  re_body :: string
  re_body_truncated :: bool
  re_body_original_size :: int
  re_content_type :: string
  re_duration_ms :: int

record outbound_request_half =
  oq_method :: string
  oq_path :: string
  oq_headers :: "hmap option"
  oq_body :: string
  oq_body_truncated :: bool
  oq_body_original_size :: int
  oq_content_type :: string

record outbound_response_half =
  or_status :: int
  or_headers :: "hmap option"
  or_body :: string
  or_body_truncated :: bool
  or_body_original_size :: int
  or_content_type :: string

record outbound_event =
  oe_id :: string
  oe_timestamp :: time
  oe_correlation_id :: string
  oe_correlation_source :: string
  oe_service :: string
  oe_service_source :: string
  oe_duration_ms :: int
  oe_request :: outbound_request_half
  oe_response :: "outbound_response_half option"

datatype record_kind = KindRequest | KindResponseEvent | KindOutboundEvent

datatype capture_record =
    Request captured_request
  | Response response_event
  | Outbound outbound_event

primrec Kind :: "capture_record \<Rightarrow> record_kind" where
  "Kind (Request r) = KindRequest"
| "Kind (Response r) = KindResponseEvent"
| "Kind (Outbound r) = KindOutboundEvent"

primrec RecordTimestamp :: "capture_record \<Rightarrow> time" where
  "RecordTimestamp (Request r) = cr_timestamp r"
| "RecordTimestamp (Response r) = re_timestamp r"
| "RecordTimestamp (Outbound r) = oe_timestamp r"

primrec RecordService :: "capture_record \<Rightarrow> string" where
  "RecordService (Request r) = cr_service r"
| "RecordService (Response r) = re_service r"
| "RecordService (Outbound r) = oe_service r"

primrec RecordCorrelationID :: "capture_record \<Rightarrow> string" where
  "RecordCorrelationID (Request r) = cr_correlation_id r"
| "RecordCorrelationID (Response r) = re_correlation_id r"
| "RecordCorrelationID (Outbound r) = oe_correlation_id r"

primrec RecordID :: "capture_record \<Rightarrow> string" where
  "RecordID (Request r) = cr_id r"
| "RecordID (Response r) = re_id r"
| "RecordID (Outbound r) = oe_id r"

text \<open>A nil map reads as an empty one.\<close>

definition entries :: "hmap option \<Rightarrow> hmap" where
  "entries h = (case h of None \<Rightarrow> [] | Some es \<Rightarrow> es)"

definition is_request :: "capture_record \<Rightarrow> bool" where
  "is_request r = (Kind r = KindRequest)"

lemma entries_simps [simp]: "entries None = []" "entries (Some es) = es"
  by (simp_all add: entries_def)

lemma is_request_simps [simp]:
  "is_request (Request r)" "\<not> is_request (Response e)" "\<not> is_request (Outbound v)"
  by (simp_all add: is_request_def)

text \<open>Small concrete records, used to evaluate the model on examples.\<close>

definition sample_request :: "string \<Rightarrow> time \<Rightarrow> string \<Rightarrow> captured_request" where
  "sample_request i t c = \<lparr>cr_id = i, cr_timestamp = t, cr_method = ''GET'', cr_path = ''/'',
     cr_query = Some [], cr_headers = Some [], cr_cookies = [], cr_body = [],
     cr_body_truncated = False, cr_body_original_size = 0, cr_content_type = [],
     cr_source_ip = ''10.0.0.1'', cr_service = ''api'', cr_service_source = ''header'',
     cr_correlation_id = c, cr_correlation_source = ''request_id''\<rparr>"

definition sample_response :: "string \<Rightarrow> time \<Rightarrow> string \<Rightarrow> int \<Rightarrow> response_event" where
  "sample_response i t c st = \<lparr>re_id = i, re_timestamp = t, re_correlation_id = c,
     re_correlation_source = ''explicit'', re_service = ''api'', re_service_source = ''explicit'',
     re_status = st, re_headers = Some [], re_body = [], re_body_truncated = False,
     re_body_original_size = 0, re_content_type = [], re_duration_ms = 1\<rparr>"

definition sample_outbound :: "string \<Rightarrow> time \<Rightarrow> string \<Rightarrow> outbound_event" where
  "sample_outbound i t c = \<lparr>oe_id = i, oe_timestamp = t, oe_correlation_id = c,
     oe_correlation_source = ''explicit'', oe_service = ''api'', oe_service_source = ''explicit'',
     oe_duration_ms = 1,
     oe_request = \<lparr>oq_method = ''GET'', oq_path = ''/x'', oq_headers = Some [], oq_body = [],
       oq_body_truncated = False, oq_body_original_size = 0, oq_content_type = []\<rparr>,
     oe_response = None\<rparr>"

end
