(* ===== verification/Capture.thy ===== *)
theory Capture
  imports Records
begin

text \<open>
  The capture port, internal/capture: the capped body read (bodycap.go), the bounded queue
  (queue.go) and the counters (counters.go), the correlation and service identification
  chains (correlation.go, service.go) and the HTTP handler that ties them together
  (server.go). The queue's contract towards producers and workers is the locale
  \<open>drop_queue\<close>.
\<close>

section \<open>Capped body reads\<close>

text \<open>
  An \<open>io.Reader\<close> delivers its data and then either ends or fails. \<open>ReadAll\<close> returns None on
  the error; a \<open>LimitReader\<close> ends after its limit without looking further.
\<close>

record reader =
  rd_data :: string
  rd_fails :: bool

definition ReadAll :: "reader \<Rightarrow> string option" where
  "ReadAll r = (if rd_fails r then None else Some (rd_data r))"

definition LimitReader :: "reader \<Rightarrow> int \<Rightarrow> reader" where
  "LimitReader r n =
     (if n \<le> 0 then \<lparr>rd_data = [], rd_fails = False\<rparr>
      else if n \<le> int (length (rd_data r)) then \<lparr>rd_data = take (nat n) (rd_data r), rd_fails = False\<rparr>
      else r)"

definition CapBody :: "reader \<Rightarrow> int \<Rightarrow> (string \<times> int \<times> bool) option" where
  "CapBody r capBytes =
     (if capBytes \<le> 0 then
        (case ReadAll r of
           None \<Rightarrow> None
         | Some body \<Rightarrow> Some (body, int (length body), False))
      else
        (case ReadAll (LimitReader r (wrap64 (capBytes + 1))) of
           None \<Rightarrow> None
         | Some body \<Rightarrow>
             if int (length body) \<le> capBytes then Some (body, int (length body), False)
             else Some (take (nat capBytes) body, wrap64 (capBytes + 1), True)))"

section \<open>The bounded queue\<close>

text \<open>
  A buffered channel and the drop counter. \<open>Enqueue\<close> is a select with a default branch: it
  never blocks; on a closed channel the send panics, which is the result None. \<open>receive\<close> is
  one iteration of ranging over the channel: a record, the end of the range, or blocking.
\<close>

record queue =
  q_c :: "capture_record list"
  q_cap :: nat
  q_dropped :: counter
  q_closed :: bool

definition NewQueue :: "int \<Rightarrow> queue" where
  "NewQueue capacity = \<lparr>q_c = [], q_cap = nat (if capacity < 1 then 1 else capacity),
     q_dropped = 0, q_closed = False\<rparr>"

definition Enqueue :: "queue \<Rightarrow> capture_record \<Rightarrow> (queue \<times> bool) option" where
  "Enqueue q r =
     (if q_closed q then None
      else if length (q_c q) < q_cap q then Some (q\<lparr>q_c := q_c q @ [r]\<rparr>, True)
      else Some (q\<lparr>q_dropped := q_dropped q + 1\<rparr>, False))"

datatype received = Item capture_record queue | RangeEnd | Blocked

definition receive :: "queue \<Rightarrow> received" where
  "receive q =
     (case q_c q of
        r # rs \<Rightarrow> Item r (q\<lparr>q_c := rs\<rparr>)
      | [] \<Rightarrow> if q_closed q then RangeEnd else Blocked)"

definition queue_capacity :: "queue \<Rightarrow> nat" where
  "queue_capacity q = q_cap q"

definition queue_len :: "queue \<Rightarrow> nat" where
  "queue_len q = length (q_c q)"

definition DroppedTotal :: "queue \<Rightarrow> counter" where
  "DroppedTotal q = q_dropped q"

definition queue_close :: "queue \<Rightarrow> queue" where
  "queue_close q = q\<lparr>q_closed := True\<rparr>"

section \<open>Counters\<close>

record counters =
  cn_captured :: counter
  cn_withoutService :: counter
  cn_withoutCorrelation :: counter
  cn_bodyReadErrors :: counter

definition NewCounters :: counters where
  "NewCounters = \<lparr>cn_captured = 0, cn_withoutService = 0, cn_withoutCorrelation = 0,
     cn_bodyReadErrors = 0\<rparr>"

definition incCaptured :: "counters \<Rightarrow> counters" where
  "incCaptured c = c\<lparr>cn_captured := cn_captured c + 1\<rparr>"

definition incWithoutService :: "counters \<Rightarrow> counters" where
  "incWithoutService c = c\<lparr>cn_withoutService := cn_withoutService c + 1\<rparr>"

definition incWithoutCorrelation :: "counters \<Rightarrow> counters" where
  "incWithoutCorrelation c = c\<lparr>cn_withoutCorrelation := cn_withoutCorrelation c + 1\<rparr>"

definition incBodyReadError :: "counters \<Rightarrow> counters" where
  "incBodyReadError c = c\<lparr>cn_bodyReadErrors := cn_bodyReadErrors c + 1\<rparr>"

section \<open>Correlation\<close>

definition TraceparentHeader :: string where "TraceparentHeader = ''traceparent''"
definition RequestIDHeader :: string where "RequestIDHeader = ''X-Request-ID''"
definition allZeroTraceID :: string where "allZeroTraceID = replicate 32 (CHR ''0'')"

definition is_lower_hex :: "char \<Rightarrow> bool" where
  "is_lower_hex c = (let n = (of_char c :: nat) in (48 \<le> n \<and> n \<le> 57) \<or> (97 \<le> n \<and> n \<le> 102))"

definition parseTraceparent :: "unicode_map \<Rightarrow> string \<Rightarrow> string option" where
  "parseTraceparent ul s =
     (let parts = split_on (CHR ''-'') s in
      if length parts < 4 then None
      else if parts ! 0 \<noteq> ''00'' then None
      else (let traceID = ToLower ul (parts ! 1) in
            if length traceID \<noteq> 32 then None
            else if \<not> list_all is_lower_hex traceID then None
            else if traceID = allZeroTraceID then None
            else Some traceID))"

text \<open>\<open>IdentifyCorrelation\<close>; the last argument is the UUID \<open>uuid.NewString\<close> would yield.\<close>

definition IdentifyCorrelation :: "unicode_map \<Rightarrow> hmap \<Rightarrow> string \<Rightarrow> string \<times> string" where
  "IdentifyCorrelation ul headers uuid =
     (let tp = TrimSpace (header_get headers TraceparentHeader);
          fallback =
            (let rid = TrimSpace (header_get headers RequestIDHeader) in
             if rid \<noteq> [] then (rid, ''request_id'') else (uuid, ''synthesized''))
      in if tp \<noteq> [] then
           (case parseTraceparent ul tp of
              Some traceID \<Rightarrow> (traceID, ''traceparent'')
            | None \<Rightarrow> fallback)
         else fallback)"

section \<open>Service labels\<close>

definition DefaultServiceHeader :: string where "DefaultServiceHeader = ''X-Httpcatch-Service''"
definition HostHeader :: string where "HostHeader = ''Host''"
definition maxServiceLabelBytes :: nat where "maxServiceLabelBytes = 256"

definition SanitiseServiceLabel :: "unicode_map \<Rightarrow> string \<Rightarrow> string" where
  "SanitiseServiceLabel ul s0 =
     (let s = TrimSpace s0 in
      if s = [] \<or> length s > maxServiceLabelBytes then []
      else if list_ex (\<lambda>r. (of_char r :: nat) < 32 \<or> (of_char r :: nat) = 127) s then []
      else ToLower ul s)"

definition IdentifyService :: "unicode_map \<Rightarrow> hmap \<Rightarrow> string \<Rightarrow> string \<times> string" where
  "IdentifyService ul headers configuredHeader =
     (let name = (if configuredHeader = [] then DefaultServiceHeader else configuredHeader);
          raw = header_get headers name;
          v = (if raw \<noteq> [] then SanitiseServiceLabel ul raw else [])
      in if v \<noteq> [] then (v, ''header'')
         else (let host0 = header_get headers HostHeader;
                   host = (case SplitHostPort host0 of Some (h, _) \<Rightarrow> h | None \<Rightarrow> host0);
                   w = SanitiseServiceLabel ul host
               in if w \<noteq> [] then (w, ''host'') else (''unknown'', ''unknown'')))"

section \<open>The capture handler\<close>

text \<open>
  The parts of \<open>http.Request\<close> the handler reads: \<open>rq_query\<close> and \<open>rq_cookies\<close> are what
  \<open>URL.Query\<close> and \<open>Cookies\<close> parse. The two UUIDs and the clock reading are arguments.
\<close>

record http_request =
  rq_method :: string
  rq_path :: string
  rq_query :: hmap
  rq_header :: hmap
  rq_host :: string
  rq_remote_addr :: string
  rq_cookies :: "(string \<times> string) list"
  rq_body :: reader

record stamp =
  st_uuid :: string
  st_corr_uuid :: string
  st_now :: time

definition buildRecord ::
  "unicode_map \<Rightarrow> stamp \<Rightarrow> http_request \<Rightarrow> string \<Rightarrow> int \<Rightarrow> bool \<Rightarrow> string \<Rightarrow> captured_request" where
  "buildRecord ul st r body originalSize truncated serviceHeader =
     (let cookies = map (\<lambda>(n, v). \<lparr>ck_name = n, ck_value = v\<rparr>) (rq_cookies r);
          sourceIP = (case SplitHostPort (rq_remote_addr r) of
              Some (h, _) \<Rightarrow> h | None \<Rightarrow> rq_remote_addr r);
          headers = (if rq_host r \<noteq> [] then header_set (rq_header r) HostHeader (rq_host r)
                     else rq_header r);
          (service, serviceSource) = IdentifyService ul headers serviceHeader;
          (correlationID, correlationSource) = IdentifyCorrelation ul headers (st_corr_uuid st)
      in \<lparr>cr_id = st_uuid st, cr_timestamp = st_now st, cr_method = rq_method r,
          cr_path = rq_path r, cr_query = Some (rq_query r), cr_headers = Some headers,
          cr_cookies = cookies, cr_body = body, cr_body_truncated = truncated,
          cr_body_original_size = originalSize,
          cr_content_type = header_get (rq_header r) ''Content-Type'',
          cr_source_ip = sourceIP, cr_service = service, cr_service_source = serviceSource,
          cr_correlation_id = correlationID, cr_correlation_source = correlationSource\<rparr>)"

record handler_options =
  ho_service_header :: string
  ho_body_cap :: int

record capture_state =
  cs_queue :: queue
  cs_counters :: counters

text \<open>The handler returns the HTTP status and the new state; None is the panic of a closed queue.\<close>

definition captureHandler ::
  "unicode_map \<Rightarrow> handler_options \<Rightarrow> stamp \<Rightarrow> http_request \<Rightarrow> capture_state \<Rightarrow> (nat \<times> capture_state) option" where
  "captureHandler ul opts st r cs =
     (case CapBody (rq_body r) (ho_body_cap opts) of
        None \<Rightarrow> Some (202, cs\<lparr>cs_counters := incBodyReadError (cs_counters cs)\<rparr>)
      | Some (body, originalSize, truncated) \<Rightarrow>
          (let rec = buildRecord ul st r body originalSize truncated (ho_service_header opts) in
           case Enqueue (cs_queue cs) (Request rec) of
             None \<Rightarrow> None
           | Some (q, accepted) \<Rightarrow>
               (let c0 = cs_counters cs;
                    c1 = (if accepted then incCaptured c0 else c0);
                    c2 = (if accepted \<and> cr_service_source rec = ''unknown''
                          then incWithoutService c1 else c1);
                    c3 = (if accepted \<and> cr_correlation_source rec = ''synthesized''
                          then incWithoutCorrelation c2 else c2)
                in Some (202, cs\<lparr>cs_queue := q, cs_counters := c3\<rparr>))))"


section \<open>The contract of the queue\<close>

text \<open>
  What producers and workers rely on: an open queue takes a record when there is room and
  refuses it otherwise, without blocking; records leave in the order they entered. The run
  of any interleaving of producers and workers is \<open>run_queue\<close>; it collects the accepted,
  the refused and the delivered records.
\<close>

datatype 'a qop = Put 'a | Take

fun run_queue ::
  "('q \<Rightarrow> 'a \<Rightarrow> ('q \<times> bool) option) \<Rightarrow> ('q \<Rightarrow> ('a \<times> 'q) option) \<Rightarrow> 'a qop list \<Rightarrow> 'q
   \<Rightarrow> 'q \<times> 'a list \<times> 'a list \<times> 'a list" where
  "run_queue enq pop [] q = (q, [], [], [])"
| "run_queue enq pop (Put x # ops) q =
     (case enq q x of
        None \<Rightarrow> run_queue enq pop ops q
      | Some (q', ok) \<Rightarrow>
          (let (q'', acc, ref, del) = run_queue enq pop ops q' in
           if ok then (q'', x # acc, ref, del) else (q'', acc, x # ref, del)))"
| "run_queue enq pop (Take # ops) q =
     (case pop q of
        None \<Rightarrow> run_queue enq pop ops q
      | Some (x, q') \<Rightarrow>
          (let (q'', acc, ref, del) = run_queue enq pop ops q' in (q'', acc, ref, x # del)))"

definition queue_pop :: "queue \<Rightarrow> (capture_record \<times> queue) option" where
  "queue_pop q = (case receive q of Item r q' \<Rightarrow> Some (r, q') | _ \<Rightarrow> None)"

locale drop_queue =
  fixes enq :: "'q \<Rightarrow> 'a \<Rightarrow> ('q \<times> bool) option"
    and pop :: "'q \<Rightarrow> ('a \<times> 'q) option"
    and held :: "'q \<Rightarrow> 'a list"
    and limit :: "'q \<Rightarrow> nat"
    and drops :: "'q \<Rightarrow> counter"
    and accepting :: "'q \<Rightarrow> bool"
  assumes enq_room: "accepting q \<Longrightarrow> length (held q) < limit q \<Longrightarrow>
      \<exists>q'. enq q x = Some (q', True) \<and> held q' = held q @ [x] \<and> drops q' = drops q \<and>
        limit q' = limit q \<and> accepting q'"
    and enq_full: "accepting q \<Longrightarrow> \<not> length (held q) < limit q \<Longrightarrow>
      \<exists>q'. enq q x = Some (q', False) \<and> held q' = held q \<and> drops q' = drops q + 1 \<and>
        limit q' = limit q \<and> accepting q'"
    and pop_empty: "held q = [] \<Longrightarrow> pop q = None"
    and pop_first: "held q = x # xs \<Longrightarrow>
      \<exists>q'. pop q = Some (x, q') \<and> held q' = xs \<and> drops q' = drops q \<and>
        limit q' = limit q \<and> accepting q' = accepting q"
begin

lemma run_conserves:
  "accepting q \<Longrightarrow> run_queue enq pop ops q = (q', acc, ref, del) \<Longrightarrow>
   held q @ acc = del @ held q' \<and> drops q' = drops q + of_nat (length ref) \<and>
   length acc + length ref = length (filter (\<lambda>p. p \<noteq> Take) ops) \<and>
   (length (held q) \<le> limit q \<longrightarrow> length (held q') \<le> limit q) \<and> limit q' = limit q"
proof (induction ops arbitrary: q acc ref del)
  case (Cons p ops)
  show ?case
  proof (cases p)
    case (Put x)
    obtain q1 acc1 ref1 del1 where run: "run_queue enq pop ops (fst (the (enq q x))) = (q1, acc1, ref1, del1)"
      by (rule prod_cases4)
    show ?thesis
    proof (cases "length (held q) < limit q")
      case True
      with Cons.prems(1) obtain q0 where "enq q x = Some (q0, True)" "held q0 = held q @ [x]"
        "drops q0 = drops q" "limit q0 = limit q" "accepting q0" using enq_room by blast
      with Cons Put run True show ?thesis by fastforce
    next
      case False
      with Cons.prems(1) obtain q0 where "enq q x = Some (q0, False)" "held q0 = held q"
        "drops q0 = drops q + 1" "limit q0 = limit q" "accepting q0" using enq_full by blast
      with Cons Put run show ?thesis by (fastforce simp: algebra_simps)
    qed
  next
    case Take
    show ?thesis
    proof (cases "held q")
      case Nil
      with Cons.prems Cons.IH [of q acc ref del] Take pop_empty show ?thesis by fastforce
    next
      case (Cons x xs)
      then obtain q0 where "pop q = Some (x, q0)" "held q0 = xs" "drops q0 = drops q"
        "limit q0 = limit q" "accepting q0 = accepting q" using pop_first by blast
      moreover obtain q1 acc1 ref1 del1 where "run_queue enq pop ops q0 = (q1, acc1, ref1, del1)"
        by (rule prod_cases4)
      ultimately show ?thesis using Cons.prems Cons.IH [of q0] Take Cons by fastforce
    qed
  qed
qed simp

end

lemma Enqueue_cases:
  "\<not> q_closed q \<Longrightarrow> length (q_c q) < q_cap q \<Longrightarrow> Enqueue q r = Some (q\<lparr>q_c := q_c q @ [r]\<rparr>, True)"
  "\<not> q_closed q \<Longrightarrow> \<not> length (q_c q) < q_cap q \<Longrightarrow> Enqueue q r = Some (q\<lparr>q_dropped := q_dropped q + 1\<rparr>, False)"
  "q_closed q \<Longrightarrow> Enqueue q r = None"
  by (simp_all add: Enqueue_def)

interpretation chan: drop_queue Enqueue queue_pop q_c q_cap q_dropped "\<lambda>q. \<not> q_closed q"
  by unfold_locales (auto simp: Enqueue_def queue_pop_def receive_def)


section \<open>The handler over all interleavings with the workers\<close>

text \<open>
  Requests arrive and workers take records in any order. The run collects the records
  taken and the status codes sent.
\<close>

datatype capture_event = Arrive stamp http_request | TakeOne

fun capture_run ::
  "unicode_map \<Rightarrow> handler_options \<Rightarrow> capture_event list \<Rightarrow> capture_state \<times> capture_record list \<times> nat list
   \<Rightarrow> (capture_state \<times> capture_record list \<times> nat list) option" where
  "capture_run ul opts [] st = Some st"
| "capture_run ul opts (Arrive sp r # es) (cs, taken, codes) =
     (case captureHandler ul opts sp r cs of
        None \<Rightarrow> None
      | Some (code, cs') \<Rightarrow> capture_run ul opts es (cs', taken, codes @ [code]))"
| "capture_run ul opts (TakeOne # es) (cs, taken, codes) =
     (case queue_pop (cs_queue cs) of
        None \<Rightarrow> capture_run ul opts es (cs, taken, codes)
      | Some (r, q) \<Rightarrow> capture_run ul opts es (cs\<lparr>cs_queue := q\<rparr>, taken @ [r], codes))"

definition arrivals :: "capture_event list \<Rightarrow> nat" where
  "arrivals es = length (filter (\<lambda>e. e \<noteq> TakeOne) es)"

fun service_unknown :: "capture_record \<Rightarrow> bool" where
  "service_unknown (Request r) = (cr_service_source r = ''unknown'')"
| "service_unknown r = False"

fun correlation_synthesized :: "capture_record \<Rightarrow> bool" where
  "correlation_synthesized (Request r) = (cr_correlation_source r = ''synthesized'')"
| "correlation_synthesized r = False"

definition capture_inv :: "capture_state \<Rightarrow> capture_record list \<Rightarrow> nat list \<Rightarrow> nat \<Rightarrow> bool" where
  "capture_inv cs taken codes n \<longleftrightarrow>
     (let q = cs_queue cs; c = cs_counters cs; acc = taken @ q_c q in
      \<not> q_closed q \<and> length (q_c q) \<le> q_cap q \<and> codes = replicate n 202 \<and>
      cn_captured c = of_nat (length acc) \<and>
      cn_withoutService c = of_nat (length (filter service_unknown acc)) \<and>
      cn_withoutCorrelation c = of_nat (length (filter correlation_synthesized acc)) \<and>
      of_nat (length acc) + q_dropped q + cn_bodyReadErrors c = of_nat n)"

lemmas count_defs = incCaptured_def incWithoutService_def incWithoutCorrelation_def incBodyReadError_def

lemma captureHandler_inv:
  assumes "capture_inv cs taken codes n"
  shows "\<exists>cs'. captureHandler ul opts sp r cs = Some (202, cs') \<and>
     capture_inv cs' taken (codes @ [202]) (Suc n)"
proof (cases "CapBody (rq_body r) (ho_body_cap opts)")
  case None
  with assms show ?thesis
    by (simp add: captureHandler_def capture_inv_def Let_def count_defs replicate_append_same algebra_simps)
next
  case (Some b)
  obtain body sz tr where b: "b = (body, sz, tr)" by (cases b)
  let ?rec = "buildRecord ul sp r body sz tr (ho_service_header opts)"
  show ?thesis
  proof (cases "length (q_c (cs_queue cs)) < q_cap (cs_queue cs)")
    case True
    with assms Some b show ?thesis
      by (simp add: captureHandler_def capture_inv_def Let_def count_defs Enqueue_cases
            replicate_append_same algebra_simps)
  next
    case False
    with assms Some b show ?thesis
      by (clarsimp simp add: captureHandler_def capture_inv_def Let_def count_defs Enqueue_cases
            replicate_append_same algebra_simps)
  qed
qed

lemma queue_pop_inv:
  "capture_inv cs taken codes n \<Longrightarrow> queue_pop (cs_queue cs) = Some (r, q) \<Longrightarrow>
   capture_inv (cs\<lparr>cs_queue := q\<rparr>) (taken @ [r]) codes n"
  by (auto simp: capture_inv_def queue_pop_def receive_def Let_def algebra_simps split: list.splits if_splits)

lemma capture_run_inv:
  "capture_inv cs taken codes n \<Longrightarrow>
   \<exists>cs' taken' codes'. capture_run ul opts es (cs, taken, codes) = Some (cs', taken', codes') \<and>
     capture_inv cs' taken' codes' (n + arrivals es)"
proof (induction es arbitrary: cs taken codes n)
  case Nil
  then show ?case by (simp add: arrivals_def)
next
  case (Cons e es)
  show ?case
  proof (cases e)
    case (Arrive sp r)
    obtain cs1 where "captureHandler ul opts sp r cs = Some (202, cs1)"
      and inv: "capture_inv cs1 taken (codes @ [202]) (Suc n)"
      using captureHandler_inv [OF Cons.prems] by blast
    with Cons.IH [OF inv] Arrive show ?thesis by (simp add: arrivals_def)
  next
    case TakeOne
    show ?thesis
    proof (cases "queue_pop (cs_queue cs)")
      case None
      with Cons.IH [OF Cons.prems] TakeOne show ?thesis by (simp add: arrivals_def)
    next
      case (Some p)
      obtain r q where p: "p = (r, q)" by (cases p)
      have inv: "capture_inv (cs\<lparr>cs_queue := q\<rparr>) (taken @ [r]) codes n"
        using queue_pop_inv [OF Cons.prems] Some p by blast
      show ?thesis using Cons.IH [OF inv] TakeOne Some p by (simp add: arrivals_def)
    qed
  qed
qed

definition capture_start :: "int \<Rightarrow> capture_state" where
  "capture_start n = \<lparr>cs_queue = NewQueue n, cs_counters = NewCounters\<rparr>"

lemma capture_inv_start: "capture_inv (capture_start n) [] [] 0"
  by (simp add: capture_inv_def capture_start_def NewQueue_def NewCounters_def Let_def)

section \<open>Facts about the identification chains\<close>

lemma parseTraceparent_Some:
  "parseTraceparent ul s = Some t \<Longrightarrow> length t = 32 \<and> list_all is_lower_hex t \<and> t \<noteq> allZeroTraceID"
  by (auto simp: parseTraceparent_def Let_def split: if_splits)

lemma lower_not_upper: "c \<in> set (map ascii_lower s) \<Longrightarrow> \<not> (65 \<le> (of_char c :: nat) \<and> (of_char c :: nat) \<le> 90)"
  by (auto simp: ascii_lower_code split: if_splits)

lemma is_ascii_TrimSpace: "is_ascii s \<Longrightarrow> is_ascii (TrimSpace s)"
  using TrimSpace_sublist [of s] by (auto simp: is_ascii_def list_all_iff dest: set_mono_sublist)

lemma lower_control: "(of_char (ascii_lower c) :: nat) < 32 \<or> (of_char (ascii_lower c) :: nat) = 127
   \<longleftrightarrow> (of_char c :: nat) < 32 \<or> (of_char c :: nat) = 127"
  by (auto simp: ascii_lower_code)

lemma Sanitise_chars:
  assumes "is_ascii s" and "c \<in> set (SanitiseServiceLabel ul s)"
  shows "32 \<le> (of_char c :: nat) \<and> (of_char c :: nat) < 127 \<and> \<not> (65 \<le> (of_char c :: nat) \<and> (of_char c :: nat) \<le> 90)"
proof -
  have asc: "is_ascii (TrimSpace s)" using assms(1) by (rule is_ascii_TrimSpace)
  then obtain d where d: "d \<in> set (TrimSpace s)" "c = ascii_lower d"
      "\<not> ((of_char d :: nat) < 32 \<or> (of_char d :: nat) = 127)"
    using assms(2) by (auto simp: SanitiseServiceLabel_def Let_def ToLower_ascii list_ex_iff split: if_splits)
  moreover have "(of_char d :: nat) < 128" using asc d(1) by (auto simp: is_ascii_def list_all_iff)
  ultimately show ?thesis by (auto simp: ascii_lower_code)
qed

lemma Sanitise_length: "is_ascii s \<Longrightarrow> length (SanitiseServiceLabel ul s) \<le> 256"
  using is_ascii_TrimSpace [of s]
  by (auto simp: SanitiseServiceLabel_def Let_def ToLower_ascii maxServiceLabelBytes_def)

lemma Sanitise_idem: "is_ascii s \<Longrightarrow>
   SanitiseServiceLabel ul (SanitiseServiceLabel ul s) = SanitiseServiceLabel ul s"
  using is_ascii_TrimSpace [of s]
  by (auto simp: SanitiseServiceLabel_def Let_def ToLower_ascii TrimSpace_map_lower list_ex_iff lower_control o_def)


section \<open>Properties of the capture port\<close>

text \<open>
  Capped reads. Within the range of int, a positive cap keeps exactly the first
  \<open>capBytes\<close> bytes: a longer body is cut there, flagged as truncated and reported with the
  sentinel size \<open>capBytes + 1\<close> (even when the stream would fail later), a shorter one is
  kept whole with its exact size, and a read error before the cap is an error.
\<close>

theorem CapBody_exact:
  assumes "0 < capBytes" and "capBytes < 2 ^ 63 - 1"
  shows "CapBody r capBytes =
    (if capBytes < int (length (rd_data r))
     then Some (take (nat capBytes) (rd_data r), capBytes + 1, True)
     else if rd_fails r then None
     else Some (rd_data r, int (length (rd_data r)), False))"
proof -
  have "wrap64 (capBytes + 1) = capBytes + 1" using assms by (intro wrap64_id) (simp add: in_int64_def)
  with assms show ?thesis
    by (auto simp: CapBody_def ReadAll_def LimitReader_def min_def nat_le_iff)
qed

theorem CapBody_exact_witness:
  "CapBody \<lparr>rd_data = ''abcdef'', rd_fails = True\<rparr> 4 = Some (''abcd'', 5, True)"
  by (subst CapBody_exact) simp_all

text \<open>
  The cap overflows at the largest int: with \<open>body_cap\<close> set to 9223372036854775807 the
  limit \<open>capBytes + 1\<close> wraps to a negative number, nothing is read, and every request is
  recorded with an empty body that is not marked as truncated.
\<close>

lemma CapBody_overflow: "CapBody r (2 ^ 63 - 1) = Some ([], 0, False)"
  by (simp add: CapBody_def ReadAll_def LimitReader_def wrap64_def)


text \<open>
  C2. The capture port always answers 202 and accounts for every request. Starting from an
  empty queue, over every interleaving of arriving requests with workers taking records, the
  handler never fails; captured, dropped and body-read-error counts add up to the requests
  received; captured counts the records accepted; and the without-service and
  without-correlation counters count exactly the accepted records of that class, so they
  never exceed the captured population.
\<close>

theorem capture_port_accounts:
  "\<exists>cs taken. capture_run ul opts es (capture_start n, [], [])
       = Some (cs, taken, replicate (arrivals es) 202) \<and>
     (let acc = taken @ q_c (cs_queue cs); c = cs_counters cs in
      cn_captured c = of_nat (length acc) \<and>
      cn_withoutService c = of_nat (length (filter service_unknown acc)) \<and>
      cn_withoutCorrelation c = of_nat (length (filter correlation_synthesized acc)) \<and>
      cn_captured c + DroppedTotal (cs_queue cs) + cn_bodyReadErrors c = of_nat (arrivals es))"
  using capture_run_inv [OF capture_inv_start, of ul opts es n]
  by (auto simp: capture_inv_def Let_def DroppedTotal_def)

text \<open>
  Correlation precedence. The id is the trace id of a well-formed \<open>traceparent\<close> (32
  lower-case hex digits, not all zero), else the trimmed \<open>X-Request-ID\<close>, else the fresh
  UUID; a malformed \<open>traceparent\<close> behaves as an absent one, and the source names the branch
  taken.
\<close>

lemma IdentifyCorrelation_precedence:
  "IdentifyCorrelation ul h uuid =
     (case parseTraceparent ul (TrimSpace (header_get h TraceparentHeader)) of
        Some t \<Rightarrow> (t, ''traceparent'')
      | None \<Rightarrow> if TrimSpace (header_get h RequestIDHeader) \<noteq> []
          then (TrimSpace (header_get h RequestIDHeader), ''request_id'') else (uuid, ''synthesized'')) \<and>
   (snd (IdentifyCorrelation ul h uuid) = ''traceparent'' \<longrightarrow>
      (let t = fst (IdentifyCorrelation ul h uuid) in
       length t = 32 \<and> list_all is_lower_hex t \<and> t \<noteq> allZeroTraceID))"
proof -
  have "parseTraceparent ul [] = None" by (simp add: parseTraceparent_def)
  then have eq: "IdentifyCorrelation ul h uuid =
     (case parseTraceparent ul (TrimSpace (header_get h TraceparentHeader)) of
        Some t \<Rightarrow> (t, ''traceparent'')
      | None \<Rightarrow> if TrimSpace (header_get h RequestIDHeader) \<noteq> []
          then (TrimSpace (header_get h RequestIDHeader), ''request_id'') else (uuid, ''synthesized''))"
    by (auto simp: IdentifyCorrelation_def Let_def split: option.splits)
  then show ?thesis
    by (auto dest: parseTraceparent_Some split: option.splits if_splits)
qed

definition sample_traceparent :: hmap where
  "sample_traceparent = [(''Traceparent'', [''00-4BF92f3577b34da6a3ce929d0e0e4736-00f067aa0ba902b7-01''])]"

text \<open>
  A service label resolved from an ASCII value is canonical: sanitising it again changes
  nothing, and a non-empty result has at most 256 bytes, no control character and no
  upper-case letter.
\<close>

lemma SanitiseServiceLabel_canonical:
  assumes "is_ascii s"
  shows "SanitiseServiceLabel ul (SanitiseServiceLabel ul s) = SanitiseServiceLabel ul s \<and>
    length (SanitiseServiceLabel ul s) \<le> 256 \<and>
    list_all (\<lambda>c. 32 \<le> (of_char c :: nat) \<and> (of_char c :: nat) < 127 \<and>
      \<not> (65 \<le> (of_char c :: nat) \<and> (of_char c :: nat) \<le> 90)) (SanitiseServiceLabel ul s)"
  using Sanitise_idem Sanitise_length Sanitise_chars assms by (simp add: list_all_iff)

end
