(* ===== verification/Pipeline.thy ===== *)
theory Pipeline
  imports Capture
begin

text \<open>
  The worker pool of internal/pipeline/worker.go with the error counters of
  internal/pipeline/sink_error_counters.go. \<open>process\<close> is one record's path through the
  redactor and the sinks; \<open>worker_step\<close> and \<open>env_step\<close> interleave the workers of a pool
  with the capture port that fills and finally closes the queue, one sink write at a time (a
  sink serialises its own writes). What a sink answers is left open: any write may succeed,
  fail or panic. The lemmas show that no accepted record is lost, that every record reaches
  every sink once, and that closing the queue drains it.
\<close>

section \<open>Sink error counters\<close>

record sink_error_counters =
  se_memory :: counter
  se_sqlite :: counter
  se_stdout :: counter

definition NewSinkErrorCounters :: sink_error_counters where
  "NewSinkErrorCounters = \<lparr>se_memory = 0, se_sqlite = 0, se_stdout = 0\<rparr>"

definition IncBySinkName :: "string \<Rightarrow> sink_error_counters \<Rightarrow> sink_error_counters" where
  "IncBySinkName nm c =
     (if nm = ''memory'' then c\<lparr>se_memory := se_memory c + 1\<rparr>
      else if nm = ''sqlite'' then c\<lparr>se_sqlite := se_sqlite c + 1\<rparr>
      else if nm = ''stdout'' then c\<lparr>se_stdout := se_stdout c + 1\<rparr>
      else c)"

section \<open>The pool\<close>

text \<open>A sink is its name; a nil counter object is \<open>None\<close>. Logging and timing are left out.\<close>

record worker_pool =
  wp_size :: nat
  wp_queue :: queue
  wp_sinks :: "string list"
  wp_panics :: counter
  wp_errors :: "sink_error_counters option"

definition NewWorkerPool :: "int \<Rightarrow> queue \<Rightarrow> string list \<Rightarrow> sink_error_counters option \<Rightarrow> worker_pool" where
  "NewWorkerPool sz q ss ec =
     \<lparr>wp_size = nat (if sz < 1 then 1 else sz), wp_queue = q, wp_sinks = ss, wp_panics = 0, wp_errors = ec\<rparr>"

datatype write_result = WriteOk | WriteErr | WritePanic

definition count_error :: "string \<Rightarrow> worker_pool \<Rightarrow> worker_pool" where
  "count_error nm p = p\<lparr>wp_errors := map_option (IncBySinkName nm) (wp_errors p)\<rparr>"

definition recover_panic :: "worker_pool \<Rightarrow> worker_pool" where
  "recover_panic p = p\<lparr>wp_panics := wp_panics p + 1\<rparr>"

text \<open>The sink loop; the second component lists the sinks the record was handed to.\<close>

fun write_loop :: "(string \<Rightarrow> write_result) \<Rightarrow> string list \<Rightarrow> worker_pool \<Rightarrow> worker_pool \<times> string list" where
  "write_loop out [] p = (p, [])"
| "write_loop out (s # ss) p =
     (case out s of
        WriteOk \<Rightarrow> (let (p', ws) = write_loop out ss p in (p', s # ws))
      | WriteErr \<Rightarrow> (let (p', ws) = write_loop out ss (count_error s p) in (p', s # ws))
      | WritePanic \<Rightarrow> (recover_panic p, [s]))"

text \<open>\<open>redact\<close> is the redactor, \<open>None\<close> a panic in it; \<open>out\<close> is what each sink answers.\<close>

definition process ::
  "(capture_record \<Rightarrow> capture_record option) \<Rightarrow> (string \<Rightarrow> write_result) \<Rightarrow> worker_pool \<Rightarrow> capture_record
   \<Rightarrow> worker_pool \<times> string list" where
  "process redact out p rec =
     (case redact rec of
        None \<Rightarrow> (recover_panic p, [])
      | Some red \<Rightarrow> write_loop out (wp_sinks p) p)"

section \<open>Interleaved execution\<close>

text \<open>
  A worker between two atomic actions. A writing worker carries the sinks already written and
  those left. The trace records what happened.
\<close>

datatype worker =
    Idle
  | Taken capture_record
  | Writing capture_record "string list" "string list"
  | Done

datatype pool_event =
    Accepted capture_record
  | Received capture_record
  | Wrote string capture_record write_result
  | Panicked "(capture_record \<times> string list) option"
  | Finished capture_record

record pool_state =
  ps_pool :: worker_pool
  ps_workers :: "worker list"
  ps_trace :: "pool_event list"

definition Start :: "worker_pool \<Rightarrow> pool_state" where
  "Start p = \<lparr>ps_pool = p, ps_workers = replicate (wp_size p) Idle, ps_trace = []\<rparr>"

definition set_worker :: "nat \<Rightarrow> worker \<Rightarrow> pool_event list \<Rightarrow> worker_pool \<Rightarrow> pool_state \<Rightarrow> pool_state" where
  "set_worker i w evs p st =
     st\<lparr>ps_pool := p, ps_workers := (ps_workers st)[i := w], ps_trace := ps_trace st @ evs\<rparr>"

inductive worker_step :: "(capture_record \<Rightarrow> capture_record option) \<Rightarrow> pool_state \<Rightarrow> pool_state \<Rightarrow> bool"
  for redact :: "capture_record \<Rightarrow> capture_record option" where
  take_record: "\<lbrakk>i < length (ps_workers st); ps_workers st ! i = Idle;
      receive (wp_queue (ps_pool st)) = Item rec q\<rbrakk>
    \<Longrightarrow> worker_step redact st
      (set_worker i (Taken rec) [Received rec] ((ps_pool st)\<lparr>wp_queue := q\<rparr>) st)"
| redact_ok: "\<lbrakk>i < length (ps_workers st); ps_workers st ! i = Taken rec; redact rec = Some red\<rbrakk>
    \<Longrightarrow> worker_step redact st
      (set_worker i (Writing red [] (wp_sinks (ps_pool st))) [] (ps_pool st) st)"
| redact_panic: "\<lbrakk>i < length (ps_workers st); ps_workers st ! i = Taken rec; redact rec = None\<rbrakk>
    \<Longrightarrow> worker_step redact st
      (set_worker i Idle [Panicked None] (recover_panic (ps_pool st)) st)"
| write_ok: "\<lbrakk>i < length (ps_workers st); ps_workers st ! i = Writing red ws (s # ss)\<rbrakk>
    \<Longrightarrow> worker_step redact st
      (set_worker i (Writing red (ws @ [s]) ss) [Wrote s red WriteOk] (ps_pool st) st)"
| write_err: "\<lbrakk>i < length (ps_workers st); ps_workers st ! i = Writing red ws (s # ss)\<rbrakk>
    \<Longrightarrow> worker_step redact st
      (set_worker i (Writing red (ws @ [s]) ss) [Wrote s red WriteErr] (count_error s (ps_pool st)) st)"
| write_panic: "\<lbrakk>i < length (ps_workers st); ps_workers st ! i = Writing red ws (s # ss)\<rbrakk>
    \<Longrightarrow> worker_step redact st
      (set_worker i Idle [Wrote s red WritePanic, Panicked (Some (red, ws @ [s]))] (recover_panic (ps_pool st)) st)"
| finish: "\<lbrakk>i < length (ps_workers st); ps_workers st ! i = Writing red ws []\<rbrakk>
    \<Longrightarrow> worker_step redact st (set_worker i Idle [Finished red] (ps_pool st) st)"
| range_end: "\<lbrakk>i < length (ps_workers st); ps_workers st ! i = Idle;
      receive (wp_queue (ps_pool st)) = RangeEnd\<rbrakk>
    \<Longrightarrow> worker_step redact st (set_worker i Done [] (ps_pool st) st)"

text \<open>The capture port enqueues and, at shutdown, closes the queue once.\<close>

inductive env_step :: "pool_state \<Rightarrow> pool_state \<Rightarrow> bool" where
  enqueue: "Enqueue (wp_queue (ps_pool st)) rec = Some (q, ok)
    \<Longrightarrow> env_step st (st\<lparr>ps_pool := (ps_pool st)\<lparr>wp_queue := q\<rparr>,
          ps_trace := ps_trace st @ (if ok then [Accepted rec] else [])\<rparr>)"
| close: "\<not> q_closed (wp_queue (ps_pool st))
    \<Longrightarrow> env_step st (st\<lparr>ps_pool := (ps_pool st)\<lparr>wp_queue := queue_close (wp_queue (ps_pool st))\<rparr>\<rparr>)"

inductive pool_reaches :: "(capture_record \<Rightarrow> capture_record option) \<Rightarrow> pool_state \<Rightarrow> pool_state \<Rightarrow> bool"
  for redact :: "capture_record \<Rightarrow> capture_record option" where
  here: "pool_reaches redact st st"
| worker: "\<lbrakk>pool_reaches redact st st'; worker_step redact st' st''\<rbrakk> \<Longrightarrow> pool_reaches redact st st''"
| env: "\<lbrakk>pool_reaches redact st st'; env_step st' st''\<rbrakk> \<Longrightarrow> pool_reaches redact st st''"

section \<open>Counting in a trace\<close>

definition accepted :: "pool_event list \<Rightarrow> capture_record list" where
  "accepted tr = List.map_filter (\<lambda>e. case e of Accepted r \<Rightarrow> Some r | _ \<Rightarrow> None) tr"

definition received_of :: "pool_event list \<Rightarrow> capture_record list" where
  "received_of tr = List.map_filter (\<lambda>e. case e of Received r \<Rightarrow> Some r | _ \<Rightarrow> None) tr"

definition finished_of :: "pool_event list \<Rightarrow> capture_record list" where
  "finished_of tr = List.map_filter (\<lambda>e. case e of Finished r \<Rightarrow> Some r | _ \<Rightarrow> None) tr"

definition panics_of :: "pool_event list \<Rightarrow> (capture_record \<times> string list) option list" where
  "panics_of tr = List.map_filter (\<lambda>e. case e of Panicked x \<Rightarrow> Some x | _ \<Rightarrow> None) tr"

definition writes_of :: "string \<Rightarrow> capture_record \<Rightarrow> pool_event list \<Rightarrow> nat" where
  "writes_of s r tr = length (filter (\<lambda>e. case e of Wrote s' r' _ \<Rightarrow> s' = s \<and> r' = r | _ \<Rightarrow> False) tr)"

definition failures_of :: "string \<Rightarrow> pool_event list \<Rightarrow> nat" where
  "failures_of s tr = length (filter (\<lambda>e. case e of Wrote s' _ w \<Rightarrow> s' = s \<and> w = WriteErr | _ \<Rightarrow> False) tr)"

text \<open>The writes of a record that a panic cut short.\<close>

definition cut_writes :: "string \<Rightarrow> capture_record \<Rightarrow> pool_event list \<Rightarrow> nat" where
  "cut_writes s r tr = sum_list (map (\<lambda>x. case x of Some (r', ws) \<Rightarrow> if r' = r then count_list ws s else 0 | None \<Rightarrow> 0) (panics_of tr))"

definition in_flight :: "string \<Rightarrow> capture_record \<Rightarrow> worker \<Rightarrow> nat" where
  "in_flight s r w = (case w of Writing r' ws _ \<Rightarrow> if r' = r then count_list ws s else 0 | _ \<Rightarrow> 0)"

definition busy :: "worker \<Rightarrow> nat" where
  "busy w = (case w of Taken _ \<Rightarrow> 1 | Writing _ _ _ \<Rightarrow> 1 | _ \<Rightarrow> 0)"

lemmas trace_counts = accepted_def received_of_def finished_of_def panics_of_def writes_of_def failures_of_def
  cut_writes_def map_filter_simps

lemma trace_append [simp]:
  "accepted (xs @ ys) = accepted xs @ accepted ys" "received_of (xs @ ys) = received_of xs @ received_of ys"
  "finished_of (xs @ ys) = finished_of xs @ finished_of ys" "panics_of (xs @ ys) = panics_of xs @ panics_of ys"
  "writes_of s r (xs @ ys) = writes_of s r xs + writes_of s r ys"
  "failures_of s (xs @ ys) = failures_of s xs + failures_of s ys"
  "cut_writes s r (xs @ ys) = cut_writes s r xs + cut_writes s r ys"
  by (simp_all add: trace_counts)

lemma sum_list_replace:
  fixes g :: "'a \<Rightarrow> nat"
  shows "i < length xs \<Longrightarrow> sum_list (map g (xs[i := x])) + g (xs ! i) = sum_list (map g xs) + g x"
  by (induction xs arbitrary: i) (auto split: nat.split)

lemma count_list_append [simp]: "count_list (xs @ ys) s = count_list xs s + count_list ys s"
  by (induction xs) auto

lemma set_worker_fields [simp]:
  "ps_pool (set_worker i w evs p st) = p" "ps_workers (set_worker i w evs p st) = (ps_workers st)[i := w]"
  "ps_trace (set_worker i w evs p st) = ps_trace st @ evs"
  by (simp_all add: set_worker_def)

lemma pool_fields [simp]:
  "wp_queue (count_error s p) = wp_queue p" "wp_queue (recover_panic p) = wp_queue p"
  "wp_sinks (count_error s p) = wp_sinks p" "wp_sinks (recover_panic p) = wp_sinks p"
  "wp_panics (count_error s p) = wp_panics p" "wp_panics (recover_panic p) = wp_panics p + 1"
  "wp_errors (recover_panic p) = wp_errors p"
  by (simp_all add: count_error_def recover_panic_def)

section \<open>The invariant of the pool\<close>

definition flow_inv :: "pool_state \<Rightarrow> bool" where
  "flow_inv st \<longleftrightarrow>
     accepted (ps_trace st) = received_of (ps_trace st) @ q_c (wp_queue (ps_pool st)) \<and>
     length (received_of (ps_trace st)) =
       length (finished_of (ps_trace st)) + length (panics_of (ps_trace st)) + sum_list (map busy (ps_workers st)) \<and>
     wp_panics (ps_pool st) = of_nat (length (panics_of (ps_trace st))) \<and>
     (Done \<in> set (ps_workers st) \<longrightarrow> q_closed (wp_queue (ps_pool st)) \<and> q_c (wp_queue (ps_pool st)) = [])"

definition write_inv :: "string list \<Rightarrow> pool_state \<Rightarrow> bool" where
  "write_inv sinks st \<longleftrightarrow> wp_sinks (ps_pool st) = sinks \<and>
     (\<forall>r ws rest. Writing r ws rest \<in> set (ps_workers st) \<longrightarrow> ws @ rest = sinks) \<and>
     (\<forall>s r. writes_of s r (ps_trace st) = count_list (finished_of (ps_trace st)) r * count_list sinks s +
        cut_writes s r (ps_trace st) + sum_list (map (in_flight s r) (ps_workers st)))"

definition error_inv :: "pool_state \<Rightarrow> bool" where
  "error_inv st \<longleftrightarrow> (case wp_errors (ps_pool st) of None \<Rightarrow> True
     | Some c \<Rightarrow> se_memory c = of_nat (failures_of ''memory'' (ps_trace st)) \<and>
         se_sqlite c = of_nat (failures_of ''sqlite'' (ps_trace st)) \<and>
         se_stdout c = of_nat (failures_of ''stdout'' (ps_trace st)))"

lemma receive_Item: "receive q = Item r q' \<longleftrightarrow> (\<exists>rs. q_c q = r # rs \<and> q' = q\<lparr>q_c := rs\<rparr>)"
  by (auto simp: receive_def split: list.splits if_splits)

lemma receive_RangeEnd: "receive q = RangeEnd \<longleftrightarrow> q_c q = [] \<and> q_closed q"
  by (auto simp: receive_def split: list.splits)

lemma set_update_subset: "i < length xs \<Longrightarrow> y \<in> set (xs[i := x]) \<Longrightarrow> y = x \<or> y \<in> set xs"
  using set_update_subset_insert by fastforce

lemma flow_inv_set_worker:
  assumes "flow_inv st" "i < length (ps_workers st)" "accepted evs = []"
    and "q_c (wp_queue (ps_pool st)) = received_of evs @ q_c (wp_queue p)"
    and "q_closed (wp_queue p) = q_closed (wp_queue (ps_pool st))"
    and "length (received_of evs) + busy (ps_workers st ! i) = length (finished_of evs) + length (panics_of evs) + busy w"
    and "wp_panics p = wp_panics (ps_pool st) + of_nat (length (panics_of evs))"
    and "w = Done \<longrightarrow> q_closed (wp_queue p) \<and> q_c (wp_queue p) = []"
  shows "flow_inv (set_worker i w evs p st)"
  using assms sum_list_replace [of i "ps_workers st" busy w] set_update_subset [of i "ps_workers st" Done w]
  by (auto simp: flow_inv_def)

lemma flow_inv_worker: "worker_step redact st st' \<Longrightarrow> flow_inv st \<Longrightarrow> flow_inv st'"
  by (induction rule: worker_step.induct; rule flow_inv_set_worker;
      auto simp: trace_counts busy_def receive_Item receive_RangeEnd)

lemma flow_inv_env: "env_step st st' \<Longrightarrow> flow_inv st \<Longrightarrow> flow_inv st'"
  by (induction rule: env_step.induct)
    (auto simp: flow_inv_def Enqueue_def queue_close_def trace_counts split: if_splits)

lemma write_inv_set_worker:
  assumes "write_inv sinks st" "i < length (ps_workers st)" "wp_sinks p = wp_sinks (ps_pool st)"
    and "\<forall>r ws rest. w = Writing r ws rest \<longrightarrow> ws @ rest = sinks"
    and "\<forall>s r. writes_of s r evs + in_flight s r (ps_workers st ! i) =
      count_list (finished_of evs) r * count_list sinks s + cut_writes s r evs + in_flight s r w"
  shows "write_inv sinks (set_worker i w evs p st)"
proof -
  have "writes_of s r (ps_trace st @ evs) = count_list (finished_of (ps_trace st @ evs)) r * count_list sinks s +
      cut_writes s r (ps_trace st @ evs) + sum_list (map (in_flight s r) ((ps_workers st)[i := w]))" for s r
  proof -
    have "writes_of s r (ps_trace st) = count_list (finished_of (ps_trace st)) r * count_list sinks s +
        cut_writes s r (ps_trace st) + sum_list (map (in_flight s r) (ps_workers st))"
      using assms(1) unfolding write_inv_def by blast
    with assms(5) [THEN spec, THEN spec, of s r] sum_list_replace [OF assms(2), of "in_flight s r" w]
    show ?thesis by (simp add: add_mult_distrib)
  qed
  moreover have "Writing r ws rest \<in> set ((ps_workers st)[i := w]) \<Longrightarrow> ws @ rest = sinks" for r ws rest
    using set_update_subset [OF assms(2)] assms(1,4) unfolding write_inv_def by metis
  ultimately show ?thesis using assms(1,3) by (simp add: write_inv_def)
qed

lemma write_inv_writing:
  "write_inv sinks st \<Longrightarrow> i < length (ps_workers st) \<Longrightarrow> ps_workers st ! i = Writing r ws rest \<Longrightarrow> ws @ rest = sinks"
  unfolding write_inv_def using nth_mem by metis

lemma write_inv_sinks: "write_inv sinks st \<Longrightarrow> wp_sinks (ps_pool st) = sinks"
  by (simp add: write_inv_def)

lemma write_inv_worker: "worker_step redact st st' \<Longrightarrow> write_inv sinks st \<Longrightarrow> write_inv sinks st'"
proof (induction rule: worker_step.induct)
  case (write_ok i st red ws s ss)
  from write_inv_writing [OF write_ok(3,1,2)] write_ok show ?case
    by (intro write_inv_set_worker) (auto simp: trace_counts in_flight_def)
next
  case (write_err i st red ws s ss)
  from write_inv_writing [OF write_err(3,1,2)] write_err show ?case
    by (intro write_inv_set_worker) (auto simp: trace_counts in_flight_def)
next
  case (finish i st red ws)
  from write_inv_writing [OF finish(3,1,2)] finish show ?case
    by (intro write_inv_set_worker) (auto simp: trace_counts in_flight_def)
qed (rule write_inv_set_worker; auto simp: trace_counts in_flight_def dest: write_inv_sinks)+

lemma write_inv_env: "env_step st st' \<Longrightarrow> write_inv sinks st \<Longrightarrow> write_inv sinks st'"
  by (induction rule: env_step.induct) (auto simp: write_inv_def trace_counts)

lemma error_inv_worker: "worker_step redact st st' \<Longrightarrow> error_inv st \<Longrightarrow> error_inv st'"
  by (induction rule: worker_step.induct)
    (auto simp: error_inv_def trace_counts count_error_def IncBySinkName_def split: option.splits)

lemma error_inv_env: "env_step st st' \<Longrightarrow> error_inv st \<Longrightarrow> error_inv st'"
  by (induction rule: env_step.induct) (auto simp: error_inv_def trace_counts split: option.splits)

lemma pool_invariant:
  assumes "pool_reaches redact st st'" "flow_inv st" "write_inv sinks st" "error_inv st"
  shows "flow_inv st' \<and> write_inv sinks st' \<and> error_inv st'"
  using assms
  by (induction rule: pool_reaches.induct)
    (auto intro: flow_inv_worker flow_inv_env write_inv_worker write_inv_env error_inv_worker error_inv_env)

lemma start_invariant:
  assumes "p = NewWorkerPool n (NewQueue c) sinks (Some NewSinkErrorCounters)"
  shows "flow_inv (Start p) \<and> write_inv sinks (Start p) \<and> error_inv (Start p)"
  by (auto simp: assms flow_inv_def write_inv_def error_inv_def Start_def NewWorkerPool_def NewQueue_def
      NewSinkErrorCounters_def trace_counts busy_def in_flight_def sum_list_replicate map_replicate)

lemma workers_length: "pool_reaches redact st st' \<Longrightarrow> length (ps_workers st') = length (ps_workers st)"
  by (induction rule: pool_reaches.induct) (auto elim!: worker_step.cases env_step.cases)

section \<open>Draining\<close>

text \<open>What is left to do: every queued record costs its take, redaction, writes and finish.\<close>

definition worker_work :: "nat \<Rightarrow> worker \<Rightarrow> nat" where
  "worker_work n w = (case w of Idle \<Rightarrow> 1 | Taken _ \<Rightarrow> n + 3 | Writing _ _ rest \<Rightarrow> length rest + 2 | Done \<Rightarrow> 0)"

definition pool_work :: "pool_state \<Rightarrow> nat" where
  "pool_work st = (let n = length (wp_sinks (ps_pool st)) in
     length (q_c (wp_queue (ps_pool st))) * (n + 3) + sum_list (map (worker_work n) (ps_workers st)))"

lemma pool_work_set_worker:
  assumes "i < length (ps_workers st)" "wp_sinks p = wp_sinks (ps_pool st)"
    and "length (q_c (wp_queue p)) * (length (wp_sinks p) + 3) + worker_work (length (wp_sinks p)) w <
      length (q_c (wp_queue (ps_pool st))) * (length (wp_sinks p) + 3) + worker_work (length (wp_sinks p)) (ps_workers st ! i)"
  shows "pool_work (set_worker i w evs p st) < pool_work st"
  using assms sum_list_replace [OF assms(1), of "worker_work (length (wp_sinks p))" w]
  by (simp add: pool_work_def Let_def)

lemma worker_step_work: "worker_step redact st st' \<Longrightarrow> pool_work st' < pool_work st"
  by (induction rule: worker_step.induct; rule pool_work_set_worker)
    (auto simp: worker_work_def receive_Item)

lemma worker_progress:
  assumes "q_closed (wp_queue (ps_pool st))" "i < length (ps_workers st)" "ps_workers st ! i \<noteq> Done"
  shows "\<exists>st'. worker_step redact st st'"
proof (cases "ps_workers st ! i")
  case Idle
  then show ?thesis
  proof (cases "receive (wp_queue (ps_pool st))")
    case (Item r q)
    then show ?thesis using Idle assms(2) take_record by blast
  next
    case RangeEnd
    then show ?thesis using Idle assms(2) range_end by blast
  next
    case Blocked
    then show ?thesis using assms(1) by (auto simp: receive_def split: list.splits)
  qed
next
  case (Taken r)
  then show ?thesis using assms(2) redact_ok redact_panic by (cases "redact r") blast+
next
  case (Writing r ws rest)
  then show ?thesis using assms(2) write_ok finish by (cases rest) blast+
qed (use assms(3) in simp)

abbreviation all_done :: "pool_state \<Rightarrow> bool" where
  "all_done st \<equiv> \<forall>w \<in> set (ps_workers st). w = Done"

lemma worker_closed: "worker_step redact st st' \<Longrightarrow> q_closed (wp_queue (ps_pool st')) = q_closed (wp_queue (ps_pool st))"
  by (induction rule: worker_step.induct) (auto simp: receive_Item)

lemma drain_exists:
  "q_closed (wp_queue (ps_pool st)) \<Longrightarrow> \<exists>st'. (worker_step redact)\<^sup>*\<^sup>* st st' \<and> all_done st'"
proof (induction "pool_work st" arbitrary: st rule: less_induct)
  case less
  show ?case
  proof (cases "all_done st")
    case False
    then obtain i where "i < length (ps_workers st)" "ps_workers st ! i \<noteq> Done" by (metis in_set_conv_nth)
    then obtain st1 where s1: "worker_step redact st st1" using worker_progress [OF less.prems] by blast
    with less.hyps [OF worker_step_work [OF s1]] worker_closed [OF s1] less.prems
    obtain st' where "(worker_step redact)\<^sup>*\<^sup>* st1 st'" "all_done st'" by auto
    with s1 show ?thesis by (meson converse_rtranclp_into_rtranclp)
  qed blast
qed

lemma worker_terminates: "wfp (\<lambda>st' st. worker_step redact st st')"
  by (rule wfp_if_convertible_to_nat [of _ pool_work]) (rule worker_step_work)

lemma done_not_busy: "all_done st \<Longrightarrow> sum_list (map busy (ps_workers st)) = 0"
  by (auto simp: busy_def)

text \<open>When all workers have ended nothing is left of what was accepted.\<close>

lemma workers_done_drained:
  assumes "pool_reaches redact (Start (NewWorkerPool n (NewQueue c) sinks (Some NewSinkErrorCounters))) st" "all_done st"
  shows "q_c (wp_queue (ps_pool st)) = []"
    "length (accepted (ps_trace st)) = length (finished_of (ps_trace st)) + length (panics_of (ps_trace st))"
proof -
  have inv: "flow_inv st" using pool_invariant [OF assms(1)] start_invariant by blast
  have "length (ps_workers st) = nat (if n < 1 then 1 else n)"
    using workers_length [OF assms(1)] by (simp add: Start_def NewWorkerPool_def)
  then have "0 < length (ps_workers st)" by (simp split: if_splits)
  then have "Done \<in> set (ps_workers st)" using assms(2) by (metis nth_mem)
  with inv done_not_busy [OF assms(2)] show "q_c (wp_queue (ps_pool st)) = []"
    "length (accepted (ps_trace st)) = length (finished_of (ps_trace st)) + length (panics_of (ps_trace st))"
    by (auto simp: flow_inv_def)
qed

section \<open>One record through the pool\<close>

lemma write_loop_runs:
  "i < length (ps_workers st) \<Longrightarrow> ps_workers st ! i = Writing red ws ss \<Longrightarrow>
   \<exists>st'. (worker_step redact)\<^sup>*\<^sup>* st st' \<and> ps_workers st' = (ps_workers st)[i := Idle] \<and>
     ps_pool st' = fst (write_loop out ss (ps_pool st))"
proof (induction ss arbitrary: st ws)
  case Nil
  then show ?case using finish [of i st red ws redact]
    by (intro exI [of _ "set_worker i Idle [Finished red] (ps_pool st) st"]) auto
next
  case (Cons s ss)
  have step: "\<exists>st'. (worker_step redact)\<^sup>*\<^sup>* st st' \<and> ps_workers st' = (ps_workers st)[i := Idle] \<and>
      ps_pool st' = fst (write_loop out ss p)"
    if one: "worker_step redact st (set_worker i (Writing red (ws @ [s]) ss) evs p st)" for evs p
  proof -
    let ?st1 = "set_worker i (Writing red (ws @ [s]) ss) evs p st"
    have "i < length (ps_workers ?st1)" "ps_workers ?st1 ! i = Writing red (ws @ [s]) ss" using Cons.prems(1) by simp_all
    from Cons.IH [OF this] obtain st' where "(worker_step redact)\<^sup>*\<^sup>* ?st1 st'"
      "ps_workers st' = (ps_workers st)[i := Idle]" "ps_pool st' = fst (write_loop out ss p)" by auto
    with one show ?thesis by (meson converse_rtranclp_into_rtranclp)
  qed
  show ?case
  proof (cases "out s")
    case WriteOk
    with step [OF write_ok [OF Cons.prems]] show ?thesis by (simp add: case_prod_beta)
  next
    case WriteErr
    with step [OF write_err [OF Cons.prems]] show ?thesis by (simp add: case_prod_beta)
  next
    case WritePanic
    with write_panic [OF Cons.prems, of redact] show ?thesis
      by (intro exI [of _ "set_worker i Idle [Wrote s red WritePanic, Panicked (Some (red, ws @ [s]))] (recover_panic (ps_pool st)) st"]) auto
  qed
qed

lemma write_loop_sinks:
  "snd (write_loop out ss p) = takeWhile (\<lambda>s. out s \<noteq> WritePanic) ss @ take 1 (dropWhile (\<lambda>s. out s \<noteq> WritePanic) ss)"
  by (induction ss arbitrary: p) (auto simp: case_prod_beta split: write_result.splits)

lemma write_loop_panics:
  "wp_panics (fst (write_loop out ss p)) = wp_panics p + (if list_ex (\<lambda>s. out s = WritePanic) ss then 1 else 0)"
  by (induction ss arbitrary: p) (auto simp: case_prod_beta split: write_result.splits)

section \<open>Properties\<close>


definition sample_start :: pool_state where
  "sample_start = Start (NewWorkerPool 1 (NewQueue 2) [''memory''] (Some NewSinkErrorCounters))"

definition sample_enqueued :: pool_state where
  "sample_enqueued = sample_start\<lparr>ps_pool := (ps_pool sample_start)\<lparr>wp_queue :=
     (wp_queue (ps_pool sample_start))\<lparr>q_c := [Request (sample_request ''a'' 1 ''k'')]\<rparr>\<rparr>,
     ps_trace := [Accepted (Request (sample_request ''a'' 1 ''k''))]\<rparr>"

lemma sample_enqueued_reached: "pool_reaches Some sample_start sample_enqueued"
proof (rule pool_reaches.env [OF pool_reaches.here])
  have "Enqueue (wp_queue (ps_pool sample_start)) (Request (sample_request ''a'' 1 ''k'')) =
      Some ((wp_queue (ps_pool sample_start))\<lparr>q_c := [Request (sample_request ''a'' 1 ''k'')]\<rparr>, True)"
    by (simp add: sample_start_def Start_def NewWorkerPool_def NewQueue_def Enqueue_def)
  from env_step.enqueue [OF this] show "env_step sample_start sample_enqueued"
    by (simp add: sample_enqueued_def) (simp add: sample_start_def Start_def)
qed


text \<open>
  C31. Closing the queue drains the pool. Once the queue is closed, no run of the workers is
  infinite, no state with a worker left is stuck, and a state in which all workers have
  ended is reached; in every such state the queue is empty and every record ever accepted has
  been finished or counted as a panic. So \<open>Wait\<close> returns and shutdown loses nothing.
\<close>

theorem pipeline_drains:
  assumes "pool_reaches redact (Start (NewWorkerPool n (NewQueue c) sinks (Some NewSinkErrorCounters))) st"
    and "q_closed (wp_queue (ps_pool st))"
  shows "wfp (\<lambda>st2 st1. worker_step redact st1 st2) \<and>
    (\<exists>st'. (worker_step redact)\<^sup>*\<^sup>* st st' \<and> all_done st') \<and>
    (\<forall>st'. (worker_step redact)\<^sup>*\<^sup>* st st' \<longrightarrow>
       (all_done st' \<or> (\<exists>st''. worker_step redact st' st'')) \<and>
       (all_done st' \<longrightarrow> q_c (wp_queue (ps_pool st')) = [] \<and>
          length (accepted (ps_trace st')) = length (finished_of (ps_trace st')) + length (panics_of (ps_trace st'))))"
proof (intro conjI allI impI)
  fix st' assume run: "(worker_step redact)\<^sup>*\<^sup>* st st'"
  have "q_closed (wp_queue (ps_pool st'))" using run assms(2) by (induction) (auto simp: worker_closed)
  then show "all_done st' \<or> (\<exists>st''. worker_step redact st' st'')" using worker_progress by (metis in_set_conv_nth)
  have reach: "pool_reaches redact (Start (NewWorkerPool n (NewQueue c) sinks (Some NewSinkErrorCounters))) st'"
    using run assms(1) by (induction) (auto intro: pool_reaches.worker)
  then show "all_done st' \<Longrightarrow> q_c (wp_queue (ps_pool st')) = []"
    "all_done st' \<Longrightarrow> length (accepted (ps_trace st')) = length (finished_of (ps_trace st')) + length (panics_of (ps_trace st'))"
    using workers_done_drained by blast+
qed (use worker_terminates drain_exists [OF assms(2)] in auto)

definition sample_closed :: pool_state where
  "sample_closed = sample_enqueued\<lparr>ps_pool := (ps_pool sample_enqueued)\<lparr>wp_queue := queue_close (wp_queue (ps_pool sample_enqueued))\<rparr>\<rparr>"

theorem pipeline_drains_witness:
  "\<exists>st'. (worker_step Some)\<^sup>*\<^sup>* sample_closed st' \<and> all_done st' \<and> q_c (wp_queue (ps_pool st')) = []"
proof -
  have "\<not> q_closed (wp_queue (ps_pool sample_enqueued))"
    by (simp add: sample_enqueued_def sample_start_def Start_def NewWorkerPool_def NewQueue_def)
  then have "pool_reaches Some sample_start sample_closed"
    unfolding sample_closed_def using sample_enqueued_reached env_step.close pool_reaches.env by blast
  moreover have "q_closed (wp_queue (ps_pool sample_closed))" by (simp add: sample_closed_def queue_close_def)
  ultimately show ?thesis using pipeline_drains [of Some 1 2 "[''memory'']" sample_closed] by (auto simp: sample_start_def)
qed

text \<open>
  One record's path. \<open>process\<close> hands the redacted record to the sinks in their order, an
  error of one sink never keeping it from the next; only a panic ends the loop, after the
  sink that raised it, and it is recovered and counted once. A worker that holds the record
  can take exactly this path in the interleaved pool, whatever the other workers do.
\<close>

theorem process_isolates_failures:
  "(let (p', written) = process redact out p rec in
     written = (case redact rec of None \<Rightarrow> []
       | Some _ \<Rightarrow> takeWhile (\<lambda>s. out s \<noteq> WritePanic) (wp_sinks p) @ take 1 (dropWhile (\<lambda>s. out s \<noteq> WritePanic) (wp_sinks p))) \<and>
     wp_panics p' = wp_panics p + (if redact rec = None \<or> list_ex (\<lambda>s. out s = WritePanic) (wp_sinks p) then 1 else 0)) \<and>
   (i < length (ps_workers st) \<and> ps_workers st ! i = Taken rec \<and> ps_pool st = p \<longrightarrow>
     (\<exists>st'. (worker_step redact)\<^sup>*\<^sup>* st st' \<and> ps_workers st' = (ps_workers st)[i := Idle] \<and>
       ps_pool st' = fst (process redact out p rec)))"
proof (rule conjI)
  show "let (p', written) = process redact out p rec in
     written = (case redact rec of None \<Rightarrow> []
       | Some _ \<Rightarrow> takeWhile (\<lambda>s. out s \<noteq> WritePanic) (wp_sinks p) @ take 1 (dropWhile (\<lambda>s. out s \<noteq> WritePanic) (wp_sinks p))) \<and>
     wp_panics p' = wp_panics p + (if redact rec = None \<or> list_ex (\<lambda>s. out s = WritePanic) (wp_sinks p) then 1 else 0)"
    by (cases "redact rec") (simp_all add: process_def Let_def case_prod_beta write_loop_sinks write_loop_panics)
  show "i < length (ps_workers st) \<and> ps_workers st ! i = Taken rec \<and> ps_pool st = p \<longrightarrow>
     (\<exists>st'. (worker_step redact)\<^sup>*\<^sup>* st st' \<and> ps_workers st' = (ps_workers st)[i := Idle] \<and>
       ps_pool st' = fst (process redact out p rec))"
  proof
    assume a: "i < length (ps_workers st) \<and> ps_workers st ! i = Taken rec \<and> ps_pool st = p"
    show "\<exists>st'. (worker_step redact)\<^sup>*\<^sup>* st st' \<and> ps_workers st' = (ps_workers st)[i := Idle] \<and>
       ps_pool st' = fst (process redact out p rec)"
    proof (cases "redact rec")
      case None
      with a redact_panic [of i st rec redact] show ?thesis
        by (intro exI [of _ "set_worker i Idle [Panicked None] (recover_panic p) st"]) (auto simp: process_def)
    next
      case (Some red)
      let ?st1 = "set_worker i (Writing red [] (wp_sinks p)) [] p st"
      have "worker_step redact st ?st1" using redact_ok [of i st rec redact red] a Some by simp
      moreover obtain st' where "(worker_step redact)\<^sup>*\<^sup>* ?st1 st'" "ps_workers st' = (ps_workers st)[i := Idle]"
        "ps_pool st' = fst (write_loop out (wp_sinks p) p)"
        using write_loop_runs [of i ?st1 red "[]" "wp_sinks p" redact out] a by auto
      ultimately show ?thesis using Some by (auto simp: process_def intro: converse_rtranclp_into_rtranclp)
    qed
  qed
qed

theorem process_isolates_failures_witness:
  "\<exists>st'. (worker_step Some)\<^sup>*\<^sup>* (sample_start\<lparr>ps_workers := [Taken (Request (sample_request ''a'' 1 ''k''))]\<rparr>) st' \<and>
     ps_workers st' = [Idle]"
  using process_isolates_failures [THEN conjunct2, of 0 "sample_start\<lparr>ps_workers := [Taken (Request (sample_request ''a'' 1 ''k''))]\<rparr>"
      "Request (sample_request ''a'' 1 ''k'')" "ps_pool sample_start" Some "\<lambda>_. WriteErr"]
  by auto

end
