(* ===== verification/Lifecycle.thy ===== *)
theory Lifecycle
  imports Pipeline
begin

text \<open>
  \<open>App.Serve\<close> and \<open>App.shutdown\<close> of internal/app/app.go as a transition system. The main goroutine
  walks through \<open>phase\<close>; beside it run the two HTTP servers with their requests in flight, the
  workers of Pipeline and the caller's context. \<open>Server.Shutdown\<close> closes the listener at once and
  then waits for its requests, for at most five seconds; a timer may fire whenever the code
  waits on it. A handler in flight ends by enqueueing one record (or with an event batch,
  several such steps); a send on the closed queue panics, which net/http recovers. Starting the
  retention sweeper and the log lines change nothing of this state.
\<close>

section \<open>State\<close>

datatype phase =
    Starting
  | Serving
  | StoppingCapture "string option"
  | ClosingQueue "string option"
  | Draining "string option"
  | ClosingStore "string option"
  | Returned "string option"

record http_server =
  hs_open :: bool
  hs_in_flight :: nat

record serve_state =
  sv_phase :: phase
  sv_pool :: pool_state
  sv_ctx_done :: bool
  sv_serve_cancelled :: bool
  sv_capture :: http_server
  sv_capture_err :: "string option"
  sv_admin :: http_server
  sv_admin_err :: "string option"
  sv_sinks_cancelled :: bool
  sv_store_closed :: bool
  sv_capture_timeout :: bool
  sv_drain_timeout :: bool
  sv_capture_panics :: nat
  sv_admin_panics :: nat

abbreviation sv_queue :: "serve_state \<Rightarrow> queue" where
  "sv_queue s \<equiv> wp_queue (ps_pool (sv_pool s))"

definition serve_start :: "pool_state \<Rightarrow> serve_state" where
  "serve_start p = \<lparr>sv_phase = Starting, sv_pool = p, sv_ctx_done = False, sv_serve_cancelled = False,
     sv_capture = \<lparr>hs_open = False, hs_in_flight = 0\<rparr>, sv_capture_err = None,
     sv_admin = \<lparr>hs_open = False, hs_in_flight = 0\<rparr>, sv_admin_err = None,
     sv_sinks_cancelled = False, sv_store_closed = False, sv_capture_timeout = False, sv_drain_timeout = False,
     sv_capture_panics = 0, sv_admin_panics = 0\<rparr>"

definition close_queue :: "serve_state \<Rightarrow> serve_state" where
  "close_queue s = s\<lparr>sv_pool := (sv_pool s)\<lparr>ps_pool := (ps_pool (sv_pool s))\<lparr>wp_queue := queue_close (sv_queue s)\<rparr>\<rparr>\<rparr>"

definition all_workers_done :: "pool_state \<Rightarrow> bool" where
  "all_workers_done p = list_all (\<lambda>w. w = Done) (ps_workers p)"

section \<open>The main goroutine\<close>

text \<open>
  The admin server is started when the capture listener is bound. The select takes any ready
  case. Capture failure also cancels the admin server; a cancelled context reaches it
  by itself. At the end the deferred calls cancel both contexts.
\<close>

inductive main_step :: "serve_state \<Rightarrow> serve_state \<Rightarrow> bool" where
  listen_ok: "sv_phase s = Starting
    \<Longrightarrow> main_step s (s\<lparr>sv_phase := Serving, sv_capture := \<lparr>hs_open = True, hs_in_flight = 0\<rparr>, sv_admin := \<lparr>hs_open = True, hs_in_flight = 0\<rparr>\<rparr>)"
| listen_failed: "sv_phase s = Starting \<Longrightarrow> main_step s (s\<lparr>sv_phase := ClosingQueue (Some ''listen'')\<rparr>)"
| ctx_done: "sv_phase s = Serving \<Longrightarrow> sv_ctx_done s
    \<Longrightarrow> main_step s (s\<lparr>sv_phase := StoppingCapture None, sv_capture := (sv_capture s)\<lparr>hs_open := False\<rparr>\<rparr>)"
| capture_failed: "sv_phase s = Serving \<Longrightarrow> sv_capture_err s = Some e
    \<Longrightarrow> main_step s (s\<lparr>sv_phase := StoppingCapture (Some e), sv_serve_cancelled := True, sv_capture := (sv_capture s)\<lparr>hs_open := False\<rparr>\<rparr>)"
| admin_failed: "sv_phase s = Serving \<Longrightarrow> sv_admin_err s = Some e
    \<Longrightarrow> main_step s (s\<lparr>sv_phase := StoppingCapture (Some e), sv_capture := (sv_capture s)\<lparr>hs_open := False\<rparr>\<rparr>)"
| admin_done: "sv_phase s = Serving \<Longrightarrow> sv_serve_cancelled s \<Longrightarrow> \<not> hs_open (sv_admin s)
    \<Longrightarrow> main_step s (s\<lparr>sv_phase := StoppingCapture None, sv_capture := (sv_capture s)\<lparr>hs_open := False\<rparr>\<rparr>)"
| capture_stopped: "sv_phase s = StoppingCapture e \<Longrightarrow> hs_in_flight (sv_capture s) = 0
    \<Longrightarrow> main_step s (s\<lparr>sv_phase := ClosingQueue e\<rparr>)"
| capture_gave_up: "sv_phase s = StoppingCapture e
    \<Longrightarrow> main_step s (s\<lparr>sv_phase := ClosingQueue e, sv_capture_timeout := True\<rparr>)"
| queue_closed: "sv_phase s = ClosingQueue e \<Longrightarrow> main_step s ((close_queue s)\<lparr>sv_phase := Draining e\<rparr>)"
| drained: "sv_phase s = Draining e \<Longrightarrow> all_workers_done (sv_pool s)
    \<Longrightarrow> main_step s (s\<lparr>sv_phase := ClosingStore e\<rparr>)"
| drain_gave_up: "sv_phase s = Draining e
    \<Longrightarrow> main_step s (s\<lparr>sv_phase := ClosingStore e, sv_drain_timeout := True, sv_sinks_cancelled := True\<rparr>)"
| store_closed: "sv_phase s = ClosingStore e
    \<Longrightarrow> main_step s (s\<lparr>sv_phase := Returned e, sv_store_closed := True, sv_serve_cancelled := True, sv_sinks_cancelled := True\<rparr>)"

section \<open>The other goroutines\<close>

definition leave :: "http_server \<Rightarrow> http_server" where
  "leave h = h\<lparr>hs_in_flight := hs_in_flight h - 1\<rparr>"

definition enter :: "http_server \<Rightarrow> http_server" where
  "enter h = h\<lparr>hs_in_flight := hs_in_flight h + 1\<rparr>"

definition offer :: "capture_record \<Rightarrow> queue \<Rightarrow> bool \<Rightarrow> serve_state \<Rightarrow> serve_state" where
  "offer rec q ok s = s\<lparr>sv_pool := (sv_pool s)\<lparr>ps_pool := (ps_pool (sv_pool s))\<lparr>wp_queue := q\<rparr>,
     ps_trace := ps_trace (sv_pool s) @ (if ok then [Accepted rec] else [])\<rparr>\<rparr>"

inductive side_step :: "(capture_record \<Rightarrow> capture_record option) \<Rightarrow> serve_state \<Rightarrow> serve_state \<Rightarrow> bool" for redact where
  cancel: "side_step redact s (s\<lparr>sv_ctx_done := True, sv_serve_cancelled := True\<rparr>)"
| capture_breaks: "hs_open (sv_capture s)
    \<Longrightarrow> side_step redact s (s\<lparr>sv_capture_err := Some e, sv_capture := (sv_capture s)\<lparr>hs_open := False\<rparr>\<rparr>)"
| admin_breaks: "hs_open (sv_admin s)
    \<Longrightarrow> side_step redact s (s\<lparr>sv_admin_err := Some e, sv_admin := (sv_admin s)\<lparr>hs_open := False\<rparr>\<rparr>)"
| admin_stops: "sv_serve_cancelled s \<Longrightarrow> side_step redact s (s\<lparr>sv_admin := (sv_admin s)\<lparr>hs_open := False\<rparr>\<rparr>)"
| capture_arrives: "hs_open (sv_capture s) \<Longrightarrow> side_step redact s (s\<lparr>sv_capture := enter (sv_capture s)\<rparr>)"
| capture_enqueues: "hs_in_flight (sv_capture s) > 0 \<Longrightarrow> Enqueue (sv_queue s) rec = Some (q, ok)
    \<Longrightarrow> side_step redact s ((offer rec q ok s)\<lparr>sv_capture := leave (sv_capture s)\<rparr>)"
| capture_panics: "hs_in_flight (sv_capture s) > 0 \<Longrightarrow> Enqueue (sv_queue s) rec = None
    \<Longrightarrow> side_step redact s (s\<lparr>sv_capture := leave (sv_capture s), sv_capture_panics := sv_capture_panics s + 1\<rparr>)"
| capture_refuses: "hs_in_flight (sv_capture s) > 0 \<Longrightarrow> side_step redact s (s\<lparr>sv_capture := leave (sv_capture s)\<rparr>)"
| admin_arrives: "hs_open (sv_admin s) \<Longrightarrow> side_step redact s (s\<lparr>sv_admin := enter (sv_admin s)\<rparr>)"
| admin_enqueues: "hs_in_flight (sv_admin s) > 0 \<Longrightarrow> Enqueue (sv_queue s) rec = Some (q, ok)
    \<Longrightarrow> side_step redact s (offer rec q ok s)"
| admin_panics: "hs_in_flight (sv_admin s) > 0 \<Longrightarrow> Enqueue (sv_queue s) rec = None
    \<Longrightarrow> side_step redact s (s\<lparr>sv_admin := leave (sv_admin s), sv_admin_panics := sv_admin_panics s + 1\<rparr>)"
| admin_leaves: "hs_in_flight (sv_admin s) > 0 \<Longrightarrow> side_step redact s (s\<lparr>sv_admin := leave (sv_admin s)\<rparr>)"
| worker_moves: "worker_step redact (sv_pool s) p \<Longrightarrow> side_step redact s (s\<lparr>sv_pool := p\<rparr>)"

inductive serve_reaches :: "(capture_record \<Rightarrow> capture_record option) \<Rightarrow> serve_state \<Rightarrow> serve_state \<Rightarrow> bool" for redact s0 where
  at_start: "serve_reaches redact s0 s0"
| by_main: "serve_reaches redact s0 s \<Longrightarrow> main_step s s' \<Longrightarrow> serve_reaches redact s0 s'"
| by_side: "serve_reaches redact s0 s \<Longrightarrow> side_step redact s s' \<Longrightarrow> serve_reaches redact s0 s'"

inductive_cases main_stepE: "main_step s s'"

inductive_cases side_stepE: "side_step redact s s'"

section \<open>The invariant\<close>

primrec phase_rank :: "phase \<Rightarrow> nat" where
  "phase_rank Starting = 6"
| "phase_rank Serving = 5"
| "phase_rank (StoppingCapture e) = 4"
| "phase_rank (ClosingQueue e) = 3"
| "phase_rank (Draining e) = 2"
| "phase_rank (ClosingStore e) = 1"
| "phase_rank (Returned e) = 0"

text \<open>
  The queue is closed exactly from the drain phase on, and then no capture listener is open, and
  no capture request is in flight unless Shutdown gave up; the sinks are cancelled and the store
  is closed only after the drain.
\<close>

definition order_inv :: "serve_state \<Rightarrow> bool" where
  "order_inv s \<longleftrightarrow>
     (q_closed (sv_queue s) \<longleftrightarrow> phase_rank (sv_phase s) \<le> 2) \<and>
     (phase_rank (sv_phase s) \<le> 4 \<or> sv_phase s = Starting \<longrightarrow> \<not> hs_open (sv_capture s)) \<and>
     (phase_rank (sv_phase s) \<le> 3 \<or> sv_phase s = Starting \<longrightarrow> sv_capture_timeout s \<or> hs_in_flight (sv_capture s) = 0) \<and>
     (sv_capture_panics s > 0 \<longrightarrow> sv_capture_timeout s) \<and>
     (sv_sinks_cancelled s \<longrightarrow> sv_drain_timeout s \<or> sv_store_closed s) \<and>
     (sv_store_closed s \<longrightarrow> phase_rank (sv_phase s) = 0) \<and>
     (phase_rank (sv_phase s) \<le> 1 \<longrightarrow> sv_drain_timeout s \<or> all_workers_done (sv_pool s)) \<and>
     (sv_drain_timeout s \<longrightarrow> phase_rank (sv_phase s) \<le> 1)"

lemma order_invD:
  assumes "order_inv s"
  shows "q_closed (sv_queue s) \<longleftrightarrow> phase_rank (sv_phase s) \<le> 2"
    "phase_rank (sv_phase s) \<le> 4 \<or> sv_phase s = Starting \<longrightarrow> \<not> hs_open (sv_capture s)"
    "phase_rank (sv_phase s) \<le> 3 \<or> sv_phase s = Starting \<longrightarrow> sv_capture_timeout s \<or> hs_in_flight (sv_capture s) = 0"
    "sv_capture_panics s > 0 \<longrightarrow> sv_capture_timeout s"
    "sv_sinks_cancelled s \<longrightarrow> sv_drain_timeout s \<or> sv_store_closed s"
    "sv_store_closed s \<longrightarrow> phase_rank (sv_phase s) = 0"
    "phase_rank (sv_phase s) \<le> 1 \<longrightarrow> sv_drain_timeout s \<or> all_workers_done (sv_pool s)"
    "sv_drain_timeout s \<longrightarrow> phase_rank (sv_phase s) \<le> 1"
  using assms by (simp_all add: order_inv_def)

lemma worker_step_queue:
  assumes "worker_step redact p p'"
  shows "q_closed (wp_queue (ps_pool p')) = q_closed (wp_queue (ps_pool p))" "all_workers_done p \<Longrightarrow> all_workers_done p'"
  using assms by (induction rule: worker_step.induct)
    (auto simp: receive_Item all_workers_done_def list_all_length nth_list_update)

lemma Enqueue_closed: "Enqueue q rec = None \<longleftrightarrow> q_closed q" "Enqueue q rec = Some (q', ok) \<Longrightarrow> q_closed q' = q_closed q"
  by (auto simp: Enqueue_def split: if_splits)

lemma order_inv_start: "\<not> q_closed (wp_queue (ps_pool p)) \<Longrightarrow> order_inv (serve_start p)"
  by (simp add: order_inv_def serve_start_def)

lemma order_inv_main: "main_step s s' \<Longrightarrow> order_inv s \<Longrightarrow> order_inv s'"
  by (induction rule: main_step.induct) (auto simp: order_inv_def close_queue_def queue_close_def all_workers_done_def)

lemma order_inv_side: "side_step redact s s' \<Longrightarrow> order_inv s \<Longrightarrow> order_inv s'"
proof (induction rule: side_step.induct)
  case (worker_moves s p)
  note q = worker_step_queue(1) [OF worker_moves(1)] and i = order_invD [OF worker_moves(2)]
  have "phase_rank (sv_phase s) \<le> 1 \<longrightarrow> sv_drain_timeout s \<or> all_workers_done p"
    using i(7) worker_step_queue(2) [OF worker_moves(1)] by blast
  then show ?case unfolding order_inv_def using i(1-6,8) q by simp
next
  case (capture_enqueues s rec q ok)
  then show ?case using Enqueue_closed(2) [OF capture_enqueues(2)]
    by (simp add: order_inv_def offer_def leave_def all_workers_done_def)
next
  case (admin_enqueues s rec q ok)
  then show ?case using Enqueue_closed(2) [OF admin_enqueues(2)]
    by (simp add: order_inv_def offer_def all_workers_done_def)
next
  case (capture_panics s rec)
  then show ?case by (auto simp: order_inv_def leave_def Enqueue_closed(1))
next
  case (capture_arrives s)
  then have "\<not> phase_rank (sv_phase s) \<le> 4" "sv_phase s \<noteq> Starting" using order_invD(2) [of s] by auto
  then have "\<not> phase_rank (sv_phase s) \<le> 3" by linarith
  then show ?case using order_invD [OF capture_arrives(2)] \<open>\<not> phase_rank (sv_phase s) \<le> 4\<close> \<open>sv_phase s \<noteq> Starting\<close>
    unfolding order_inv_def by (simp add: enter_def)
qed (simp_all add: order_inv_def enter_def leave_def)

lemma order_inv_reaches:
  assumes "serve_reaches redact s0 s" "order_inv s0" shows "order_inv s"
  using assms by (induction) (auto intro: order_inv_main order_inv_side)

text \<open>What Serve does to the pool are steps of the pool and of its environment.\<close>

lemma serve_pool_reaches:
  assumes "serve_reaches redact (serve_start p) s" "\<not> q_closed (wp_queue (ps_pool p))"
  shows "pool_reaches redact p (sv_pool s)"
  using assms(1)
proof induction
  case at_start
  then show ?case by (simp add: serve_start_def pool_reaches.here)
next
  case (by_main s s')
  from by_main(2) show ?case
  proof cases
    case (queue_closed e)
    have "order_inv s" by (rule order_inv_reaches [OF by_main(1) order_inv_start [OF assms(2)]])
    then have "\<not> q_closed (sv_queue s)" using queue_closed by (simp add: order_inv_def)
    from pool_reaches.env [OF by_main(3) env_step.close [OF this]] queue_closed show ?thesis by (simp add: close_queue_def)
  qed (use by_main(3) in simp_all)
next
  case (by_side s s')
  from by_side(2) show ?case
  proof cases
    case (capture_enqueues rec q ok)
    from pool_reaches.env [OF by_side(3) env_step.enqueue [OF capture_enqueues(3)]] capture_enqueues show ?thesis
      by (simp add: offer_def)
  next
    case (admin_enqueues rec q ok)
    from pool_reaches.env [OF by_side(3) env_step.enqueue [OF admin_enqueues(3)]] admin_enqueues show ?thesis
      by (simp add: offer_def)
  next
    case (worker_moves p')
    then show ?thesis using pool_reaches.worker [OF by_side(3)] by simp
  qed (use by_side(3) in simp_all)
qed

text \<open>The main goroutine always gets on, by a timer if by nothing else.\<close>

lemma main_rank: "main_step s s' \<Longrightarrow> phase_rank (sv_phase s') < phase_rank (sv_phase s)"
  by (induction rule: main_step.induct) (simp_all add: close_queue_def)

lemma side_phase: "side_step redact s s' \<Longrightarrow> sv_phase s' = sv_phase s"
  by (induction rule: side_step.induct) (simp_all add: offer_def)

definition stopping :: "serve_state \<Rightarrow> bool" where
  "stopping s = (sv_phase s \<noteq> Starting \<and> (sv_phase s \<noteq> Serving \<or> sv_ctx_done s \<or> sv_capture_err s \<noteq> None \<or> sv_admin_err s \<noteq> None))"

lemma stopping_step:
  assumes "stopping s" "\<nexists>e. sv_phase s = Returned e"
  shows "\<exists>s'. main_step s s' \<and> stopping s'"
proof (cases "sv_phase s")
  case Serving
  then consider "sv_ctx_done s" | e where "sv_capture_err s = Some e" | e where "sv_admin_err s = Some e"
    using assms(1) by (auto simp: stopping_def)
  then show ?thesis
  proof cases
    case 1 from ctx_done [OF Serving this] show ?thesis by (auto simp: stopping_def)
  next
    case 2 from capture_failed [OF Serving this] show ?thesis by (auto simp: stopping_def)
  next
    case 3 from admin_failed [OF Serving this] show ?thesis by (auto simp: stopping_def)
  qed
next
  case (StoppingCapture e) from capture_gave_up [OF this] show ?thesis by (auto simp: stopping_def)
next
  case (ClosingQueue e) from queue_closed [OF this] show ?thesis by (auto simp: stopping_def)
next
  case (Draining e) from drain_gave_up [OF this] show ?thesis by (auto simp: stopping_def)
next
  case (ClosingStore e) from store_closed [OF this] show ?thesis by (auto simp: stopping_def)
qed (use assms in \<open>auto simp: stopping_def\<close>)

lemma stopping_returns:
  "stopping s \<Longrightarrow> \<exists>n t e. n \<le> phase_rank (sv_phase s) \<and> (main_step ^^ n) s t \<and> sv_phase t = Returned e"
proof (induction "phase_rank (sv_phase s)" arbitrary: s rule: less_induct)
  case less
  show ?case
  proof (cases "\<exists>e. sv_phase s = Returned e")
    case True
    then show ?thesis by (intro exI [of _ 0] exI [of _ s]) simp
  next
    case False
    with stopping_step [OF less.prems] obtain s' where s': "main_step s s'" "stopping s'" by blast
    note lt = main_rank [OF s'(1)]
    from less.hyps [OF lt s'(2)] obtain n t e
      where "n \<le> phase_rank (sv_phase s')" "(main_step ^^ n) s' t" "sv_phase t = Returned e" by blast
    then have "Suc n \<le> phase_rank (sv_phase s)" "(main_step ^^ Suc n) s t" "sv_phase t = Returned e"
      using lt relpowp_Suc_I2 [of main_step s s' n t, OF s'(1)] by (simp_all del: relpowp.simps)
    then show ?thesis by blast
  qed
qed

section \<open>Properties\<close>

text \<open>
  C11. Shutdown happens in a safe order, under every interleaving of the main goroutine, the two
  servers, the workers and the caller. The queue is closed only when the capture listener
  is; a capture request can meet a closed queue only if the capture server's Shutdown timed out;
  sinks are cancelled and the store is closed only when all workers have ended or the drain
  timed out. And when Serve returns without a drain timeout, nothing that was accepted is left:
  the queue is empty and every accepted record was finished or counted as a worker panic.
\<close>

theorem shutdown_order:
  assumes "serve_reaches redact (serve_start (Start (NewWorkerPool n (NewQueue c) sinks (Some NewSinkErrorCounters)))) s"
  shows "(q_closed (sv_queue s) \<longrightarrow> \<not> hs_open (sv_capture s) \<and> (sv_capture_timeout s \<or> hs_in_flight (sv_capture s) = 0)) \<and>
    (sv_capture_panics s > 0 \<longrightarrow> sv_capture_timeout s) \<and>
    (sv_sinks_cancelled s \<or> sv_store_closed s \<longrightarrow> q_closed (sv_queue s) \<and> (sv_drain_timeout s \<or> all_workers_done (sv_pool s))) \<and>
    ((\<exists>e. sv_phase s = Returned e) \<and> \<not> sv_drain_timeout s \<longrightarrow>
       q_c (sv_queue s) = [] \<and>
       length (accepted (ps_trace (sv_pool s))) =
         length (finished_of (ps_trace (sv_pool s))) + length (panics_of (ps_trace (sv_pool s))))"
proof -
  let ?p = "Start (NewWorkerPool n (NewQueue c) sinks (Some NewSinkErrorCounters))"
  have open_queue: "\<not> q_closed (wp_queue (ps_pool ?p))" by (simp add: Start_def NewWorkerPool_def NewQueue_def)
  have inv: "order_inv s" by (rule order_inv_reaches [OF assms order_inv_start [OF open_queue]])
  have reach: "pool_reaches redact ?p (sv_pool s)" by (rule serve_pool_reaches [OF assms open_queue])
  have drained: "q_c (sv_queue s) = [] \<and> length (accepted (ps_trace (sv_pool s))) =
      length (finished_of (ps_trace (sv_pool s))) + length (panics_of (ps_trace (sv_pool s)))" if "all_workers_done (sv_pool s)"
    using that workers_done_drained [OF reach] by (simp add: all_workers_done_def list_all_iff)
  note i = order_invD [OF inv]
  have late: "sv_sinks_cancelled s \<or> sv_store_closed s \<Longrightarrow> phase_rank (sv_phase s) \<le> 1" using i(5,6,8) by auto
  show ?thesis
  proof (intro conjI impI)
    assume "q_closed (sv_queue s)"
    then have "phase_rank (sv_phase s) \<le> 2" using i(1) by blast
    then show "\<not> hs_open (sv_capture s)" "sv_capture_timeout s \<or> hs_in_flight (sv_capture s) = 0"
      using i(2,3) by auto
  next
    assume "sv_capture_panics s > 0" then show "sv_capture_timeout s" using i(4) by blast
  next
    assume "sv_sinks_cancelled s \<or> sv_store_closed s"
    from late [OF this] show "q_closed (sv_queue s)" "sv_drain_timeout s \<or> all_workers_done (sv_pool s)"
      using i(1,7) by auto
  next
    assume "(\<exists>e. sv_phase s = Returned e) \<and> \<not> sv_drain_timeout s"
    then have "all_workers_done (sv_pool s)" using i(7) by auto
    then show "q_c (sv_queue s) = []" "length (accepted (ps_trace (sv_pool s))) =
        length (finished_of (ps_trace (sv_pool s))) + length (panics_of (ps_trace (sv_pool s)))"
      using drained by blast+
  qed
qed

theorem shutdown_order_witness:
  "\<exists>s. serve_reaches Some (serve_start sample_start) s \<and> sv_phase s = Returned (Some ''listen'') \<and> \<not> sv_drain_timeout s \<and>
     q_c (sv_queue s) = []"
proof -
  let ?s0 = "serve_start sample_start"
  let ?s1 = "?s0\<lparr>sv_phase := ClosingQueue (Some ''listen'')\<rparr>"
  let ?s2 = "(close_queue ?s1)\<lparr>sv_phase := Draining (Some ''listen'')\<rparr>"
  let ?s3 = "?s2\<lparr>sv_pool := set_worker 0 Done [] (ps_pool (sv_pool ?s2)) (sv_pool ?s2)\<rparr>"
  let ?s4 = "?s3\<lparr>sv_phase := ClosingStore (Some ''listen'')\<rparr>"
  let ?s5 = "?s4\<lparr>sv_phase := Returned (Some ''listen''), sv_store_closed := True, sv_serve_cancelled := True, sv_sinks_cancelled := True\<rparr>"
  note defs = serve_start_def sample_start_def Start_def NewWorkerPool_def NewQueue_def close_queue_def queue_close_def
  have "serve_reaches Some ?s0 ?s1" by (rule by_main [OF at_start listen_failed]) (simp add: defs)
  then have "serve_reaches Some ?s0 ?s2" by (rule by_main [OF _ queue_closed]) simp
  then have "serve_reaches Some ?s0 ?s3"
    by (rule by_side [OF _ worker_moves [OF range_end]]) (simp_all add: defs receive_def)
  then have "serve_reaches Some ?s0 ?s4"
    by (rule by_main [OF _ drained]) (simp_all add: defs all_workers_done_def set_worker_def)
  then have r: "serve_reaches Some ?s0 ?s5" by (rule by_main [OF _ store_closed]) simp
  have f: "sv_phase ?s5 = Returned (Some ''listen'')" "\<not> sv_drain_timeout ?s5" by (simp_all add: defs)
  then have "q_c (sv_queue ?s5) = []"
    using shutdown_order [OF r [unfolded sample_start_def]] unfolding sample_start_def by blast
  with r f show ?thesis by blast
qed


definition sample_serving :: serve_state where
  "sample_serving = (serve_start sample_start)\<lparr>sv_phase := Serving, sv_ctx_done := True\<rparr>"


text \<open>
  C40. The main goroutine closes the queue without waiting for the admin server. In every
  configuration an orderly shutdown, with no timeout anywhere, can reach a state in which a POST
  /events request was still in flight when the queue was closed and died in a panic on
  the closed channel.
\<close>

theorem shutdown_races_with_events:
  "\<exists>s. serve_reaches redact (serve_start (Start (NewWorkerPool n (NewQueue c) sinks (Some NewSinkErrorCounters)))) s \<and>
     sv_admin_panics s = 1 \<and> sv_ctx_done s \<and> \<not> sv_capture_timeout s \<and> \<not> sv_drain_timeout s \<and>
     sv_capture_err s = None \<and> sv_admin_err s = None"
proof -
  let ?p = "Start (NewWorkerPool n (NewQueue c) sinks (Some NewSinkErrorCounters))"
  let ?s0 = "serve_start ?p"
  let ?s1 = "?s0\<lparr>sv_phase := Serving, sv_capture := \<lparr>hs_open = True, hs_in_flight = 0\<rparr>, sv_admin := \<lparr>hs_open = True, hs_in_flight = 0\<rparr>\<rparr>"
  let ?s2 = "?s1\<lparr>sv_admin := enter (sv_admin ?s1)\<rparr>"
  let ?s3 = "?s2\<lparr>sv_ctx_done := True, sv_serve_cancelled := True\<rparr>"
  let ?s4 = "?s3\<lparr>sv_phase := StoppingCapture None, sv_capture := (sv_capture ?s3)\<lparr>hs_open := False\<rparr>\<rparr>"
  let ?s5 = "?s4\<lparr>sv_phase := ClosingQueue None\<rparr>"
  let ?s6 = "(close_queue ?s5)\<lparr>sv_phase := Draining None\<rparr>"
  let ?s7 = "?s6\<lparr>sv_admin := leave (sv_admin ?s6), sv_admin_panics := sv_admin_panics ?s6 + 1\<rparr>"
  have "serve_reaches redact ?s0 ?s1" by (rule by_main [OF at_start listen_ok]) (simp add: serve_start_def)
  then have "serve_reaches redact ?s0 ?s2" by (rule by_side [OF _ admin_arrives]) simp
  then have "serve_reaches redact ?s0 ?s3" by (rule by_side [OF _ cancel])
  then have "serve_reaches redact ?s0 ?s4" by (rule by_main [OF _ ctx_done]) simp_all
  then have "serve_reaches redact ?s0 ?s5" by (rule by_main [OF _ capture_stopped]) simp_all
  then have "serve_reaches redact ?s0 ?s6" by (rule by_main [OF _ queue_closed]) simp
  then have "serve_reaches redact ?s0 ?s7"
    by (rule by_side [OF _ admin_panics]) (simp_all add: close_queue_def enter_def queue_close_def Enqueue_def)
  moreover have "sv_admin_panics ?s7 = 1 \<and> sv_ctx_done ?s7 \<and> \<not> sv_capture_timeout ?s7 \<and> \<not> sv_drain_timeout ?s7 \<and>
      sv_capture_err ?s7 = None \<and> sv_admin_err ?s7 = None"
    by (simp add: close_queue_def serve_start_def)
  ultimately show ?thesis by blast
qed

end
