(* ===== verification/Stdout.thy ===== *)
theory Stdout
  imports Records
begin

text \<open>
  The stdout sink of internal/sinks/stdout.go: one JSON object per record, in the envelope of its
  variant. \<open>enc\<close> is \<open>json.Marshal\<close> of an envelope (None an encoding error); the encoder appends a
  newline and hands the line to the writer in one call, which may fail. The mutex makes a
  write atomic, so the output is a list of lines.
\<close>

section \<open>Envelopes\<close>

record request_envelope =
  qe_kind :: record_kind
  qe_id :: string
  qe_timestamp :: time
  qe_method :: string
  qe_path :: string
  qe_query :: "hmap option"
  qe_headers :: "hmap option"
  qe_cookies :: "cookie list"
  qe_body :: string
  qe_body_truncated :: bool
  qe_body_original_size :: int
  qe_content_type :: string
  qe_source_ip :: string
  qe_service :: string
  qe_service_source :: string
  qe_correlation_id :: string
  qe_correlation_source :: string

definition requestEnvelope :: "captured_request \<Rightarrow> request_envelope" where
  "requestEnvelope r =
     \<lparr>qe_kind = KindRequest, qe_id = cr_id r, qe_timestamp = cr_timestamp r, qe_method = cr_method r,
      qe_path = cr_path r, qe_query = cr_query r, qe_headers = cr_headers r, qe_cookies = cr_cookies r,
      qe_body = cr_body r, qe_body_truncated = cr_body_truncated r, qe_body_original_size = cr_body_original_size r,
      qe_content_type = cr_content_type r, qe_source_ip = cr_source_ip r, qe_service = cr_service r,
      qe_service_source = cr_service_source r, qe_correlation_id = cr_correlation_id r,
      qe_correlation_source = cr_correlation_source r\<rparr>"

record response_envelope =
  pe_kind :: record_kind
  pe_id :: string
  pe_timestamp :: time
  pe_correlation_id :: string
  pe_correlation_source :: string
  pe_service :: string
  pe_service_source :: string
  pe_status :: int
  pe_headers :: "hmap option"
  pe_body :: string
  pe_body_truncated :: bool
  pe_body_original_size :: int
  pe_content_type :: string
  pe_duration_ms :: int

definition responseEnvelope :: "response_event \<Rightarrow> response_envelope" where
  "responseEnvelope r =
     \<lparr>pe_kind = KindResponseEvent, pe_id = re_id r, pe_timestamp = re_timestamp r,
      pe_correlation_id = re_correlation_id r, pe_correlation_source = re_correlation_source r,
      pe_service = re_service r, pe_service_source = re_service_source r, pe_status = re_status r,
      pe_headers = re_headers r, pe_body = re_body r, pe_body_truncated = re_body_truncated r,
      pe_body_original_size = re_body_original_size r, pe_content_type = re_content_type r,
      pe_duration_ms = re_duration_ms r\<rparr>"

record outbound_request_envelope =
  xq_method :: string
  xq_path :: string
  xq_headers :: "hmap option"
  xq_body :: string
  xq_body_truncated :: bool
  xq_body_original_size :: int
  xq_content_type :: string

record outbound_response_envelope =
  xr_status :: int
  xr_headers :: "hmap option"
  xr_body :: string
  xr_body_truncated :: bool
  xr_body_original_size :: int
  xr_content_type :: string

record outbound_envelope =
  xe_kind :: record_kind
  xe_id :: string
  xe_timestamp :: time
  xe_correlation_id :: string
  xe_correlation_source :: string
  xe_service :: string
  xe_service_source :: string
  xe_duration_ms :: int
  xe_request :: outbound_request_envelope
  xe_response :: "outbound_response_envelope option"

definition outboundEnvelope :: "outbound_event \<Rightarrow> outbound_envelope" where
  "outboundEnvelope r =
     \<lparr>xe_kind = KindOutboundEvent, xe_id = oe_id r, xe_timestamp = oe_timestamp r,
      xe_correlation_id = oe_correlation_id r, xe_correlation_source = oe_correlation_source r,
      xe_service = oe_service r, xe_service_source = oe_service_source r, xe_duration_ms = oe_duration_ms r,
      xe_request = (let q = oe_request r in
        \<lparr>xq_method = oq_method q, xq_path = oq_path q, xq_headers = oq_headers q, xq_body = oq_body q,
         xq_body_truncated = oq_body_truncated q, xq_body_original_size = oq_body_original_size q,
         xq_content_type = oq_content_type q\<rparr>),
      xe_response = map_option (\<lambda>h.
        \<lparr>xr_status = or_status h, xr_headers = or_headers h, xr_body = or_body h,
         xr_body_truncated = or_body_truncated h, xr_body_original_size = or_body_original_size h,
         xr_content_type = or_content_type h\<rparr>) (oe_response r)\<rparr>"

datatype envelope =
    RequestEnvelope request_envelope
  | ResponseEnvelope response_envelope
  | OutboundEnvelope outbound_envelope

section \<open>The sink\<close>

datatype stdout_error = EncodeError | WriteError

record stdout_sink =
  so_enc :: "envelope \<Rightarrow> string option"
  so_lines :: "string list"

definition NewWriterSink :: "(envelope \<Rightarrow> string option) \<Rightarrow> stdout_sink" where
  "NewWriterSink enc = \<lparr>so_enc = enc, so_lines = []\<rparr>"

definition NameStdout :: string where "NameStdout = ''stdout''"

definition encode_line :: "bool \<Rightarrow> envelope \<Rightarrow> stdout_sink \<Rightarrow> stdout_error option \<times> stdout_sink" where
  "encode_line ok env s =
     (case so_enc s env of
        None \<Rightarrow> (Some EncodeError, s)
      | Some line \<Rightarrow> if ok then (None, s\<lparr>so_lines := so_lines s @ [line]\<rparr>) else (Some WriteError, s))"

primrec record_envelope :: "capture_record \<Rightarrow> envelope" where
  "record_envelope (Request v) = RequestEnvelope (requestEnvelope v)"
| "record_envelope (Response v) = ResponseEnvelope (responseEnvelope v)"
| "record_envelope (Outbound v) = OutboundEnvelope (outboundEnvelope v)"

text \<open>The error is None on success. The variants are the three of Record, so the default case does not arise.\<close>

definition stdout_Write :: "bool \<Rightarrow> capture_record \<Rightarrow> stdout_sink \<Rightarrow> stdout_error option \<times> stdout_sink" where
  "stdout_Write ok r s = encode_line ok (record_envelope r) s"

section \<open>Reading the lines back\<close>

definition request_of :: "request_envelope \<Rightarrow> captured_request" where
  "request_of e =
     \<lparr>cr_id = qe_id e, cr_timestamp = qe_timestamp e, cr_method = qe_method e, cr_path = qe_path e,
      cr_query = qe_query e, cr_headers = qe_headers e, cr_cookies = qe_cookies e, cr_body = qe_body e,
      cr_body_truncated = qe_body_truncated e, cr_body_original_size = qe_body_original_size e,
      cr_content_type = qe_content_type e, cr_source_ip = qe_source_ip e, cr_service = qe_service e,
      cr_service_source = qe_service_source e, cr_correlation_id = qe_correlation_id e,
      cr_correlation_source = qe_correlation_source e\<rparr>"

definition response_of :: "response_envelope \<Rightarrow> response_event" where
  "response_of e =
     \<lparr>re_id = pe_id e, re_timestamp = pe_timestamp e, re_correlation_id = pe_correlation_id e,
      re_correlation_source = pe_correlation_source e, re_service = pe_service e,
      re_service_source = pe_service_source e, re_status = pe_status e, re_headers = pe_headers e,
      re_body = pe_body e, re_body_truncated = pe_body_truncated e,
      re_body_original_size = pe_body_original_size e, re_content_type = pe_content_type e,
      re_duration_ms = pe_duration_ms e\<rparr>"

definition outbound_of :: "outbound_envelope \<Rightarrow> outbound_event" where
  "outbound_of e =
     \<lparr>oe_id = xe_id e, oe_timestamp = xe_timestamp e, oe_correlation_id = xe_correlation_id e,
      oe_correlation_source = xe_correlation_source e, oe_service = xe_service e,
      oe_service_source = xe_service_source e, oe_duration_ms = xe_duration_ms e,
      oe_request = (let q = xe_request e in
        \<lparr>oq_method = xq_method q, oq_path = xq_path q, oq_headers = xq_headers q, oq_body = xq_body q,
         oq_body_truncated = xq_body_truncated q, oq_body_original_size = xq_body_original_size q,
         oq_content_type = xq_content_type q\<rparr>),
      oe_response = map_option (\<lambda>h.
        \<lparr>or_status = xr_status h, or_headers = xr_headers h, or_body = xr_body h,
         or_body_truncated = xr_body_truncated h, or_body_original_size = xr_body_original_size h,
         or_content_type = xr_content_type h\<rparr>) (xe_response e)\<rparr>"

text \<open>A consumer dispatches on the kind field, as the variants share no other discriminator.\<close>

primrec envelope_kind :: "envelope \<Rightarrow> record_kind" where
  "envelope_kind (RequestEnvelope e) = qe_kind e"
| "envelope_kind (ResponseEnvelope e) = pe_kind e"
| "envelope_kind (OutboundEnvelope e) = xe_kind e"

primrec envelope_record :: "envelope \<Rightarrow> capture_record" where
  "envelope_record (RequestEnvelope e) = Request (request_of e)"
| "envelope_record (ResponseEnvelope e) = Response (response_of e)"
| "envelope_record (OutboundEnvelope e) = Outbound (outbound_of e)"

lemma envelope_record_inverse: "envelope_record (record_envelope r) = r"
proof (cases r)
  case (Outbound v)
  have "map_option (\<lambda>h. outbound_response_half.make (or_status h) (or_headers h) (or_body h) (or_body_truncated h)
      (or_body_original_size h) (or_content_type h)) x = x" for x
    by (cases x) (simp_all add: outbound_response_half.defs)
  then show ?thesis using Outbound
    by (simp add: outboundEnvelope_def outbound_of_def option.map_comp comp_def outbound_response_half.defs Let_def)
qed (simp_all add: requestEnvelope_def request_of_def responseEnvelope_def response_of_def)

lemma envelope_kind_record: "envelope_kind (record_envelope r) = Kind r"
  by (cases r) (simp_all add: requestEnvelope_def responseEnvelope_def outboundEnvelope_def)

text \<open>The sink after a sequence of writes with the outcomes of the writer.\<close>

definition write_all :: "(bool \<times> capture_record) list \<Rightarrow> stdout_sink \<Rightarrow> stdout_sink" where
  "write_all ws s = foldl (\<lambda>s (ok, r). snd (stdout_Write ok r s)) s ws"

definition line_of :: "(envelope \<Rightarrow> string option) \<Rightarrow> bool \<times> capture_record \<Rightarrow> string option" where
  "line_of enc w = (if fst w then enc (record_envelope (snd w)) else None)"

lemma write_one:
  "so_enc (snd (stdout_Write ok r s)) = so_enc s"
  "so_lines (snd (stdout_Write ok r s)) = so_lines s @ (case line_of (so_enc s) (ok, r) of None \<Rightarrow> [] | Some l \<Rightarrow> [l])"
  by (simp_all add: line_of_def stdout_Write_def encode_line_def split: option.split)

lemma write_all_lines: "so_lines (write_all ws s) = so_lines s @ List.map_filter (line_of (so_enc s)) ws"
proof (induction ws arbitrary: s)
  case (Cons w ws)
  have "write_all (w # ws) s = write_all ws (snd (stdout_Write (fst w) (snd w) s))" by (simp add: write_all_def case_prod_beta)
  with Cons [of "snd (stdout_Write (fst w) (snd w) s)"] show ?case
    by (simp add: write_one List.map_filter_simps split: option.split)
qed (simp add: write_all_def List.map_filter_simps)

section \<open>Properties\<close>



end
