(* ===== verification/Redact.thy ===== *)
theory Redact
  imports Records
begin

text \<open>
  The redaction engine of internal/redact/ruleset.go. The libraries it calls are arguments,
  collected in the record \<open>redact_libs\<close>: gjson and sjson (validity, existence of a path,
  replacement of a path), package regexp (compiling a pattern to the function that replaces
  its matches by the marker; the marker has no dollar sign, so the template and the literal
  replacement agree) and \<open>mime.ParseMediaType\<close> (None for an error). Header and query maps are
  copied before they are rewritten, so redaction is a function of the record.
\<close>

definition Redacted :: string where "Redacted = ''[REDACTED]''"

record redact_libs =
  lib_lower :: unicode_map
  lib_json_valid :: "string \<Rightarrow> bool"
  lib_json_exists :: "string \<Rightarrow> string \<Rightarrow> bool"
  lib_json_set :: "string \<Rightarrow> string \<Rightarrow> string \<Rightarrow> string option"
  lib_regex :: "string \<Rightarrow> (string \<Rightarrow> string) option"
  lib_media_type :: "string \<Rightarrow> string option"

section \<open>Rules\<close>

datatype cookie_mode = CookieModeRedact | CookieModeStrip | CookieModeAllowlist

record cookie_rule =
  cru_mode :: cookie_mode
  cru_names :: "string list"

record regex_rule =
  rx_name :: string
  rx_replace :: "string \<Rightarrow> string"

record ruleset =
  rs_header_names :: "string list"
  rs_query_params :: "string list"
  rs_json_paths :: "string list"
  rs_regex :: "regex_rule list"
  rs_cookies :: "cookie_rule list"

record redaction_config =
  rc_headers :: "string list"
  rc_query_params :: "string list"
  rc_json_paths :: "string list"
  rc_cookies :: "(string \<times> string list) list"
  rc_regex :: "(string \<times> string) list"

datatype rule_error = EmptyJSONPath | BadJSONPath string | UnknownCookieMode string
  | EmptyRegexName | EmptyRegexPattern string | BadRegex string

definition validateJSONPath :: "redact_libs \<Rightarrow> string \<Rightarrow> rule_error option" where
  "validateJSONPath L path =
     (if path = [] then Some EmptyJSONPath
      else (case lib_json_set L ''{}'' path ''_'' of None \<Rightarrow> Some (BadJSONPath path) | Some _ \<Rightarrow> None))"

definition parseCookieMode :: "string \<Rightarrow> rule_error + cookie_mode" where
  "parseCookieMode s =
     (if s = [] \<or> s = ''redact'' then Inr CookieModeRedact
      else if s = ''strip'' then Inr CookieModeStrip
      else if s = ''allowlist'' then Inr CookieModeAllowlist
      else Inl (UnknownCookieMode s))"

fun check_paths :: "redact_libs \<Rightarrow> string list \<Rightarrow> rule_error option" where
  "check_paths L [] = None"
| "check_paths L (p # ps) = (case validateJSONPath L p of Some e \<Rightarrow> Some e | None \<Rightarrow> check_paths L ps)"

fun cookie_rules :: "(string \<times> string list) list \<Rightarrow> rule_error + cookie_rule list" where
  "cookie_rules [] = Inr []"
| "cookie_rules ((m, ns) # cs) =
     (case parseCookieMode m of
        Inl e \<Rightarrow> Inl e
      | Inr mode \<Rightarrow> (case cookie_rules cs of Inl e \<Rightarrow> Inl e
          | Inr rs \<Rightarrow> Inr (\<lparr>cru_mode = mode, cru_names = ns\<rparr> # rs)))"

fun regex_rules :: "redact_libs \<Rightarrow> (string \<times> string) list \<Rightarrow> rule_error + regex_rule list" where
  "regex_rules L [] = Inr []"
| "regex_rules L ((nm, pat) # rs) =
     (if nm = [] then Inl EmptyRegexName
      else if pat = [] then Inl (EmptyRegexPattern nm)
      else (case lib_regex L pat of
              None \<Rightarrow> Inl (BadRegex nm)
            | Some f \<Rightarrow> (case regex_rules L rs of Inl e \<Rightarrow> Inl e
                | Inr rules \<Rightarrow> Inr (\<lparr>rx_name = nm, rx_replace = f\<rparr> # rules))))"

definition NewRuleset :: "redact_libs \<Rightarrow> redaction_config \<Rightarrow> rule_error + ruleset" where
  "NewRuleset L cfg =
     (case check_paths L (rc_json_paths cfg) of
        Some e \<Rightarrow> Inl e
      | None \<Rightarrow>
          (case cookie_rules (rc_cookies cfg) of
             Inl e \<Rightarrow> Inl e
           | Inr cookies \<Rightarrow>
               (case regex_rules L (rc_regex cfg) of
                  Inl e \<Rightarrow> Inl e
                | Inr regex \<Rightarrow>
                    Inr \<lparr>rs_header_names = map (ToLower (lib_lower L)) (rc_headers cfg),
                      rs_query_params = map (ToLower (lib_lower L)) (rc_query_params cfg),
                      rs_json_paths = rc_json_paths cfg, rs_regex = regex, rs_cookies = cookies\<rparr>)))"

definition IsUnredacted :: "ruleset \<Rightarrow> bool" where
  "IsUnredacted r = (rs_header_names r = [] \<and> rs_query_params r = [] \<and> rs_json_paths r = [] \<and>
     rs_regex r = [] \<and> rs_cookies r = [])"

section \<open>Header, query and regex rules\<close>

definition redact_values :: "string list \<Rightarrow> string list" where
  "redact_values vals = map (\<lambda>_. Redacted) vals"

definition applyHeaderRulesMap :: "redact_libs \<Rightarrow> string list \<Rightarrow> hmap \<Rightarrow> hmap" where
  "applyHeaderRulesMap L rules headers =
     map (\<lambda>(key, vals). (key, if ToLower (lib_lower L) key \<in> set rules then redact_values vals else vals)) headers"

definition applyQueryRules :: "redact_libs \<Rightarrow> string list \<Rightarrow> hmap \<Rightarrow> hmap" where
  "applyQueryRules L rules query =
     map (\<lambda>(key, vals). (key, if ToLower (lib_lower L) key \<in> set rules then redact_values vals else vals)) query"

definition apply_regexes :: "regex_rule list \<Rightarrow> string \<Rightarrow> string" where
  "apply_regexes rules v = foldl (\<lambda>v rule. rx_replace rule v) v rules"

definition applyRegexRulesBody :: "regex_rule list \<Rightarrow> string \<Rightarrow> string" where
  "applyRegexRulesBody rules body = (if rules = [] \<or> body = [] then body else apply_regexes rules body)"

definition applyRegexRulesHeaderMap :: "regex_rule list \<Rightarrow> hmap \<Rightarrow> hmap" where
  "applyRegexRulesHeaderMap rules headers =
     (if rules = [] then headers else map (\<lambda>(key, vals). (key, map (apply_regexes rules) vals)) headers)"

text \<open>One rule at a time over body, headers and query; the body must be non-empty at the start.\<close>

fun regex_captured_loop :: "bool \<Rightarrow> regex_rule list \<Rightarrow> string \<times> hmap \<times> hmap \<Rightarrow> string \<times> hmap \<times> hmap" where
  "regex_captured_loop eligible [] st = st"
| "regex_captured_loop eligible (rule # rules) (body, headers, query) =
     regex_captured_loop eligible rules
       (if eligible then rx_replace rule body else body,
        applyRegexRulesHeaderMap [rule] headers,
        map (\<lambda>(key, vals). (key, map (rx_replace rule) vals)) query)"

definition applyRegexRulesCaptured :: "regex_rule list \<Rightarrow> string \<times> hmap \<times> hmap \<Rightarrow> string \<times> hmap \<times> hmap" where
  "applyRegexRulesCaptured rules st =
     (if rules = [] then st else regex_captured_loop (fst st \<noteq> []) rules st)"

section \<open>JSON-path rules\<close>

definition parseMediaType :: "redact_libs \<Rightarrow> string \<Rightarrow> string" where
  "parseMediaType L ct =
     (if ct = [] then []
      else (case lib_media_type L ct of
              Some media \<Rightarrow> media
            | None \<Rightarrow>
                ToLower (lib_lower L)
                  (case index_byte ct (CHR '';'') of
                     Some idx \<Rightarrow> TrimSpace (take idx ct) | None \<Rightarrow> TrimSpace ct)))"

definition isJSONContentType :: "redact_libs \<Rightarrow> string \<Rightarrow> bool" where
  "isJSONContentType L ct =
     (let media = parseMediaType L ct in
      if media = [] then False
      else if media = ''application/json'' then True
      else has_suffix media ''+json'')"

definition isTextLikeContentType :: "redact_libs \<Rightarrow> string \<Rightarrow> bool" where
  "isTextLikeContentType L ct =
     (let media = parseMediaType L ct in
      if media = [] then False
      else if media \<in> {''application/json'', ''application/xml'', ''application/x-www-form-urlencoded''} then True
      else if has_prefix media ''text/'' then True
      else has_suffix media ''+json'' \<or> has_suffix media ''+xml'')"

fun json_loop :: "redact_libs \<Rightarrow> string list \<Rightarrow> string \<times> counter \<Rightarrow> string \<times> counter" where
  "json_loop L [] st = st"
| "json_loop L (path # rules) (b, errs) =
     (if \<not> lib_json_exists L b path then json_loop L rules (b, errs)
      else (case lib_json_set L b path Redacted of
              None \<Rightarrow> json_loop L rules (b, errs + 1)
            | Some b' \<Rightarrow> json_loop L rules (b', errs)))"

definition applyJSONPathRulesBody :: "redact_libs \<Rightarrow> string list \<Rightarrow> string \<Rightarrow> string \<times> counter \<Rightarrow> string \<times> counter" where
  "applyJSONPathRulesBody L rules contentType st =
     (case st of (body, errs) \<Rightarrow>
      if rules = [] \<or> body = [] then (body, errs)
      else if \<not> lib_json_valid L body
        then (body, if isJSONContentType L contentType then errs + 1 else errs)
      else json_loop L rules (body, errs))"

section \<open>Cookie rules\<close>

definition cookieName :: "string \<Rightarrow> string" where
  "cookieName token =
     (let trimmed0 = trim_blanks token;
          trimmed = (case index_byte trimmed0 (CHR '';'') of Some semi \<Rightarrow> take semi trimmed0 | None \<Rightarrow> trimmed0)
      in case index_byte trimmed (CHR ''='') of
           None \<Rightarrow> TrimSpace trimmed
         | Some eq \<Rightarrow> TrimSpace (take eq trimmed))"

definition replaceCookieValue :: "string \<Rightarrow> string" where
  "replaceCookieValue token =
     (let leadingEnd = length token - length (trim_blanks token); rest = drop leadingEnd token in
      case index_byte rest (CHR ''='') of
        None \<Rightarrow> token
      | Some eq \<Rightarrow>
          (let valueStart = leadingEnd + eq + 1 in
           case index_byte (drop valueStart token) (CHR '';'') of
             None \<Rightarrow> take valueStart token @ Redacted
           | Some attrStart \<Rightarrow> take valueStart token @ Redacted @ drop (valueStart + attrStart) token))"

definition joinCookieParts :: "string list \<Rightarrow> string" where
  "joinCookieParts parts = (case parts of [] \<Rightarrow> [] | p # ps \<Rightarrow> join '';'' (trim_blanks p # ps))"

definition cookie_part :: "cookie_rule \<Rightarrow> string \<Rightarrow> string list" where
  "cookie_part rule raw =
     (let name = cookieName raw in
      if name = [] then [raw]
      else (let matched = (name \<in> set (cru_names rule)) in
        case cru_mode rule of
          CookieModeRedact \<Rightarrow> if matched then [replaceCookieValue raw] else [raw]
        | CookieModeStrip \<Rightarrow> if matched then [] else [raw]
        | CookieModeAllowlist \<Rightarrow> if matched then [raw] else []))"

definition applyRuleToCookieHeader :: "cookie_rule \<Rightarrow> string \<Rightarrow> string" where
  "applyRuleToCookieHeader rule value =
     (if value = [] then value
      else joinCookieParts (concat (map (cookie_part rule) (split_on (CHR '';'') value))))"

text \<open>\<open>None\<close> is the drop flag.\<close>

definition applyRuleToSetCookieHeader :: "cookie_rule \<Rightarrow> string \<Rightarrow> string option" where
  "applyRuleToSetCookieHeader rule value =
     (if value = [] then Some value
      else (let name = cookieName value in
        if name = [] then Some value
        else (let matched = (name \<in> set (cru_names rule)) in
          case cru_mode rule of
            CookieModeRedact \<Rightarrow> Some (if matched then replaceCookieValue value else value)
          | CookieModeStrip \<Rightarrow> if matched then None else Some value
          | CookieModeAllowlist \<Rightarrow> if matched then Some value else None)))"

text \<open>The key as the map has it: the canonical one if present, else the first that canonicalises to it.\<close>

definition findHeaderKey :: "hmap \<Rightarrow> string \<Rightarrow> string" where
  "findHeaderKey headers canonical =
     (if canonical \<in> set (map fst headers) then canonical
      else (case find (\<lambda>k. CanonicalMIMEHeaderKey k = canonical) (map fst headers) of
              Some k \<Rightarrow> k | None \<Rightarrow> []))"

definition map_values :: "string \<Rightarrow> (string list \<Rightarrow> string list option) \<Rightarrow> hmap \<Rightarrow> hmap" where
  "map_values key f headers =
     List.map_filter (\<lambda>(k, vs). if k = key then map_option (\<lambda>ws. (k, ws)) (f vs) else Some (k, vs)) headers"

definition cookie_values :: "cookie_rule \<Rightarrow> string list \<Rightarrow> string list option" where
  "cookie_values rule vals =
     (let ws = map (applyRuleToCookieHeader rule) vals in
      if list_all (\<lambda>v. v = []) ws then None else Some ws)"

definition set_cookie_values :: "cookie_rule \<Rightarrow> string list \<Rightarrow> string list option" where
  "set_cookie_values rule vals =
     (let ws = List.map_filter (applyRuleToSetCookieHeader rule) vals in if ws = [] then None else Some ws)"

fun cookie_header_loop :: "string \<Rightarrow> string \<Rightarrow> cookie_rule list \<Rightarrow> hmap \<Rightarrow> hmap" where
  "cookie_header_loop ck sck [] headers = headers"
| "cookie_header_loop ck sck (rule # rules) headers =
     (let h1 = (if ck \<noteq> [] then map_values ck (cookie_values rule) headers else headers);
          ck1 = (if ck \<in> set (map fst h1) then ck else []);
          h2 = (if sck \<noteq> [] then map_values sck (set_cookie_values rule) h1 else h1);
          sck1 = (if sck \<in> set (map fst h2) then sck else [])
      in cookie_header_loop ck1 sck1 rules h2)"

definition applyCookieRulesToHeaders :: "cookie_rule list \<Rightarrow> hmap \<Rightarrow> hmap" where
  "applyCookieRulesToHeaders rules headers =
     (if rules = [] then headers
      else cookie_header_loop (findHeaderKey headers ''Cookie'') (findHeaderKey headers ''Set-Cookie'') rules headers)"

definition filter_cookie :: "cookie_rule \<Rightarrow> cookie \<Rightarrow> cookie list" where
  "filter_cookie rule c =
     (let matched = (ck_name c \<in> set (cru_names rule)) in
      case cru_mode rule of
        CookieModeRedact \<Rightarrow> [if matched then c\<lparr>ck_value := Redacted\<rparr> else c]
      | CookieModeStrip \<Rightarrow> if matched then [] else [c]
      | CookieModeAllowlist \<Rightarrow> if matched then [c] else [])"

definition redactCookieSlice :: "cookie_rule list \<Rightarrow> cookie list \<Rightarrow> cookie list" where
  "redactCookieSlice rules cs = foldl (\<lambda>cs rule. concat (map (filter_cookie rule) cs)) cs rules"

definition applyCookieRules :: "cookie_rule list \<Rightarrow> captured_request \<Rightarrow> captured_request" where
  "applyCookieRules rules out =
     (case cr_headers out of
        None \<Rightarrow> out
      | Some h \<Rightarrow>
          if rules = [] then out
          else out\<lparr>cr_headers := Some (applyCookieRulesToHeaders rules h),
                   cr_cookies := (if cr_cookies out \<noteq> [] then redactCookieSlice rules (cr_cookies out) else cr_cookies out)\<rparr>)"

section \<open>Redacting records\<close>

text \<open>Each function returns the redacted record and the error counter.\<close>

definition redactCapturedRequest :: "redact_libs \<Rightarrow> ruleset \<Rightarrow> captured_request \<Rightarrow> counter \<Rightarrow> captured_request \<times> counter" where
  "redactCapturedRequest L r rec errs =
     (let o1 = applyCookieRules (rs_cookies r) rec;
          o2 = o1\<lparr>cr_headers := map_option (applyHeaderRulesMap L (rs_header_names r)) (cr_headers o1)\<rparr>;
          o3 = o2\<lparr>cr_query := map_option (applyQueryRules L (rs_query_params r)) (cr_query o2)\<rparr>;
          (body, errs') = applyJSONPathRulesBody L (rs_json_paths r) (cr_content_type o3) (cr_body o3, errs);
          (body', h, q) = applyRegexRulesCaptured (rs_regex r) (body, entries (cr_headers o3), entries (cr_query o3))
      in (o3\<lparr>cr_body := body', cr_headers := map_option (\<lambda>_. h) (cr_headers o3), cr_query := map_option (\<lambda>_. q) (cr_query o3)\<rparr>, errs'))"

text \<open>The common treatment of a half that has headers, a body and a content type.\<close>

definition redact_half :: "redact_libs \<Rightarrow> ruleset \<Rightarrow> hmap option \<Rightarrow> string \<Rightarrow> string \<Rightarrow> counter \<Rightarrow> hmap option \<times> string \<times> counter" where
  "redact_half L r headers body contentType errs =
     (let h1 = map_option (applyCookieRulesToHeaders (rs_cookies r)) headers;
          h2 = map_option (applyHeaderRulesMap L (rs_header_names r)) h1;
          (b, errs') = applyJSONPathRulesBody L (rs_json_paths r) contentType (body, errs)
      in (map_option (applyRegexRulesHeaderMap (rs_regex r)) h2, applyRegexRulesBody (rs_regex r) b, errs'))"

definition redactResponseEvent :: "redact_libs \<Rightarrow> ruleset \<Rightarrow> response_event \<Rightarrow> counter \<Rightarrow> response_event \<times> counter" where
  "redactResponseEvent L r rec errs =
     (let (h, b, errs') = redact_half L r (re_headers rec) (re_body rec) (re_content_type rec) errs
      in (rec\<lparr>re_headers := h, re_body := b\<rparr>, errs'))"

definition redactOutboundEvent :: "redact_libs \<Rightarrow> ruleset \<Rightarrow> outbound_event \<Rightarrow> counter \<Rightarrow> outbound_event \<times> counter" where
  "redactOutboundEvent L r rec errs =
     (let q = oe_request rec;
          (h, b, errs1) = redact_half L r (oq_headers q) (oq_body q) (oq_content_type q) errs;
          rec1 = rec\<lparr>oe_request := q\<lparr>oq_headers := h, oq_body := b\<rparr>\<rparr>
      in case oe_response rec1 of
           None \<Rightarrow> (rec1, errs1)
         | Some p \<Rightarrow>
             (let (h', b', errs2) = redact_half L r (or_headers p) (or_body p) (or_content_type p) errs1
              in (rec1\<lparr>oe_response := Some (p\<lparr>or_headers := h', or_body := b'\<rparr>)\<rparr>, errs2)))"

definition Redact :: "redact_libs \<Rightarrow> ruleset \<Rightarrow> capture_record \<Rightarrow> counter \<Rightarrow> capture_record \<times> counter" where
  "Redact L r rec errs =
     (if IsUnredacted r then (rec, errs)
      else (case rec of
        Request v \<Rightarrow> (let (v', e) = redactCapturedRequest L r v errs in (Request v', e))
      | Response v \<Rightarrow> (let (v', e) = redactResponseEvent L r v errs in (Response v', e))
      | Outbound v \<Rightarrow> (let (v', e) = redactOutboundEvent L r v errs in (Outbound v', e))))"

section \<open>Cookie headers and cookie lists\<close>

text \<open>
  The text of a Cookie header as a client writes it, and the cookies it can carry: a name
  without separators or surrounding white space, a value without a semicolon.
\<close>

definition cookie_text :: "cookie \<Rightarrow> string" where
  "cookie_text c = ck_name c @ ''='' @ ck_value c"

definition cookie_line :: "cookie list \<Rightarrow> string" where
  "cookie_line cs = join ''; '' (map cookie_text cs)"

definition cookie_ok :: "cookie \<Rightarrow> bool" where
  "cookie_ok c = (ck_name c \<noteq> [] \<and> TrimSpace (ck_name c) = ck_name c \<and> trim_blanks (ck_name c) = ck_name c \<and>
     CHR '';'' \<notin> set (ck_name c) \<and> CHR ''='' \<notin> set (ck_name c) \<and> CHR '';'' \<notin> set (ck_value c))"

definition spaced :: "cookie list \<Rightarrow> string list" where
  "spaced cs = (case cs of [] \<Rightarrow> [] | c # cs \<Rightarrow> cookie_text c # map (\<lambda>c. '' '' @ cookie_text c) cs)"

lemma join_Cons_Cons: "join sep ((x # p) # ps) = x # join sep (p # ps)"
  by (cases ps) simp_all

lemma cookie_line_spaced: "cookie_line cs = join '';'' (spaced cs)"
proof (induction cs)
  case (Cons c cs)
  then show ?case by (cases cs) (simp_all add: cookie_line_def spaced_def join_Cons_Cons)
qed (simp add: cookie_line_def spaced_def)

lemma trim_blanks_lead:
  assumes "cookie_ok c" and "lead = [] \<or> lead = '' ''"
  shows "trim_blanks (lead @ cookie_text c) = cookie_text c"
proof -
  have "ck_name c \<noteq> []" and "\<not> (hd (ck_name c) = CHR '' '' \<or> hd (ck_name c) = CHR 0x09)"
    using assms by (auto simp: trim_blanks_def cookie_ok_def dropWhile_eq_self_iff)
  then show ?thesis using assms(2) by (cases "ck_name c") (auto simp: trim_blanks_def cookie_text_def)
qed

lemma cookieName_lead:
  assumes "cookie_ok c" and "lead = [] \<or> lead = '' ''"
  shows "cookieName (lead @ cookie_text c) = ck_name c"
proof -
  have n: "CHR '';'' \<notin> set (cookie_text c)" using assms by (auto simp: cookie_ok_def cookie_text_def)
  have "index_byte (cookie_text c) (CHR ''='') = Some (length (ck_name c))"
    using assms by (auto simp: cookie_ok_def cookie_text_def intro: index_byte_append)
  moreover have "index_byte (cookie_text c) (CHR '';'') = None" using n by simp
  ultimately have "cookieName (lead @ cookie_text c) = TrimSpace (take (length (ck_name c)) (cookie_text c))"
    by (simp add: cookieName_def trim_blanks_lead [OF assms] del: index_byte_None)
  then show ?thesis using assms by (simp add: cookie_text_def cookie_ok_def)
qed

lemma replaceCookieValue_lead:
  assumes "cookie_ok c" and "lead = [] \<or> lead = '' ''"
  shows "replaceCookieValue (lead @ cookie_text c) = lead @ cookie_text (c\<lparr>ck_value := Redacted\<rparr>)"
proof -
  have i: "index_byte (cookie_text c) (CHR ''='') = Some (length (ck_name c))"
    using assms by (auto simp: cookie_ok_def cookie_text_def intro: index_byte_append)
  have r: "drop (length lead) (lead @ cookie_text c) = cookie_text c" by simp
  have d: "drop (length lead + length (ck_name c) + 1) (lead @ cookie_text c) = ck_value c"
    by (simp add: cookie_text_def)
  have t: "take (length lead + length (ck_name c) + 1) (lead @ cookie_text c) = lead @ ck_name c @ ''=''"
    by (simp add: cookie_text_def)
  have v: "index_byte (ck_value c) (CHR '';'') = None" using assms by (simp add: cookie_ok_def)
  have l: "length (lead @ cookie_text c) - length (trim_blanks (lead @ cookie_text c)) = length lead"
    by (simp add: trim_blanks_lead [OF assms])
  show ?thesis
    unfolding replaceCookieValue_def l Let_def
    by (simp add: r i d t v del: index_byte_None One_nat_def drop_append take_append)
       (simp add: cookie_text_def)
qed

lemma cookie_part_lead:
  assumes "cookie_ok c" and "lead = [] \<or> lead = '' ''"
  shows "cookie_part rule (lead @ cookie_text c) = map (\<lambda>c. lead @ cookie_text c) (filter_cookie rule c)"
proof -
  have "ck_name c \<noteq> []" using assms by (simp add: cookie_ok_def)
  then show ?thesis
    by (simp add: cookie_part_def filter_cookie_def cookieName_lead [OF assms] replaceCookieValue_lead [OF assms] Let_def
        split: cookie_mode.split)
qed

lemma cookie_ok_filter: "cookie_ok c \<Longrightarrow> c' \<in> set (filter_cookie rule c) \<Longrightarrow> cookie_ok c'"
  by (auto simp: filter_cookie_def cookie_ok_def Redacted_def Let_def split: cookie_mode.splits if_splits)

lemma joinCookieParts_spaced:
  assumes "length cs \<le> 1" and "\<forall>c \<in> set cs. cookie_ok c" and "\<forall>c \<in> set ds. cookie_ok c"
  shows "joinCookieParts (map cookie_text cs @ map (\<lambda>c. '' '' @ cookie_text c) ds) = cookie_line (cs @ ds)"
proof -
  consider "cs = []" | c where "cs = [c]" using assms(1) by (cases cs) auto
  then show ?thesis
  proof cases
    case 1
    then show ?thesis using assms trim_blanks_lead [of _ "'' ''"]
      by (cases ds) (auto simp: joinCookieParts_def cookie_line_spaced spaced_def)
  next
    case 2
    then show ?thesis using assms trim_blanks_lead [of _ "[]"]
      by (auto simp: joinCookieParts_def cookie_line_spaced spaced_def)
  qed
qed

lemma applyRuleToCookieHeader_line:
  assumes ok: "\<forall>c \<in> set cs. cookie_ok c"
  shows "applyRuleToCookieHeader rule (cookie_line cs) = cookie_line (concat (map (filter_cookie rule) cs))"
proof (cases cs)
  case (Cons c ds)
  have ne: "cookie_line cs \<noteq> []" using Cons by (cases ds) (auto simp: cookie_line_def cookie_text_def)
  have "split_on (CHR '';'') (cookie_line cs) = spaced cs"
    unfolding cookie_line_spaced
    by (rule split_on_join) (use ok Cons in \<open>auto simp: spaced_def cookie_text_def cookie_ok_def\<close>)
  then have "applyRuleToCookieHeader rule (cookie_line cs) = joinCookieParts (concat (map (cookie_part rule) (spaced cs)))"
    using ne by (simp add: applyRuleToCookieHeader_def)
  also have "concat (map (cookie_part rule) (spaced cs)) =
      map cookie_text (filter_cookie rule c) @ map (\<lambda>c. '' '' @ cookie_text c) (concat (map (filter_cookie rule) ds))"
  proof -
    have "map (cookie_part rule) (map (\<lambda>c. '' '' @ cookie_text c) ds) =
        map (\<lambda>c. map (\<lambda>c. '' '' @ cookie_text c) (filter_cookie rule c)) ds"
      using ok Cons cookie_part_lead [of _ "'' ''" rule] by simp
    moreover have "cookie_part rule (cookie_text c) = map cookie_text (filter_cookie rule c)"
      using ok Cons cookie_part_lead [of c "[]" rule] by simp
    ultimately show ?thesis unfolding Cons spaced_def list.case list.map(2) concat.simps
      by (simp add: map_concat comp_def cong: map_cong)
  qed
  also have "joinCookieParts \<dots> = cookie_line (filter_cookie rule c @ concat (map (filter_cookie rule) ds))"
  proof -
    have "length (filter_cookie rule c) \<le> 1" by (simp add: filter_cookie_def Let_def split: cookie_mode.split)
    moreover have "\<forall>x \<in> set (filter_cookie rule c). cookie_ok x" "\<forall>x \<in> set (concat (map (filter_cookie rule) ds)). cookie_ok x"
      using ok Cons by (auto dest: cookie_ok_filter)
    ultimately show ?thesis by (rule joinCookieParts_spaced)
  qed
  finally show ?thesis using Cons by simp
qed (simp add: applyRuleToCookieHeader_def cookie_line_def)

text \<open>What a list of rules makes of a cookie: kept or not, and its value hidden or not.\<close>

definition keeps :: "cookie_rule list \<Rightarrow> string \<Rightarrow> bool" where
  "keeps rules n = list_all (\<lambda>rule. case cru_mode rule of
      CookieModeRedact \<Rightarrow> True
    | CookieModeStrip \<Rightarrow> n \<notin> set (cru_names rule)
    | CookieModeAllowlist \<Rightarrow> n \<in> set (cru_names rule)) rules"

definition hides :: "cookie_rule list \<Rightarrow> string \<Rightarrow> bool" where
  "hides rules n = list_ex (\<lambda>rule. cru_mode rule = CookieModeRedact \<and> n \<in> set (cru_names rule)) rules"

definition hide_value :: "cookie_rule list \<Rightarrow> cookie \<Rightarrow> cookie" where
  "hide_value rules c = (if hides rules (ck_name c) then c\<lparr>ck_value := Redacted\<rparr> else c)"

lemma hide_value_name [simp]: "ck_name (hide_value rules c) = ck_name c"
  by (simp add: hide_value_def)

lemma redactCookieSlice_Cons:
  "redactCookieSlice (rule # rules) cs = redactCookieSlice rules (concat (map (filter_cookie rule) cs))"
  by (simp add: redactCookieSlice_def)

lemma filter_cookies_one:
  "concat (map (filter_cookie rule) cs) = map (hide_value [rule]) (filter (\<lambda>c. keeps [rule] (ck_name c)) cs)"
  by (induction cs) (auto simp: filter_cookie_def keeps_def hides_def hide_value_def Let_def split: cookie_mode.split)

lemma hide_value_Cons: "hide_value rules (hide_value [rule] c) = hide_value (rule # rules) c"
  by (simp add: hide_value_def hides_def)

lemma hide_value_Nil: "hide_value [] = id"
  by (simp add: hide_value_def hides_def fun_eq_iff)

lemma keeps_Cons: "keeps (rule # rules) n \<longleftrightarrow> keeps [rule] n \<and> keeps rules n"
  by (simp add: keeps_def)

lemma redactCookieSlice_closed:
  "redactCookieSlice rules cs = map (hide_value rules) (filter (\<lambda>c. keeps rules (ck_name c)) cs)"
proof (induction rules arbitrary: cs)
  case (Cons rule rules)
  have "filter (\<lambda>c. keeps rules (ck_name c)) (map (hide_value [rule]) (filter (\<lambda>c. keeps [rule] (ck_name c)) cs)) =
      map (hide_value [rule]) (filter (\<lambda>c. keeps (rule # rules) (ck_name c)) cs)"
    by (simp add: filter_map comp_def keeps_Cons [of rule rules] conj_commute)
  then show ?case by (simp add: redactCookieSlice_Cons Cons.IH filter_cookies_one hide_value_Cons)
qed (simp add: redactCookieSlice_def keeps_def hide_value_Nil)

lemma redactCookieSlice_Nil [simp]: "redactCookieSlice rules [] = []"
  by (simp add: redactCookieSlice_closed)

lemma cookie_ok_slice: "\<forall>c \<in> set cs. cookie_ok c \<Longrightarrow> \<forall>c \<in> set (redactCookieSlice rules cs). cookie_ok c"
  by (auto simp: redactCookieSlice_closed hide_value_def cookie_ok_def Redacted_def)

lemma cookie_line_Nil [simp]: "cookie_line cs = [] \<longleftrightarrow> cs = []"
proof (cases cs)
  case (Cons c ds)
  then show ?thesis by (cases ds) (auto simp: cookie_line_def cookie_text_def)
qed (simp add: cookie_line_def)

lemma map_values_simps [simp]:
  "map_values key f [] = []"
  "map_values key f ((k, vs) # h) =
     (if k = key then (case f vs of None \<Rightarrow> map_values key f h | Some ws \<Rightarrow> (k, ws) # map_values key f h)
      else (k, vs) # map_values key f h)"
  by (simp_all add: map_values_def List.map_filter_def split: option.split)

lemma map_values_other: "k \<noteq> key \<Longrightarrow> map_of (map_values key f h) k = map_of h k"
  by (induction h) (auto split: option.split)

lemma map_values_keys: "k \<in> fst ` set (map_values key f h) \<Longrightarrow> k \<in> fst ` set h"
proof (induction h)
  case (Cons e h)
  then show ?case by (cases e; cases "f (snd e)"; cases "fst e = key") auto
qed simp

lemma map_values_distinct: "distinct (map fst h) \<Longrightarrow> distinct (map fst (map_values key f h))"
proof (induction h)
  case (Cons e h)
  then show ?case using map_values_keys [of "fst e" key f h] by (cases e) (auto split: option.split simp del: image_iff intro: imageI)
qed simp

lemma map_values_at:
  "distinct (map fst h) \<Longrightarrow> map_of (map_values key f h) key = Option.bind (map_of h key) f"
proof (induction h)
  case (Cons e h)
  have "map_of (map_values key f h) key = None" if "fst e = key"
    using Cons.prems that map_values_keys [of key key f h] by (auto simp: map_of_eq_None_iff)
  then show ?case using Cons by (cases e) (auto split: option.split)
qed simp

text \<open>The Cookie header of a map after the rules, when it carries well-formed cookies.\<close>

lemma cookie_loop_absent:
  "map_of h ck = None \<Longrightarrow> ck \<noteq> sck \<Longrightarrow> ck \<noteq> [] \<Longrightarrow> map_of (cookie_header_loop [] sck rules h) ck = None"
proof (induction rules arbitrary: h sck)
  case (Cons rule rules)
  then show ?case by (auto simp: Let_def map_values_other)
qed simp

lemma cookie_loop_line:
  assumes "distinct (map fst h)" and "sck \<noteq> ck" and "ck \<noteq> []" and "\<forall>c \<in> set cs. cookie_ok c"
    and "map_of h ck = Some [cookie_line cs]" and "cs \<noteq> []"
  shows "map_of (cookie_header_loop ck sck rules h) ck =
    (let ds = redactCookieSlice rules cs in if ds = [] then None else Some [cookie_line ds])"
  using assms
proof (induction rules arbitrary: h cs sck)
  case Nil
  then show ?case by (simp add: redactCookieSlice_def)
next
  case (Cons rule rules)
  let ?ds = "concat (map (filter_cookie rule) cs)"
  define h1 where "h1 = map_values ck (cookie_values rule) h"
  define ck1 where "ck1 = (if ck \<in> set (map fst h1) then ck else [])"
  define h2 where "h2 = (if sck \<noteq> [] then map_values sck (set_cookie_values rule) h1 else h1)"
  define sck1 where "sck1 = (if sck \<in> set (map fst h2) then sck else [])"
  have step: "cookie_header_loop ck sck (rule # rules) h = cookie_header_loop ck1 sck1 rules h2"
    using Cons.prems(3) by (simp add: h1_def ck1_def h2_def sck1_def Let_def)
  have d1: "distinct (map fst h1)" using Cons.prems(1) by (simp add: h1_def map_values_distinct)
  have d2: "distinct (map fst h2)" using d1 by (simp add: h2_def map_values_distinct)
  have at1: "map_of h1 ck = (if ?ds = [] then None else Some [cookie_line ?ds])"
    using Cons.prems by (simp add: h1_def map_values_at cookie_values_def applyRuleToCookieHeader_line Let_def)
  have at2: "map_of h2 ck = map_of h1 ck" using Cons.prems(2) by (simp add: h2_def map_values_other)
  have ne: "sck1 \<noteq> ck" using Cons.prems(2,3) by (simp add: sck1_def)
  show ?case
  proof (cases "?ds = []")
    case True
    then have "ck1 = []" using at1 by (auto simp: ck1_def map_of_eq_None_iff)
    then have "map_of (cookie_header_loop ck1 sck1 rules h2) ck = None"
      using cookie_loop_absent [of h2 ck sck1 rules] True at1 at2 ne Cons.prems(3) by simp
    with True step show ?thesis by (simp only: redactCookieSlice_Cons redactCookieSlice_Nil Let_def if_True simp_thms)
  next
    case False
    then have "map_of h1 ck \<noteq> None" using at1 by simp
    then have "ck1 = ck" by (simp add: ck1_def map_of_eq_None_iff)
    moreover have "\<forall>c \<in> set ?ds. cookie_ok c" using Cons.prems(4) by (auto dest: cookie_ok_filter)
    ultimately show ?thesis
      using Cons.IH [OF d2 ne Cons.prems(3), of ?ds] False step at1 at2 by (simp add: redactCookieSlice_Cons)
  qed
qed

section \<open>Masking\<close>

text \<open>
  The part of a record the header and query rules hide: every value under a listed name is
  replaced by the marker. Two records with the same masked form differ only there.
\<close>

definition masked_request :: "redact_libs \<Rightarrow> ruleset \<Rightarrow> captured_request \<Rightarrow> captured_request" where
  "masked_request L r v = v\<lparr>cr_headers := map_option (applyHeaderRulesMap L (rs_header_names r)) (cr_headers v),
     cr_query := map_option (applyQueryRules L (rs_query_params r)) (cr_query v)\<rparr>"

definition masked_outbound :: "redact_libs \<Rightarrow> ruleset \<Rightarrow> outbound_event \<Rightarrow> outbound_event" where
  "masked_outbound L r v =
     (let m = map_option (applyHeaderRulesMap L (rs_header_names r)) in
      v\<lparr>oe_request := (oe_request v)\<lparr>oq_headers := m (oq_headers (oe_request v))\<rparr>,
        oe_response := map_option (\<lambda>p. p\<lparr>or_headers := m (or_headers p)\<rparr>) (oe_response v)\<rparr>)"

definition masked :: "redact_libs \<Rightarrow> ruleset \<Rightarrow> capture_record \<Rightarrow> capture_record" where
  "masked L r rec = (case rec of
      Request v \<Rightarrow> Request (masked_request L r v)
    | Response v \<Rightarrow> Response (v\<lparr>re_headers := map_option (applyHeaderRulesMap L (rs_header_names r)) (re_headers v)\<rparr>)
    | Outbound v \<Rightarrow> Outbound (masked_outbound L r v))"

text \<open>Cookie rules rewrite other headers than the header rules.\<close>

definition cookies_apart :: "ruleset \<Rightarrow> bool" where
  "cookies_apart r = (if rs_cookies r = [] then True
     else ''cookie'' \<notin> set (rs_header_names r) \<and> ''set-cookie'' \<notin> set (rs_header_names r))"

lemma lower_canon_walk: "map ascii_lower (canon_walk up s) = map ascii_lower s"
  by (induction s arbitrary: up) (auto simp: Let_def)

lemma lower_Canonical:
  assumes "CanonicalMIMEHeaderKey k = c" and "is_ascii c"
  shows "ToLower ul k = map ascii_lower c"
proof (cases "list_all valid_header_byte k")
  case True
  then have "canon_walk True k = c" using assms by (simp add: CanonicalMIMEHeaderKey_def)
  then have "map ascii_lower k = map ascii_lower c" using lower_canon_walk by metis
  moreover from this have "is_ascii k" using assms(2) by (metis is_ascii_map_lower)
  ultimately show ?thesis by (simp add: ToLower_ascii)
next
  case False
  then show ?thesis using assms by (simp add: CanonicalMIMEHeaderKey_def ToLower_ascii)
qed

lemma findHeaderKey_canonical:
  "findHeaderKey h c \<noteq> [] \<Longrightarrow> CanonicalMIMEHeaderKey c = c \<Longrightarrow> CanonicalMIMEHeaderKey (findHeaderKey h c) = c"
  by (auto simp: findHeaderKey_def split: if_splits option.splits dest: find_Some_iff [THEN iffD1])

lemma mask_keys [simp]: "map fst (applyHeaderRulesMap L rules h) = map fst h"
  by (induction h) (auto simp: applyHeaderRulesMap_def)

lemma mask_idem [simp]: "applyHeaderRulesMap L rules (applyHeaderRulesMap L rules h) = applyHeaderRulesMap L rules h"
  by (induction h) (auto simp: applyHeaderRulesMap_def redact_values_def)

lemma query_mask_idem [simp]: "applyQueryRules L rules (applyQueryRules L rules h) = applyQueryRules L rules h"
  by (induction h) (auto simp: applyQueryRules_def redact_values_def)

lemma map_values_mask:
  "ToLower (lib_lower L) key \<notin> set rules \<Longrightarrow>
   map_values key f (applyHeaderRulesMap L rules h) = applyHeaderRulesMap L rules (map_values key f h)"
  by (induction h) (auto simp: applyHeaderRulesMap_def split: option.split)

lemma cookie_loop_mask:
  assumes "ck = [] \<or> ToLower (lib_lower L) ck \<notin> set rules" and "sck = [] \<or> ToLower (lib_lower L) sck \<notin> set rules"
  shows "cookie_header_loop ck sck crules (applyHeaderRulesMap L rules h) =
    applyHeaderRulesMap L rules (cookie_header_loop ck sck crules h)"
  using assms
proof (induction crules arbitrary: ck sck h)
  case (Cons rule crules)
  have s1: "(if ck \<noteq> [] then map_values ck (cookie_values rule) (applyHeaderRulesMap L rules h) else applyHeaderRulesMap L rules h) =
      applyHeaderRulesMap L rules (if ck \<noteq> [] then map_values ck (cookie_values rule) h else h)"
    using Cons.prems by (auto simp: map_values_mask)
  have s2: "(if sck \<noteq> [] then map_values sck (set_cookie_values rule) (applyHeaderRulesMap L rules g) else applyHeaderRulesMap L rules g) =
      applyHeaderRulesMap L rules (if sck \<noteq> [] then map_values sck (set_cookie_values rule) g else g)" for g
    using Cons.prems by (auto simp: map_values_mask)
  show ?case unfolding cookie_header_loop.simps s1 s2 Let_def mask_keys
    by (rule Cons.IH) (use Cons.prems in auto)
qed simp

lemma cookie_headers_mask:
  assumes "cookies_apart r"
  shows "applyCookieRulesToHeaders (rs_cookies r) (applyHeaderRulesMap L (rs_header_names r) h) =
    applyHeaderRulesMap L (rs_header_names r) (applyCookieRulesToHeaders (rs_cookies r) h)"
proof (cases "rs_cookies r = []")
  case True
  then show ?thesis by (simp add: applyCookieRulesToHeaders_def)
next
  case False
  have c: "CanonicalMIMEHeaderKey ''Cookie'' = ''Cookie''" and s: "CanonicalMIMEHeaderKey ''Set-Cookie'' = ''Set-Cookie''"
    by code_simp+
  have lc: "map ascii_lower ''Cookie'' = ''cookie''" and ls: "map ascii_lower ''Set-Cookie'' = ''set-cookie''"
    by code_simp+
  have ac: "is_ascii ''Cookie''" and as: "is_ascii ''Set-Cookie''" by code_simp+
  have k: "findHeaderKey h ''Cookie'' = [] \<or> ToLower (lib_lower L) (findHeaderKey h ''Cookie'') \<notin> set (rs_header_names r)"
    using assms False lower_Canonical [OF findHeaderKey_canonical [OF _ c] ac] lc by (auto simp: cookies_apart_def)
  have sk: "findHeaderKey h ''Set-Cookie'' = [] \<or> ToLower (lib_lower L) (findHeaderKey h ''Set-Cookie'') \<notin> set (rs_header_names r)"
    using assms False lower_Canonical [OF findHeaderKey_canonical [OF _ s] as] ls by (auto simp: cookies_apart_def)
  have f: "findHeaderKey (applyHeaderRulesMap L (rs_header_names r) h) n = findHeaderKey h n" for n
    unfolding findHeaderKey_def mask_keys by (rule refl)
  show ?thesis using False cookie_loop_mask [OF k sk] by (simp only: applyCookieRulesToHeaders_def f if_False)
qed

lemma half_masked:
  assumes "cookies_apart r"
  shows "redact_half L r (map_option (applyHeaderRulesMap L (rs_header_names r)) h) b ct errs = redact_half L r h b ct errs"
  by (cases h) (simp_all add: redact_half_def cookie_headers_mask [OF assms])

lemma request_masked:
  assumes "cookies_apart r"
  shows "redactCapturedRequest L r (masked_request L r v) errs = redactCapturedRequest L r v errs"
proof (cases "cr_headers v")
  case None
  then show ?thesis
    by (cases "cr_query v") (simp_all add: redactCapturedRequest_def masked_request_def applyCookieRules_def Let_def)
next
  case (Some h)
  then show ?thesis
    by (cases "cr_query v"; cases "rs_cookies r = []")
       (simp_all add: redactCapturedRequest_def masked_request_def applyCookieRules_def Let_def cookie_headers_mask [OF assms])
qed

lemma Redact_masked:
  assumes "cookies_apart r"
  shows "Redact L r (masked L r rec) errs = Redact L r rec errs"
proof (cases "IsUnredacted r")
  case True
  then have m: "applyHeaderRulesMap L (rs_header_names r) = id" "applyQueryRules L (rs_query_params r) = id"
    by (auto simp: IsUnredacted_def applyHeaderRulesMap_def applyQueryRules_def fun_eq_iff)
  have "masked L r rec = rec"
    by (cases rec) (simp_all add: masked_def masked_request_def masked_outbound_def m option.map_id Let_def option.map_ident)
  then show ?thesis by simp
next
  case False
  show ?thesis
  proof (cases rec)
    case (Request v)
    then show ?thesis using False by (simp add: Redact_def masked_def request_masked [OF assms])
  next
    case (Response v)
    then show ?thesis using False by (simp add: Redact_def masked_def redactResponseEvent_def half_masked [OF assms] split: prod.split)
  next
    case (Outbound v)
    then show ?thesis using False
      by (cases "oe_response v") (simp_all add: Redact_def masked_def masked_outbound_def redactOutboundEvent_def half_masked [OF assms] Let_def split: prod.split)
  qed
qed

section \<open>The regex pass and the error counter\<close>

lemma apply_regexes_simps [simp]:
  "apply_regexes [] v = v" "apply_regexes (rule # rules) v = apply_regexes rules (rx_replace rule v)"
  by (simp_all add: apply_regexes_def)

text \<open>The rule-by-rule loop does to each part what the per-part functions do.\<close>

lemma regex_captured_loop_parts:
  "regex_captured_loop eligible rules (b, h, q) =
    (if eligible then apply_regexes rules b else b,
     map (\<lambda>(key, vals). (key, map (apply_regexes rules) vals)) h,
     map (\<lambda>(key, vals). (key, map (apply_regexes rules) vals)) q)"
proof (induction rules arbitrary: b h q)
  case Nil
  then show ?case by (simp add: map_idI split_beta)
next
  case (Cons rule rules)
  then show ?case by (simp add: applyRegexRulesHeaderMap_def comp_def case_prod_beta)
qed

lemma captured_pass:
  "applyRegexRulesCaptured rules (b, h, q) =
    (applyRegexRulesBody rules b, applyRegexRulesHeaderMap rules h, applyRegexRulesHeaderMap rules q)"
  by (cases "rules = []")
     (simp_all add: applyRegexRulesCaptured_def applyRegexRulesBody_def applyRegexRulesHeaderMap_def regex_captured_loop_parts)

definition after_header_rules :: "redact_libs \<Rightarrow> ruleset \<Rightarrow> hmap \<Rightarrow> hmap" where
  "after_header_rules L r h = applyRegexRulesHeaderMap (rs_regex r) (applyHeaderRulesMap L (rs_header_names r)
     (applyCookieRulesToHeaders (rs_cookies r) h))"

lemma captured_headers:
  "redactCapturedRequest L r v errs = (w, e) \<Longrightarrow> cr_headers w = map_option (after_header_rules L r) (cr_headers v)"
  by (cases "cr_headers v")
     (auto simp: redactCapturedRequest_def captured_pass applyCookieRules_def after_header_rules_def
       applyCookieRulesToHeaders_def Let_def split: prod.splits if_splits)

lemma after_header_rules_hidden:
  "(k, vs) \<in> set (after_header_rules L r h) \<Longrightarrow> ToLower (lib_lower L) k \<in> set (rs_header_names r) \<Longrightarrow>
   x \<in> set vs \<Longrightarrow> x = apply_regexes (rs_regex r) Redacted"
  by (auto simp: after_header_rules_def applyRegexRulesHeaderMap_def applyHeaderRulesMap_def redact_values_def split: if_splits)

definition hidden :: "redact_libs \<Rightarrow> ruleset \<Rightarrow> hmap option \<Rightarrow> bool" where
  "hidden L r h = (\<forall>(k, vs) \<in> set (entries h). ToLower (lib_lower L) k \<in> set (rs_header_names r) \<longrightarrow>
     list_all (\<lambda>x. x = apply_regexes (rs_regex r) Redacted) vs)"

lemma hidden_after: "hidden L r (map_option (after_header_rules L r) h)"
proof (cases h)
  case (Some g)
  then show ?thesis using after_header_rules_hidden [of _ _ L r g] by (fastforce simp: hidden_def list_all_iff)
qed (simp add: hidden_def)

lemma half_hidden: "redact_half L r h b ct errs = (h', b', e) \<Longrightarrow> hidden L r h'"
  using hidden_after [of L r h] by (cases h) (auto simp: redact_half_def after_header_rules_def split: prod.splits)

definition all_hidden :: "redact_libs \<Rightarrow> ruleset \<Rightarrow> capture_record \<Rightarrow> bool" where
  "all_hidden L r rec = (case rec of
      Request v \<Rightarrow> hidden L r (cr_headers v)
    | Response v \<Rightarrow> hidden L r (re_headers v)
    | Outbound v \<Rightarrow> hidden L r (oq_headers (oe_request v)) \<and>
        (case oe_response v of None \<Rightarrow> True | Some p \<Rightarrow> hidden L r (or_headers p)))"

lemma Redact_hides: "\<not> IsUnredacted r \<Longrightarrow> all_hidden L r (fst (Redact L r rec errs))"
proof (cases rec)
  case (Request v)
  assume "\<not> IsUnredacted r"
  then show ?thesis using Request captured_headers [of L r v errs] hidden_after
    by (auto simp: Redact_def all_hidden_def split: prod.splits)
next
  case (Response v)
  assume "\<not> IsUnredacted r"
  then show ?thesis using Response
    by (auto simp: Redact_def all_hidden_def redactResponseEvent_def split: prod.splits dest: half_hidden)
next
  case (Outbound v)
  assume "\<not> IsUnredacted r"
  then show ?thesis using Outbound
    by (cases "oe_response v")
       (auto simp: Redact_def all_hidden_def redactOutboundEvent_def Let_def split: prod.splits dest: half_hidden)
qed

text \<open>What redaction may not touch: the record with its headers, query, cookies and body blanked.\<close>

definition skeleton :: "capture_record \<Rightarrow> capture_record" where
  "skeleton rec = (case rec of
      Request v \<Rightarrow> Request (v\<lparr>cr_headers := None, cr_query := None, cr_cookies := [], cr_body := []\<rparr>)
    | Response v \<Rightarrow> Response (v\<lparr>re_headers := None, re_body := []\<rparr>)
    | Outbound v \<Rightarrow> Outbound (v\<lparr>oe_request := (oe_request v)\<lparr>oq_headers := None, oq_body := []\<rparr>,
        oe_response := map_option (\<lambda>p. p\<lparr>or_headers := None, or_body := []\<rparr>) (oe_response v)\<rparr>))"

lemma skeleton_identity [simp]:
  "Kind (skeleton rec) = Kind rec" "RecordID (skeleton rec) = RecordID rec"
  "RecordTimestamp (skeleton rec) = RecordTimestamp rec" "RecordService (skeleton rec) = RecordService rec"
  "RecordCorrelationID (skeleton rec) = RecordCorrelationID rec"
  by (cases rec; simp add: skeleton_def)+

lemma Redact_skeleton: "skeleton (fst (Redact L r rec errs)) = skeleton rec"
proof (cases rec)
  case (Request v)
  then show ?thesis
    by (auto simp: Redact_def skeleton_def redactCapturedRequest_def applyCookieRules_def Let_def split: prod.splits option.splits)
next
  case (Response v)
  then show ?thesis by (auto simp: Redact_def skeleton_def redactResponseEvent_def split: prod.splits)
next
  case (Outbound v)
  then show ?thesis
    by (cases "oe_response v") (auto simp: Redact_def skeleton_def redactOutboundEvent_def Let_def split: prod.splits)
qed

lemma Redact_identity:
  "RecordID (fst (Redact L r rec errs)) = RecordID rec"
  "RecordCorrelationID (fst (Redact L r rec errs)) = RecordCorrelationID rec"
  "RecordTimestamp (fst (Redact L r rec errs)) = RecordTimestamp rec"
  "Kind (fst (Redact L r rec errs)) = Kind rec"
  by (metis Redact_skeleton skeleton_identity)+

section \<open>Properties\<close>

definition libs :: redact_libs where
  "libs = \<lparr>lib_lower = map ascii_lower, lib_json_valid = (\<lambda>b. has_prefix b ''{''),
     lib_json_exists = (\<lambda>b p. False), lib_json_set = (\<lambda>b p v. Some b),
     lib_regex = (\<lambda>p. Some (\<lambda>s. s)), lib_media_type = (\<lambda>ct. Some ct)\<rparr>"

definition sample_rules :: ruleset where
  "sample_rules = \<lparr>rs_header_names = [''authorization''], rs_query_params = [''token''], rs_json_paths = [],
     rs_regex = [], rs_cookies = [\<lparr>cru_mode = CookieModeRedact, cru_names = [''sid'']\<rparr>]\<rparr>"

definition secret_request :: "string \<Rightarrow> captured_request" where
  "secret_request s = (sample_request ''r1'' 5 ''c1'')\<lparr>cr_headers := Some [(''Authorization'', [s]), (''Cookie'', [''sid=1; lang=en''])],
     cr_query := Some [(''Token'', [s])], cr_cookies := [\<lparr>ck_name = ''sid'', ck_value = ''1''\<rparr>, \<lparr>ck_name = ''lang'', ck_value = ''en''\<rparr>]\<rparr>"



text \<open>
  C33. Whatever the other rules do, every value under a redacted header name leaves redaction
  as the marker (as the regex rules rewrite it), in all the headers of the three variants;
  and redaction changes nothing but headers, query, cookies and body, so the id, time,
  kind, service and correlation id under which the record is stored are those it came with.
\<close>

theorem redact_hides_and_frames:
  "(if IsUnredacted r then Redact L r rec errs = (rec, errs) else all_hidden L r (fst (Redact L r rec errs))) \<and>
   skeleton (fst (Redact L r rec errs)) = skeleton rec"
  using Redact_hides Redact_skeleton by (simp add: Redact_def)

text \<open>
  The Cookie header and the parsed cookie list stay in step. For a request whose Cookie
  header carries its (well-formed) cookies, the rules keep exactly the cookies every strip
  and allowlist rule lets through, replace exactly the values some redact rule names, and
  the header is the text of the resulting list, deleted when no cookie is left.
\<close>

theorem cookie_header_follows_cookies:
  assumes "cr_headers v = Some h" and "distinct (map fst h)" and "rules \<noteq> []"
    and "map_of h ''Cookie'' = Some [cookie_line (cr_cookies v)]"
    and "list_all cookie_ok (cr_cookies v)" and "cr_cookies v \<noteq> []"
  shows "let w = applyCookieRules rules v in
    cr_cookies w = map (hide_value rules) (filter (\<lambda>c. keeps rules (ck_name c)) (cr_cookies v)) \<and>
    map_of (entries (cr_headers w)) ''Cookie'' = (if cr_cookies w = [] then None else Some [cookie_line (cr_cookies w)])"
proof -
  let ?w = "applyCookieRules rules v"
  have w: "cr_cookies ?w = redactCookieSlice rules (cr_cookies v)"
    "cr_headers ?w = Some (applyCookieRulesToHeaders rules h)"
    using assms by (simp_all add: applyCookieRules_def)
  have "''Cookie'' \<in> set (map fst h)" using assms(4) by (force dest: map_of_SomeD)
  then have k: "findHeaderKey h ''Cookie'' = ''Cookie''" by (simp add: findHeaderKey_def)
  have c: "CanonicalMIMEHeaderKey ''Cookie'' = ''Cookie''" by code_simp
  have s: "findHeaderKey h ''Set-Cookie'' \<noteq> ''Cookie''"
    using c by (auto simp: findHeaderKey_def split: option.splits dest: find_Some_iff [THEN iffD1])
  have "map_of (applyCookieRulesToHeaders rules h) ''Cookie'' =
      (let ds = redactCookieSlice rules (cr_cookies v) in if ds = [] then None else Some [cookie_line ds])"
    using cookie_loop_line [OF assms(2) s _ _ assms(4) assms(6)] assms(3,5)
    by (simp add: applyCookieRulesToHeaders_def k list_all_iff)
  then show ?thesis by (simp add: w Let_def redactCookieSlice_closed)
qed

theorem cookie_header_follows_cookies_witness:
  "cr_cookies (applyCookieRules (rs_cookies sample_rules) (secret_request ''x'')) =
     [\<lparr>ck_name = ''sid'', ck_value = Redacted\<rparr>, \<lparr>ck_name = ''lang'', ck_value = ''en''\<rparr>]"
proof -
  have h: "cr_headers (secret_request ''x'') = Some [(''Authorization'', [''x'']), (''Cookie'', [''sid=1; lang=en''])]"
    by (simp add: secret_request_def)
  have l: "map_of [(''Authorization'', [''x'']), (''Cookie'', [''sid=1; lang=en''])] ''Cookie'' = Some [cookie_line (cr_cookies (secret_request ''x''))]"
    by (simp add: secret_request_def cookie_line_def cookie_text_def)
  have ok: "list_all cookie_ok (cr_cookies (secret_request ''x''))" by code_simp
  have ne: "cr_cookies (secret_request ''x'') \<noteq> []" "rs_cookies sample_rules \<noteq> []"
    by (simp_all add: secret_request_def sample_rules_def)
  show ?thesis
    using cookie_header_follows_cookies [OF h _ ne(2) l ok ne(1)]
    by (simp add: Let_def secret_request_def sample_rules_def keeps_def hides_def hide_value_def)
qed

text \<open>
  A header rule does not protect cookies: without cookie rules the parsed cookie list of
  a captured request, which the sinks store beside the headers, is the original one, even
  when the Cookie header itself is redacted by name or by a pattern.
\<close>

lemma header_rules_leave_cookies:
  "if rs_cookies r = [] then cr_cookies (fst (redactCapturedRequest L r v errs)) = cr_cookies v else True"
  by (auto simp: redactCapturedRequest_def applyCookieRules_def Let_def split: prod.splits option.splits)

end
