(* ===== verification/Memory.thy ===== *)
theory Memory
  imports Records
begin

text \<open>
  The memory sink of internal/sinks/memory.go: a ring buffer with an index from correlation
  id to ring position. The theory shows that the ring and its head, size and index fields
  implement a bounded newest-first list of the records written: \<open>Write\<close> is a bounded cons,
  \<open>Recent\<close> a prefix, \<open>ByCorrelationID\<close> a first match. The locale \<open>recent_store\<close> is
  the contract the readers of the sink rely on.
\<close>

section \<open>The ring\<close>

text \<open>
  \<open>buf\<close> slots are interface values, \<open>None\<close> is nil; the mutex makes every operation one
  atomic step. \<open>corrIdx\<close> is a map from correlation id to slot.
\<close>

record memory_sink =
  ms_buf :: "capture_record option list"
  ms_head :: nat
  ms_size :: nat
  ms_capacity :: nat
  ms_corrIdx :: "string \<rightharpoonup> nat"

definition NewMemorySink :: "int \<Rightarrow> memory_sink" where
  "NewMemorySink capacity =
     (let c = (if capacity < 1 then 1 else capacity) in
      \<lparr>ms_buf = replicate (nat c) None, ms_head = 0, ms_size = 0, ms_capacity = nat c,
       ms_corrIdx = Map.empty\<rparr>)"

definition mem_len :: "memory_sink \<Rightarrow> nat" where
  "mem_len s = ms_size s"

text \<open>A Go map read of an absent key yields 0; deleting an absent key does nothing.\<close>

definition Write :: "memory_sink \<Rightarrow> capture_record \<Rightarrow> memory_sink" where
  "Write s r =
     (let pos = ms_head s;
          idx = (if ms_size s = ms_capacity s then
                   (case ms_buf s ! pos of
                      None \<Rightarrow> ms_corrIdx s
                    | Some old \<Rightarrow>
                        (let cid = RecordCorrelationID old in
                         if (case ms_corrIdx s cid of None \<Rightarrow> 0 | Some p \<Rightarrow> p) = pos
                         then (ms_corrIdx s)(cid := None) else ms_corrIdx s))
                 else ms_corrIdx s)
      in s\<lparr>ms_buf := (ms_buf s)[pos := Some r],
           ms_corrIdx := idx(RecordCorrelationID r \<mapsto> pos),
           ms_head := (ms_head s + 1) mod ms_capacity s,
           ms_size := (if ms_size s < ms_capacity s then ms_size s + 1 else ms_size s)\<rparr>)"

fun recent_loop :: "memory_sink \<Rightarrow> nat \<Rightarrow> nat \<Rightarrow> capture_record option list" where
  "recent_loop s idx 0 = []"
| "recent_loop s idx (Suc n) =
     ms_buf s ! idx # recent_loop s ((idx + ms_capacity s - 1) mod ms_capacity s) n"

definition Recent :: "memory_sink \<Rightarrow> int \<Rightarrow> capture_record option list" where
  "Recent s n =
     (if n \<le> 0 then []
      else (let m = (if n > int (ms_size s) then ms_size s else nat n) in
            recent_loop s ((ms_head s + ms_capacity s - 1) mod ms_capacity s) m))"

definition ByCorrelationID :: "memory_sink \<Rightarrow> string \<Rightarrow> capture_record option" where
  "ByCorrelationID s cid = (case ms_corrIdx s cid of None \<Rightarrow> None | Some pos \<Rightarrow> ms_buf s ! pos)"

text \<open>
  The snapshot the readers take, \<open>s.Recent(s.Len())\<close>. Its elements are records, never nil
  (lemma \<open>snapshot_Recent\<close>), so the readers range over records.
\<close>

definition snapshot :: "memory_sink \<Rightarrow> capture_record list" where
  "snapshot s = map the (Recent s (int (mem_len s)))"

text \<open>\<open>OrphanCounts\<close>: responses and outbound events with no captured request in the ring.\<close>

definition request_corrs :: "capture_record list \<Rightarrow> string set" where
  "request_corrs rs = set (map RecordCorrelationID (filter is_request rs))"

fun orphan_count_loop :: "string set \<Rightarrow> capture_record list \<Rightarrow> nat \<times> nat \<Rightarrow> nat \<times> nat" where
  "orphan_count_loop corrs [] acc = acc"
| "orphan_count_loop corrs (r # rs) (a, b) =
     (if RecordCorrelationID r \<in> corrs then orphan_count_loop corrs rs (a, b)
      else (case r of
          Response _ \<Rightarrow> orphan_count_loop corrs rs (a + 1, b)
        | Outbound _ \<Rightarrow> orphan_count_loop corrs rs (a, b + 1)
        | Request _ \<Rightarrow> orphan_count_loop corrs rs (a, b)))"

definition OrphanCounts :: "memory_sink \<Rightarrow> nat \<times> nat" where
  "OrphanCounts s = (let all = snapshot s in orphan_count_loop (request_corrs all) all (0, 0))"

section \<open>The abstract store\<close>

text \<open>
  The position that holds the record written \<open>k\<close> writes ago, the contents newest first,
  and the representation invariant: the live slots are filled, and the index of a
  correlation id is the slot of its newest live record.
\<close>

definition slot :: "memory_sink \<Rightarrow> nat \<Rightarrow> nat" where
  "slot s k = (ms_head s + ms_capacity s - 1 - k) mod ms_capacity s"

definition contents :: "memory_sink \<Rightarrow> capture_record list" where
  "contents s = map (\<lambda>k. the (ms_buf s ! slot s k)) [0..<ms_size s]"

definition newest_at :: "memory_sink \<Rightarrow> string \<Rightarrow> nat option" where
  "newest_at s cid = map_option (slot s)
     (find (\<lambda>k. RecordCorrelationID (the (ms_buf s ! slot s k)) = cid) [0..<ms_size s])"

definition ring_inv :: "memory_sink \<Rightarrow> bool" where
  "ring_inv s \<longleftrightarrow>
     0 < ms_capacity s \<and> length (ms_buf s) = ms_capacity s \<and> ms_head s < ms_capacity s \<and>
     ms_size s \<le> ms_capacity s \<and>
     (\<forall>k < ms_size s. ms_buf s ! slot s k \<noteq> None) \<and>
     ms_corrIdx s = newest_at s"


section \<open>The ring implements a bounded list\<close>

lemma slot_if:
  "ms_head s < ms_capacity s \<Longrightarrow> k < ms_capacity s \<Longrightarrow>
   slot s k = (if k < ms_head s then ms_head s - 1 - k else ms_head s + ms_capacity s - 1 - k)"
  by (auto simp: slot_def mod_if)

lemma slot_eq_head:
  "ms_head s < ms_capacity s \<Longrightarrow> k < ms_capacity s \<Longrightarrow> slot s k = ms_head s \<longleftrightarrow> Suc k = ms_capacity s"
  by (auto simp: slot_if)

lemma Write_fields [simp]:
  "ms_capacity (Write s r) = ms_capacity s"
  "ms_head (Write s r) = (ms_head s + 1) mod ms_capacity s"
  "ms_size (Write s r) = (if ms_size s < ms_capacity s then ms_size s + 1 else ms_size s)"
  "ms_buf (Write s r) = (ms_buf s)[ms_head s := Some r]"
  by (simp_all add: Write_def Let_def)

lemma slot_Write_0: "ms_head s < ms_capacity s \<Longrightarrow> slot (Write s r) 0 = ms_head s"
  by (auto simp: slot_def mod_if)

lemma slot_Write_Suc:
  "ms_head s < ms_capacity s \<Longrightarrow> Suc k < ms_capacity s \<Longrightarrow> slot (Write s r) (Suc k) = slot s k"
  by (auto simp: slot_def mod_if)

lemma buf_Write_0: "ring_inv s \<Longrightarrow> ms_buf (Write s r) ! slot (Write s r) 0 = Some r"
  by (simp add: ring_inv_def slot_Write_0)

lemma buf_Write_Suc:
  "ring_inv s \<Longrightarrow> Suc k < ms_capacity s \<Longrightarrow>
   ms_buf (Write s r) ! slot (Write s r) (Suc k) = ms_buf s ! slot s k"
  using slot_eq_head [of s k] by (auto simp: ring_inv_def slot_Write_Suc nth_list_update)

text \<open>The live slots after a write, as the new record followed by the older ones.\<close>

lemma size_Write:
  "ring_inv s \<Longrightarrow> [0..<ms_size (Write s r)] = 0 # map Suc [0..<min (ms_size s) (ms_capacity s - 1)]"
  using upt_0_Suc [of "ms_size s"] upt_0_Suc [of "ms_capacity s - 1"]
  by (auto simp: ring_inv_def min_def simp del: upt_Suc)

lemma contents_Write:
  assumes "ring_inv s"
  shows "contents (Write s r) = take (ms_capacity s) (r # contents s)"
proof -
  have "map (\<lambda>k. the (ms_buf (Write s r) ! slot (Write s r) (Suc k)))
          [0..<min (ms_size s) (ms_capacity s - 1)]
      = map (\<lambda>k. the (ms_buf s ! slot s k)) [0..<min (ms_size s) (ms_capacity s - 1)]"
    by (rule map_cong) (use assms buf_Write_Suc in auto)
  then have "contents (Write s r) =
      r # map (\<lambda>k. the (ms_buf s ! slot s k)) [0..<min (ms_size s) (ms_capacity s - 1)]"
    using assms buf_Write_0 [OF assms, of r]
    by (simp add: contents_def size_Write o_def del: Write_fields)
  moreover have "0 < ms_capacity s" using assms by (simp add: ring_inv_def)
  ultimately show ?thesis
    by (cases "ms_capacity s") (auto simp: contents_def take_map take_upt_0 min.commute simp del: Write_fields)
qed

definition index_before :: "memory_sink \<Rightarrow> nat \<Rightarrow> string \<Rightarrow> nat option" where
  "index_before s n cid = map_option (slot s)
     (find (\<lambda>k. RecordCorrelationID (the (ms_buf s ! slot s k)) = cid) [0..<n])"

lemma newest_at_Write:
  assumes "ring_inv s"
  shows "newest_at (Write s r) =
    (index_before s (min (ms_size s) (ms_capacity s - 1)))(RecordCorrelationID r \<mapsto> ms_head s)"
proof
  fix cid
  let ?n = "min (ms_size s) (ms_capacity s - 1)"
  have 1: "find (\<lambda>k. RecordCorrelationID (the (ms_buf (Write s r) ! slot (Write s r) (Suc k))) = cid) [0..<?n]
     = find (\<lambda>k. RecordCorrelationID (the (ms_buf s ! slot s k)) = cid) [0..<?n]"
    by (rule find_cong) (use assms buf_Write_Suc in auto)
  have 2: "map_option (\<lambda>k. slot (Write s r) (Suc k)) (find P [0..<?n]) = map_option (slot s) (find P [0..<?n])" for P
    by (rule option.map_cong0) (use assms in \<open>auto simp: find_Some_iff ring_inv_def slot_Write_Suc\<close>)
  show "newest_at (Write s r) cid = ((index_before s ?n)(RecordCorrelationID r \<mapsto> ms_head s)) cid"
    using assms buf_Write_0 [OF assms, of r] slot_Write_0 [of s r]
    by (simp add: newest_at_def size_Write find_map 1 2 option.map_comp o_def index_before_def
          ring_inv_def [of s] del: Write_fields One_nat_def)
qed

lemma corrIdx_Write:
  assumes inv: "ring_inv s"
  shows "ms_corrIdx (Write s r) =
    (index_before s (min (ms_size s) (ms_capacity s - 1)))(RecordCorrelationID r \<mapsto> ms_head s)"
proof (cases "ms_size s < ms_capacity s")
  case True
  then have "index_before s (min (ms_size s) (ms_capacity s - 1)) = newest_at s"
    by (auto simp: index_before_def newest_at_def min_def fun_eq_iff)
  with True inv show ?thesis by (simp add: Write_def Let_def ring_inv_def)
next
  case False
  with inv have full: "ms_size s = ms_capacity s" by (simp add: ring_inv_def)
  obtain n where n: "ms_capacity s = Suc n" using inv by (cases "ms_capacity s") (auto simp: ring_inv_def)
  have last: "slot s n = ms_head s" using inv n slot_eq_head [of s n] by (simp add: ring_inv_def)
  obtain old where old: "ms_buf s ! ms_head s = Some old"
    using inv full n last by (auto simp: ring_inv_def)
  have fresh: "index_before s n cid \<noteq> Some (ms_head s)" for cid
    using inv n slot_eq_head [of s] by (auto simp: index_before_def find_Some_iff ring_inv_def)
  have split: "newest_at s cid = (case index_before s n cid of Some p \<Rightarrow> Some p
      | None \<Rightarrow> if RecordCorrelationID old = cid then Some (ms_head s) else None)" for cid
    by (simp add: newest_at_def index_before_def full n find_append old last split: option.splits)
  have "(if (case ms_corrIdx s (RecordCorrelationID old) of None \<Rightarrow> 0 | Some p \<Rightarrow> p) = ms_head s
         then (ms_corrIdx s)(RecordCorrelationID old := None) else ms_corrIdx s) = index_before s n"
    using inv fresh split
    by (auto simp: ring_inv_def fun_eq_iff split: option.splits)
  then show ?thesis using full n old by (simp add: Write_def Let_def)
qed

theorem ring_inv_Write: "ring_inv s \<Longrightarrow> ring_inv (Write s r)"
proof -
  assume inv: "ring_inv s"
  have "ms_buf (Write s r) ! slot (Write s r) k \<noteq> None" if "k < ms_size (Write s r)" for k
  proof (cases k)
    case 0
    then show ?thesis using buf_Write_0 [OF inv] by simp
  next
    case (Suc j)
    with that inv have "Suc j < ms_capacity s" and "j < ms_size s"
      by (auto simp: ring_inv_def split: if_splits)
    then show ?thesis using Suc inv buf_Write_Suc [OF inv, of j] by (simp add: ring_inv_def)
  qed
  then show ?thesis
    using inv corrIdx_Write [OF inv, of r] newest_at_Write [OF inv, of r]
    by (auto simp: ring_inv_def)
qed

theorem ring_inv_New: "ring_inv (NewMemorySink c)"
  by (auto simp: ring_inv_def NewMemorySink_def Let_def newest_at_def fun_eq_iff)


section \<open>The contract of a store of recent records\<close>

text \<open>
  What a reader may assume of the sink: a view that lists the records newest first, cut at a
  bound, and grows by one record per write. The consequences for whole histories of writes
  are proved once, here.
\<close>

locale recent_store =
  fixes init :: 's
    and put :: "'s \<Rightarrow> 'r \<Rightarrow> 's"
    and view :: "'s \<Rightarrow> 'r list"
    and bound :: "'s \<Rightarrow> nat"
    and invar :: "'s \<Rightarrow> bool"
  assumes view_init: "view init = []"
    and view_write: "invar s \<Longrightarrow> view (put s r) = take (bound s) (r # view s)"
    and bound_write: "invar s \<Longrightarrow> bound (put s r) = bound s"
    and invar_init: "invar init"
    and invar_write: "invar s \<Longrightarrow> invar (put s r)"
begin

lemma invar_writes: "invar s \<Longrightarrow> invar (foldl put s rs)"
  by (induction rs arbitrary: s) (auto intro: invar_write)

lemma bound_writes: "invar s \<Longrightarrow> bound (foldl put s rs) = bound s"
  by (induction rs arbitrary: s) (auto simp: bound_write invar_write)

lemma view_writes: "invar s \<Longrightarrow> rs \<noteq> [] \<Longrightarrow> view (foldl put s rs) = take (bound s) (rev rs @ view s)"
proof (induction rs rule: rev_induct)
  case (snoc r rs)
  then show ?case
    by (cases "rs = []")
       (auto simp: view_write bound_writes invar_writes take_Cons min_def split: nat.splits)
qed simp

lemma view_history: "view (foldl put init rs) = take (bound init) (rev rs)"
  using view_writes [OF invar_init, of rs] by (cases "rs = []") (auto simp: view_init)

lemma view_length: "length (view (foldl put init rs)) \<le> bound init"
  by (simp add: view_history)

end

interpretation ring: recent_store "NewMemorySink c" Write contents ms_capacity ring_inv for c
  by unfold_locales
     (simp_all add: contents_Write ring_inv_Write ring_inv_New, simp add: contents_def NewMemorySink_def)

section \<open>The readers' snapshot\<close>

lemma slot_step:
  "ms_head s < ms_capacity s \<Longrightarrow> Suc k < ms_capacity s \<Longrightarrow>
   (slot s k + ms_capacity s - 1) mod ms_capacity s = slot s (Suc k)"
  by (auto simp: slot_if mod_if)

lemma recent_loop_slots:
  "ring_inv s \<Longrightarrow> k + n \<le> ms_capacity s \<Longrightarrow>
   recent_loop s (slot s k) n = map (\<lambda>i. ms_buf s ! slot s i) [k..<k + n]"
proof (induction n arbitrary: k)
  case (Suc n)
  show ?case
  proof (cases n)
    case 0
    then show ?thesis by (simp add: upt_rec)
  next
    case (Suc m)
    with Suc.prems have "Suc k < ms_capacity s" by simp
    with Suc.prems Suc.IH [of "Suc k"] show ?thesis
      using slot_step [of s k] by (auto simp: upt_conv_Cons ring_inv_def simp del: upt_Suc)
  qed
qed simp

lemma slot_0: "slot s 0 = (ms_head s + ms_capacity s - 1) mod ms_capacity s"
  by (simp add: slot_def)

lemma Recent_contents: "ring_inv s \<Longrightarrow> Recent s n = map Some (take (nat n) (contents s))"
proof -
  assume inv: "ring_inv s"
  then have live: "ms_buf s ! slot s i = Some (the (ms_buf s ! slot s i))" if "i < ms_size s" for i
    using that by (auto simp: ring_inv_def)
  have loop: "recent_loop s (slot s 0) m = map Some (take m (contents s))" if "m \<le> ms_size s" for m
    using that inv live recent_loop_slots [OF inv, of 0 m]
    by (auto simp: contents_def take_map take_upt_0 min_absorb1 ring_inv_def intro!: map_cong)
  show ?thesis
  proof (cases "n \<le> int (ms_size s)")
    case True
    then show ?thesis using loop [of "nat n"] by (simp add: Recent_def Let_def slot_0)
  next
    case False
    then show ?thesis using loop [of "ms_size s"] by (simp add: Recent_def Let_def slot_0 contents_def)
  qed
qed

lemma length_contents [simp]: "length (contents s) = ms_size s"
  by (simp add: contents_def)

lemma snapshot_contents: "ring_inv s \<Longrightarrow> snapshot s = contents s"
  by (simp add: snapshot_def mem_len_def Recent_contents o_def)

lemma snapshot_Recent: "ring_inv s \<Longrightarrow> Recent s (int (mem_len s)) = map Some (snapshot s)"
  by (simp add: snapshot_contents Recent_contents mem_len_def)

lemma ByCorrelationID_contents:
  assumes "ring_inv s"
  shows "ByCorrelationID s cid = find (\<lambda>r. RecordCorrelationID r = cid) (contents s)"
proof -
  have "ByCorrelationID s cid = (case newest_at s cid of None \<Rightarrow> None | Some p \<Rightarrow> ms_buf s ! p)"
    using assms by (simp add: ByCorrelationID_def ring_inv_def)
  also have "\<dots> = find (\<lambda>r. RecordCorrelationID r = cid) (contents s)"
  proof (cases "find (\<lambda>k. RecordCorrelationID (the (ms_buf s ! slot s k)) = cid) [0..<ms_size s]")
    case None
    then show ?thesis by (simp add: newest_at_def contents_def find_map)
  next
    case (Some k)
    then have "k < ms_size s" by (auto simp: find_Some_iff)
    with Some assms show ?thesis by (simp add: newest_at_def contents_def find_map ring_inv_def)
  qed
  finally show ?thesis .
qed

lemma ring_history:
  "ring_inv (foldl Write (NewMemorySink c) rs)"
  "contents (foldl Write (NewMemorySink c) rs) = take (nat (max 1 c)) (rev rs)"
proof -
  show "ring_inv (foldl Write (NewMemorySink c) rs)"
    by (rule ring.invar_writes) (rule ring_inv_New)
  have "ms_capacity (NewMemorySink c) = nat (max 1 c)" by (simp add: NewMemorySink_def max_def)
  then show "contents (foldl Write (NewMemorySink c) rs) = take (nat (max 1 c)) (rev rs)"
    by (simp add: ring.view_history)
qed

lemmas ring_reads = Recent_contents snapshot_contents ByCorrelationID_contents

text \<open>An orphan is an event none of whose correlation id's records is a request.\<close>

definition orphan :: "capture_record list \<Rightarrow> capture_record \<Rightarrow> bool" where
  "orphan rs r \<longleftrightarrow> \<not> is_request r \<and>
     list_all (\<lambda>q. is_request q \<longrightarrow> RecordCorrelationID q \<noteq> RecordCorrelationID r) rs"

lemma orphan_iff: "orphan rs r \<longleftrightarrow> \<not> is_request r \<and> RecordCorrelationID r \<notin> request_corrs rs"
  by (auto simp: orphan_def request_corrs_def list_all_iff image_iff)

lemma orphan_count_loop_counts:
  "orphan_count_loop corrs rs (a, b) =
     (a + length (filter (\<lambda>r. Kind r = KindResponseEvent \<and> RecordCorrelationID r \<notin> corrs) rs),
      b + length (filter (\<lambda>r. Kind r = KindOutboundEvent \<and> RecordCorrelationID r \<notin> corrs) rs))"
  by (induction rs arbitrary: a b) (auto split: capture_record.splits)

section \<open>Properties of the memory sink\<close>

text \<open>
  C10. The ring buffer is a bounded newest-first list: after any history of writes to a new
  sink, \<open>Recent(n)\<close> returns the last \<open>n\<close> records that still fit the capacity (at least
  one slot), newest first, and every returned entry is a record, never an empty slot.
\<close>

theorem memory_ring_refines_history:
  "Recent (foldl Write (NewMemorySink c) rs) n
   = map Some (take (nat n) (take (nat (max 1 c)) (rev rs)))"
  by (simp add: ring_reads ring_history)

text \<open>
  The correlation index is exact: after any history of writes, \<open>ByCorrelationID\<close>
  returns the newest record with that correlation id among the records the ring still
  holds, and nil when no such record is left; eviction never leaves a stale entry.
\<close>

theorem memory_index_is_newest:
  "ByCorrelationID (foldl Write (NewMemorySink c) rs) cid
   = find (\<lambda>r. RecordCorrelationID r = cid) (take (nat (max 1 c)) (rev rs))"
  by (simp add: ring_reads ring_history)

text \<open>
  The orphan gauges count exactly the retained response and outbound events whose
  correlation id no retained captured request carries.
\<close>

theorem orphan_counts_exact:
  "OrphanCounts (foldl Write (NewMemorySink c) rs) =
     (let held = take (nat (max 1 c)) (rev rs) in
      (length (filter (\<lambda>r. Kind r = KindResponseEvent \<and> orphan held r) held),
       length (filter (\<lambda>r. Kind r = KindOutboundEvent \<and> orphan held r) held)))"
  by (simp add: OrphanCounts_def ring_reads ring_history orphan_count_loop_counts orphan_iff
        is_request_def Let_def cong: filter_cong conj_cong)

end
