(* ===== verification/Searchql.thy ===== *)
theory Searchql
  imports Prelude
begin

text \<open>
  The search language of internal/searchql/searchql.go: the query AST, the quote-aware
  tokenizer and the parser, with every syntax error as a value. The lemmas show that tokens
  survive re-tokenising, that a parsed term is well formed and that an error names a part of
  the input.
\<close>

section \<open>The AST\<close>

text \<open>The empty Field of the source, a freeform term, is the constructor \<open>Freeform\<close>.\<close>

datatype field = Freeform | FieldHost | FieldPath | FieldService | FieldBody | FieldHeaders
  | FieldHeader | FieldMethod | FieldStatus | FieldSourceIP | FieldCorrelationID | FieldHasEvents

definition field_string :: "field \<Rightarrow> string" where
  "field_string f = (case f of
      Freeform \<Rightarrow> [] | FieldHost \<Rightarrow> ''host'' | FieldPath \<Rightarrow> ''path'' | FieldService \<Rightarrow> ''service''
    | FieldBody \<Rightarrow> ''body'' | FieldHeaders \<Rightarrow> ''headers'' | FieldHeader \<Rightarrow> ''header''
    | FieldMethod \<Rightarrow> ''method'' | FieldStatus \<Rightarrow> ''status'' | FieldSourceIP \<Rightarrow> ''source_ip''
    | FieldCorrelationID \<Rightarrow> ''correlation_id'' | FieldHasEvents \<Rightarrow> ''has_events'')"

definition knownFields :: "field list" where
  "knownFields = [FieldHost, FieldPath, FieldService, FieldBody, FieldHeaders, FieldMethod,
     FieldStatus, FieldSourceIP, FieldCorrelationID, FieldHasEvents]"

definition known_field :: "string \<Rightarrow> field option" where
  "known_field k = find (\<lambda>f. field_string f = k) knownFields"

definition indexedFields :: "field list" where
  "indexedFields = [FieldHost, FieldPath, FieldService]"

definition structuredFields :: "field list" where
  "structuredFields = [FieldMethod, FieldStatus, FieldSourceIP, FieldCorrelationID, FieldHasEvents]"

datatype wildcard = WildcardNone | WildcardPrefix | WildcardSubstring

record status_filter =
  sf_exact :: int
  sf_class :: string

definition ClassRange :: "status_filter \<Rightarrow> int \<times> int" where
  "ClassRange sf = (let lo = int ((of_char (hd (sf_class sf)) :: nat) - 48) * 100 in (lo, lo + 99))"

record qterm =
  t_field :: field
  t_value :: string
  t_wildcard :: wildcard
  t_quoted :: bool
  t_negated :: bool
  t_header_name :: string
  t_status_filter :: "status_filter option"
  t_has_events :: "bool option"

type_synonym query = "qterm list"

definition IsUnindexedScan :: "query \<Rightarrow> bool" where
  "IsUnindexedScan q = list_ex (\<lambda>t. t_wildcard t = WildcardSubstring \<and>
     (t_field t = Freeform \<or> t_field t \<in> set indexedFields)) q"

section \<open>Errors\<close>

datatype message = UnclosedQuote | BareDash | NoKeyBeforeColon | EmptyValue | UnknownKey string
  | WildcardOnField string | UnknownMethod string | BadStatus | BadHasEvents string
  | EmptyHeaderName | WildcardInHeaderName | NoLiteral | InteriorWildcard

record parse_error =
  pe_token :: string
  pe_message :: message

section \<open>The tokenizer\<close>

definition isASCIISpace :: "char \<Rightarrow> bool" where
  "isASCIISpace c = (c \<in> {CHR '' '', CHR 0x09, CHR 0x0A, CHR 0x0D, CHR 0x0B, CHR 0x0C})"

text \<open>
  The inner loop of \<open>tokenize\<close> from the current index: the bytes of the token, the rest of
  the input, and whether the loop ended inside a quote.
\<close>

fun scan :: "bool \<Rightarrow> string \<Rightarrow> string \<times> string \<times> bool" where
  "scan inQuote [] = ([], [], inQuote)"
| "scan True (c # cs) =
     (if c = CHR 0x5C \<and> cs \<noteq> [] \<and> hd cs = CHR 0x22
      then (let (t, r, q) = scan True (tl cs) in (c # CHR 0x22 # t, r, q))
      else if c = CHR 0x22 then (let (t, r, q) = scan False cs in (c # t, r, q))
      else (let (t, r, q) = scan True cs in (c # t, r, q)))"
| "scan False (c # cs) =
     (if c = CHR 0x22 then (let (t, r, q) = scan True cs in (c # t, r, q))
      else if isASCIISpace c then ([], c # cs, False)
      else (let (t, r, q) = scan False cs in (c # t, r, q)))"

lemma scan_rest: "scan q s = (t, r, q') \<Longrightarrow> s = t @ r"
proof (induction q s arbitrary: t r q' rule: scan.induct)
  case (2 c cs)
  then show ?case by (cases cs) (auto split: if_splits prod.splits)
next
  case (3 c cs)
  then show ?case by (auto split: if_splits prod.splits)
qed simp

lemma scan_progress: "\<not> isASCIISpace c \<Longrightarrow> scan False (c # cs) = (t, r, q) \<Longrightarrow> t \<noteq> []"
  by (auto split: if_splits prod.splits)

lemma token_shrinks:
  assumes "dropWhile isASCIISpace s = c # cs" and "scan False (c # cs) = (t, r, q)"
  shows "length r < length s"
proof -
  have "\<not> isASCIISpace c" using hd_dropWhile [of isASCIISpace s] assms(1) by simp
  then have "t \<noteq> []" and split: "c # cs = t @ r" using assms(2) scan_progress scan_rest by blast+
  then have "length r < length (t @ r)" by simp
  also have "length (t @ r) \<le> length s" by (metis assms(1) length_dropWhile_le split)
  finally show ?thesis .
qed

function tokenize :: "string \<Rightarrow> parse_error + string list" where
  "tokenize s =
     (case dropWhile isASCIISpace s of
        [] \<Rightarrow> Inr []
      | c # cs \<Rightarrow>
          (case scan False (c # cs) of
             (t, r, inQuote) \<Rightarrow>
               if inQuote then Inl \<lparr>pe_token = c # cs, pe_message = UnclosedQuote\<rparr>
               else (case tokenize r of Inl e \<Rightarrow> Inl e | Inr ts \<Rightarrow> Inr (t # ts))))"
  by pat_completeness auto
termination by (relation "measure length") (auto dest: token_shrinks sym simp del: scan.simps)

declare tokenize.simps [simp del]

section \<open>The parser\<close>

definition parseValue :: "string \<Rightarrow> message + (string \<times> wildcard \<times> bool)" where
  "parseValue valueRaw =
     (if has_prefix valueRaw [CHR 0x22] then
        (if length valueRaw < 2 \<or> \<not> has_suffix valueRaw [CHR 0x22] then Inl UnclosedQuote
         else (let inner = take (length valueRaw - 2) (drop 1 valueRaw) in
               Inr (replace_all [CHR 0x5C, CHR 0x22] [CHR 0x22] inner, WildcardNone, True)))
      else
        (let leading = has_prefix valueRaw ''*'';
             v1 = (if leading then drop 1 valueRaw else valueRaw);
             trailing = (has_suffix v1 ''*'' \<and> length v1 > 0);
             v = (if trailing then take (length v1 - 1) v1 else v1)
         in if v = [] then Inl NoLiteral
            else if contains v ''*'' then Inl InteriorWildcard
            else if leading then Inr (v, WildcardSubstring, False)
            else if trailing then Inr (v, WildcardPrefix, False)
            else Inr (v, WildcardNone, False)))"

definition canonicalHTTPMethods :: "string list" where
  "canonicalHTTPMethods = [''GET'', ''HEAD'', ''POST'', ''PUT'', ''DELETE'', ''CONNECT'',
     ''OPTIONS'', ''TRACE'', ''PATCH'']"

definition parseStatusValue :: "string \<Rightarrow> status_filter option" where
  "parseStatusValue s =
     (if length s = 3 \<and> s ! 1 = CHR ''x'' \<and> s ! 2 = CHR ''x'' \<and>
         49 \<le> (of_char (s ! 0) :: nat) \<and> (of_char (s ! 0) :: nat) \<le> 53
      then Some \<lparr>sf_exact = 0, sf_class = s\<rparr>
      else (case ParseInt s of
              None \<Rightarrow> None
            | Some v \<Rightarrow> if v < 100 \<or> v > 599 then None else Some \<lparr>sf_exact = v, sf_class = []\<rparr>))"

definition plain_term :: "field \<Rightarrow> string \<Rightarrow> wildcard \<Rightarrow> bool \<Rightarrow> bool \<Rightarrow> string \<Rightarrow> qterm" where
  "plain_term f v w quoted negated hname =
     \<lparr>t_field = f, t_value = v, t_wildcard = w, t_quoted = quoted, t_negated = negated,
      t_header_name = hname, t_status_filter = None, t_has_events = None\<rparr>"

definition parseHeaderTerm :: "string \<Rightarrow> string \<Rightarrow> string \<Rightarrow> bool \<Rightarrow> parse_error + qterm" where
  "parseHeaderTerm raw key valueRaw negated =
     (let name = drop 7 key in
      if name = [] then Inl \<lparr>pe_token = raw, pe_message = EmptyHeaderName\<rparr>
      else if CHR ''*'' \<in> set name then Inl \<lparr>pe_token = raw, pe_message = WildcardInHeaderName\<rparr>
      else (case parseValue valueRaw of
              Inl m \<Rightarrow> Inl \<lparr>pe_token = raw, pe_message = m\<rparr>
            | Inr (value, wc, quoted) \<Rightarrow>
                Inr (plain_term FieldHeader value wc quoted negated (CanonicalMIMEHeaderKey name))))"

text \<open>The field switch at the end of \<open>parseToken\<close>.\<close>

definition finishTerm :: "unicode_map \<Rightarrow> unicode_map \<Rightarrow> string \<Rightarrow> qterm \<Rightarrow> parse_error + qterm" where
  "finishTerm ul uu raw t =
     (case t_field t of
        FieldMethod \<Rightarrow>
          (let upper = ToUpper uu (t_value t) in
           if upper \<notin> set canonicalHTTPMethods
           then Inl \<lparr>pe_token = raw, pe_message = UnknownMethod (t_value t)\<rparr>
           else Inr (t\<lparr>t_value := upper\<rparr>))
      | FieldStatus \<Rightarrow>
          (case parseStatusValue (t_value t) of
             None \<Rightarrow> Inl \<lparr>pe_token = raw, pe_message = BadStatus\<rparr>
           | Some sf \<Rightarrow> Inr (t\<lparr>t_status_filter := Some sf\<rparr>))
      | FieldHasEvents \<Rightarrow>
          (if ToLower ul (t_value t) = ''true'' then Inr (t\<lparr>t_has_events := Some True\<rparr>)
           else if ToLower ul (t_value t) = ''false'' then Inr (t\<lparr>t_has_events := Some False\<rparr>)
           else Inl \<lparr>pe_token = raw, pe_message = BadHasEvents (t_value t)\<rparr>)
      | _ \<Rightarrow> Inr t)"

definition parseKeyed ::
  "unicode_map \<Rightarrow> unicode_map \<Rightarrow> string \<Rightarrow> string \<Rightarrow> string \<Rightarrow> bool \<Rightarrow> parse_error + qterm" where
  "parseKeyed ul uu raw key valueRaw negated =
     (if valueRaw = [] then Inl \<lparr>pe_token = raw, pe_message = EmptyValue\<rparr>
      else (let keyLow = ToLower ul key in
        case known_field keyLow of
          None \<Rightarrow>
            if has_prefix keyLow ''header.'' then parseHeaderTerm raw key valueRaw negated
            else Inl \<lparr>pe_token = raw, pe_message = UnknownKey key\<rparr>
        | Some f \<Rightarrow>
            (case parseValue valueRaw of
               Inl m \<Rightarrow> Inl \<lparr>pe_token = raw, pe_message = m\<rparr>
             | Inr (value, wc, quoted) \<Rightarrow>
                 if f \<in> set structuredFields \<and> wc \<noteq> WildcardNone
                 then Inl \<lparr>pe_token = raw, pe_message = WildcardOnField key\<rparr>
                 else finishTerm ul uu raw (plain_term f value wc quoted negated []))))"

definition parseToken :: "unicode_map \<Rightarrow> unicode_map \<Rightarrow> string \<Rightarrow> parse_error + qterm" where
  "parseToken ul uu raw =
     (let negated = has_prefix raw ''-''; tok = (if negated then drop 1 raw else raw) in
      if negated \<and> tok = [] then Inl \<lparr>pe_token = raw, pe_message = BareDash\<rparr>
      else (case (if has_prefix tok [CHR 0x22] then None else index_byte tok (CHR '':'')) of
              None \<Rightarrow>
                (case parseValue tok of
                   Inl m \<Rightarrow> Inl \<lparr>pe_token = raw, pe_message = m\<rparr>
                 | Inr (value, wc, quoted) \<Rightarrow> Inr (plain_term Freeform value wc quoted negated []))
            | Some idx \<Rightarrow>
                if idx = 0 then Inl \<lparr>pe_token = raw, pe_message = NoKeyBeforeColon\<rparr>
                else parseKeyed ul uu raw (take idx tok) (drop (idx + 1) tok) negated))"

fun parse_tokens :: "unicode_map \<Rightarrow> unicode_map \<Rightarrow> string list \<Rightarrow> parse_error + query" where
  "parse_tokens ul uu [] = Inr []"
| "parse_tokens ul uu (tok # toks) =
     (case parseToken ul uu tok of
        Inl e \<Rightarrow> Inl e
      | Inr t \<Rightarrow> (case parse_tokens ul uu toks of Inl e \<Rightarrow> Inl e | Inr ts \<Rightarrow> Inr (t # ts)))"

definition Parse :: "unicode_map \<Rightarrow> unicode_map \<Rightarrow> string \<Rightarrow> parse_error + query" where
  "Parse ul uu s = (case tokenize s of Inl e \<Rightarrow> Inl e | Inr tokens \<Rightarrow> parse_tokens ul uu tokens)"

section \<open>Facts about the tokenizer\<close>

definition closed_token :: "string \<Rightarrow> bool" where
  "closed_token t \<longleftrightarrow> t \<noteq> [] \<and> \<not> isASCIISpace (hd t) \<and> scan False t = (t, [], False)"

lemma quote_not_space [simp]: "\<not> isASCIISpace (CHR 0x22)"
  by (simp add: isASCIISpace_def)

lemma scan_open_ne: "scan True s = (t, r, False) \<Longrightarrow> t \<noteq> []"
  by (cases s) (auto split: if_splits prod.splits)

lemma scan_again:
  "scan q s = (t, r, False) \<Longrightarrow> r' = [] \<or> isASCIISpace (hd r') \<Longrightarrow> scan q (t @ r') = (t, r', False)"
proof (induction q s arbitrary: t r rule: scan.induct)
  case (1 q)
  then show ?case
    by (cases r') (auto simp: isASCIISpace_def)
next
  case (2 c cs)
  show ?case
  proof (cases "c = CHR 0x5C \<and> cs \<noteq> [] \<and> hd cs = CHR 0x22")
    case True
    with 2 show ?thesis by (auto split: prod.splits)
  next
    case False
    then show ?thesis
    proof (cases "c = CHR 0x22")
      case True
      with 2 show ?thesis by (auto split: prod.splits)
    next
      case quote: False
      with False 2 obtain t' where t: "t = c # t'" "scan True cs = (t', r, False)"
        by (auto split: prod.splits)
      have "t' \<noteq> []" using t(2) by (rule scan_open_ne)
      moreover have "hd t' = hd cs" "cs \<noteq> []" using scan_rest [OF t(2)] \<open>t' \<noteq> []\<close> by auto
      ultimately show ?thesis using "2.IH"(3) [OF False quote t(2) "2.prems"(2)] t False quote by auto
    qed
  qed
next
  case (3 c cs)
  then show ?case by (cases r') (auto split: prod.splits if_splits)
qed

lemma tokenize_tokens: "tokenize s = Inr ts \<Longrightarrow> list_all closed_token ts"
proof (induction s arbitrary: ts rule: tokenize.induct)
  case (1 s)
  show ?case
  proof (cases "dropWhile isASCIISpace s")
    case Nil
    with "1.prems" show ?thesis by (simp add: tokenize.simps [of s])
  next
    case (Cons c cs)
    obtain t r q where sc: "scan False (c # cs) = (t, r, q)" by (rule prod_cases3)
    with Cons "1.prems" obtain ts' where q: "q = False" and ts: "tokenize r = Inr ts'" "ts = t # ts'"
      by (auto simp: tokenize.simps [of s] simp del: scan.simps split: if_splits sum.splits)
    have c: "\<not> isASCIISpace c" using hd_dropWhile [of isASCIISpace s] Cons by simp
    then have "t \<noteq> []" using scan_progress sc by blast
    moreover have "hd t = c" using scan_rest [OF sc] \<open>t \<noteq> []\<close> by (metis hd_append2 list.sel(1))
    moreover have "scan False t = (t, [], False)" using scan_again [of False "c # cs" t r "[]"] sc q by simp
    ultimately have "closed_token t" using c by (simp add: closed_token_def)
    moreover have "list_all closed_token ts'"
      by (rule "1.IH" [OF Cons sc [symmetric] refl _ ts(1)]) (simp add: q)
    ultimately show ?thesis using ts by simp
  qed
qed

lemma tokenize_Cons:
  assumes "closed_token t" and "r = [] \<or> isASCIISpace (hd r)"
  shows "tokenize (t @ r) = (case tokenize r of Inl e \<Rightarrow> Inl e | Inr ts \<Rightarrow> Inr (t # ts))"
proof -
  obtain c cs where t: "t = c # cs" "\<not> isASCIISpace c" using assms(1) by (cases t) (auto simp: closed_token_def)
  have "scan False (t @ r) = (t, r, False)"
    using scan_again [of False t t "[]" r] assms by (simp add: closed_token_def)
  moreover have "dropWhile isASCIISpace (t @ r) = t @ r" using t by simp
  ultimately have "tokenize (t @ r) = (case t @ r of [] \<Rightarrow> Inr [] | _ \<Rightarrow>
      (case tokenize r of Inl e \<Rightarrow> Inl e | Inr ts \<Rightarrow> Inr (t # ts)))"
    by (subst tokenize.simps) (simp del: scan.simps add: t(1) split: sum.split)
  then show ?thesis by (simp add: t(1) split: sum.split)
qed

lemma tokenize_space: "isASCIISpace c \<Longrightarrow> tokenize (c # s) = tokenize s"
  by (simp add: tokenize.simps [of "c # s"] tokenize.simps [of s])

lemma tokenize_Nil [simp]: "tokenize [] = Inr []"
  by (simp add: tokenize.simps)

lemma tokenize_join: "list_all closed_token ts \<Longrightarrow> tokenize (join '' '' ts) = Inr ts"
proof (induction "'' ''" ts rule: join.induct)
  case (2 p)
  then show ?case using tokenize_Cons [of p "[]"] by simp
next
  case (3 p q ps)
  have sp: "isASCIISpace (CHR '' '')" by (simp add: isASCIISpace_def)
  show ?case using 3 tokenize_Cons [of p "'' '' @ join '' '' (q # ps)"] tokenize_space [OF sp] sp by simp
qed simp

lemma tokenize_error: "tokenize s = Inl e \<Longrightarrow> sublist (pe_token e) s"
proof (induction s rule: tokenize.induct)
  case (1 s)
  show ?case
  proof (cases "dropWhile isASCIISpace s")
    case Nil
    with "1.prems" show ?thesis by (simp add: tokenize.simps [of s])
  next
    case (Cons c cs)
    obtain t r q where sc: "scan False (c # cs) = (t, r, q)" by (rule prod_cases3)
    have suf: "suffix (c # cs) s" using Cons by (metis suffix_dropWhile)
    show ?thesis
    proof (cases q)
      case True
      with Cons sc "1.prems" suf show ?thesis
        by (auto simp: tokenize.simps [of s] simp del: scan.simps intro: suffix_imp_sublist)
    next
      case False
      with Cons sc "1.prems" have "tokenize r = Inl e"
        by (auto simp: tokenize.simps [of s] simp del: scan.simps split: sum.splits)
      then have "sublist (pe_token e) r" using "1.IH" [OF Cons sc [symmetric] refl] False by blast
      moreover have "suffix r (c # cs)" using scan_rest [OF sc] by (simp add: suffix_def)
      ultimately show ?thesis using suf
        by (meson suffix_imp_sublist sublist_order.order.trans)
    qed
  qed
qed

lemma tokens_of_input: "tokenize s = Inr ts \<Longrightarrow> t \<in> set ts \<Longrightarrow> sublist t s"
proof (induction s arbitrary: ts rule: tokenize.induct)
  case (1 s)
  show ?case
  proof (cases "dropWhile isASCIISpace s")
    case Nil
    with "1.prems" show ?thesis by (simp add: tokenize.simps [of s])
  next
    case (Cons c cs)
    obtain t0 r q where sc: "scan False (c # cs) = (t0, r, q)" by (rule prod_cases3)
    with Cons "1.prems" obtain ts' where q: "q = False" and ts: "tokenize r = Inr ts'" "ts = t0 # ts'"
      by (auto simp: tokenize.simps [of s] simp del: scan.simps split: if_splits sum.splits)
    have "suffix (t0 @ r) s" using Cons scan_rest [OF sc] by (metis suffix_dropWhile)
    then have sub: "sublist (t0 @ r) s" by (rule suffix_imp_sublist)
    have "sublist t (t0 @ r)"
    proof (cases "t = t0")
      case False
      then have "sublist t r" using "1.IH" [OF Cons sc [symmetric] refl _ ts(1)] "1.prems"(2) ts q by simp
      then show ?thesis by (simp add: sublist_append)
    qed (simp add: sublist_append)
    then show ?thesis using sub by (rule sublist_order.order.trans)
  qed
qed

section \<open>Facts about values and terms\<close>

lemma contains_char [simp]: "contains s [c] \<longleftrightarrow> c \<in> set s"
  by (induction s) auto

lemma has_prefix_char: "has_prefix s [c] \<longleftrightarrow> s \<noteq> [] \<and> hd s = c"
  by (cases s) (auto simp: has_prefix_def)

lemma has_suffix_char: "has_suffix s [c] \<longleftrightarrow> s \<noteq> [] \<and> last s = c"
  by (cases s rule: rev_cases) (auto simp: has_suffix_suffix)

lemma unescape_escape:
  "replace_all [CHR 0x5C, CHR 0x22] [CHR 0x22] (replace_all [CHR 0x22] [CHR 0x5C, CHR 0x22] v) = v"
proof (induction v)
  case (Cons c v)
  show ?case
  proof (cases "c = CHR 0x22")
    case True
    with Cons show ?thesis by simp
  next
    case False
    have "\<not> prefix [CHR 0x22] (replace_all [CHR 0x22] [CHR 0x5C, CHR 0x22] v)"
      by (cases v) auto
    with False Cons show ?thesis by (simp add: prefix_Cons)
  qed
qed simp

lemma parseValue_cases:
  assumes "parseValue s = Inr (v, w, q)"
  obtains (quoted) i where "q" "w = WildcardNone" "s = [CHR 0x22] @ i @ [CHR 0x22]"
      "v = replace_all [CHR 0x5C, CHR 0x22] [CHR 0x22] i"
  | (plain) "\<not> q" "w = WildcardNone" "s = v" "v \<noteq> []" "CHR ''*'' \<notin> set v" "hd v \<noteq> CHR 0x22"
  | (prefix) "\<not> q" "w = WildcardPrefix" "s = v @ ''*''" "v \<noteq> []" "CHR ''*'' \<notin> set v" "hd v \<noteq> CHR 0x22"
  | (substring) "\<not> q" "w = WildcardSubstring" "s = ''*'' @ v \<or> s = ''*'' @ v @ ''*''" "v \<noteq> []" "CHR ''*'' \<notin> set v"
proof (cases "has_prefix s [CHR 0x22]")
  case True
  with assms have len: "2 \<le> length s" and suf: "last s = CHR 0x22" "s \<noteq> []"
    by (auto simp: parseValue_def has_suffix_char split: if_splits)
  obtain x i y where s: "s = x # i @ [y]"
    using len by (cases s; cases "tl s" rule: rev_cases) auto
  with True suf have "s = [CHR 0x22] @ i @ [CHR 0x22]" by (auto simp: has_prefix_char)
  with assms True show ?thesis
    by (intro quoted [of i]) (auto simp: parseValue_def has_prefix_char has_suffix_char split: if_splits)
next
  case False
  show ?thesis
  proof (cases "has_prefix s ''*''")
    case True
    then obtain s' where s: "s = CHR ''*'' # s'" by (cases s) (auto simp: has_prefix_char)
    show ?thesis
    proof (cases "has_suffix s' ''*''")
      case True
      then obtain u where "s' = u @ ''*''" by (cases s' rule: rev_cases) (auto simp: has_suffix_char)
      with assms False s True show ?thesis
        by (intro substring) (auto simp: parseValue_def has_prefix_char Let_def split: if_splits)
    next
      case nosuf: False
      with assms False s have "v = s'" "w = WildcardSubstring" "\<not> q" "v \<noteq> []" "CHR ''*'' \<notin> set v"
        by (simp_all add: parseValue_def has_prefix_char Let_def split: if_splits)
      with s show ?thesis by (intro substring) simp_all
    qed
  next
    case nostar: False
    show ?thesis
    proof (cases "has_suffix s ''*''")
      case True
      then obtain u where s: "s = u @ ''*''" by (cases s rule: rev_cases) (auto simp: has_suffix_char)
      have "parseValue s = (if u = [] then Inl NoLiteral else if CHR ''*'' \<in> set u then Inl InteriorWildcard
          else Inr (u, WildcardPrefix, False))"
        unfolding parseValue_def Let_def if_not_P [OF False] if_not_P [OF nostar] has_suffix_char by (simp add: s)
      with assms have "v = u" "w = WildcardPrefix" "\<not> q" "u \<noteq> []" "CHR ''*'' \<notin> set u"
        by (simp_all split: if_splits)
      with s False show ?thesis by (intro prefix) (auto simp: has_prefix_char)
    next
      case nosuf: False
      with assms False nostar have "s \<noteq> []" "v = s" "w = WildcardNone" "\<not> q" "CHR ''*'' \<notin> set s"
        by (simp_all add: parseValue_def Let_def split: if_splits)
      with False show ?thesis by (intro plain) (auto simp: has_prefix_char)
    qed
  qed
qed

definition plain_char :: "char \<Rightarrow> bool" where
  "plain_char c \<longleftrightarrow> c \<noteq> CHR 0x22 \<and> \<not> isASCIISpace c"

abbreviation closes :: "string \<Rightarrow> bool" where
  "closes s \<equiv> scan False s = (s, [], False)"

lemma scan_plain: "list_all plain_char p \<Longrightarrow> closes (p @ s) \<longleftrightarrow> closes s"
  by (induction p) (auto simp: plain_char_def split: prod.splits)

lemma closes_plain: "closes (p @ s) \<Longrightarrow> CHR 0x22 \<notin> set p \<Longrightarrow> list_all plain_char p"
  by (induction p) (auto simp: plain_char_def split: prod.splits if_splits)

lemma scan_append:
  "scan q s = (s, [], False) \<Longrightarrow> closes b \<Longrightarrow> scan q (s @ b) = (s @ b, [], False)"
proof (induction q s rule: scan.induct)
  case (2 c cs)
  show ?case
  proof (cases "cs = []")
    case True
    with 2 show ?thesis by (auto split: if_splits prod.splits)
  next
    case False
    with 2 show ?thesis by (auto split: if_splits prod.splits)
  qed
qed (auto split: if_splits prod.splits)

lemma scan_step:
  assumes "scan True (c # cs) = (t, r, q)" and "\<not> (c = CHR 0x5C \<and> cs \<noteq> [] \<and> hd cs = CHR 0x22)"
  obtains t' q' where "scan q' cs = (t', r, q)"
  using assms by (simp split: if_splits prod.splits)

lemma scan_ends_open: "scan q (a @ [CHR 0x5C, CHR 0x22]) = (t, [], q') \<Longrightarrow> q'"
proof (induction "length a" arbitrary: q a t rule: less_induct)
  case less
  show ?case
  proof (cases a)
    case Nil
    with less.prems show ?thesis by (cases q) (auto split: if_splits prod.splits simp: isASCIISpace_def)
  next
    case (Cons c a')
    have IH: "\<And>b q t. length b < length a \<Longrightarrow> scan q (b @ [CHR 0x5C, CHR 0x22]) = (t, [], q') \<Longrightarrow> q'"
      using less.hyps by blast
    show ?thesis
    proof (cases q)
      case False
      with Cons less.prems obtain t' q0 where "scan q0 (a' @ [CHR 0x5C, CHR 0x22]) = (t', [], q')"
        by (auto split: if_splits prod.splits)
      with IH [of a'] Cons show ?thesis by simp
    next
      case True
      show ?thesis
      proof (cases "c = CHR 0x5C \<and> a' \<noteq> [] \<and> hd a' = CHR 0x22")
        case esc: True
        then obtain a'' where a': "a' = CHR 0x22 # a''" by (cases a') auto
        with Cons esc True less.prems obtain t' where "scan True (a'' @ [CHR 0x5C, CHR 0x22]) = (t', [], q')"
          by (auto split: if_splits prod.splits)
        with IH [of a''] Cons a' show ?thesis by simp
      next
        case no: False
        have "scan True (c # a' @ [CHR 0x5C, CHR 0x22]) = (t, [], q')" using Cons True less.prems by simp
        then obtain t' q0 where "scan q0 (a' @ [CHR 0x5C, CHR 0x22]) = (t', [], q')"
          by (rule scan_step) (use no in \<open>auto simp: hd_append\<close>)
        with IH [of a'] Cons show ?thesis by simp
      qed
    qed
  qed
qed

lemma escape_closes:
  "v = [] \<or> last v \<noteq> CHR 0x5C \<Longrightarrow>
   scan True (replace_all [CHR 0x22] [CHR 0x5C, CHR 0x22] v @ [CHR 0x22]) =
     (replace_all [CHR 0x22] [CHR 0x5C, CHR 0x22] v @ [CHR 0x22], [], False)"
proof (induction v)
  case (Cons c v)
  have hd_esc: "v \<noteq> [] \<Longrightarrow> replace_all [CHR 0x22] [CHR 0x5C, CHR 0x22] v \<noteq> [] \<and>
      hd (replace_all [CHR 0x22] [CHR 0x5C, CHR 0x22] v) \<noteq> CHR 0x22"
    by (cases v) auto
  show ?case
  proof (cases "v = []")
    case True
    with Cons.prems show ?thesis by simp
  next
    case False
    with Cons hd_esc show ?thesis by (auto simp: hd_append split: prod.splits)
  qed
qed simp

lemma unescape_last:
  "replace_all [CHR 0x5C, CHR 0x22] [CHR 0x22] i \<noteq> [] \<Longrightarrow>
   last (replace_all [CHR 0x5C, CHR 0x22] [CHR 0x22] i) = CHR 0x5C \<Longrightarrow> last i = CHR 0x5C \<and> i \<noteq> []"
proof (induction "length i" arbitrary: i rule: less_induct)
  case less
  show ?case
  proof (cases i)
    case (Cons c cs)
    show ?thesis
    proof (cases "prefix [CHR 0x5C, CHR 0x22] i")
      case True
      then obtain r where i: "i = CHR 0x5C # CHR 0x22 # r" by (auto simp: prefix_def)
      with less.prems have "replace_all [CHR 0x5C, CHR 0x22] [CHR 0x22] r \<noteq> []"
        by (auto split: if_splits)
      with i less.prems less.hyps [of r] show ?thesis by (auto split: if_splits)
    next
      case False
      then have eq: "replace_all [CHR 0x5C, CHR 0x22] [CHR 0x22] i = c # replace_all [CHR 0x5C, CHR 0x22] [CHR 0x22] cs"
        using Cons by auto
      show ?thesis
      proof (cases "replace_all [CHR 0x5C, CHR 0x22] [CHR 0x22] cs = []")
        case True
        then have "cs = []" by (cases cs) (auto split: if_splits)
        with eq True less.prems Cons show ?thesis by simp
      next
        case ne: False
        with eq less.prems less.hyps [of cs] Cons show ?thesis by auto
      qed
    qed
  qed (use less.prems in simp)
qed

section \<open>Well-formed terms\<close>

definition wf_filter :: "status_filter \<Rightarrow> bool" where
  "wf_filter sf \<longleftrightarrow>
     (sf_class sf = [] \<and> 100 \<le> sf_exact sf \<and> sf_exact sf \<le> 599) \<or>
     (sf_exact sf = 0 \<and> length (sf_class sf) = 3 \<and> drop 1 (sf_class sf) = ''xx'' \<and>
      fst (ClassRange sf) \<in> {100, 200, 300, 400, 500} \<and> snd (ClassRange sf) = fst (ClassRange sf) + 99)"

definition wf_term :: "qterm \<Rightarrow> bool" where
  "wf_term t \<longleftrightarrow>
     (t_field t \<in> set structuredFields \<or> t_quoted t \<longrightarrow> t_wildcard t = WildcardNone) \<and>
     (\<not> t_quoted t \<longrightarrow> t_value t \<noteq> [] \<and> CHR ''*'' \<notin> set (t_value t)) \<and>
     (t_field t = FieldMethod \<longrightarrow> t_value t \<in> set canonicalHTTPMethods) \<and>
     (case t_status_filter t of None \<Rightarrow> t_field t \<noteq> FieldStatus
      | Some sf \<Rightarrow> t_field t = FieldStatus \<and> wf_filter sf) \<and>
     (t_has_events t \<noteq> None \<longleftrightarrow> t_field t = FieldHasEvents) \<and>
     (if t_field t = FieldHeader
      then t_header_name t \<noteq> [] \<and> CanonicalMIMEHeaderKey (t_header_name t) = t_header_name t \<and>
           CHR ''*'' \<notin> set (t_header_name t) \<and> CHR '':'' \<notin> set (t_header_name t)
      else t_header_name t = [])"

lemma ascii_case_nonletter:
  assumes "\<not> (65 \<le> (of_char c :: nat) \<and> (of_char c :: nat) \<le> 90)" "\<not> (97 \<le> (of_char c :: nat) \<and> (of_char c :: nat) \<le> 122)"
  shows "c = ascii_upper d \<longleftrightarrow> c = d" "c = ascii_lower d \<longleftrightarrow> c = d"
proof -
  show "c = ascii_upper d \<longleftrightarrow> c = d"
  proof (cases "97 \<le> (of_char d :: nat) \<and> (of_char d :: nat) \<le> 122")
    case True
    then have "65 \<le> (of_char (ascii_upper d) :: nat)" "(of_char (ascii_upper d) :: nat) \<le> 90" by (auto simp: ascii_upper_code)
    with assms True show ?thesis by fastforce
  qed (auto simp: ascii_upper_def)
  show "c = ascii_lower d \<longleftrightarrow> c = d"
  proof (cases "65 \<le> (of_char d :: nat) \<and> (of_char d :: nat) \<le> 90")
    case True
    then have "97 \<le> (of_char (ascii_lower d) :: nat)" "(of_char (ascii_lower d) :: nat) \<le> 122" by (simp_all add: ascii_lower_code)
    with assms True show ?thesis by fastforce
  qed (auto simp: ascii_lower_def)
qed

lemma canon_walk_nonletter:
  "\<not> (65 \<le> (of_char c :: nat) \<and> (of_char c :: nat) \<le> 90) \<Longrightarrow> \<not> (97 \<le> (of_char c :: nat) \<and> (of_char c :: nat) \<le> 122) \<Longrightarrow>
   c \<in> set (canon_walk up s) \<longleftrightarrow> c \<in> set s"
  by (induction up s rule: canon_walk.induct) (simp_all add: Let_def ascii_case_nonletter del: of_char_eq_iff)

lemma Canonical_nonletter:
  "\<not> (65 \<le> (of_char c :: nat) \<and> (of_char c :: nat) \<le> 90) \<Longrightarrow> \<not> (97 \<le> (of_char c :: nat) \<and> (of_char c :: nat) \<le> 122) \<Longrightarrow>
   c \<in> set (CanonicalMIMEHeaderKey s) \<longleftrightarrow> c \<in> set s"
  by (simp add: CanonicalMIMEHeaderKey_def canon_walk_nonletter)

lemma parseStatusValue_wf: "parseStatusValue s = Some sf \<Longrightarrow> wf_filter sf"
proof -
  assume p: "parseStatusValue s = Some sf"
  show ?thesis
  proof (cases "sf_exact sf = 0")
    case False
    with p show ?thesis by (auto simp: parseStatusValue_def wf_filter_def split: if_splits option.splits)
  next
    case True
    with p have sf: "length s = 3" "s ! 1 = CHR ''x''" "s ! 2 = CHR ''x''" "49 \<le> (of_char (s ! 0) :: nat)"
      "(of_char (s ! 0) :: nat) \<le> 53" "sf_class sf = s"
      by (auto simp: parseStatusValue_def split: if_splits option.splits)
    then obtain c where s: "s = [c, CHR ''x'', CHR ''x'']"
      by (auto simp: numeral_3_eq_3 length_Suc_conv)
    define n where "n = (of_char c :: nat)"
    have "n = 49 \<or> n = 50 \<or> n = 51 \<or> n = 52 \<or> n = 53" using sf s by (auto simp: n_def)
    then show ?thesis using True sf s by (auto simp: wf_filter_def ClassRange_def n_def [symmetric] Let_def)
  qed
qed

lemma parseToken_cases:
  assumes "parseToken ul uu raw = Inr t"
  obtains (free) neg vr v w q where "raw = (if neg then ''-'' else []) @ vr" "\<not> neg \<longrightarrow> \<not> has_prefix vr ''-''"
      "has_prefix vr [CHR 0x22] \<or> CHR '':'' \<notin> set vr" "parseValue vr = Inr (v, w, q)"
      "t = plain_term Freeform v w q neg []"
  | (keyed) neg key vr where "raw = (if neg then ''-'' else []) @ key @ '':'' @ vr" "\<not> neg \<longrightarrow> \<not> has_prefix key ''-''"
      "key \<noteq> []" "hd key \<noteq> CHR 0x22" "CHR '':'' \<notin> set key" "parseKeyed ul uu raw key vr neg = Inr t"
proof -
  define neg where "neg = has_prefix raw ''-''"
  define tok where "tok = (if neg then drop 1 raw else raw)"
  have raw: "raw = (if neg then ''-'' else []) @ tok"
    by (cases raw) (auto simp: neg_def tok_def has_prefix_char)
  have nd: "\<not> neg \<longrightarrow> \<not> has_prefix tok ''-''" by (simp add: neg_def tok_def)
  show ?thesis
  proof (cases "if has_prefix tok [CHR 0x22] then None else index_byte tok (CHR '':'')")
    case None
    with assms obtain v w q where "parseValue tok = Inr (v, w, q)" "t = plain_term Freeform v w q neg []"
      by (auto simp: parseToken_def Let_def neg_def [symmetric] tok_def [symmetric] split: if_splits sum.splits)
    with None raw nd show ?thesis by (intro free [of neg tok]) (auto split: if_splits)
  next
    case (Some i)
    with assms have k: "parseKeyed ul uu raw (take i tok) (drop (i + 1) tok) neg = Inr t" "i \<noteq> 0"
      by (auto simp: parseToken_def Let_def neg_def [symmetric] tok_def [symmetric] split: if_splits sum.splits)
    from Some have i: "i < length tok" "tok ! i = CHR '':''" "CHR '':'' \<notin> set (take i tok)" "\<not> has_prefix tok [CHR 0x22]"
      by (auto split: if_splits dest: index_byte_Some)
    then have "tok = take i tok @ '':'' @ drop (i + 1) tok" by (metis id_take_nth_drop append_Cons append_Nil Suc_eq_plus1)
    moreover have "hd (take i tok) = hd tok" "take i tok \<noteq> []" "tok \<noteq> []" using k(2) i(1) by (auto simp: hd_take)
    ultimately show ?thesis using raw nd i k by (intro keyed [of neg "take i tok" "drop (i + 1) tok"]) (auto simp: has_prefix_char)
  qed
qed

lemma parseKeyed_cases:
  assumes "parseKeyed ul uu raw key vr neg = Inr t"
  obtains (header) v w q where "known_field (ToLower ul key) = None" "has_prefix (ToLower ul key) ''header.''"
      "drop 7 key \<noteq> []" "CHR ''*'' \<notin> set (drop 7 key)" "vr \<noteq> []" "parseValue vr = Inr (v, w, q)"
      "t = plain_term FieldHeader v w q neg (CanonicalMIMEHeaderKey (drop 7 key))"
  | (known) f v w q where "known_field (ToLower ul key) = Some f" "vr \<noteq> []" "parseValue vr = Inr (v, w, q)"
      "f \<in> set structuredFields \<longrightarrow> w = WildcardNone" "finishTerm ul uu raw (plain_term f v w q neg []) = Inr t"
  using assms
  by (auto simp: parseKeyed_def parseHeaderTerm_def Let_def split: if_splits option.splits sum.splits)

lemma known_field_Some: "known_field k = Some f \<Longrightarrow> f \<in> set knownFields \<and> field_string f = k"
  by (auto simp: known_field_def find_Some_iff)

lemma parseValue_wf:
  "parseValue s = Inr (v, w, q) \<Longrightarrow> (q \<longrightarrow> w = WildcardNone) \<and> (\<not> q \<longrightarrow> v \<noteq> [] \<and> CHR ''*'' \<notin> set v)"
  by (erule parseValue_cases) auto

lemma finishTerm_cases:
  assumes "finishTerm ul uu raw t0 = Inr t"
  obtains (verb) "t_field t0 = FieldMethod" "ToUpper uu (t_value t0) \<in> set canonicalHTTPMethods"
     "t = t0\<lparr>t_value := ToUpper uu (t_value t0)\<rparr>"
  | (status) sf where "t_field t0 = FieldStatus" "parseStatusValue (t_value t0) = Some sf" "t = t0\<lparr>t_status_filter := Some sf\<rparr>"
  | (has_events) b where "t_field t0 = FieldHasEvents" "t = t0\<lparr>t_has_events := Some b\<rparr>"
     "ToLower ul (t_value t0) = (if b then ''true'' else ''false'')"
  | (other) "t_field t0 \<notin> {FieldMethod, FieldStatus, FieldHasEvents}" "t = t0"
proof -
  consider (m) "t_field t0 = FieldMethod" | (s) "t_field t0 = FieldStatus" | (h) "t_field t0 = FieldHasEvents"
    | (o) "t_field t0 \<notin> {FieldMethod, FieldStatus, FieldHasEvents}" by blast
  then show ?thesis
  proof cases
    case m
    with assms show ?thesis by (intro verb) (simp_all add: finishTerm_def Let_def split: if_splits)
  next
    case s
    with assms show ?thesis by (auto simp: finishTerm_def intro: status split: option.splits)
  next
    case h
    with assms show ?thesis using has_events [of True] has_events [of False] by (simp add: finishTerm_def split: if_splits)
  next
    case o
    with assms show ?thesis by (intro other) (simp_all add: finishTerm_def split: field.splits)
  qed
qed

lemma parseToken_wf:
  assumes "parseToken ul uu raw = Inr t" shows "wf_term t"
  using assms
proof (cases rule: parseToken_cases)
  case (free neg vr v w q)
  then show ?thesis using parseValue_wf by (auto simp: wf_term_def plain_term_def structuredFields_def)
next
  case (keyed neg key vr)
  from keyed(6) show ?thesis
  proof (cases rule: parseKeyed_cases)
    case (header v w q)
    have "CHR '':'' \<notin> set (drop 7 key)" using keyed(5) in_set_dropD by fast
    then show ?thesis using header parseValue_wf [OF header(6)]
      by (auto simp: wf_term_def plain_term_def structuredFields_def Canonical_nonletter)
  next
    case (known f v w q)
    have f: "f \<in> set knownFields" using known_field_Some known(1) by blast
    from known(5) show ?thesis
    proof (cases rule: finishTerm_cases)
      case verb
      then show ?thesis using known parseValue_wf [OF known(3)]
        by (auto simp: wf_term_def plain_term_def structuredFields_def canonicalHTTPMethods_def)
    next
      case (status sf)
      then show ?thesis using known parseValue_wf [OF known(3)]
        by (auto simp: wf_term_def plain_term_def structuredFields_def parseStatusValue_wf)
    next
      case (has_events b)
      then show ?thesis using known parseValue_wf [OF known(3)]
        by (auto simp: wf_term_def plain_term_def structuredFields_def)
    next
      case other
      then show ?thesis using known parseValue_wf [OF known(3)] f
        by (auto simp: wf_term_def plain_term_def knownFields_def)
    qed
  qed
qed

lemma parseToken_error: "parseToken ul uu raw = Inl e \<Longrightarrow> pe_token e = raw"
proof -
  assume err: "parseToken ul uu raw = Inl e"
  have header: "parseHeaderTerm raw k v n = Inl e \<Longrightarrow> pe_token e = raw" for k v n
    by (auto simp: parseHeaderTerm_def Let_def split: if_splits sum.splits)
  have finish: "finishTerm ul uu raw t = Inl e \<Longrightarrow> pe_token e = raw" for t
    by (auto simp: finishTerm_def Let_def split: if_splits field.splits option.splits)
  have keyed: "parseKeyed ul uu raw k v n = Inl e \<Longrightarrow> pe_token e = raw" for k v n
    by (auto simp: parseKeyed_def Let_def split: if_splits option.splits sum.splits dest: header finish)
  from err show ?thesis
    by (auto simp: parseToken_def Let_def split: if_splits option.splits sum.splits dest: keyed)
qed

lemma parse_tokens_sound:
  "case parse_tokens ul uu toks of Inl e \<Rightarrow> pe_token e \<in> set toks | Inr q \<Rightarrow> list_all wf_term q \<and> length q = length toks"
  by (induction toks) (auto split: sum.splits dest: parseToken_error parseToken_wf)

section \<open>Properties\<close>

text \<open>
  C34. \<open>Parse\<close> is sound on every input. A successful parse yields only well-formed terms:
  structured fields and quoted values carry no wildcard, an unquoted value is non-empty and
  free of \<open>*\<close>, a method is canonical, a status filter is a code in 100..599 or a class whose
  \<open>ClassRange\<close> is one of the five hundreds, has_events is a boolean, a header name is canonical
  and free of \<open>*\<close> and \<open>:\<close>. A failed parse reports a token that is a contiguous part of the input.
\<close>

theorem Parse_sound:
  "case Parse ul uu s of Inl e \<Rightarrow> sublist (pe_token e) s | Inr q \<Rightarrow> list_all wf_term q"
proof (cases "tokenize s")
  case (Inl e)
  then show ?thesis using tokenize_error by (simp add: Parse_def)
next
  case (Inr toks)
  then show ?thesis using parse_tokens_sound [where ul = ul and uu = uu and toks = toks] tokens_of_input [OF Inr]
    by (auto simp: Parse_def split: sum.splits)
qed

end
