(* ===== verification/Term_Predicate.thy ===== *)
theory Term_Predicate
  imports Records Searchql
begin

text \<open>
  The in-memory matcher of internal/searchql/compile_predicate.go, and the two routing
  predicates on queries at the end of internal/searchql/compile_sql.go. A Go map is scanned in
  an arbitrary order; the scans below are existential, so the order does not matter.
\<close>

section \<open>Matching a value\<close>

definition matchString :: "string \<Rightarrow> qterm \<Rightarrow> bool" where
  "matchString s t = (case t_wildcard t of
      WildcardPrefix \<Rightarrow> has_prefix s (t_value t)
    | WildcardSubstring \<Rightarrow> contains s (t_value t)
    | WildcardNone \<Rightarrow> s = t_value t)"

definition hostOf :: "captured_request \<Rightarrow> string" where
  "hostOf r = (case map_of (entries (cr_headers r)) ''Host'' of Some (v # vs) \<Rightarrow> v | _ \<Rightarrow> [])"

definition bodyContainsFold :: "unicode_map \<Rightarrow> string \<Rightarrow> string \<Rightarrow> bool" where
  "bodyContainsFold ul body needle = (if needle = [] then True else contains (ToLower ul body) needle)"

definition HeadersAny :: "unicode_map \<Rightarrow> hmap option \<Rightarrow> string \<Rightarrow> bool" where
  "HeadersAny ul h needle =
     (let needleLower = ToLower ul needle in
      list_ex (\<lambda>(name, vs). contains (ToLower ul name) needleLower \<or>
        list_ex (\<lambda>v. contains (ToLower ul v) needleLower) vs) (entries h))"

definition HeaderValueContains :: "unicode_map \<Rightarrow> hmap option \<Rightarrow> string \<Rightarrow> string \<Rightarrow> bool" where
  "HeaderValueContains ul h name needle =
     (case map_of (entries h) name of
        None \<Rightarrow> False
      | Some vs \<Rightarrow> list_ex (\<lambda>v. contains (ToLower ul v) (ToLower ul needle)) vs)"

section \<open>Matching a record\<close>

definition MatchFreeformRequest :: "unicode_map \<Rightarrow> qterm \<Rightarrow> string \<Rightarrow> captured_request \<Rightarrow> bool" where
  "MatchFreeformRequest ul t bodyNeedle r =
     (matchString (hostOf r) t \<or> matchString (cr_path r) t \<or> matchString (cr_service r) t \<or>
      bodyContainsFold ul (cr_body r) bodyNeedle \<or> HeadersAny ul (cr_headers r) (t_value t))"

definition MatchFreeformResponseEvent :: "unicode_map \<Rightarrow> qterm \<Rightarrow> response_event \<Rightarrow> bool" where
  "MatchFreeformResponseEvent ul t ev =
     (let lowerVal = ToLower ul (t_value t) in
      matchString (re_service ev) t \<or> bodyContainsFold ul (re_body ev) lowerVal \<or>
      HeadersAny ul (re_headers ev) (t_value t))"

definition MatchFreeformOutboundEvent :: "unicode_map \<Rightarrow> qterm \<Rightarrow> outbound_event \<Rightarrow> bool" where
  "MatchFreeformOutboundEvent ul t ev =
     (let lowerVal = ToLower ul (t_value t) in
      matchString (oe_service ev) t \<or> matchString (oq_path (oe_request ev)) t \<or>
      bodyContainsFold ul (oq_body (oe_request ev)) lowerVal \<or>
      HeadersAny ul (oq_headers (oe_request ev)) (t_value t) \<or>
      (case oe_response ev of
         None \<Rightarrow> False
       | Some rsp \<Rightarrow> bodyContainsFold ul (or_body rsp) lowerVal \<or> HeadersAny ul (or_headers rsp) (t_value t)))"

definition evaluateTerm :: "unicode_map \<Rightarrow> qterm \<Rightarrow> string \<Rightarrow> captured_request \<Rightarrow> bool" where
  "evaluateTerm ul t bodyNeedle r = (case t_field t of
      Freeform \<Rightarrow> MatchFreeformRequest ul t bodyNeedle r
    | FieldHost \<Rightarrow> matchString (hostOf r) t
    | FieldPath \<Rightarrow> matchString (cr_path r) t
    | FieldService \<Rightarrow> matchString (cr_service r) t
    | FieldBody \<Rightarrow> bodyContainsFold ul (cr_body r) bodyNeedle
    | FieldHeaders \<Rightarrow> HeadersAny ul (cr_headers r) (t_value t)
    | FieldHeader \<Rightarrow> HeaderValueContains ul (cr_headers r) (t_header_name t) (t_value t)
    | FieldMethod \<Rightarrow> cr_method r = t_value t
    | FieldSourceIP \<Rightarrow> cr_source_ip r = t_value t
    | FieldCorrelationID \<Rightarrow> cr_correlation_id r = t_value t
    | _ \<Rightarrow> False)"

definition matchTerm :: "unicode_map \<Rightarrow> qterm \<Rightarrow> string \<Rightarrow> captured_request \<Rightarrow> bool" where
  "matchTerm ul t bodyNeedle r =
     (if t_field t = FieldStatus \<or> t_field t = FieldHasEvents then True
      else (let matched = evaluateTerm ul t bodyNeedle r in
            if t_negated t then \<not> matched else matched))"

definition bodyNeedles :: "unicode_map \<Rightarrow> query \<Rightarrow> string list" where
  "bodyNeedles ul q =
     map (\<lambda>t. if t_field t = FieldBody \<or> t_field t = Freeform then ToLower ul (t_value t) else []) q"

definition CompilePredicate :: "unicode_map \<Rightarrow> query \<Rightarrow> captured_request \<Rightarrow> bool" where
  "CompilePredicate ul q r =
     (if q = [] then True
      else list_all (\<lambda>(t, needle). matchTerm ul t needle r) (zip q (bodyNeedles ul q)))"

definition HasRequestOnlyTerm :: "query \<Rightarrow> bool" where
  "HasRequestOnlyTerm q = list_ex (\<lambda>t. t_field t \<in>
     set [FieldHost, FieldPath, FieldMethod, FieldSourceIP, FieldBody, FieldHasEvents]) q"

definition HasNonTemporalTerm :: "query \<Rightarrow> bool" where
  "HasNonTemporalTerm q = (length q > 0)"

section \<open>Facts\<close>

text \<open>The needle a term is matched with, whatever its position in the query.\<close>

definition needle_of :: "unicode_map \<Rightarrow> qterm \<Rightarrow> string" where
  "needle_of ul t = (if t_field t = FieldBody \<or> t_field t = Freeform then ToLower ul (t_value t) else [])"

definition satisfies :: "unicode_map \<Rightarrow> captured_request \<Rightarrow> qterm \<Rightarrow> bool" where
  "satisfies ul r t = matchTerm ul t (needle_of ul t) r"

lemma CompilePredicate_iff: "CompilePredicate ul q r \<longleftrightarrow> (\<forall>t \<in> set q. satisfies ul r t)"
proof -
  have "list_all (\<lambda>(t, n). matchTerm ul t n r) (zip q (map (needle_of ul) q)) \<longleftrightarrow> (\<forall>t \<in> set q. satisfies ul r t)"
    by (induction q) (auto simp: satisfies_def)
  moreover have "bodyNeedles ul q = map (needle_of ul) q" by (simp add: bodyNeedles_def needle_of_def)
  ultimately show ?thesis by (simp add: CompilePredicate_def)
qed

lemma HeadersAny_iff:
  "HeadersAny ul h n \<longleftrightarrow> (\<exists>(name, vs) \<in> set (entries h).
     \<exists>s \<in> set (name # vs). sublist (ToLower ul n) (ToLower ul s))"
  by (fastforce simp: HeadersAny_def Let_def list_ex_iff contains_sublist)

lemma matchString_negated [simp]: "matchString s (t\<lparr>t_negated := b\<rparr>) = matchString s t"
  by (simp add: matchString_def split: wildcard.split)

lemma evaluateTerm_negated [simp]: "evaluateTerm ul (t\<lparr>t_negated := b\<rparr>) n r = evaluateTerm ul t n r"
  by (simp add: evaluateTerm_def MatchFreeformRequest_def split: field.split)

lemma negate_satisfies:
  "t_field t \<notin> {FieldStatus, FieldHasEvents} \<Longrightarrow>
   satisfies ul r (t\<lparr>t_negated := \<not> t_negated t\<rparr>) \<longleftrightarrow> \<not> satisfies ul r t"
  by (simp add: satisfies_def matchTerm_def needle_of_def Let_def)

section \<open>Properties\<close>

text \<open>
  A compiled predicate is the conjunction of its terms, each decided on its own: splitting
  a query splits the predicate; negating a term that is not status or has_events complements
  exactly that term; and status and has_events terms never reject a request.
\<close>

lemma CompilePredicate_conjunction:
  "CompilePredicate ul (q @ q') r = (CompilePredicate ul q r \<and> CompilePredicate ul q' r) \<and>
   (t_field t \<notin> {FieldStatus, FieldHasEvents} \<longrightarrow>
      CompilePredicate ul [t\<lparr>t_negated := \<not> t_negated t\<rparr>] r = (\<not> CompilePredicate ul [t] r)) \<and>
   (t_field t \<in> {FieldStatus, FieldHasEvents} \<longrightarrow> CompilePredicate ul (t # q) r = CompilePredicate ul q r)"
  by (auto simp: CompilePredicate_iff negate_satisfies) (auto simp: satisfies_def matchTerm_def)

end
