(* ===== verification/Inspect_Types.thy ===== *)
theory Inspect_Types
  imports Term_Predicate
begin

text \<open>
  Package inspect: the pagination cursor of internal/inspect/cursor.go with its base64 wire
  format, and the row, query and aggregation types of internal/inspect/reader.go. The locale
  \<open>page_reader\<close> at the end is the contract of the Reader interface's \<open>ReadRoots\<close>; the
  lemmas in it are what the inspect handlers may conclude about any reader.
\<close>

section \<open>Base64\<close>

text \<open>
  \<open>base64.StdEncoding\<close>: the alphabet and padding of RFC 4648. The decoder skips carriage
  returns and line feeds, refuses a partial final quantum and bytes after the padding, and
  ignores the unused low bits of a padded quantum.
\<close>

definition b64_alphabet :: string where
  "b64_alphabet = ''ABCDEFGHIJKLMNOPQRSTUVWXYZabcdefghijklmnopqrstuvwxyz0123456789+/''"

definition b64_char :: "nat \<Rightarrow> char" where
  "b64_char n = b64_alphabet ! n"

definition b64_value :: "char \<Rightarrow> nat option" where
  "b64_value c = index_byte b64_alphabet c"

fun b64_encode :: "string \<Rightarrow> string" where
  "b64_encode [] = []"
| "b64_encode [x] =
     (let a = (of_char x :: nat) in [b64_char (a div 4), b64_char (a mod 4 * 16), CHR ''='', CHR ''=''])"
| "b64_encode [x, y] =
     (let a = (of_char x :: nat); b = (of_char y :: nat) in
      [b64_char (a div 4), b64_char (a mod 4 * 16 + b div 16), b64_char (b mod 16 * 4), CHR ''=''])"
| "b64_encode (x # y # z # r) =
     (let a = (of_char x :: nat); b = (of_char y :: nat); c = (of_char z :: nat) in
      [b64_char (a div 4), b64_char (a mod 4 * 16 + b div 16),
       b64_char (b mod 16 * 4 + c div 64), b64_char (c mod 64)] @ b64_encode r)"

fun b64_quanta :: "string \<Rightarrow> string option" where
  "b64_quanta [] = Some []"
| "b64_quanta (c0 # c1 # c2 # c3 # r) =
     (case (b64_value c0, b64_value c1) of
        (Some a, Some b) \<Rightarrow>
          if c2 = CHR ''='' then
            (if c3 = CHR ''='' \<and> r = [] then Some [char_of (a * 4 + b div 16)] else None)
          else (case b64_value c2 of
             None \<Rightarrow> None
           | Some c \<Rightarrow>
               if c3 = CHR ''='' then
                 (if r = [] then Some [char_of (a * 4 + b div 16), char_of (b mod 16 * 16 + c div 4)] else None)
               else (case b64_value c3 of
                  None \<Rightarrow> None
                | Some d \<Rightarrow>
                    map_option (\<lambda>t. char_of (a * 4 + b div 16) # char_of (b mod 16 * 16 + c div 4) #
                        char_of (c mod 4 * 64 + d) # t) (b64_quanta r)))
      | _ \<Rightarrow> None)"
| "b64_quanta _ = None"

definition b64_decode :: "string \<Rightarrow> string option" where
  "b64_decode s = b64_quanta (filter (\<lambda>c. c \<noteq> CHR 0x0D \<and> c \<noteq> CHR 0x0A) s)"

section \<open>The cursor\<close>

record cursor =
  cu_timestamp :: time
  cu_id :: string

datatype cursor_error = InvalidBase64 | MissingSeparator | NonIntegerTimestamp | EmptyID

definition Encode :: "cursor \<Rightarrow> string" where
  "Encode c = b64_encode (Itoa (UnixNano (cu_timestamp c)) @ '':'' @ cu_id c)"

definition DecodeCursor :: "string \<Rightarrow> cursor_error + cursor" where
  "DecodeCursor s =
     (case b64_decode s of
        None \<Rightarrow> Inl InvalidBase64
      | Some raw \<Rightarrow>
          (case index_byte raw (CHR '':'') of
             None \<Rightarrow> Inl MissingSeparator
           | Some idx \<Rightarrow>
               (case ParseInt (take idx raw) of
                  None \<Rightarrow> Inl NonIntegerTimestamp
                | Some nanos \<Rightarrow>
                    (let ident = drop (idx + 1) raw in
                     if ident = [] then Inl EmptyID
                     else Inr \<lparr>cu_timestamp = nanos, cu_id = ident\<rparr>))))"

section \<open>Rows, queries and aggregations\<close>

record root_row =
  rr_id :: string
  rr_kind :: string
  rr_timestamp :: time
  rr_service :: string
  rr_method :: string
  rr_path :: string
  rr_correlation_id :: string
  rr_source_ip :: string
  rr_event_count :: "int option"
  rr_has_events :: "bool option"
  rr_status :: "int option"

record detail_record =
  dr_root :: capture_record
  dr_events :: "capture_record list"

record inspect_query =
  iq_limit :: int
  iq_cursor :: "cursor option"
  iq_since :: "time option"
  iq_until :: "time option"
  iq_query :: query

definition HasRequestOnlyFilter :: "inspect_query \<Rightarrow> bool" where
  "HasRequestOnlyFilter q = HasRequestOnlyTerm (iq_query q)"

record histogram_bucket =
  hb_start :: time
  hb_s2xx :: int
  hb_s3xx :: int
  hb_s4xx :: int
  hb_s5xx :: int
  hb_other :: int

text \<open>A nil bucket slice is the empty list.\<close>

record aggregation =
  ag_total :: int
  ag_buckets :: "histogram_bucket list"

record service_stat =
  ss_name :: string
  ss_requests :: int
  ss_last_seen :: time
  ss_s2xx :: int
  ss_s3xx :: int
  ss_s4xx :: int
  ss_s5xx :: int
  ss_other :: int

section \<open>Facts about the cursor\<close>

lemma b64_table: "list_all (\<lambda>n. b64_value (b64_char n) = Some n \<and>
    b64_char n \<notin> {CHR ''='', CHR 0x0D, CHR 0x0A}) [0..<64]"
  by code_simp

lemma b64_value_char [simp]: "n < 64 \<Longrightarrow> b64_value (b64_char n) = Some n"
  using b64_table by (simp add: list_all_iff)

lemma b64_char_ne [simp]:
  "n < 64 \<Longrightarrow> b64_char n \<noteq> CHR ''=''" "n < 64 \<Longrightarrow> b64_char n \<noteq> CHR 0x0D" "n < 64 \<Longrightarrow> b64_char n \<noteq> CHR 0x0A"
  using b64_table by (simp_all add: list_all_iff)

lemma of_char_lt [simp]: "(of_char c :: nat) < 256"
  using nat_of_char_less_256 [of c] by simp

lemma b64_digits:
  "(of_char x :: nat) div 4 < 64" "(of_char x :: nat) mod 4 < 4" "(of_char x :: nat) div 16 < 16"
  "(of_char x :: nat) mod 16 < 16" "(of_char x :: nat) div 64 < 4" "(of_char x :: nat) mod 64 < 64"
  using of_char_lt [of x] by linarith+

lemma b64_bounds:
  "(of_char x :: nat) div 4 < 64" "(of_char x :: nat) mod 4 * 16 < 64"
  "(of_char x :: nat) mod 4 * 16 + of_char y div 16 < 64" "(of_char x :: nat) mod 16 * 4 < 64"
  "(of_char x :: nat) mod 16 * 4 + of_char y div 64 < 64" "(of_char x :: nat) mod 64 < 64"
  using b64_digits [of x] b64_digits [of y] by linarith+

lemma b64_quanta_encode: "b64_quanta (b64_encode s) = Some s"
  by (induction s rule: b64_encode.induct) (simp_all add: Let_def b64_bounds b64_digits)

lemma b64_encode_lines: "filter (\<lambda>c. c \<noteq> CHR 0x0D \<and> c \<noteq> CHR 0x0A) (b64_encode s) = b64_encode s"
  by (induction s rule: b64_encode.induct) (simp_all add: Let_def b64_bounds)

lemma b64_decode_encode [simp]: "b64_decode (b64_encode s) = Some s"
  by (simp add: b64_decode_def b64_encode_lines b64_quanta_encode)

lemma wrap64_range: "in_int64 (wrap64 i)"
  using sint_range_size [of "word_of_int i :: 64 word"] by (simp add: wrap64_def in_int64_def word_size)

section \<open>Properties of the cursor\<close>

text \<open>
  The cursor survives its wire format: decoding an encoded cursor yields its id and the
  nanosecond timestamp (exact within the int64 range), with one exception that is reported as
  an error, the empty id. Ids may contain colons and arbitrary bytes.
\<close>

theorem cursor_round_trip:
  "DecodeCursor (Encode c) =
     (if cu_id c = [] then Inl EmptyID
      else Inr \<lparr>cu_timestamp = UnixNano (cu_timestamp c), cu_id = cu_id c\<rparr>)"
proof -
  let ?d = "Itoa (UnixNano (cu_timestamp c))"
  have "index_byte (?d @ '':'' @ cu_id c) (CHR '':'') = Some (length ?d)"
    using index_byte_append [OF Itoa_no_colon] by simp
  moreover have "ParseInt ?d = Some (UnixNano (cu_timestamp c))"
    by (rule ParseInt_Itoa) (simp add: UnixNano_def wrap64_range)
  ultimately show ?thesis by (simp add: Encode_def DecodeCursor_def)
qed

section \<open>The order of rows and the reader contract\<close>

text \<open>
  The comparison the readers and the merge in internal/admin/inspect.go sort by, newest first
  with the id as tie-break, and the position a cursor denotes in that order.
\<close>

definition row_lt :: "root_row \<Rightarrow> root_row \<Rightarrow> bool" where
  "row_lt a b = (if rr_timestamp a \<noteq> rr_timestamp b then rr_timestamp a > rr_timestamp b
     else rr_id a > rr_id b)"

definition cursor_of :: "root_row \<Rightarrow> cursor" where
  "cursor_of row = \<lparr>cu_timestamp = rr_timestamp row, cu_id = rr_id row\<rparr>"

definition past :: "cursor option \<Rightarrow> root_row \<Rightarrow> bool" where
  "past cur row = (case cur of
      None \<Rightarrow> True
    | Some c \<Rightarrow> rr_timestamp row < cu_timestamp c \<or>
        (rr_timestamp row = cu_timestamp c \<and> rr_id row < cu_id c))"

interpretation row_order: weak_order row_lt
  by unfold_locales (auto simp: row_lt_def split: if_splits)

lemma past_cursor_of: "past (Some (cursor_of a)) = row_lt a"
  by (auto simp: past_def cursor_of_def row_lt_def fun_eq_iff)

text \<open>
  A client that follows the cursors: it asks for pages until no further cursor comes back.
  \<open>None\<close> is a failed read or spent fuel.
\<close>

fun walk_pages ::
  "(cursor option \<Rightarrow> (root_row list \<times> cursor option) option) \<Rightarrow> nat \<Rightarrow> cursor option \<Rightarrow> root_row list option" where
  "walk_pages read 0 cur = None"
| "walk_pages read (Suc n) cur = (case read cur of
      None \<Rightarrow> None
    | Some (page, None) \<Rightarrow> Some page
    | Some (page, Some c) \<Rightarrow> map_option (\<lambda>rest. page @ rest) (walk_pages read n (Some c)))"

text \<open>
  The contract of ReadRoots: a read returns the rows behind the cursor, newest first, at most
  \<open>limit\<close> of them, and the cursor of the last one exactly when more follow. \<open>admits\<close> says which
  cursors the reader understands; the cursors it hands out are among them.
\<close>

locale page_reader =
  fixes read :: "int \<Rightarrow> cursor option \<Rightarrow> (root_row list \<times> cursor option) option"
    and rows :: "root_row list"
    and admits :: "cursor \<Rightarrow> bool"
  assumes rows_sorted: "sorted_wrt (\<lambda>a b. \<not> row_lt b a) rows"
    and admits_rows: "row \<in> set rows \<Longrightarrow> admits (cursor_of row)"
    and read_more: "1 \<le> limit \<Longrightarrow> limit < 2 ^ 63 - 1 \<Longrightarrow> pred_option admits cur \<Longrightarrow> nat limit < length (filter (past cur) rows) \<Longrightarrow>
      read limit cur = Some (take (nat limit) (filter (past cur) rows),
        Some (cursor_of (filter (past cur) rows ! (nat limit - 1))))"
    and read_last: "1 \<le> limit \<Longrightarrow> limit < 2 ^ 63 - 1 \<Longrightarrow> pred_option admits cur \<Longrightarrow> length (filter (past cur) rows) \<le> nat limit \<Longrightarrow>
      read limit cur = Some (filter (past cur) rows, None)"
begin

lemma read_page:
  assumes "1 \<le> limit" "limit < 2 ^ 63 - 1" "pred_option admits cur"
  obtains nx where "read limit cur = Some (take (nat limit) (filter (past cur) rows), nx)"
    "nx = None \<longleftrightarrow> length (filter (past cur) rows) \<le> nat limit"
  using read_more [OF assms] read_last [OF assms] that
  by (cases "nat limit < length (filter (past cur) rows)") fastforce+

lemma page_bounded:
  assumes "1 \<le> limit" "limit < 2 ^ 63 - 1" "pred_option admits cur" "read limit cur = Some (page, nx)"
  shows "int (length page) \<le> limit" "set page \<subseteq> set rows" "sorted_wrt (\<lambda>a b. \<not> row_lt b a) page"
    "\<forall>row \<in> set page. past cur row"
proof -
  obtain nx' where "read limit cur = Some (take (nat limit) (filter (past cur) rows), nx')"
    by (rule read_page [OF assms(1-3)])
  with assms(4) have page: "page = take (nat limit) (filter (past cur) rows)" by simp
  then show "int (length page) \<le> limit" using assms(1) by simp
  show "set page \<subseteq> set rows" "\<forall>row \<in> set page. past cur row"
    using page by (auto dest: in_set_takeD)
  show "sorted_wrt (\<lambda>a b. \<not> row_lt b a) page"
    using page rows_sorted by (simp add: sorted_wrt_take sorted_wrt_filter)
qed

lemma walk_from:
  assumes "1 \<le> limit" "limit < 2 ^ 63 - 1" "sorted_wrt row_lt rows"
  shows "pred_option admits cur \<Longrightarrow> filter (past cur) rows = drop k rows \<Longrightarrow> length rows - k < n \<Longrightarrow>
    walk_pages (read limit) n cur = Some (drop k rows)"
proof (induction n arbitrary: k cur)
  case (Suc n)
  let ?l = "nat limit"
  have l: "1 \<le> ?l" using assms(1) by simp
  show ?case
  proof (cases "?l < length (drop k rows)")
    case True
    define j where "j = k + (?l - 1)"
    have j: "j < length rows" "drop k rows ! (?l - 1) = rows ! j" "Suc j = k + ?l"
      using True l by (simp_all add: j_def)
    have "read limit cur = Some (take ?l (drop k rows), Some (cursor_of (rows ! j)))"
      using read_more [OF assms(1,2) Suc.prems(1)] True j(2) Suc.prems(2) by simp
    moreover have "filter (past (Some (cursor_of (rows ! j)))) rows = drop (k + ?l) rows"
      unfolding past_cursor_of using row_order.filter_after [OF assms(3) j(1)] j(3) by simp
    then have "walk_pages (read limit) n (Some (cursor_of (rows ! j))) = Some (drop (k + ?l) rows)"
      by (rule Suc.IH [rotated]) (use Suc.prems(3) True l j(1) admits_rows in simp_all)
    ultimately show ?thesis using append_take_drop_id [of ?l "drop k rows"]
      by (simp add: add.commute del: append_take_drop_id)
  next
    case False
    then show ?thesis using read_last [OF assms(1,2) Suc.prems(1)] Suc.prems(2) by simp
  qed
qed simp

lemma walk_complete:
  assumes "1 \<le> limit" "limit < 2 ^ 63 - 1" "sorted_wrt row_lt rows"
  shows "walk_pages (read limit) (Suc (length rows)) None = Some rows"
  using walk_from [OF assms, of None 0 "Suc (length rows)"] by (simp add: past_def)

end

end
