(* ===== verification/Memory_Reader.thy ===== *)
theory Memory_Reader
  imports Memory Inspect_Types
begin

text \<open>
  The read side of the memory sink, internal/sinks/memory_reader.go: root rows with orphan
  detection, cursor pagination, record detail, the histogram and the per-service statistics,
  all over one snapshot of the ring.
\<close>

section \<open>Orphan events against a query\<close>

definition matchOrphanString :: "string \<Rightarrow> qterm \<Rightarrow> bool" where
  "matchOrphanString s t = (case t_wildcard t of
      WildcardPrefix \<Rightarrow> has_prefix s (t_value t)
    | WildcardSubstring \<Rightarrow> contains s (t_value t)
    | WildcardNone \<Rightarrow> s = t_value t)"

text \<open>The pair is (matched, applies).\<close>

definition evaluateOrphanCommonTerm :: "qterm \<Rightarrow> string \<Rightarrow> string \<Rightarrow> bool \<times> bool" where
  "evaluateOrphanCommonTerm t service correlationID = (case t_field t of
      FieldService \<Rightarrow> (matchOrphanString service t, True)
    | FieldCorrelationID \<Rightarrow> (correlationID = t_value t, True)
    | _ \<Rightarrow> (False, False))"

definition evaluateOrphanResponseTerm :: "unicode_map \<Rightarrow> qterm \<Rightarrow> response_event \<Rightarrow> bool \<times> bool" where
  "evaluateOrphanResponseTerm ul t ev =
     (if t_field t = Freeform then (MatchFreeformResponseEvent ul t ev, True)
      else if t_field t = FieldStatus then
        (case t_status_filter t of
           None \<Rightarrow> (False, False)
         | Some sf \<Rightarrow>
             if sf_exact sf \<noteq> 0 then (re_status ev = sf_exact sf, True)
             else (let (lo, hi) = ClassRange sf in (lo \<le> re_status ev \<and> re_status ev \<le> hi, True)))
      else if t_field t = FieldHeaders then (HeadersAny ul (re_headers ev) (t_value t), True)
      else if t_field t = FieldHeader
        then (HeaderValueContains ul (re_headers ev) (t_header_name t) (t_value t), True)
      else evaluateOrphanCommonTerm t (re_service ev) (re_correlation_id ev))"

definition evaluateOutboundOrphanTerm :: "unicode_map \<Rightarrow> qterm \<Rightarrow> outbound_event \<Rightarrow> bool \<times> bool" where
  "evaluateOutboundOrphanTerm ul t ev = (case t_field t of
      Freeform \<Rightarrow> (MatchFreeformOutboundEvent ul t ev, True)
    | FieldHeaders \<Rightarrow>
        (HeadersAny ul (oq_headers (oe_request ev)) (t_value t) \<or>
         (case oe_response ev of None \<Rightarrow> False | Some rsp \<Rightarrow> HeadersAny ul (or_headers rsp) (t_value t)), True)
    | FieldHeader \<Rightarrow>
        (HeaderValueContains ul (oq_headers (oe_request ev)) (t_header_name t) (t_value t) \<or>
         (case oe_response ev of None \<Rightarrow> False
          | Some rsp \<Rightarrow> HeaderValueContains ul (or_headers rsp) (t_header_name t) (t_value t)), True)
    | _ \<Rightarrow> evaluateOrphanCommonTerm t (oe_service ev) (oe_correlation_id ev))"

fun matchOrphanResponse :: "unicode_map \<Rightarrow> query \<Rightarrow> response_event \<Rightarrow> bool" where
  "matchOrphanResponse ul [] ev = True"
| "matchOrphanResponse ul (t # ts) ev =
     (let (matched, applies) = evaluateOrphanResponseTerm ul t ev in
      if \<not> applies then matchOrphanResponse ul ts ev
      else (let m = (if t_negated t then \<not> matched else matched) in
            if \<not> m then False else matchOrphanResponse ul ts ev))"

fun matchOrphanOutbound :: "unicode_map \<Rightarrow> query \<Rightarrow> outbound_event \<Rightarrow> bool" where
  "matchOrphanOutbound ul [] ev = True"
| "matchOrphanOutbound ul (t # ts) ev =
     (if t_field t = FieldStatus then False
      else (let (matched, applies) = evaluateOutboundOrphanTerm ul t ev in
        if \<not> applies then matchOrphanOutbound ul ts ev
        else (let m = (if t_negated t then \<not> matched else matched) in
              if \<not> m then False else matchOrphanOutbound ul ts ev)))"

section \<open>Root rows\<close>

definition event_count :: "capture_record list \<Rightarrow> string \<Rightarrow> int" where
  "event_count all cid = int (length (filter (\<lambda>r. \<not> is_request r \<and> RecordCorrelationID r = cid) all))"

definition in_window :: "inspect_query \<Rightarrow> time \<Rightarrow> bool" where
  "in_window q ts =
     (\<not> (case iq_since q of None \<Rightarrow> False | Some t \<Rightarrow> ts < t) \<and>
      \<not> (case iq_until q of None \<Rightarrow> False | Some t \<Rightarrow> \<not> ts < t))"

text \<open>One turn of the emit loop: the row of a record, or none.\<close>

definition emit_row :: "unicode_map \<Rightarrow> inspect_query \<Rightarrow> capture_record list \<Rightarrow> capture_record \<Rightarrow> root_row option" where
  "emit_row ul q all r =
     (if \<not> in_window q (RecordTimestamp r) then None
      else (case r of
        Request v \<Rightarrow>
          if \<not> CompilePredicate ul (iq_query q) v then None
          else (let ec = event_count all (cr_correlation_id v) in
            Some \<lparr>rr_id = cr_id v, rr_kind = ''request'', rr_timestamp = cr_timestamp v,
              rr_service = cr_service v, rr_method = cr_method v, rr_path = cr_path v,
              rr_correlation_id = cr_correlation_id v, rr_source_ip = cr_source_ip v,
              rr_event_count = Some ec, rr_has_events = Some (ec > 0), rr_status = None\<rparr>)
      | Response v \<Rightarrow>
          if HasRequestOnlyFilter q then None
          else if re_correlation_id v \<in> request_corrs all then None
          else if \<not> matchOrphanResponse ul (iq_query q) v then None
          else Some \<lparr>rr_id = re_id v, rr_kind = ''orphan_response'', rr_timestamp = re_timestamp v,
              rr_service = re_service v, rr_method = [], rr_path = [],
              rr_correlation_id = re_correlation_id v, rr_source_ip = [],
              rr_event_count = None, rr_has_events = None, rr_status = Some (re_status v)\<rparr>
      | Outbound v \<Rightarrow>
          if HasRequestOnlyFilter q then None
          else if oe_correlation_id v \<in> request_corrs all then None
          else if \<not> matchOrphanOutbound ul (iq_query q) v then None
          else Some \<lparr>rr_id = oe_id v, rr_kind = ''orphan_outbound'', rr_timestamp = oe_timestamp v,
              rr_service = oe_service v, rr_method = [], rr_path = [],
              rr_correlation_id = oe_correlation_id v, rr_source_ip = [],
              rr_event_count = None, rr_has_events = None, rr_status = None\<rparr>))"

text \<open>
  The page of a sorted candidate list. \<open>None\<close> is a run-time panic: a negative slice bound, or
  the index \<open>limit-1\<close> of a limit below one. \<open>limit+1\<close> is int arithmetic.
\<close>

definition take_page :: "int \<Rightarrow> root_row list \<Rightarrow> (root_row list \<times> cursor option) option" where
  "take_page limit candidates =
     (let n = min (wrap64 (limit + 1)) (int (length candidates)) in
      if n < 0 then None
      else (let page = take (nat n) candidates in
        if int (length page) > limit then
          (if limit < 1 then None
           else Some (take (nat limit) page, Some (cursor_of (page ! nat (limit - 1)))))
        else Some (page, None)))"

definition ReadRoots ::
  "unicode_map \<Rightarrow> memory_sink \<Rightarrow> inspect_query \<Rightarrow> int \<Rightarrow> cursor option \<Rightarrow> (root_row list \<times> cursor option) option" where
  "ReadRoots ul s q limit cur =
     (let all = snapshot s;
          candidates = SliceStable row_lt (List.map_filter (emit_row ul q all) all);
          remaining = (case cur of None \<Rightarrow> candidates | Some c \<Rightarrow> filter (past (Some c)) candidates)
      in take_page limit remaining)"

section \<open>Record detail\<close>

definition record_lt :: "capture_record \<Rightarrow> capture_record \<Rightarrow> bool" where
  "record_lt a b = (if RecordTimestamp a \<noteq> RecordTimestamp b then RecordTimestamp a < RecordTimestamp b
     else RecordID a < RecordID b)"

definition ReadDetail :: "memory_sink \<Rightarrow> string \<Rightarrow> detail_record option" where
  "ReadDetail s ident =
     (let all = snapshot s in
      case find (\<lambda>r. RecordID r = ident) all of
        None \<Rightarrow> None
      | Some root \<Rightarrow>
          (let corrID = RecordCorrelationID root;
               siblings = filter (\<lambda>r. RecordID r \<noteq> ident \<and> RecordCorrelationID r = corrID) all
           in Some \<lparr>dr_root = root, dr_events = SliceStable record_lt siblings\<rparr>))"

section \<open>The histogram\<close>

definition statusClass :: "int option \<Rightarrow> int" where
  "statusClass st = (case st of
      None \<Rightarrow> 0
    | Some v \<Rightarrow> if v \<ge> 200 \<and> v < 300 then 2 else if v \<ge> 300 \<and> v < 400 then 3
        else if v \<ge> 400 \<and> v < 500 then 4 else if v \<ge> 500 \<and> v < 600 then 5 else 0)"

definition bump :: "int option \<Rightarrow> histogram_bucket \<Rightarrow> histogram_bucket" where
  "bump st b = (let c = statusClass st in
     if c = 2 then b\<lparr>hb_s2xx := hb_s2xx b + 1\<rparr> else if c = 3 then b\<lparr>hb_s3xx := hb_s3xx b + 1\<rparr>
     else if c = 4 then b\<lparr>hb_s4xx := hb_s4xx b + 1\<rparr> else if c = 5 then b\<lparr>hb_s5xx := hb_s5xx b + 1\<rparr>
     else b\<lparr>hb_other := hb_other b + 1\<rparr>)"

text \<open>The bucket index: int64 subtraction wraps, the quotient truncates, then it is clamped.\<close>

definition bucket_index :: "int \<Rightarrow> int \<Rightarrow> int \<Rightarrow> time \<Rightarrow> int" where
  "bucket_index sinceNS width bucketCount ts =
     (let idx = go_div (wrap64 (UnixNano ts - sinceNS)) width;
          idx1 = (if idx < 0 then 0 else idx)
      in if idx1 \<ge> bucketCount then bucketCount - 1 else idx1)"

text \<open>
  The record loop of \<open>AggregateRoots\<close> has its own copy of the filters of \<open>ReadRoots\<close>: the
  status of a counted record, or nothing for a skipped one.
\<close>

definition counted :: "unicode_map \<Rightarrow> inspect_query \<Rightarrow> capture_record list \<Rightarrow> capture_record \<Rightarrow> int option option" where
  "counted ul q all r =
     (if (case iq_since q of None \<Rightarrow> False | Some t \<Rightarrow> RecordTimestamp r < t) then None
      else if (case iq_until q of None \<Rightarrow> False | Some t \<Rightarrow> \<not> RecordTimestamp r < t) then None
      else (case r of
        Request v \<Rightarrow> if \<not> CompilePredicate ul (iq_query q) v then None else Some None
      | Response v \<Rightarrow>
          if HasRequestOnlyFilter q then None
          else if re_correlation_id v \<in> request_corrs all then None
          else if \<not> matchOrphanResponse ul (iq_query q) v then None
          else Some (Some (re_status v))
      | Outbound v \<Rightarrow>
          if HasRequestOnlyFilter q then None
          else if oe_correlation_id v \<in> request_corrs all then None
          else if \<not> matchOrphanOutbound ul (iq_query q) v then None
          else Some None))"

text \<open>The bucketing parameters (sinceNS, bucketWidth, bucketCount); none when bucketing is off.\<close>

definition bucketing :: "inspect_query \<Rightarrow> int \<Rightarrow> (int \<times> int \<times> int) option" where
  "bucketing q bucketCount = (case (iq_since q, iq_until q) of
      (Some since, Some until) \<Rightarrow>
        if bucketCount > 0 \<and> until > since then
          (let sinceNS = UnixNano since;
               w = go_div (wrap64 (UnixNano until - sinceNS)) bucketCount
           in Some (sinceNS, if w \<le> 0 then 1 else w, bucketCount))
        else None
    | _ \<Rightarrow> None)"

definition empty_buckets :: "(int \<times> int \<times> int) option \<Rightarrow> histogram_bucket list" where
  "empty_buckets bk = (case bk of
      None \<Rightarrow> []
    | Some (sinceNS, width, n) \<Rightarrow>
        map (\<lambda>i. \<lparr>hb_start = wrap64 (sinceNS + wrap64 (width * int i)), hb_s2xx = 0, hb_s3xx = 0,
          hb_s4xx = 0, hb_s5xx = 0, hb_other = 0\<rparr>) [0..<nat n])"

definition tally :: "(int \<times> int \<times> int) option \<Rightarrow> time \<Rightarrow> int option \<Rightarrow> histogram_bucket list \<Rightarrow> histogram_bucket list" where
  "tally bk ts st bs = (case bk of
      None \<Rightarrow> bs
    | Some (sinceNS, width, n) \<Rightarrow>
        (let i = nat (bucket_index sinceNS width n ts) in bs[i := bump st (bs ! i)]))"

fun aggregate_loop ::
  "unicode_map \<Rightarrow> inspect_query \<Rightarrow> (int \<times> int \<times> int) option \<Rightarrow> capture_record list \<Rightarrow> capture_record list
   \<Rightarrow> int \<times> histogram_bucket list \<Rightarrow> int \<times> histogram_bucket list" where
  "aggregate_loop ul q bk all [] acc = acc"
| "aggregate_loop ul q bk all (r # rs) (tot, bs) =
     (case counted ul q all r of
        None \<Rightarrow> aggregate_loop ul q bk all rs (tot, bs)
      | Some st \<Rightarrow> aggregate_loop ul q bk all rs (tot + 1, tally bk (RecordTimestamp r) st bs))"

definition AggregateRoots :: "unicode_map \<Rightarrow> memory_sink \<Rightarrow> inspect_query \<Rightarrow> int \<Rightarrow> aggregation" where
  "AggregateRoots ul s q bucketCount =
     (let all = snapshot s; bk = bucketing q bucketCount;
          (tot, bs) = aggregate_loop ul q bk all all (0, empty_buckets bk)
      in \<lparr>ag_total = tot, ag_buckets = bs\<rparr>)"

section \<open>Services\<close>

text \<open>
  The service map of \<open>ServicesSeen\<close> and \<open>ServiceStats\<close> as an association list; its entries
  are sorted by their distinct names at the end, so the map's iteration order is immaterial.
\<close>

definition skip_service :: "time \<Rightarrow> capture_record \<Rightarrow> bool" where
  "skip_service since r = (since \<noteq> zero_time \<and> RecordTimestamp r < since)"

fun seen_loop :: "time \<Rightarrow> capture_record list \<Rightarrow> string list \<Rightarrow> string list" where
  "seen_loop since [] seen = seen"
| "seen_loop since (r # rs) seen =
     (if skip_service since r then seen_loop since rs seen
      else (let svc = RecordService r in
        seen_loop since rs (if svc \<noteq> [] \<and> svc \<notin> set seen then seen @ [svc] else seen)))"

definition ServicesSeen :: "memory_sink \<Rightarrow> time \<Rightarrow> string list" where
  "ServicesSeen s since = SliceStable (<) (seen_loop since (snapshot s) [])"

definition addStatusClass :: "service_stat \<Rightarrow> int \<Rightarrow> service_stat" where
  "addStatusClass st code = (let c = statusClass (Some code) in
     if c = 2 then st\<lparr>ss_s2xx := ss_s2xx st + 1\<rparr> else if c = 3 then st\<lparr>ss_s3xx := ss_s3xx st + 1\<rparr>
     else if c = 4 then st\<lparr>ss_s4xx := ss_s4xx st + 1\<rparr> else if c = 5 then st\<lparr>ss_s5xx := ss_s5xx st + 1\<rparr>
     else st\<lparr>ss_other := ss_other st + 1\<rparr>)"

definition fresh_stat :: "string \<Rightarrow> service_stat" where
  "fresh_stat svc = \<lparr>ss_name = svc, ss_requests = 0, ss_last_seen = zero_time, ss_s2xx = 0,
     ss_s3xx = 0, ss_s4xx = 0, ss_s5xx = 0, ss_other = 0\<rparr>"

definition note_record :: "capture_record \<Rightarrow> service_stat \<Rightarrow> service_stat" where
  "note_record r st =
     (let st1 = (if RecordTimestamp r > ss_last_seen st then st\<lparr>ss_last_seen := RecordTimestamp r\<rparr> else st) in
      case r of
        Request _ \<Rightarrow> st1\<lparr>ss_requests := ss_requests st1 + 1\<rparr>
      | Response v \<Rightarrow> addStatusClass st1 (re_status v)
      | Outbound _ \<Rightarrow> st1)"

fun update_stat :: "string \<Rightarrow> (service_stat \<Rightarrow> service_stat) \<Rightarrow> service_stat list \<Rightarrow> service_stat list" where
  "update_stat svc f [] = [f (fresh_stat svc)]"
| "update_stat svc f (st # sts) = (if ss_name st = svc then f st # sts else st # update_stat svc f sts)"

fun stats_loop :: "time \<Rightarrow> capture_record list \<Rightarrow> service_stat list \<Rightarrow> service_stat list" where
  "stats_loop since [] sts = sts"
| "stats_loop since (r # rs) sts =
     (if skip_service since r then stats_loop since rs sts
      else if RecordService r = [] then stats_loop since rs sts
      else stats_loop since rs (update_stat (RecordService r) (note_record r) sts))"

definition ServiceStats :: "memory_sink \<Rightarrow> time \<Rightarrow> service_stat list" where
  "ServiceStats s since =
     SliceStable (\<lambda>a b. ss_name a < ss_name b) (stats_loop since (snapshot s) [])"

section \<open>Facts about pages\<close>

definition matching_rows :: "unicode_map \<Rightarrow> memory_sink \<Rightarrow> inspect_query \<Rightarrow> root_row list" where
  "matching_rows ul s q = SliceStable row_lt (List.map_filter (emit_row ul q (snapshot s)) (snapshot s))"

lemma ReadRoots_matching: "ReadRoots ul s q limit cur = take_page limit (filter (past cur) (matching_rows ul s q))"
  by (simp add: ReadRoots_def matching_rows_def Let_def past_def split: option.split)

lemma limit_wrap: "1 \<le> limit \<Longrightarrow> limit < 2 ^ 63 - 1 \<Longrightarrow> wrap64 (limit + 1) = limit + 1"
  by (rule wrap64_id) (simp add: in_int64_def)

lemma take_page_more:
  assumes "1 \<le> limit" "limit < 2 ^ 63 - 1" "nat limit < length xs"
  shows "take_page limit xs = Some (take (nat limit) xs, Some (cursor_of (xs ! (nat limit - 1))))"
proof -
  have "min (limit + 1) (int (length xs)) = limit + 1" "nat (limit + 1) = Suc (nat limit)" "nat (limit - 1) = nat limit - 1"
    using assms(1,3) by linarith+
  moreover have "limit < int (min (length xs) (Suc (nat limit)))" "min (Suc (nat limit)) (nat limit) = nat limit"
    using assms(1,3) by linarith+
  ultimately show ?thesis using assms limit_wrap [OF assms(1,2)] by (simp add: take_page_def Let_def)
qed

lemma take_page_last:
  assumes "1 \<le> limit" "limit < 2 ^ 63 - 1" "length xs \<le> nat limit"
  shows "take_page limit xs = Some (xs, None)"
proof -
  have "min (limit + 1) (int (length xs)) = int (length xs)" using assms by linarith
  with assms limit_wrap [OF assms(1,2)] show ?thesis by (simp add: take_page_def Let_def)
qed

interpretation mem: page_reader "ReadRoots ul s q" "matching_rows ul s q" "\<lambda>_. True" for ul s q
  by unfold_locales
    (simp_all add: ReadRoots_matching take_page_more take_page_last matching_rows_def row_order.sort_sorted)

interpretation record_order: weak_order record_lt
  by unfold_locales (auto simp: record_lt_def split: if_splits)

lemma emit_row_id: "emit_row ul q all r = Some row \<Longrightarrow> rr_id row = RecordID r \<and> rr_timestamp row = RecordTimestamp r"
  by (auto simp: emit_row_def Let_def split: if_splits capture_record.splits)

lemma map_filter_ids:
  "distinct (map RecordID rs) \<Longrightarrow> distinct (map rr_id (List.map_filter (emit_row ul q all) rs)) \<and>
     set (map rr_id (List.map_filter (emit_row ul q all) rs)) \<subseteq> set (map RecordID rs)"
proof (induction rs)
  case (Cons r rs)
  show ?case
  proof (cases "emit_row ul q all r")
    case (Some row)
    then have "rr_id row = RecordID r" using emit_row_id by blast
    moreover have "RecordID r \<notin> set (map RecordID rs)" using Cons.prems by simp
    ultimately show ?thesis using Some Cons by (auto simp: map_filter_simps)
  qed (use Cons in \<open>auto simp: map_filter_simps\<close>)
qed (simp add: map_filter_simps)

lemma length_map_filter: "length (List.map_filter f xs) \<le> length xs"
  by (simp add: map_filter_def)

lemma matching_rows_strict:
  assumes "distinct (map RecordID (snapshot s))"
  shows "sorted_wrt row_lt (matching_rows ul s q)"
  unfolding matching_rows_def
proof (rule row_order.sort_strict)
  let ?xs = "List.map_filter (emit_row ul q (snapshot s)) (snapshot s)"
  have d: "distinct (map rr_id ?xs)" using map_filter_ids [OF assms] by blast
  then show "distinct ?xs" by (simp add: distinct_map)
  fix x y assume "x \<in> set ?xs" "y \<in> set ?xs" "x \<noteq> y"
  with d have "rr_id x \<noteq> rr_id y" by (auto simp: distinct_map inj_on_def)
  then show "row_lt x y \<or> row_lt y x" by (auto simp: row_lt_def)
qed

section \<open>Facts about the aggregation\<close>

lemma counted_emit: "counted ul q all r = map_option rr_status (emit_row ul q all r)"
  by (auto simp: counted_def emit_row_def in_window_def Let_def split: capture_record.split option.split)

definition bucket_sum :: "histogram_bucket \<Rightarrow> int" where
  "bucket_sum b = hb_s2xx b + hb_s3xx b + hb_s4xx b + hb_s5xx b + hb_other b"

lemma bucket_sum_bump: "bucket_sum (bump st b) = bucket_sum b + 1"
  by (simp add: bucket_sum_def bump_def Let_def)

lemma bucket_index_range: "0 < n \<Longrightarrow> 0 \<le> bucket_index sinceNS w n ts \<and> bucket_index sinceNS w n ts < n"
  by (simp add: bucket_index_def Let_def)

lemma sum_list_update_bump:
  "i < length bs \<Longrightarrow> sum_list (map bucket_sum (bs[i := bump st (bs ! i)])) = sum_list (map bucket_sum bs) + 1"
  by (induction bs arbitrary: i) (auto simp: bucket_sum_bump split: nat.split)

lemma bucketing_pos: "bucketing q n = Some (a, w, m) \<Longrightarrow> m = n \<and> 0 < n \<and> 0 < w"
  by (auto simp: bucketing_def Let_def split: option.splits if_splits)

lemma tally_facts:
  assumes "bucketing q n = Some (a, w, m)" "length bs = nat n"
  shows "length (tally (Some (a, w, m)) ts st bs) = nat n"
    "sum_list (map bucket_sum (tally (Some (a, w, m)) ts st bs)) = sum_list (map bucket_sum bs) + 1"
proof -
  have mn: "m = n" "0 < n" using bucketing_pos [OF assms(1)] by auto
  then have "nat (bucket_index a w n ts) < length bs" using bucket_index_range [OF mn(2), of a w ts] assms(2) by simp
  with mn assms(2) show "length (tally (Some (a, w, m)) ts st bs) = nat n"
    "sum_list (map bucket_sum (tally (Some (a, w, m)) ts st bs)) = sum_list (map bucket_sum bs) + 1"
    by (simp_all add: tally_def Let_def sum_list_update_bump)
qed

lemma aggregate_loop_total:
  "fst (aggregate_loop ul q bk all rs (tot, bs)) = tot + int (length (List.map_filter (emit_row ul q all) rs))"
  by (induction rs arbitrary: tot bs) (auto simp: counted_emit map_filter_simps split: option.splits)

lemma aggregate_loop_buckets:
  assumes bk: "bucketing q n = Some bk"
  shows "length bs = nat n \<Longrightarrow>
    length (snd (aggregate_loop ul q (Some bk) all rs (tot, bs))) = nat n \<and>
    sum_list (map bucket_sum (snd (aggregate_loop ul q (Some bk) all rs (tot, bs)))) =
      sum_list (map bucket_sum bs) + int (length (List.map_filter (emit_row ul q all) rs))"
proof (induction rs arbitrary: tot bs)
  case (Cons r rs)
  obtain a w m where b: "bk = (a, w, m)" by (cases bk)
  show ?case
  proof (cases "emit_row ul q all r")
    case None
    with Cons show ?thesis by (simp add: counted_emit map_filter_simps)
  next
    case (Some row)
    note t = tally_facts [OF bk [unfolded b] Cons.prems, of "RecordTimestamp r" "rr_status row"]
    show ?thesis using Some Cons.IH [OF t(1)] t(2) b by (simp add: counted_emit map_filter_simps)
  qed
qed simp

section \<open>Facts about services\<close>

definition service_records :: "time \<Rightarrow> capture_record list \<Rightarrow> capture_record list" where
  "service_records since rs = filter (\<lambda>r. \<not> skip_service since r \<and> RecordService r \<noteq> []) rs"

interpretation stat_order: weak_order "\<lambda>a b. ss_name a < ss_name b"
  by unfold_locales auto

lemma seen_loop_set:
  "set (seen_loop since rs seen) = set seen \<union> RecordService ` set (service_records since rs)"
  by (induction rs arbitrary: seen) (auto simp: service_records_def Let_def)

lemma seen_loop_distinct: "distinct seen \<Longrightarrow> distinct (seen_loop since rs seen)"
  by (induction rs arbitrary: seen) (auto simp: Let_def)

lemma ServicesSeen_facts:
  "set (ServicesSeen s since) = RecordService ` set (service_records since (snapshot s))"
  "sorted_wrt (<) (ServicesSeen s since)"
proof -
  show "set (ServicesSeen s since) = RecordService ` set (service_records since (snapshot s))"
    by (simp add: ServicesSeen_def name_order.set_sort seen_loop_set)
  show "sorted_wrt (<) (ServicesSeen s since)" unfolding ServicesSeen_def
    by (rule name_order.sort_strict) (auto simp: seen_loop_distinct)
qed

text \<open>The statistics of one service as a fold over its records.\<close>

definition stat_of :: "capture_record list \<Rightarrow> string \<Rightarrow> service_stat" where
  "stat_of rs svc = fold note_record (filter (\<lambda>r. RecordService r = svc) rs) (fresh_stat svc)"

lemma name_addStatusClass [simp]: "ss_name (addStatusClass st c) = ss_name st"
  by (simp add: addStatusClass_def Let_def)

lemma name_note_record [simp]: "ss_name (note_record r st) = ss_name st"
  by (simp add: note_record_def Let_def split: capture_record.split)

lemma name_fold_note [simp]: "ss_name (fold note_record rs st) = ss_name st"
  by (induction rs arbitrary: st) auto

lemma name_fresh [simp]: "ss_name (fresh_stat svc) = svc"
  by (simp add: fresh_stat_def)

lemma name_stat_of [simp]: "ss_name (stat_of rs svc) = svc"
  by (simp add: stat_of_def)

lemma stat_of_snoc:
  "stat_of (ps @ [r]) n = (if RecordService r = n then note_record r (stat_of ps n) else stat_of ps n)"
  by (simp add: stat_of_def)

lemma update_stat_known:
  "svc \<in> set names \<Longrightarrow> distinct names \<Longrightarrow> RecordService r = svc \<Longrightarrow>
   update_stat svc (note_record r) (map (stat_of ps) names) = map (stat_of (ps @ [r])) names"
  by (induction names) (auto simp: stat_of_snoc)

lemma update_stat_new:
  "svc \<notin> set names \<Longrightarrow> svc \<notin> RecordService ` set ps \<Longrightarrow> RecordService r = svc \<Longrightarrow>
   update_stat svc (note_record r) (map (stat_of ps) names) = map (stat_of (ps @ [r])) (names @ [svc])"
proof (induction names)
  case Nil
  then have "filter (\<lambda>r. RecordService r = svc) ps = []" by (metis (mono_tags, lifting) filter_empty_conv image_eqI)
  with Nil show ?case by (simp add: stat_of_snoc) (simp add: stat_of_def)
qed (auto simp: stat_of_snoc)

lemma stats_loop_map:
  "distinct names \<Longrightarrow> RecordService ` set ps \<subseteq> set names \<Longrightarrow>
   stats_loop since rs (map (stat_of ps) names) = map (stat_of (ps @ service_records since rs)) (seen_loop since rs names)"
proof (induction rs arbitrary: ps names)
  case (Cons r rs)
  let ?svc = "RecordService r"
  show ?case
  proof (cases "skip_service since r \<or> ?svc = []")
    case True
    with Cons show ?thesis by (auto simp: service_records_def Let_def)
  next
    case False
    let ?names = "if ?svc \<notin> set names then names @ [?svc] else names"
    have "update_stat ?svc (note_record r) (map (stat_of ps) names) = map (stat_of (ps @ [r])) ?names"
      using update_stat_known [OF _ Cons.prems(1) refl] update_stat_new [OF _ _ refl, of r names ps] Cons.prems(2) by auto
    moreover have "stats_loop since rs (map (stat_of (ps @ [r])) ?names) =
        map (stat_of ((ps @ [r]) @ service_records since rs)) (seen_loop since rs ?names)"
      by (rule Cons.IH) (use Cons.prems in auto)
    moreover have "service_records since (r # rs) = r # service_records since rs" using False by (simp add: service_records_def)
    moreover have "seen_loop since (r # rs) names = seen_loop since rs ?names" using False by (simp add: Let_def)
    moreover have "stats_loop since (r # rs) sts = stats_loop since rs (update_stat ?svc (note_record r) sts)" for sts
      using False by simp
    ultimately show ?thesis by (simp del: stats_loop.simps seen_loop.simps)
  qed
qed (simp add: service_records_def)

lemma insert_by_map: "(\<And>a b. lt' (f a) (f b) = lt a b) \<Longrightarrow> insert_by lt' (f x) (map f xs) = map f (insert_by lt x xs)"
  by (induction xs) auto

lemma SliceStable_map: "(\<And>a b. lt' (f a) (f b) = lt a b) \<Longrightarrow> SliceStable lt' (map f xs) = map f (SliceStable lt xs)"
  by (induction xs) (simp_all add: SliceStable_def insert_by_map)

lemma ServiceStats_map:
  "ServiceStats s since = map (stat_of (service_records since (snapshot s))) (ServicesSeen s since)"
  using stats_loop_map [of "[]" "[]" since "snapshot s"]
  by (simp add: ServiceStats_def ServicesSeen_def SliceStable_map [where lt = "(<)"])

definition responses :: "capture_record list \<Rightarrow> int list" where
  "responses rs = List.map_filter (\<lambda>r. case r of Response v \<Rightarrow> Some (re_status v) | _ \<Rightarrow> None) rs"

definition class_count :: "int \<Rightarrow> capture_record list \<Rightarrow> int" where
  "class_count c rs = int (length (filter (\<lambda>st. statusClass (Some st) = c) (responses rs)))"

lemma class_cases: "statusClass st \<in> {0, 2, 3, 4, 5}"
  by (auto simp: statusClass_def split: option.split)

lemma fold_note_counts:
  "ss_requests (fold note_record rs st) = ss_requests st + int (length (filter is_request rs))"
  "ss_s2xx (fold note_record rs st) = ss_s2xx st + class_count 2 rs"
  "ss_s3xx (fold note_record rs st) = ss_s3xx st + class_count 3 rs"
  "ss_s4xx (fold note_record rs st) = ss_s4xx st + class_count 4 rs"
  "ss_s5xx (fold note_record rs st) = ss_s5xx st + class_count 5 rs"
  "ss_other (fold note_record rs st) = ss_other st + class_count 0 rs"
  "ss_last_seen (fold note_record rs st) = fold max (map RecordTimestamp rs) (ss_last_seen st)"
  using class_cases
  by (induction rs arbitrary: st; fastforce simp: note_record_def addStatusClass_def class_count_def responses_def
    Let_def is_request_def max_def map_filter_simps split: capture_record.split)+

lemma AggregateRoots_fields:
  "ag_total (AggregateRoots ul s q n) =
     fst (aggregate_loop ul q (bucketing q n) (snapshot s) (snapshot s) (0, empty_buckets (bucketing q n)))"
  "ag_buckets (AggregateRoots ul s q n) =
     snd (aggregate_loop ul q (bucketing q n) (snapshot s) (snapshot s) (0, empty_buckets (bucketing q n)))"
  by (simp_all add: AggregateRoots_def Let_def case_prod_beta)

lemma aggregate_loop_off: "snd (aggregate_loop ul q None all rs (t, bs)) = bs"
  by (induction rs arbitrary: t bs) (auto simp: tally_def split: option.split)

section \<open>Properties\<close>

text \<open>
  C23. Following the cursors of the memory reader visits every matching row exactly once, in
  (timestamp, id) order, newest first: for any page size from 1 up and a ring whose record
  ids are distinct, the pages concatenate to the sorted list of the rows of all records that
  pass the filters. The read never panics and never loops.
\<close>

theorem memory_pages_complete:
  assumes "1 \<le> limit" and "limit < 2 ^ 63 - 1" and "distinct (map RecordID (snapshot s))"
  shows "\<exists>rows. walk_pages (ReadRoots ul s q limit) (Suc (length (snapshot s))) None = Some rows \<and>
    sorted_wrt row_lt rows \<and> mset rows = mset (List.map_filter (emit_row ul q (snapshot s)) (snapshot s))"
proof -
  let ?rows = "matching_rows ul s q"
  have sorted: "sorted_wrt row_lt ?rows" by (rule matching_rows_strict [OF assms(3)])
  have m: "mset ?rows = mset (List.map_filter (emit_row ul q (snapshot s)) (snapshot s))"
    by (simp add: matching_rows_def row_order.mset_sort)
  have "length ?rows \<le> length (snapshot s)"
    by (simp add: matching_rows_def row_order.length_sort length_map_filter)
  then have "length ?rows - 0 < Suc (length (snapshot s))" by simp
  from mem.walk_from [OF assms(1,2) sorted _ _ this, of None] sorted m show ?thesis by (auto simp: past_def)
qed

definition sample_sink :: memory_sink where
  "sample_sink = foldl Write (NewMemorySink 3)
     [Request (sample_request ''a'' 5 ''k''), Response (sample_response ''b'' 9 ''z'' 503),
      Request (sample_request ''c'' 5 ''m''), Outbound (sample_outbound ''d'' 7 ''m'')]"

definition no_filter :: inspect_query where
  "no_filter = \<lparr>iq_limit = 50, iq_cursor = None, iq_since = None, iq_until = None, iq_query = []\<rparr>"

theorem memory_pages_complete_witness:
  "\<exists>rows. walk_pages (ReadRoots id sample_sink no_filter 1) 4 None = Some rows \<and> map rr_id rows = [''b'', ''c'']"
proof -
  have n: "length (snapshot sample_sink) = 3" and d: "distinct (map RecordID (snapshot sample_sink))" by code_simp+
  have "map rr_id (the (walk_pages (ReadRoots id sample_sink no_filter 1) 4 None)) = [''b'', ''c'']" by code_simp
  with memory_pages_complete [of 1 sample_sink id no_filter, OF _ _ d] show ?thesis by (auto simp: n numeral_eq_Suc)
qed

text \<open>
  C36. The aggregation agrees with the listing. Its total is the number of rows that paging
  through the same query yields, for every query and ring; with a time window and a positive
  bucket count it has exactly that many buckets, and the class counters of all buckets add up
  to the total: no row is lost or counted twice, whatever its timestamp or status.
\<close>

theorem memory_aggregate_matches_rows:
  "ag_total (AggregateRoots ul s q n) = int (length (matching_rows ul s q)) \<and>
   (case bucketing q n of
      None \<Rightarrow> ag_buckets (AggregateRoots ul s q n) = []
    | Some _ \<Rightarrow> int (length (ag_buckets (AggregateRoots ul s q n))) = n \<and>
        sum_list (map bucket_sum (ag_buckets (AggregateRoots ul s q n))) = ag_total (AggregateRoots ul s q n))"
proof -
  let ?em = "List.map_filter (emit_row ul q (snapshot s)) (snapshot s)"
  have len: "length (matching_rows ul s q) = length ?em" by (simp add: matching_rows_def row_order.length_sort)
  have tot: "ag_total (AggregateRoots ul s q n) = int (length ?em)"
    by (simp add: AggregateRoots_fields aggregate_loop_total)
  show ?thesis
  proof (cases "bucketing q n")
    case None
    with tot len show ?thesis by (simp add: AggregateRoots_fields(2) aggregate_loop_off empty_buckets_def)
  next
    case (Some bk)
    obtain a w m where bk: "bk = (a, w, m)" by (cases bk)
    have m: "m = n" "0 < n" using bucketing_pos Some bk by blast+
    have e: "length (empty_buckets (Some bk)) = nat n" "sum_list (map bucket_sum (empty_buckets (Some bk))) = 0"
      by (simp_all add: empty_buckets_def bk m bucket_sum_def comp_def)
    from aggregate_loop_buckets [OF Some e(1), of ul "snapshot s" "snapshot s" 0] e(2) tot len Some m(2)
    show ?thesis by (simp add: AggregateRoots_fields(2))
  qed
qed

text \<open>
  \<open>ReadDetail\<close> finds a record exactly when the ring holds the id; it returns a record with
  that id, and as events exactly the other records of the same correlation id (as a multiset,
  for distinct ids none twice), oldest first.
\<close>

theorem memory_detail_exact:
  "case ReadDetail s ident of
     None \<Rightarrow> \<forall>r \<in> set (snapshot s). RecordID r \<noteq> ident
   | Some d \<Rightarrow> dr_root d \<in> set (snapshot s) \<and> RecordID (dr_root d) = ident \<and>
       mset (dr_events d) = filter_mset (\<lambda>r. RecordID r \<noteq> ident \<and>
         RecordCorrelationID r = RecordCorrelationID (dr_root d)) (mset (snapshot s)) \<and>
       sorted_wrt (\<lambda>a b. \<not> record_lt b a) (dr_events d)"
proof (cases "find (\<lambda>r. RecordID r = ident) (snapshot s)")
  case None
  then have "ReadDetail s ident = None" by (simp add: ReadDetail_def Let_def)
  with None show ?thesis by (auto simp: find_None_iff)
next
  case (Some root)
  then have "root \<in> set (snapshot s)" "RecordID root = ident" by (auto simp: find_Some_iff)
  moreover have "ReadDetail s ident = Some \<lparr>dr_root = root, dr_events = SliceStable record_lt
      (filter (\<lambda>r. RecordID r \<noteq> ident \<and> RecordCorrelationID r = RecordCorrelationID root) (snapshot s))\<rparr>"
    using Some by (simp add: ReadDetail_def Let_def)
  ultimately show ?thesis by (simp add: record_order.mset_sort record_order.sort_sorted)
qed

theorem memory_detail_exact_witness:
  "case ReadDetail sample_sink ''c'' of None \<Rightarrow> False | Some d \<Rightarrow> map RecordID (dr_events d) = [''d'']"
proof -
  have "ReadDetail sample_sink ''c'' \<noteq> None" "map RecordID (dr_events (the (ReadDetail sample_sink ''c''))) = [''d'']"
    by code_simp+
  with memory_detail_exact [of sample_sink "''c''"] show ?thesis by (auto split: option.splits)
qed

text \<open>
  \<open>ServiceStats\<close> reports one entry per service of \<open>ServicesSeen\<close> over the same window,
  strictly alphabetical: exactly the non-empty services of the records in the window, each
  with its exact number of captured requests, its responses counted by status class (every
  response in one class) and the newest timestamp of any of its records.
\<close>

theorem memory_service_stats_exact:
  "map ss_name (ServiceStats s since) = ServicesSeen s since \<and> sorted_wrt (<) (ServicesSeen s since) \<and>
   set (ServicesSeen s since) = RecordService ` set (service_records since (snapshot s)) \<and>
   list_all (\<lambda>st. let rs = filter (\<lambda>r. RecordService r = ss_name st) (service_records since (snapshot s)) in
      ss_requests st = int (length (filter is_request rs)) \<and>
      ss_s2xx st = class_count 2 rs \<and> ss_s3xx st = class_count 3 rs \<and> ss_s4xx st = class_count 4 rs \<and>
      ss_s5xx st = class_count 5 rs \<and> ss_other st = class_count 0 rs \<and>
      ss_last_seen st = fold max (map RecordTimestamp rs) zero_time) (ServiceStats s since)"
  using ServicesSeen_facts [of s since]
  by (simp add: ServiceStats_map list_all_iff Let_def comp_def stat_of_def fold_note_counts) (simp add: fresh_stat_def)

end
