(* ===== verification/Url.thy ===== *)
theory Url
  imports Prelude
begin

text \<open>
  What the program uses of package net/url: query escaping, \<open>ParseQuery\<close> as \<open>URL.Query\<close> calls
  it (malformed pairs are dropped, and so is a query of more than 10000 pairs) and
  \<open>Values.Encode\<close>, which writes the keys in sorted order. A \<open>url.Values\<close> is an association list.
\<close>

section \<open>Escaping\<close>

definition hex_digit :: "nat \<Rightarrow> char" where
  "hex_digit n = ''0123456789ABCDEF'' ! n"

definition unreserved :: "char \<Rightarrow> bool" where
  "unreserved c = (let n = (of_char c :: nat) in
     (48 \<le> n \<and> n \<le> 57) \<or> (65 \<le> n \<and> n \<le> 90) \<or> (97 \<le> n \<and> n \<le> 122) \<or> c \<in> set ''-_.~'')"

definition escape_byte :: "char \<Rightarrow> string" where
  "escape_byte c = (if unreserved c then [c] else if c = CHR '' '' then ''+''
     else [CHR ''%'', hex_digit ((of_char c :: nat) div 16), hex_digit ((of_char c :: nat) mod 16)])"

definition QueryEscape :: "string \<Rightarrow> string" where
  "QueryEscape s = concat (map escape_byte s)"

definition unhex :: "char \<Rightarrow> nat option" where
  "unhex c = (let n = (of_char c :: nat) in
     if 48 \<le> n \<and> n \<le> 57 then Some (n - 48)
     else if 97 \<le> n \<and> n \<le> 102 then Some (n - 87)
     else if 65 \<le> n \<and> n \<le> 70 then Some (n - 55) else None)"

text \<open>None is an escape error: a percent sign without two hexadecimal digits behind it.\<close>

fun QueryUnescape :: "string \<Rightarrow> string option" where
  "QueryUnescape [] = Some []"
| "QueryUnescape (c # cs) =
     (if c = CHR ''%'' then
        (case cs of
           a # b # r \<Rightarrow>
             (case (unhex a, unhex b) of
                (Some x, Some y) \<Rightarrow> map_option (\<lambda>t. char_of (16 * x + y) # t) (QueryUnescape r)
              | _ \<Rightarrow> None)
         | _ \<Rightarrow> None)
      else if c = CHR ''+'' then map_option (\<lambda>t. CHR '' '' # t) (QueryUnescape cs)
      else map_option (\<lambda>t. c # t) (QueryUnescape cs))"

section \<open>Values\<close>

text \<open>\<open>Values.Get\<close>: the first value of a key, empty when absent.\<close>

definition values_get :: "hmap \<Rightarrow> string \<Rightarrow> string" where
  "values_get vs k = (case map_of vs k of Some (v # _) \<Rightarrow> v | _ \<Rightarrow> [])"

definition values_of :: "hmap \<Rightarrow> string \<Rightarrow> string list" where
  "values_of vs k = (case map_of vs k of Some xs \<Rightarrow> xs | None \<Rightarrow> [])"

definition values_add :: "string \<Rightarrow> string \<Rightarrow> hmap \<Rightarrow> hmap" where
  "values_add k v vs = hm_update k (values_of vs k @ [v]) vs"

text \<open>\<open>strings.Cut\<close> at a byte.\<close>

definition cut :: "string \<Rightarrow> char \<Rightarrow> string \<times> string" where
  "cut s b = (case index_byte s b of None \<Rightarrow> (s, []) | Some i \<Rightarrow> (take i s, drop (i + 1) s))"

definition parse_pair :: "string \<Rightarrow> hmap \<Rightarrow> hmap" where
  "parse_pair p vs =
     (if CHR '';'' \<in> set p \<or> p = [] then vs
      else (case cut p (CHR ''='') of (k, v) \<Rightarrow>
        (case (QueryUnescape k, QueryUnescape v) of
           (Some k', Some v') \<Rightarrow> values_add k' v' vs
         | _ \<Rightarrow> vs)))"

definition max_query_params :: nat where "max_query_params = 10000"

definition ParseQuery :: "string \<Rightarrow> hmap" where
  "ParseQuery q =
     (let ps = split_on (CHR ''&'') q in
      if length ps > max_query_params then [] else fold parse_pair ps [])"

definition query_pairs :: "hmap \<Rightarrow> (string \<times> string) list" where
  "query_pairs vs = concat (map (\<lambda>k. map (Pair k) (values_of vs k)) (SliceStable (<) (map fst vs)))"

definition print_pair :: "string \<times> string \<Rightarrow> string" where
  "print_pair p = QueryEscape (fst p) @ ''='' @ QueryEscape (snd p)"

definition values_encode :: "hmap \<Rightarrow> string" where
  "values_encode vs = join ''&'' (map print_pair (query_pairs vs))"

section \<open>Facts\<close>

lemma unhex_table: "list_all (\<lambda>n. unhex (hex_digit n) = Some n \<and>
    hex_digit n \<notin> {CHR ''&'', CHR ''='', CHR '';''}) [0..<16]"
  by code_simp

lemma unhex_hex_digit [simp]: "n < 16 \<Longrightarrow> unhex (hex_digit n) = Some n"
  using unhex_table by (simp add: list_all_iff)

lemma escape_byte_safe: "d \<in> set (escape_byte c) \<Longrightarrow> d \<noteq> CHR ''&'' \<and> d \<noteq> CHR ''='' \<and> d \<noteq> CHR '';''"
proof -
  have "(of_char c :: nat) div 16 < 16" "(of_char c :: nat) mod 16 < 16"
    using nat_of_char_less_256 [of c] by linarith+
  then show "d \<in> set (escape_byte c) \<Longrightarrow> d \<noteq> CHR ''&'' \<and> d \<noteq> CHR ''='' \<and> d \<noteq> CHR '';''"
    using unhex_table by (auto simp: escape_byte_def list_all_iff unreserved_def Let_def split: if_splits)
qed

lemma QueryEscape_safe:
  "CHR ''&'' \<notin> set (QueryEscape s)" "CHR ''='' \<notin> set (QueryEscape s)" "CHR '';'' \<notin> set (QueryEscape s)"
  using escape_byte_safe by (force simp: QueryEscape_def)+

lemma unescape_byte: "QueryUnescape (escape_byte c @ t) = map_option (\<lambda>t. c # t) (QueryUnescape t)"
proof -
  have "(of_char c :: nat) div 16 < 16" "(of_char c :: nat) mod 16 < 16"
    using nat_of_char_less_256 [of c] by linarith+
  moreover have "char_of (16 * ((of_char c :: nat) div 16) + of_char c mod 16) = c"
    by simp
  ultimately show ?thesis
    by (auto simp: escape_byte_def unreserved_def Let_def char_of_def bit_0)
qed

lemma QueryUnescape_Escape [simp]: "QueryUnescape (QueryEscape s) = Some s"
  by (induction s) (simp_all add: QueryEscape_def unescape_byte)

lemma values_get_of: "values_get vs k = (case values_of vs k of v # _ \<Rightarrow> v | [] \<Rightarrow> [])"
  by (simp add: values_get_def values_of_def split: option.splits list.splits)

lemma values_of_Nil [simp]: "values_of [] k = []"
  by (simp add: values_of_def)

lemma values_of_update [simp]: "values_of (hm_update k xs vs) k' = (if k' = k then xs else values_of vs k')"
  by (simp add: values_of_def)

lemma values_of_add: "values_of (values_add k v vs) k' = (if k' = k then values_of vs k @ [v] else values_of vs k')"
  by (simp add: values_add_def)

lemma parse_print_pair: "parse_pair (print_pair p) vs = values_add (fst p) (snd p) vs"
proof -
  have "cut (print_pair p) (CHR ''='') = (QueryEscape (fst p), QueryEscape (snd p))"
    using index_byte_append [OF QueryEscape_safe(2), of "fst p"] by (simp add: cut_def print_pair_def)
  moreover have "CHR '';'' \<notin> set (print_pair p)" "print_pair p \<noteq> []"
    using QueryEscape_safe(3) by (simp_all add: print_pair_def)
  ultimately show ?thesis by (simp add: parse_pair_def)
qed

lemma fold_parse_pairs:
  "fold parse_pair (map print_pair ps) vs = fold (\<lambda>p. values_add (fst p) (snd p)) ps vs"
  by (induction ps arbitrary: vs) (simp_all add: parse_print_pair)

lemma values_of_fold:
  "values_of (fold (\<lambda>p. values_add (fst p) (snd p)) ps vs) k =
   values_of vs k @ map snd (filter (\<lambda>p. fst p = k) ps)"
  by (induction ps arbitrary: vs) (auto simp: values_of_add)

lemma keys_fold:
  "fst ` set (fold (\<lambda>p. values_add (fst p) (snd p)) ps vs) = fst ` set vs \<union> fst ` set ps"
proof (induction ps arbitrary: vs)
  case (Cons p ps)
  then show ?case using keys_hm_update [of "fst p" "values_of vs (fst p) @ [snd p]" vs]
    by (auto simp: values_add_def)
qed simp

lemma values_of_absent: "k \<notin> fst ` set vs \<Longrightarrow> values_of vs k = []"
  by (simp add: values_of_def map_of_eq_None_iff [THEN iffD2])

lemma pairs_of_key:
  "distinct ks \<Longrightarrow> map snd (filter (\<lambda>p. fst p = k) (concat (map (\<lambda>k. map (Pair k) (f k)) ks))) = (if k \<in> set ks then f k else [])"
proof (induction ks)
  case (Cons a ks)
  have "filter (\<lambda>p. fst p = k) (map (Pair a) (f a)) = (if a = k then map (Pair a) (f a) else [])" by auto
  with Cons show ?case by (auto simp: comp_def)
qed simp

lemma query_pairs_of:
  assumes "distinct (map fst vs)"
  shows "map snd (filter (\<lambda>p. fst p = k) (query_pairs vs)) = values_of vs k"
proof -
  have d: "distinct (SliceStable (<) (map fst vs))"
    using assms name_order.mset_sort [of "map fst vs"] by (metis mset_eq_imp_distinct_iff)
  show ?thesis unfolding query_pairs_def
    using pairs_of_key [OF d, of k "values_of vs"] values_of_absent [of k vs] by (simp add: name_order.set_sort)
qed

lemma query_pairs_keys: "fst ` set (query_pairs vs) \<subseteq> fst ` set vs"
  by (force simp: query_pairs_def name_order.set_sort)

text \<open>
  Parsing an encoded query gives every key its values back; keys without a value vanish.
\<close>

lemma ParseQuery_encode:
  assumes "distinct (map fst vs)" "length (query_pairs vs) \<le> max_query_params"
  shows "values_of (ParseQuery (values_encode vs)) k = values_of vs k"
    "fst ` set (ParseQuery (values_encode vs)) \<subseteq> fst ` set vs"
proof -
  have "ParseQuery (values_encode vs) = fold (\<lambda>p. values_add (fst p) (snd p)) (query_pairs vs) []"
  proof (cases "query_pairs vs = []")
    case True
    then show ?thesis by (simp add: values_encode_def ParseQuery_def parse_pair_def max_query_params_def)
  next
    case False
    have "CHR ''&'' \<notin> set (print_pair p)" for p
      using QueryEscape_safe(1) by (simp add: print_pair_def)
    then have "split_on (CHR ''&'') (values_encode vs) = map print_pair (query_pairs vs)"
      unfolding values_encode_def using False by (intro split_on_join) auto
    with assms(2) show ?thesis by (simp add: ParseQuery_def fold_parse_pairs)
  qed
  note p = this
  show "values_of (ParseQuery (values_encode vs)) k = values_of vs k"
    unfolding p by (simp add: values_of_fold query_pairs_of [OF assms(1)])
  show "fst ` set (ParseQuery (values_encode vs)) \<subseteq> fst ` set vs"
    unfolding p using keys_fold [of "query_pairs vs" "[]"] query_pairs_keys by auto
qed

lemma distinct_ParseQuery: "distinct (map fst (ParseQuery q))"
proof -
  have "distinct (map fst vs) \<Longrightarrow> distinct (map fst (fold parse_pair ps vs))" for ps vs
    by (induction ps arbitrary: vs)
      (auto simp: parse_pair_def values_add_def distinct_hm_update split: option.splits prod.splits)
  then show ?thesis by (simp add: ParseQuery_def Let_def)
qed

text \<open>How many pairs an encoded query has.\<close>

definition values_count :: "hmap \<Rightarrow> nat" where
  "values_count vs = sum_list (map (\<lambda>kv. length (snd kv)) vs)"

lemma length_query_pairs:
  assumes "distinct (map fst vs)" shows "length (query_pairs vs) = values_count vs"
proof -
  have "length (query_pairs vs) = sum_list (map (\<lambda>k. length (values_of vs k)) (SliceStable (<) (map fst vs)))"
    by (simp add: query_pairs_def length_concat comp_def)
  also have "\<dots> = sum_list (map (\<lambda>k. length (values_of vs k)) (map fst vs))"
    by (simp add: name_order.mset_sort del: map_map flip: sum_mset_sum_list)
  also have "\<dots> = values_count vs"
    unfolding values_count_def map_map comp_def using assms
    by (intro arg_cong [where f = sum_list] map_cong) (auto simp: values_of_def map_of_is_SomeI)
  finally show ?thesis .
qed

lemma values_count_update: "values_count (hm_update k [v] vs) \<le> Suc (values_count vs)"
  by (induction vs) (auto simp: values_count_def)

lemma values_count_filter: "values_count (filter P vs) \<le> values_count vs"
  by (induction vs) (auto simp: values_count_def)

end
