(* ===== verification/Inspect.thy ===== *)
theory Inspect
  imports Memory_Reader Url
begin

text \<open>
  The inspect endpoints of internal/admin/inspect.go and their parameter parser
  internal/admin/query_parser.go. A reader is a record of its five read operations, \<open>None\<close> a
  reader that is not configured; contexts and timeouts reach the model only as read errors.
  The RFC 3339 parser of package time is the argument \<open>pt\<close>. JSON bodies are values of the
  datatype \<open>body\<close>, one constructor per response shape.
\<close>

section \<open>Parameters\<close>

datatype param_error =
    UnknownParameter | NotAnInteger | OutOfRange | BadCursor cursor_error | NotRFC3339
  | BadQuery parse_error | NeedsNarrowing

type_synonym field_error = "string \<times> param_error"

definition defaultLimit :: int where "defaultLimit = 50"
definition maxLimit :: int where "maxLimit = 500"
definition histogramBucketCount :: int where "histogramBucketCount = 40"
definition maxHistogramBuckets :: int where "maxHistogramBuckets = 240"

definition knownQueryKeys :: "string list" where
  "knownQueryKeys = [''limit'', ''cursor'', ''since'', ''until'', ''q'', ''live'', ''buckets'']"

definition empty_query :: inspect_query where
  "empty_query = \<lparr>iq_limit = 0, iq_cursor = None, iq_since = None, iq_until = None, iq_query = []\<rparr>"

definition parse_limit :: "hmap \<Rightarrow> inspect_query \<times> field_error list \<Rightarrow> inspect_query \<times> field_error list" where
  "parse_limit vs st = (case st of (q, errs) \<Rightarrow>
     (let ls = values_get vs ''limit'' in
      if ls = [] then (q, errs)
      else (case ParseInt ls of
              None \<Rightarrow> (q, errs @ [(''limit'', NotAnInteger)])
            | Some v \<Rightarrow> if v < 1 \<or> v > maxLimit then (q, errs @ [(''limit'', OutOfRange)])
                else (q\<lparr>iq_limit := v\<rparr>, errs))))"

definition parse_cursor :: "hmap \<Rightarrow> inspect_query \<times> field_error list \<Rightarrow> inspect_query \<times> field_error list" where
  "parse_cursor vs st = (case st of (q, errs) \<Rightarrow>
     (let cs = values_get vs ''cursor'' in
      if cs = [] then (q, errs)
      else (case DecodeCursor cs of
              Inl e \<Rightarrow> (q, errs @ [(''cursor'', BadCursor e)])
            | Inr c \<Rightarrow> (q\<lparr>iq_cursor := Some c\<rparr>, errs))))"

definition parse_since ::
  "(string \<Rightarrow> time option) \<Rightarrow> hmap \<Rightarrow> inspect_query \<times> field_error list \<Rightarrow> inspect_query \<times> field_error list" where
  "parse_since pt vs st = (case st of (q, errs) \<Rightarrow>
     (let s = values_get vs ''since'' in
      if s = [] then (q, errs)
      else (case pt s of None \<Rightarrow> (q, errs @ [(''since'', NotRFC3339)]) | Some t \<Rightarrow> (q\<lparr>iq_since := Some t\<rparr>, errs))))"

definition parse_until ::
  "(string \<Rightarrow> time option) \<Rightarrow> hmap \<Rightarrow> inspect_query \<times> field_error list \<Rightarrow> inspect_query \<times> field_error list" where
  "parse_until pt vs st = (case st of (q, errs) \<Rightarrow>
     (let s = values_get vs ''until'' in
      if s = [] then (q, errs)
      else (case pt s of None \<Rightarrow> (q, errs @ [(''until'', NotRFC3339)]) | Some t \<Rightarrow> (q\<lparr>iq_until := Some t\<rparr>, errs))))"

definition parse_q ::
  "unicode_map \<Rightarrow> unicode_map \<Rightarrow> hmap \<Rightarrow> inspect_query \<times> field_error list \<Rightarrow> inspect_query \<times> field_error list" where
  "parse_q ul uu vs st = (case st of (q, errs) \<Rightarrow>
     (let s = values_get vs ''q'' in
      if s = [] then (q, errs)
      else (case Parse ul uu s of
              Inl e \<Rightarrow> (q, errs @ [(''q'', BadQuery e)])
            | Inr ts \<Rightarrow> (q\<lparr>iq_query := ts\<rparr>, errs))))"

definition parseInspectQuery ::
  "unicode_map \<Rightarrow> unicode_map \<Rightarrow> (string \<Rightarrow> time option) \<Rightarrow> hmap \<Rightarrow> inspect_query \<times> field_error list" where
  "parseInspectQuery ul uu pt vs =
     (let unknown = filter (\<lambda>k. k \<notin> set knownQueryKeys) (map fst vs) in
      if unknown \<noteq> [] then (empty_query, map (\<lambda>k. (k, UnknownParameter)) unknown)
      else parse_q ul uu vs (parse_until pt vs (parse_since pt vs (parse_cursor vs
        (parse_limit vs (empty_query\<lparr>iq_limit := defaultLimit\<rparr>, []))))))"

definition hasNonTemporalFilter :: "inspect_query \<Rightarrow> bool" where
  "hasNonTemporalFilter q = HasNonTemporalTerm (iq_query q)"

section \<open>Readers and merging\<close>

datatype read_error = ErrNotFound | ErrRead string

record inspect_reader =
  ir_roots :: "inspect_query \<Rightarrow> int \<Rightarrow> cursor option \<Rightarrow> read_error + root_row list \<times> cursor option"
  ir_detail :: "string \<Rightarrow> read_error + detail_record"
  ir_services_seen :: "time \<Rightarrow> read_error + string list"
  ir_service_stats :: "time \<Rightarrow> read_error + service_stat list"
  ir_aggregate :: "inspect_query \<Rightarrow> int \<Rightarrow> read_error + aggregation"

datatype read_source = SourceMemory | SourceSQLite | SourceMemorySQLite | SourceNone

definition merge_rows :: "root_row list \<Rightarrow> root_row list \<Rightarrow> root_row list" where
  "merge_rows memRows sqlRows =
     SliceStable row_lt (memRows @ filter (\<lambda>row. rr_id row \<notin> rr_id ` set memRows) sqlRows)"

text \<open>The result is rows, next cursor and source. A limit below one makes the trim panic; the handlers pass 1..500.\<close>

definition gatherRoots ::
  "inspect_query \<Rightarrow> inspect_reader option \<Rightarrow> inspect_reader option
   \<Rightarrow> read_error + (root_row list \<times> cursor option \<times> read_source)" where
  "gatherRoots q memReader sqlReader =
     (let limit = iq_limit q in
      if memReader = None \<and> sqlReader = None then Inr ([], None, SourceNone)
      else if hasNonTemporalFilter q \<or> memReader = None then
        (case sqlReader of
           None \<Rightarrow> Inr ([], None, SourceNone)
         | Some sr \<Rightarrow>
             (case ir_roots sr q limit (iq_cursor q) of
                Inl e \<Rightarrow> Inl e
              | Inr (rows, nxt) \<Rightarrow> Inr (rows, nxt, SourceSQLite)))
      else
        (case ir_roots (the memReader) q limit (iq_cursor q) of
           Inl e \<Rightarrow> Inl e
         | Inr (memRows, memNext) \<Rightarrow>
             if int (length memRows) \<ge> limit \<or> sqlReader = None then Inr (memRows, memNext, SourceMemory)
             else
               (case ir_roots (the sqlReader) q limit (iq_cursor q) of
                  Inl e \<Rightarrow> Inl e
                | Inr (sqlRows, _) \<Rightarrow>
                    (let deduped = merge_rows memRows sqlRows;
                         source = (if memRows \<noteq> [] \<and> sqlRows \<noteq> [] then SourceMemorySQLite
                                   else if sqlRows \<noteq> [] then SourceSQLite else SourceMemory)
                     in if int (length deduped) > limit
                        then Inr (take (nat limit) deduped, Some (cursor_of (deduped ! nat (limit - 1))), source)
                        else Inr (deduped, None, source)))))"

definition gatherAggregation ::
  "inspect_query \<Rightarrow> int \<Rightarrow> inspect_reader option \<Rightarrow> inspect_reader option \<Rightarrow> read_error + aggregation" where
  "gatherAggregation q bucketCount memReader sqlReader =
     (case sqlReader of
        Some sr \<Rightarrow> ir_aggregate sr q bucketCount
      | None \<Rightarrow> (case memReader of
            Some mr \<Rightarrow> ir_aggregate mr q bucketCount
          | None \<Rightarrow> Inr \<lparr>ag_total = 0, ag_buckets = []\<rparr>))"

text \<open>Every record has a timestamp and an id, so the interface checks of the source succeed.\<close>

fun add_unseen :: "string list \<Rightarrow> capture_record list \<Rightarrow> capture_record list" where
  "add_unseen seen [] = []"
| "add_unseen seen (e # es) =
     (if RecordID e \<in> set seen then add_unseen seen es else e # add_unseen (RecordID e # seen) es)"

definition mergeDetailSiblings :: "detail_record \<Rightarrow> detail_record \<Rightarrow> detail_record" where
  "mergeDetailSiblings primary secondary =
     (let seen = RecordID (dr_root primary) # map RecordID (dr_events primary);
          merged = dr_events primary @ add_unseen seen (dr_events secondary)
      in \<lparr>dr_root = dr_root primary, dr_events = SliceStable record_lt merged\<rparr>)"

definition gatherDetail ::
  "string \<Rightarrow> inspect_reader option \<Rightarrow> inspect_reader option \<Rightarrow> read_error + detail_record" where
  "gatherDetail ident memReader sqlReader =
     (let from_sql =
        (case sqlReader of
           None \<Rightarrow> Inl ErrNotFound
         | Some sr \<Rightarrow>
             (case ir_detail sr ident of
                Inl e \<Rightarrow> Inl e
              | Inr detail \<Rightarrow>
                  (case memReader of
                     None \<Rightarrow> Inr detail
                   | Some mr \<Rightarrow>
                       (case ir_detail mr ident of
                          Inl _ \<Rightarrow> Inr detail
                        | Inr memDetail \<Rightarrow> Inr (mergeDetailSiblings detail memDetail)))))
      in case memReader of
           None \<Rightarrow> from_sql
         | Some mr \<Rightarrow>
             (case ir_detail mr ident of
                Inr detail \<Rightarrow>
                  (case sqlReader of
                     None \<Rightarrow> Inr detail
                   | Some sr \<Rightarrow>
                       (case ir_detail sr ident of
                          Inl _ \<Rightarrow> Inr detail
                        | Inr sqlDetail \<Rightarrow> Inr (mergeDetailSiblings detail sqlDetail)))
              | Inl e \<Rightarrow> if e = ErrNotFound then from_sql else Inl e))"

definition requiresNarrowing :: "inspect_query \<Rightarrow> bool" where
  "requiresNarrowing q =
     (iq_since q \<noteq> None \<or> iq_until q \<noteq> None \<or>
      list_ex (\<lambda>t. t_field t = FieldService \<and> t_wildcard t = WildcardNone \<and> \<not> t_negated t) (iq_query q))"

section \<open>Handlers\<close>

datatype body =
    RootsBody "root_row list" "string option"
  | AggregateBody aggregation
  | DetailBody detail_record
  | FieldErrorBody string param_error
  | NotFoundBody string
  | ReadErrorBody read_error

record response =
  rs_status :: int
  rs_headers :: hmap
  rs_body :: body

record read_sources =
  src_memory :: "inspect_reader option"
  src_sqlite :: "inspect_reader option"

definition json_type :: string where "json_type = ''application/json; charset=utf-8''"

definition writeFieldError :: "hmap \<Rightarrow> string \<Rightarrow> param_error \<Rightarrow> response" where
  "writeFieldError hs fld msg =
     \<lparr>rs_status = 400, rs_headers = header_set hs ''Content-Type'' json_type, rs_body = FieldErrorBody fld msg\<rparr>"

definition writeParseErrors :: "hmap \<Rightarrow> field_error list \<Rightarrow> response" where
  "writeParseErrors hs errs = writeFieldError hs (fst (hd errs)) (snd (hd errs))"

definition writeRootsResponse :: "hmap \<Rightarrow> root_row list \<Rightarrow> cursor option \<Rightarrow> response" where
  "writeRootsResponse hs rows nextCur =
     \<lparr>rs_status = 200, rs_headers = hs, rs_body = RootsBody rows (map_option Encode nextCur)\<rparr>"

text \<open>\<open>http.Error\<close> replaces the content type and sets nosniff.\<close>

definition http_error :: "hmap \<Rightarrow> int \<Rightarrow> body \<Rightarrow> response" where
  "http_error hs code b =
     \<lparr>rs_status = code,
      rs_headers = header_set (header_set hs ''Content-Type'' ''text/plain; charset=utf-8'') ''X-Content-Type-Options'' ''nosniff'',
      rs_body = b\<rparr>"

definition source_label :: "read_source \<Rightarrow> string" where
  "source_label src = (case src of SourceMemory \<Rightarrow> ''memory'' | SourceSQLite \<Rightarrow> ''sqlite''
     | SourceMemorySQLite \<Rightarrow> ''memory+sqlite'' | SourceNone \<Rightarrow> ''none'')"

definition read_headers :: "inspect_query \<Rightarrow> hmap" where
  "read_headers q =
     (let hs = header_set (header_set [] ''Content-Type'' json_type) ''Cache-Control'' ''no-store'' in
      if IsUnindexedScan (iq_query q) then header_set hs ''X-Httpcatch-Scan'' ''leading-wildcard-indexed'' else hs)"

definition requestsHandler ::
  "unicode_map \<Rightarrow> unicode_map \<Rightarrow> (string \<Rightarrow> time option) \<Rightarrow> read_sources \<Rightarrow> hmap \<Rightarrow> response" where
  "requestsHandler ul uu pt rs vals =
     (case parseInspectQuery ul uu pt vals of (q, fieldErrs) \<Rightarrow>
      if fieldErrs \<noteq> [] then writeParseErrors [] fieldErrs
      else if IsUnindexedScan (iq_query q) \<and> \<not> requiresNarrowing q
        then writeFieldError [] ''q'' NeedsNarrowing
      else (case gatherRoots q (src_memory rs) (src_sqlite rs) of
              Inl e \<Rightarrow> http_error (read_headers q) 500 (ReadErrorBody e)
            | Inr (rows, nextCur, source) \<Rightarrow>
                writeRootsResponse (header_set (read_headers q) ''X-Httpcatch-Read-Source'' (source_label source))
                  rows nextCur))"

definition requestsAggregateHandler ::
  "unicode_map \<Rightarrow> unicode_map \<Rightarrow> (string \<Rightarrow> time option) \<Rightarrow> read_sources \<Rightarrow> hmap \<Rightarrow> response" where
  "requestsAggregateHandler ul uu pt rs vals =
     (let bs = values_get vals ''buckets'';
          bucketCount = (if bs = [] then Some histogramBucketCount
            else (case ParseInt bs of
                    None \<Rightarrow> None
                  | Some n \<Rightarrow> if n < 1 \<or> n > maxHistogramBuckets then None else Some n))
      in case bucketCount of
           None \<Rightarrow> writeFieldError [] ''buckets'' OutOfRange
         | Some n \<Rightarrow>
             (case parseInspectQuery ul uu pt vals of (q, fieldErrs) \<Rightarrow>
              if fieldErrs \<noteq> [] then writeParseErrors [] fieldErrs
              else if IsUnindexedScan (iq_query q) \<and> \<not> requiresNarrowing q
                then writeFieldError [] ''q'' NeedsNarrowing
              else (let q' = q\<lparr>iq_cursor := None, iq_limit := 0\<rparr> in
                case gatherAggregation q' n (src_memory rs) (src_sqlite rs) of
                  Inl e \<Rightarrow> http_error (read_headers q) 500 (ReadErrorBody e)
                | Inr agg \<Rightarrow> \<lparr>rs_status = 200, rs_headers = read_headers q, rs_body = AggregateBody agg\<rparr>)))"

definition writeDetailNotFound :: "hmap \<Rightarrow> string \<Rightarrow> response" where
  "writeDetailNotFound hs ident = \<lparr>rs_status = 404, rs_headers = hs, rs_body = NotFoundBody ident\<rparr>"

definition requestDetailHandler :: "read_sources \<Rightarrow> string \<Rightarrow> response" where
  "requestDetailHandler rs ident =
     (let hs = header_set (header_set [] ''Content-Type'' json_type) ''Cache-Control'' ''no-store'' in
      if src_memory rs = None \<and> src_sqlite rs = None then writeDetailNotFound hs ident
      else (case gatherDetail ident (src_memory rs) (src_sqlite rs) of
              Inl ErrNotFound \<Rightarrow> writeDetailNotFound hs ident
            | Inl e \<Rightarrow> http_error hs 500 (ReadErrorBody e)
            | Inr detail \<Rightarrow> \<lparr>rs_status = 200, rs_headers = hs, rs_body = DetailBody detail\<rparr>))"

text \<open>The memory sink as a reader; its reads return no error.\<close>

definition memory_reader :: "unicode_map \<Rightarrow> memory_sink \<Rightarrow> inspect_reader" where
  "memory_reader ul s =
     \<lparr>ir_roots = (\<lambda>q limit cur. case ReadRoots ul s q limit cur of
          Some r \<Rightarrow> Inr r | None \<Rightarrow> Inl (ErrRead ''panic'')),
      ir_detail = (\<lambda>ident. case ReadDetail s ident of None \<Rightarrow> Inl ErrNotFound | Some d \<Rightarrow> Inr d),
      ir_services_seen = (\<lambda>since. Inr (ServicesSeen s since)),
      ir_service_stats = (\<lambda>since. Inr (ServiceStats s since)),
      ir_aggregate = (\<lambda>q n. Inr (AggregateRoots ul s q n))\<rparr>"

section \<open>Facts about merging\<close>

text \<open>Two row lists in which an id identifies one position of the row order.\<close>

definition keyed_rows :: "root_row list \<Rightarrow> bool" where
  "keyed_rows xs \<longleftrightarrow> (\<forall>a \<in> set xs. \<forall>b \<in> set xs. rr_id a = rr_id b \<longrightarrow> rr_timestamp a = rr_timestamp b)"

lemma row_lt_total: "rr_id a \<noteq> rr_id b \<Longrightarrow> row_lt a b \<or> row_lt b a"
  by (auto simp: row_lt_def)

lemma sort_rows_strict:
  assumes "distinct (map rr_id xs)" shows "sorted_wrt row_lt (SliceStable row_lt xs)"
proof (rule row_order.sort_strict)
  show "distinct xs" using assms by (simp add: distinct_map)
  fix x y assume "x \<in> set xs" "y \<in> set xs" "x \<noteq> y"
  with assms have "rr_id x \<noteq> rr_id y" by (auto simp: distinct_map inj_on_def)
  then show "row_lt x y \<or> row_lt y x" by (rule row_lt_total)
qed

lemma SliceStable_append: "SliceStable lt (ys @ xs) = foldr (insert_by lt) ys (SliceStable lt xs)"
  by (simp add: SliceStable_def)

lemma take_foldr_insert:
  assumes "sorted_wrt row_lt xs" "\<forall>y \<in> set ys. n \<le> length (filter (\<lambda>x. row_lt x y) xs)" "distinct (map rr_id (ys @ xs))"
  shows "take n (foldr (insert_by row_lt) ys xs) = take n xs"
  using assms(2,3)
proof (induction ys)
  case (Cons y ys)
  let ?r = "foldr (insert_by row_lt) ys xs"
  have m: "mset ?r = mset ys + mset xs"
    by (induction ys) (simp_all add: row_order.mset_insert_by)
  have sx: "SliceStable row_lt xs = xs"
  proof (rule row_order.strict_unique)
    show "sorted_wrt row_lt (SliceStable row_lt xs)" using Cons.prems(2) by (intro sort_rows_strict) simp
  qed (use assms(1) row_order.set_sort in simp_all)
  have "sorted_wrt row_lt ?r"
    using sort_rows_strict [of "ys @ xs"] Cons.prems(2) sx by (simp add: SliceStable_append)
  moreover have "n \<le> length (filter (\<lambda>x. row_lt x y) ?r)"
  proof -
    have "length (filter (\<lambda>x. row_lt x y) ?r) = size (filter_mset (\<lambda>x. row_lt x y) (mset ys + mset xs))"
      by (metis m mset_filter size_mset)
    also have "\<dots> \<ge> length (filter (\<lambda>x. row_lt x y) xs)" by (metis le_add2 filter_union_mset mset_filter size_mset size_union)
    finally show ?thesis using Cons.prems(1) by simp
  qed
  ultimately show ?case using Cons by (simp add: row_order.take_insert_by)
qed simp

abbreviation fresh_rows :: "root_row list \<Rightarrow> root_row list \<Rightarrow> root_row list" where
  "fresh_rows M S \<equiv> filter (\<lambda>row. rr_id row \<notin> rr_id ` set M) S"

lemma fresh_distinct:
  "distinct (map rr_id M) \<Longrightarrow> distinct (map rr_id S) \<Longrightarrow> distinct (map rr_id (M @ fresh_rows M S))"
proof -
  assume d: "distinct (map rr_id M)" "distinct (map rr_id S)"
  have "set (map rr_id M) \<inter> set (map rr_id (fresh_rows M S)) = {}"
    unfolding disjoint_iff set_map set_filter by blast
  with d show ?thesis by (simp add: distinct_map_filter)
qed

lemma enough_before:
  assumes "distinct (map rr_id S)" "sorted_wrt row_lt S" "keyed_rows (M @ S)" "y \<in> set (drop n S)"
  shows "n \<le> length (filter (\<lambda>x. row_lt x y) (M @ fresh_rows M (take n S)))"
proof -
  let ?P = "take n S" and ?B = "filter (\<lambda>x. row_lt x y) (M @ fresh_rows M (take n S))"
  have n: "length ?P = n" using assms(4) by (cases "n < length S") auto
  have before: "row_lt s y" if "s \<in> set ?P" for s
    using assms(2,4) that sorted_wrt_append [of row_lt ?P "drop n S"] by simp
  have "rr_id ` set ?P \<subseteq> rr_id ` set ?B"
  proof
    fix i assume "i \<in> rr_id ` set ?P"
    then obtain p where p: "p \<in> set ?P" "rr_id p = i" by blast
    show "i \<in> rr_id ` set ?B"
    proof (cases "i \<in> rr_id ` set M")
      case True
      then obtain m where m: "m \<in> set M" "rr_id m = rr_id p" using p(2) by force
      have "p \<in> set S" using p(1) by (rule in_set_takeD)
      then have "rr_timestamp m = rr_timestamp p" using assms(3) m unfolding keyed_rows_def by auto
      with before [OF p(1)] m(2) have "row_lt m y" by (simp add: row_lt_def)
      with m(1) have "m \<in> set ?B" by simp
      with m(2) p(2) show ?thesis by (metis imageI)
    next
      case False
      with p before have "p \<in> set ?B" by simp
      with p(2) show ?thesis by (metis imageI)
    qed
  qed
  then have "card (rr_id ` set ?P) \<le> card (rr_id ` set ?B)" by (rule card_mono [rotated]) simp
  also have "\<dots> \<le> length ?B" using card_image_le [of "set ?B" rr_id] card_length [of ?B] by simp
  finally have "card (rr_id ` set ?P) \<le> length ?B" .
  moreover have "card (rr_id ` set ?P) = n"
  proof -
    have "distinct (map rr_id ?P)" using assms(1) by (metis distinct_take take_map)
    from distinct_card [OF this] n show ?thesis by simp
  qed
  ultimately show ?thesis by simp
qed

lemma merge_rows_take:
  assumes "distinct (map rr_id M)" "distinct (map rr_id S)" "sorted_wrt row_lt S" "keyed_rows (M @ S)"
  shows "take n (merge_rows M (take n S)) = take n (merge_rows M S)"
proof -
  define X where "X = M @ fresh_rows M (take n S)"
  define Y where "Y = fresh_rows M (drop n S)"
  have split: "fresh_rows M S = fresh_rows M (take n S) @ Y"
    unfolding Y_def by (metis append_take_drop_id filter_append)
  have d: "distinct (map rr_id (X @ Y))" using fresh_distinct [OF assms(1,2)] split by (simp add: X_def)
  then have d': "distinct (map rr_id (Y @ X))" by auto
  have "SliceStable row_lt (X @ Y) = SliceStable row_lt (Y @ X)"
    by (rule row_order.strict_unique [OF sort_rows_strict [OF d] sort_rows_strict [OF d']])
      (auto simp: row_order.set_sort)
  moreover have "take n (SliceStable row_lt (Y @ X)) = take n (SliceStable row_lt X)"
    unfolding SliceStable_append
  proof (rule take_foldr_insert)
    show "sorted_wrt row_lt (SliceStable row_lt X)" using d by (intro sort_rows_strict) simp
    show "distinct (map rr_id (Y @ SliceStable row_lt X))"
      using d' row_order.mset_sort [of X] by (metis mset_append mset_map mset_eq_imp_distinct_iff)
    show "\<forall>y \<in> set Y. n \<le> length (filter (\<lambda>x. row_lt x y) (SliceStable row_lt X))"
    proof
      fix y assume "y \<in> set Y"
      then have "n \<le> length (filter (\<lambda>x. row_lt x y) X)"
        unfolding X_def Y_def by (intro enough_before [OF assms(2-4)]) simp
      then show "n \<le> length (filter (\<lambda>x. row_lt x y) (SliceStable row_lt X))"
        by (metis mset_filter row_order.mset_sort size_mset)
    qed
  qed
  ultimately show ?thesis by (simp add: merge_rows_def X_def split)
qed

lemma set_merge_rows: "set (merge_rows M S) = set M \<union> set (fresh_rows M S)"
  by (simp add: merge_rows_def row_order.set_sort)

section \<open>Facts about detail and parameters\<close>

lemma add_unseen_ids:
  "set (map RecordID (add_unseen seen es)) = set (map RecordID es) - set seen"
  "distinct (map RecordID (add_unseen seen es))"
  by (induction es arbitrary: seen) auto

lemma parse_steps_limit:
  "iq_limit (fst (parse_q ul uu vs st)) = iq_limit (fst st)" "iq_limit (fst (parse_until pt vs st)) = iq_limit (fst st)"
  "iq_limit (fst (parse_since pt vs st)) = iq_limit (fst st)" "iq_limit (fst (parse_cursor vs st)) = iq_limit (fst st)"
  by (simp_all add: parse_q_def parse_until_def parse_since_def parse_cursor_def Let_def split: prod.split sum.split option.split)

lemma parse_limit_range:
  "1 \<le> iq_limit (fst st) \<and> iq_limit (fst st) \<le> maxLimit \<Longrightarrow>
   1 \<le> iq_limit (fst (parse_limit vs st)) \<and> iq_limit (fst (parse_limit vs st)) \<le> maxLimit"
  by (auto simp: parse_limit_def Let_def split: prod.split option.split)

lemma parseInspectQuery_limit:
  assumes "snd (parseInspectQuery ul uu pt vs) = []"
  shows "1 \<le> iq_limit (fst (parseInspectQuery ul uu pt vs)) \<and> iq_limit (fst (parseInspectQuery ul uu pt vs)) \<le> 500"
proof -
  have "filter (\<lambda>k. k \<notin> set knownQueryKeys) (map fst vs) = []"
    using assms by (auto simp: parseInspectQuery_def Let_def split: if_splits)
  then show ?thesis
    using parse_limit_range [of "(empty_query\<lparr>iq_limit := defaultLimit\<rparr>, [])" vs]
    by (simp add: parseInspectQuery_def Let_def parse_steps_limit defaultLimit_def maxLimit_def)
qed

lemma memory_reader_roots:
  assumes "1 \<le> limit" "limit \<le> 500"
  shows "\<exists>page nx. ir_roots (memory_reader ul s) q limit cur = Inr (page, nx) \<and> int (length page) \<le> limit"
proof -
  have l: "limit < 2 ^ 63 - 1" using assms by simp
  obtain nx where "ReadRoots ul s q limit cur = Some (take (nat limit) (filter (past cur) (matching_rows ul s q)), nx)"
    by (rule mem.read_page [OF assms(1) l]) (simp_all add: option.pred_True)
  then show ?thesis using assms(1) by (simp add: memory_reader_def)
qed

section \<open>Properties\<close>

text \<open>
  Merging the readers yields the right page. When the memory page is short and SQLite
  answers with the first \<open>limit\<close> of its rows behind the cursor, the gathered page is exactly the
  first \<open>limit\<close> rows of the union of all rows of both stores behind the cursor, duplicates by id
  removed, newest first; trimming SQLite's answer to \<open>limit\<close> loses nothing.
\<close>

lemma gatherRoots_merges:
  assumes "iq_query q = []" and "1 \<le> iq_limit q"
    and "ir_roots mr q (iq_limit q) (iq_cursor q) = Inr (M, memNext)" and "int (length M) < iq_limit q"
    and "ir_roots sr q (iq_limit q) (iq_cursor q) = Inr (take (nat (iq_limit q)) S, sqlNext)"
    and "distinct (map rr_id M)" and "distinct (map rr_id S)" and "sorted_wrt row_lt S" and "keyed_rows (M @ S)"
  shows "\<exists>nxt source. gatherRoots q (Some mr) (Some sr) =
      Inr (take (nat (iq_limit q)) (SliceStable row_lt (M @ filter (\<lambda>row. rr_id row \<notin> rr_id ` set M) S)), nxt, source)"
proof -
  let ?n = "nat (iq_limit q)" and ?d = "merge_rows M (take (nat (iq_limit q)) S)"
  have t: "take ?n ?d = take ?n (merge_rows M S)" by (rule merge_rows_take [OF assms(6-9)])
  have "\<not> hasNonTemporalFilter q" using assms(1) by (simp add: hasNonTemporalFilter_def HasNonTemporalTerm_def)
  moreover have "\<not> int (length ?d) > iq_limit q \<Longrightarrow> take ?n ?d = ?d" by simp
  ultimately have "\<exists>nxt source. gatherRoots q (Some mr) (Some sr) = Inr (take ?n ?d, nxt, source)"
    using assms(3-5) by (auto simp: gatherRoots_def Let_def)
  with t show ?thesis by (simp add: merge_rows_def)
qed

definition stored_sink :: memory_sink where
  "stored_sink = foldl Write (NewMemorySink 9)
     [Request (sample_request ''a'' 1 ''k''), Request (sample_request ''b'' 2 ''l''), Request (sample_request ''c'' 3 ''m'')]"

definition recent_sink :: memory_sink where
  "recent_sink = foldl Write (NewMemorySink 9) [Request (sample_request ''c'' 3 ''m'')]"

definition two_rows :: inspect_query where
  "two_rows = \<lparr>iq_limit = 2, iq_cursor = None, iq_since = None, iq_until = None, iq_query = []\<rparr>"

text \<open>
  The merge forgets SQLite's next cursor. Whenever the memory page is empty behind the
  cursor (the ring was just created, or paging has passed the ring) and SQLite answers with a
  page of at most \<open>limit\<close> rows and a cursor for the rows that follow, the gathered answer has no
  next cursor: a client that follows cursors never sees the remaining rows.
\<close>

theorem gatherRoots_forgets_next_page:
  assumes "iq_query q = []" and "1 \<le> iq_limit q"
    and "ir_roots mr q (iq_limit q) (iq_cursor q) = Inr ([], None)"
    and "ir_roots sr q (iq_limit q) (iq_cursor q) = Inr (rows, Some c)" and "int (length rows) \<le> iq_limit q"
  shows "\<exists>page source. gatherRoots q (Some mr) (Some sr) = Inr (page, None, source) \<and> mset page = mset rows"
  using assms
  by (auto simp: gatherRoots_def hasNonTemporalFilter_def HasNonTemporalTerm_def Let_def merge_rows_def
      row_order.length_sort row_order.mset_sort)

theorem gatherRoots_forgets_next_page_witness:
  "(\<exists>page source. gatherRoots two_rows (Some (memory_reader id (NewMemorySink 9))) (Some (memory_reader id stored_sink)) =
      Inr (page, None, source) \<and> mset page = mset (take 2 (matching_rows id stored_sink two_rows))) \<and>
   length (matching_rows id stored_sink two_rows) = 3"
proof -
  let ?S = "matching_rows id stored_sink two_rows"
  have m: "ir_roots (memory_reader id (NewMemorySink 9)) two_rows 2 None = Inr ([], None)" by code_simp
  have s: "ir_roots (memory_reader id stored_sink) two_rows 2 None = Inr (take 2 ?S, Some \<lparr>cu_timestamp = 2, cu_id = ''b''\<rparr>)"
    "length ?S = 3" by code_simp+
  have q: "iq_query two_rows = []" "iq_limit two_rows = 2" "iq_cursor two_rows = None" by (simp_all add: two_rows_def)
  show ?thesis
    using gatherRoots_forgets_next_page [of two_rows "memory_reader id (NewMemorySink 9)" "memory_reader id stored_sink"
      "take 2 ?S" "\<lparr>cu_timestamp = 2, cu_id = ''b''\<rparr>"] m s q by simp
qed

text \<open>
  The listing endpoint over the memory sink alone answers every request: 200 with at most
  500 rows, or 400 with a named field; it never reports a read error and the page slice never
  panics. A 200 means that the parameters parsed without error and that a leading-wildcard
  scan carried a narrowing constraint.
\<close>

theorem requests_endpoint_memory_total:
  "let resp = requestsHandler ul uu pt \<lparr>src_memory = Some (memory_reader ul s), src_sqlite = None\<rparr> vals;
       (q, errs) = parseInspectQuery ul uu pt vals
   in (case rs_body resp of
         RootsBody rows nxt \<Rightarrow> rs_status resp = 200 \<and> length rows \<le> 500 \<and> errs = [] \<and>
           (if IsUnindexedScan (iq_query q) then requiresNarrowing q else True)
       | FieldErrorBody f e \<Rightarrow> rs_status resp = 400 \<and> (if errs = [] then IsUnindexedScan (iq_query q) \<and> \<not> requiresNarrowing q else True)
       | _ \<Rightarrow> False)"
proof -
  obtain q errs where p: "parseInspectQuery ul uu pt vals = (q, errs)" by (cases "parseInspectQuery ul uu pt vals")
  show ?thesis
  proof (cases "errs = [] \<and> \<not> (IsUnindexedScan (iq_query q) \<and> \<not> requiresNarrowing q)")
    case True
    have l: "1 \<le> iq_limit q" "iq_limit q \<le> 500" using parseInspectQuery_limit [of ul uu pt vals] p True by simp_all
    obtain page nx where r: "ir_roots (memory_reader ul s) q (iq_limit q) (iq_cursor q) = Inr (page, nx)"
      and len: "int (length page) \<le> iq_limit q" using memory_reader_roots [OF l] by blast
    have "\<exists>rows nxt src. gatherRoots q (Some (memory_reader ul s)) None = Inr (rows, nxt, src) \<and> length rows \<le> 500"
      using r len l by (auto simp: gatherRoots_def Let_def)
    with True p show ?thesis
      by (auto simp: requestsHandler_def writeRootsResponse_def Let_def)
  next
    case False
    with p show ?thesis
      by (auto simp: requestsHandler_def writeParseErrors_def writeFieldError_def Let_def)
  qed
qed

text \<open>
  Merging the siblings of a record keeps one copy of every id: the merged events have the
  ids of both event lists (less the root's own), ordered by timestamp and id; every event of
  the primary reader is kept, and distinct primary ids stay distinct.
\<close>

theorem mergeDetailSiblings_union:
  "let m = mergeDetailSiblings p s in
   dr_root m = dr_root p \<and> set (dr_events p) \<subseteq> set (dr_events m) \<and>
   RecordID ` set (dr_events m) = RecordID ` set (dr_events p) \<union>
     (RecordID ` set (dr_events s) - {RecordID (dr_root p)}) \<and>
   sorted_wrt (\<lambda>a b. \<not> record_lt b a) (dr_events m) \<and>
   (distinct (map RecordID (dr_events p)) \<longrightarrow> distinct (map RecordID (dr_events m)))"
proof -
  let ?seen = "RecordID (dr_root p) # map RecordID (dr_events p)"
  let ?u = "dr_events p @ add_unseen ?seen (dr_events s)"
  note ids = add_unseen_ids [of ?seen "dr_events s"]
  have ev: "dr_events (mergeDetailSiblings p s) = SliceStable record_lt ?u" by (simp add: mergeDetailSiblings_def Let_def)
  have "distinct (map RecordID (dr_events p)) \<Longrightarrow> distinct (map RecordID ?u)" using ids by auto
  then have "distinct (map RecordID (dr_events p)) \<Longrightarrow> distinct (map RecordID (SliceStable record_lt ?u))"
    by (metis mset_eq_imp_distinct_iff mset_map record_order.mset_sort)
  moreover have "RecordID ` set ?u = RecordID ` set (dr_events p) \<union> (RecordID ` set (dr_events s) - {RecordID (dr_root p)})"
    using ids(1) by auto
  ultimately show ?thesis
    using ev by (auto simp: Let_def record_order.set_sort record_order.sort_sorted mergeDetailSiblings_def)
qed

theorem mergeDetailSiblings_union_witness:
  "distinct (map RecordID (dr_events (mergeDetailSiblings
     \<lparr>dr_root = Request (sample_request ''a'' 1 ''k''), dr_events = [Response (sample_response ''b'' 2 ''k'' 200)]\<rparr>
     \<lparr>dr_root = Request (sample_request ''a'' 1 ''k''), dr_events = [Outbound (sample_outbound ''c'' 1 ''k''), Response (sample_response ''b'' 2 ''k'' 200)]\<rparr>)))"
  using mergeDetailSiblings_union [of "\<lparr>dr_root = Request (sample_request ''a'' 1 ''k''), dr_events = [Response (sample_response ''b'' 2 ''k'' 200)]\<rparr>"]
  by (simp add: Let_def)

text \<open>
  With the memory sink alone, the listing and the aggregation of one filtered query
  disagree: a query with any search term lists nothing, while the aggregation endpoint counts
  every row the in-memory matcher accepts, and the matcher accepts every request for a status
  or has_events term.
\<close>

lemma memory_only_filter_mismatch:
  assumes "iq_query q \<noteq> []"
  shows "gatherRoots q (Some (memory_reader ul s)) None = Inr ([], None, SourceNone) \<and>
    (\<exists>agg. gatherAggregation q n (Some (memory_reader ul s)) None = Inr agg \<and>
       ag_total agg = int (length (List.map_filter (emit_row ul q (snapshot s)) (snapshot s))))"
  using assms
  by (simp add: gatherRoots_def hasNonTemporalFilter_def HasNonTemporalTerm_def Let_def gatherAggregation_def
      memory_reader_def AggregateRoots_fields aggregate_loop_total)

definition status_500 :: inspect_query where
  "status_500 = \<lparr>iq_limit = 50, iq_cursor = None, iq_since = None, iq_until = None,
     iq_query = [(plain_term FieldStatus ''500'' WildcardNone False False [])\<lparr>t_status_filter := Some \<lparr>sf_exact = 500, sf_class = []\<rparr>\<rparr>]\<rparr>"

end
