(* ===== verification/Chips.thy ===== *)
theory Chips
  imports Searchql
begin

text \<open>
  The chips of the search bar (\<open>chipsFromQuery\<close> and \<open>chipDisplayValue\<close> of
  internal/admin/ui_views.go): each parsed term is rendered as a token, and the page rebuilds
  the query from the tokens of the chips that stay. The lemmas show that this loses nothing.
\<close>

section \<open>Chips\<close>

record chip_view =
  ch_token :: string
  ch_key :: string
  ch_value :: string
  ch_negated :: bool
  ch_is_header :: bool
  ch_is_freeform :: bool

definition chipDisplayValue :: "qterm \<Rightarrow> string" where
  "chipDisplayValue t =
     (case t_status_filter t of
        Some sf \<Rightarrow> if sf_exact sf \<noteq> 0 then Itoa (sf_exact sf) else sf_class sf
      | None \<Rightarrow>
          if t_quoted t
          then [CHR 0x22] @ replace_all [CHR 0x22] [CHR 0x5C, CHR 0x22] (t_value t) @ [CHR 0x22]
          else (case t_wildcard t of
                  WildcardPrefix \<Rightarrow> t_value t @ ''*''
                | WildcardSubstring \<Rightarrow> ''*'' @ t_value t @ ''*''
                | WildcardNone \<Rightarrow> t_value t))"

definition chip_of :: "qterm \<Rightarrow> chip_view" where
  "chip_of t =
     (let value = chipDisplayValue t;
          key = (if t_field t = FieldHeader then ''header.'' @ t_header_name t else field_string (t_field t));
          freeform = (t_field t = Freeform);
          token0 = (if freeform then value else key @ '':'' @ value);
          token = (if t_negated t then ''-'' @ token0 else token0)
      in \<lparr>ch_token = token, ch_key = key, ch_value = value, ch_negated = t_negated t,
          ch_is_header = (t_field t = FieldHeaders \<or> t_field t = FieldHeader),
          ch_is_freeform = freeform\<rparr>)"

definition chipsFromQuery :: "query \<Rightarrow> chip_view list" where
  "chipsFromQuery q = map chip_of q"

section \<open>Printing and parsing a value\<close>

definition print_value :: "string \<Rightarrow> wildcard \<Rightarrow> bool \<Rightarrow> string" where
  "print_value v w quoted =
     (if quoted then [CHR 0x22] @ replace_all [CHR 0x22] [CHR 0x5C, CHR 0x22] v @ [CHR 0x22]
      else (case w of WildcardPrefix \<Rightarrow> v @ ''*'' | WildcardSubstring \<Rightarrow> ''*'' @ v @ ''*'' | WildcardNone \<Rightarrow> v))"

lemma chipDisplayValue_print:
  "t_status_filter t = None \<Longrightarrow> chipDisplayValue t = print_value (t_value t) (t_wildcard t) (t_quoted t)"
  by (simp add: chipDisplayValue_def print_value_def)

lemma parseValue_print:
  assumes "parseValue s = Inr (v, w, q)"
  shows "parseValue (print_value v w q) = Inr (v, w, q)"
  using assms
proof (cases rule: parseValue_cases)
  case (quoted i)
  then show ?thesis
    by (simp add: print_value_def parseValue_def has_prefix_char has_suffix_char unescape_escape)
next
  case plain
  then show ?thesis using assms by (simp add: print_value_def)
next
  case prefix
  then show ?thesis using assms by (simp add: print_value_def)
next
  case substring
  then show ?thesis
    by (simp add: print_value_def parseValue_def has_prefix_char has_suffix_char Let_def)
qed

lemma print_closes:
  assumes "parseValue s = Inr (v, w, q)" and "closes s"
  shows "closes (print_value v w q)"
  using assms(1)
proof (cases rule: parseValue_cases)
  case (quoted i)
  have "v = [] \<or> last v \<noteq> CHR 0x5C"
  proof (rule ccontr)
    assume "\<not> ?thesis"
    with quoted(4) have "i \<noteq> [] \<and> last i = CHR 0x5C" using unescape_last [of i] by auto
    then obtain i' where "i = i' @ [CHR 0x5C]" by (cases i rule: rev_cases) auto
    with quoted(3) assms(2) scan_ends_open [of False "CHR 0x22 # i'" s False] show False by simp
  qed
  from escape_closes [OF this] show ?thesis using quoted(1) by (simp add: print_value_def)
next
  case substring
  have "closes (s @ ''*'')" by (rule scan_append [OF assms(2)]) (simp add: isASCIISpace_def)
  with substring assms(2) show ?thesis by (auto simp: print_value_def simp del: scan.simps)
qed (use assms(2) in \<open>simp_all add: print_value_def\<close>)

section \<open>The round trip\<close>

definition normal_term :: "qterm \<Rightarrow> qterm" where
  "normal_term t = (if t_field t = FieldStatus then t\<lparr>t_value := chipDisplayValue t, t_quoted := False\<rparr> else t)"

lemma ch_token_of:
  "ch_token (chip_of t) = (if t_negated t then ''-'' else []) @
     (if t_field t = Freeform then [] else (if t_field t = FieldHeader then ''header.'' @ t_header_name t
        else field_string (t_field t)) @ '':'') @ chipDisplayValue t"
  by (simp add: chip_of_def Let_def)

lemma parseToken_keyed:
  assumes "key \<noteq> []" "hd key \<noteq> CHR 0x22" "hd key \<noteq> CHR ''-''" "CHR '':'' \<notin> set key"
  shows "parseToken ul uu ((if neg then ''-'' else []) @ key @ '':'' @ vr) =
    parseKeyed ul uu ((if neg then ''-'' else []) @ key @ '':'' @ vr) key vr neg"
proof -
  have "\<not> has_prefix (key @ '':'' @ vr) [CHR 0x22]" "\<not> has_prefix (key @ '':'' @ vr) ''-''"
    using assms by (simp_all add: has_prefix_char)
  moreover have "index_byte (key @ '':'' @ vr) (CHR '':'') = Some (length key)"
    using index_byte_append [OF assms(4), of vr] by simp
  moreover have "has_prefix (CHR ''-'' # x) ''-''" for x by (simp add: has_prefix_char)
  ultimately show ?thesis using assms(1) by (cases neg) (simp_all add: parseToken_def Let_def)
qed

lemma finishTerm_raw: "finishTerm ul uu raw t0 = Inr t \<Longrightarrow> finishTerm ul uu raw' t0 = Inr t"
  by (erule finishTerm_cases) (auto simp: finishTerm_def Let_def split: field.splits)

lemma field_string_table:
  "list_all (\<lambda>f. let s = field_string f in is_ascii s \<and> map ascii_lower s = s \<and> known_field s = Some f \<and> s \<noteq> [] \<and>
     hd s \<noteq> CHR 0x22 \<and> hd s \<noteq> CHR ''-'' \<and> CHR '':'' \<notin> set s \<and>
     list_all (\<lambda>c. c \<noteq> CHR 0x22 \<and> \<not> isASCIISpace c) s) knownFields"
  by code_simp

lemma field_string_lower:
  "f \<in> set knownFields \<Longrightarrow> known_field (ToLower ul (field_string f)) = Some f \<and> field_string f \<noteq> [] \<and>
     hd (field_string f) \<noteq> CHR 0x22 \<and> hd (field_string f) \<noteq> CHR ''-'' \<and> CHR '':'' \<notin> set (field_string f) \<and>
     list_all plain_char (field_string f)"
  using field_string_table unfolding list_all_iff Let_def plain_char_def ToLower_def by simp

lemma parseValue_plain:
  assumes "v \<noteq> []" "CHR ''*'' \<notin> set v" "hd v \<noteq> CHR 0x22"
  shows "parseValue v = Inr (v, WildcardNone, False)"
proof -
  have "hd v \<noteq> CHR ''*''" "last v \<noteq> CHR ''*''" using assms(1,2) hd_in_set last_in_set by metis+
  then have "\<not> has_prefix v [CHR 0x22]" "\<not> has_prefix v ''*''" "\<not> has_suffix v ''*''"
    using assms(3) by (auto simp: has_prefix_char has_suffix_char)
  with assms show ?thesis by (simp add: parseValue_def)
qed

lemma method_table:
  "list_all (\<lambda>m. is_ascii m \<and> map ascii_upper m = m \<and> m \<noteq> [] \<and> hd m \<noteq> CHR 0x22 \<and> CHR ''*'' \<notin> set m \<and> last m \<noteq> CHR 0x5C \<and>
     list_all (\<lambda>c. c \<noteq> CHR 0x22 \<and> \<not> isASCIISpace c) m) canonicalHTTPMethods"
  by code_simp

lemma canonical_method:
  assumes "m \<in> set canonicalHTTPMethods"
  shows "ToUpper uu m = m" "m \<noteq> []" "list_all plain_char m" "parseValue m = Inr (m, WildcardNone, False)" "last m \<noteq> CHR 0x5C"
  using assms method_table parseValue_plain [of m] unfolding list_all_iff plain_char_def ToUpper_def by simp_all

lemma method_display:
  assumes "m \<in> set canonicalHTTPMethods"
  shows "parseValue (print_value m WildcardNone q) = Inr (m, WildcardNone, q)"
    "closes (print_value m WildcardNone q)"
proof -
  show "parseValue (print_value m WildcardNone q) = Inr (m, WildcardNone, q)"
    by (cases q) (simp_all add: print_value_def canonical_method(4) [OF assms], simp add: parseValue_def has_prefix_char has_suffix_char unescape_escape)
  have "closes m" using canonical_method(3) [OF assms] scan_plain [of m "[]"] by simp
  then show "closes (print_value m WildcardNone q)"
    using escape_closes [of m] canonical_method(5) [OF assms] by (simp add: print_value_def)
qed

lemma status_display:
  assumes "wf_filter sf"
  defines "d \<equiv> (if sf_exact sf \<noteq> 0 then Itoa (sf_exact sf) else sf_class sf)"
  shows "parseStatusValue d = Some sf" "parseValue d = Inr (d, WildcardNone, False)" "list_all plain_char d"
proof -
  consider (exact) "sf_class sf = []" "100 \<le> sf_exact sf" "sf_exact sf \<le> 599"
    | (cls) c where "sf_exact sf = 0" "sf_class sf = [c, CHR ''x'', CHR ''x'']"
        "fst (ClassRange sf) \<in> {100, 200, 300, 400, 500}"
    using assms(1) by (cases "sf_class sf") (auto simp: wf_filter_def)
  then have "parseStatusValue d = Some sf \<and> list_all plain_char d \<and> d \<noteq> [] \<and> CHR ''*'' \<notin> set d \<and> hd d \<noteq> CHR 0x22"
  proof cases
    case exact
    then have d: "d = nat_digits (nat (sf_exact sf))" by (simp add: d_def Itoa_def)
    then have dig: "\<And>c. c \<in> set d \<Longrightarrow> 48 \<le> (of_char c :: nat) \<and> (of_char c :: nat) \<le> 57"
      using nat_digits_chars by simp
    then have sep: "\<And>c. c \<in> set d \<Longrightarrow> c \<notin> {CHR ''x'', CHR ''*'', CHR 0x22} \<and> plain_char c"
      by (fastforce simp: plain_char_def isASCIISpace_def)
    then have nx: "\<not> (length d = 3 \<and> d ! 1 = CHR ''x'' \<and> d ! 2 = CHR ''x'' \<and> X)" for X
      by (metis insertI1 nth_mem one_less_numeral_iff semiring_norm(77))
    have "ParseInt d = Some (sf_exact sf)"
      using exact ParseInt_Itoa [of "sf_exact sf"] by (simp add: d_def in_int64_def)
    then have "parseStatusValue d = Some sf" using exact unfolding parseStatusValue_def if_not_P [OF nx] by simp
    moreover have "d \<noteq> []" "hd d \<in> set d" using d by simp_all
    ultimately show ?thesis using sep by (auto simp: list_all_iff)
  next
    case (cls c)
    have "(of_char c :: nat) - 48 \<in> {1, 2, 3, 4, 5}"
      using cls(3) by (auto simp: ClassRange_def cls(2) Let_def)
    then have n: "49 \<le> (of_char c :: nat) \<and> (of_char c :: nat) \<le> 53" by auto
    then have "c \<noteq> CHR ''*''" "plain_char c" by (auto simp: plain_char_def isASCIISpace_def)
    moreover have "plain_char (CHR ''x'')" by (simp add: plain_char_def isASCIISpace_def)
    moreover have "parseStatusValue d = Some sf"
      using cls(1,2) n by (simp add: d_def parseStatusValue_def)
    ultimately show ?thesis using cls by (auto simp: d_def plain_char_def)
  qed
  then show "parseStatusValue d = Some sf" "parseValue d = Inr (d, WildcardNone, False)" "list_all plain_char d"
    by (simp_all add: parseValue_plain)
qed


definition lower_laws :: "unicode_map \<Rightarrow> bool" where
  "lower_laws ul \<longleftrightarrow>
     (\<forall>s. has_prefix (ul s) ''header.'' \<longleftrightarrow> has_prefix (map ascii_lower s) ''header.'') \<and>
     (\<forall>s. CHR 0x22 \<in> set (ul s) \<longleftrightarrow> CHR 0x22 \<in> set s)"

lemma ToLower_header: "lower_laws ul \<Longrightarrow> has_prefix (ToLower ul s) ''header.'' \<longleftrightarrow> has_prefix (map ascii_lower s) ''header.''"
  by (simp add: ToLower_def lower_laws_def)

lemma ToLower_quote: "lower_laws ul \<Longrightarrow> CHR 0x22 \<in> set (ToLower ul s) \<longleftrightarrow> CHR 0x22 \<in> set s"
proof -
  have "CHR 0x22 \<in> set (map ascii_lower s) \<longleftrightarrow> CHR 0x22 \<in> set s"
    by (induction s) (simp_all add: ascii_case_nonletter)
  then show "lower_laws ul \<Longrightarrow> ?thesis" by (simp add: ToLower_def lower_laws_def)
qed

lemma known_field_header: "has_prefix k ''header.'' \<Longrightarrow> known_field k = None"
proof (rule ccontr)
  assume k: "has_prefix k ''header.''" and "known_field k \<noteq> None"
  then obtain f where "f \<in> set knownFields" "field_string f = k" using known_field_Some by fast
  moreover have "list_all (\<lambda>f. \<not> has_prefix (field_string f) ''header.'') knownFields" by code_simp
  ultimately show False using k by (auto simp: list_all_iff)
qed

lemma Canonical_plain:
  "list_all plain_char n \<Longrightarrow> list_all plain_char (CanonicalMIMEHeaderKey n)"
proof -
  have v: "valid_header_byte c \<Longrightarrow> plain_char c" for c
    by (auto simp: plain_char_def isASCIISpace_def valid_header_byte_def Let_def)
  show "list_all plain_char n \<Longrightarrow> ?thesis"
    using canon_walk_valid [of n True] v by (auto simp: CanonicalMIMEHeaderKey_def list_all_iff)
qed

lemma header_prefix_plain: "has_prefix (map ascii_lower s) ''header.'' \<Longrightarrow> CHR 0x22 \<notin> set (take 7 s)"
proof -
  assume "has_prefix (map ascii_lower s) ''header.''"
  then have "map ascii_lower (take 7 s) = ''header.''" by (auto simp: has_prefix_def prefix_def take_map [symmetric])
  moreover have "CHR 0x22 \<notin> set ''header.''" by simp
  ultimately have "CHR 0x22 \<notin> set (map ascii_lower (take 7 s))" by metis
  then show ?thesis by (induction "take 7 s") (auto simp: ascii_case_nonletter)
qed


lemma closed_token_plain:
  assumes "list_all plain_char p" "closes s" "p @ s \<noteq> []" "p = [] \<longrightarrow> \<not> isASCIISpace (hd s)"
  shows "closed_token (p @ s)"
  using assms scan_plain [OF assms(1), of s] unfolding closed_token_def
  by (cases p) (auto simp: plain_char_def simp del: scan.simps)

lemma closes_value:
  assumes "closes (p @ vr)" "list_all plain_char p" shows "closes vr"
  using assms scan_plain by blast

lemma print_value_hd:
  assumes "parseValue s = Inr (v, w, q)" shows "print_value v w q \<noteq> []" "hd (print_value v w q) = hd s"
  using assms by (auto elim!: parseValue_cases simp: print_value_def)

lemma parseValue_ne: "parseValue s = Inr (v, w, q) \<Longrightarrow> s \<noteq> []"
  by (erule parseValue_cases) auto

lemma keyed_roundtrip:
  assumes "f \<in> set knownFields" "parseValue d = Inr (v, w, q)" "f \<in> set structuredFields \<longrightarrow> w = WildcardNone"
    "finishTerm ul uu raw (plain_term f v w q neg []) = Inr t" "closes d"
    and tok: "tok = (if neg then ''-'' else []) @ field_string f @ '':'' @ d"
  shows "parseToken ul uu tok = Inr t" "closed_token tok"
proof -
  note fs = field_string_lower [OF assms(1), of ul]
  have "d \<noteq> []" using assms(2) by (rule parseValue_ne)
  then have "parseKeyed ul uu tok (field_string f) d neg = Inr t"
    using fs assms(2,3) finishTerm_raw [OF assms(4)] by (auto simp: parseKeyed_def)
  then show "parseToken ul uu tok = Inr t"
    using parseToken_keyed [of "field_string f" ul uu neg d] fs tok by simp
  have "list_all plain_char ((if neg then ''-'' else []) @ field_string f @ '':'')"
    using fs by (simp add: plain_char_def isASCIISpace_def)
  from closed_token_plain [OF this assms(5)] show "closed_token tok" by (simp add: tok)
qed

lemma header_roundtrip:
  assumes "lower_laws ul" "n \<noteq> []" "CHR ''*'' \<notin> set n" "CHR '':'' \<notin> set n" "CanonicalMIMEHeaderKey n = n" "list_all plain_char n"
    "parseValue d = Inr (v, w, q)" "closes d"
    and tok: "tok = (if neg then ''-'' else []) @ (''header.'' @ n) @ '':'' @ d"
  shows "parseToken ul uu tok = Inr (plain_term FieldHeader v w q neg n)" "closed_token tok"
proof -
  have "has_prefix (map ascii_lower (''header.'' @ n)) ''header.''" by (simp add: has_prefix_def ascii_lower_def)
  then have hp: "has_prefix (ToLower ul (''header.'' @ n)) ''header.''" using ToLower_header [OF assms(1)] by blast
  have "d \<noteq> []" using assms(7) by (rule parseValue_ne)
  then have "parseKeyed ul uu tok (''header.'' @ n) d neg = Inr (plain_term FieldHeader v w q neg n)"
    using hp known_field_header [OF hp] assms by (simp add: parseKeyed_def parseHeaderTerm_def Let_def)
  then show "parseToken ul uu tok = Inr (plain_term FieldHeader v w q neg n)"
    using parseToken_keyed [of "''header.'' @ n" ul uu neg d] assms(4) tok by simp
  have "list_all plain_char ((if neg then ''-'' else []) @ (''header.'' @ n) @ '':'')"
    using assms(6) by (simp add: plain_char_def isASCIISpace_def)
  from closed_token_plain [OF this assms(8)] show "closed_token tok" by (simp add: tok)
qed

lemma free_roundtrip:
  assumes "parseValue vr = Inr (v, w, q)" "\<not> neg \<longrightarrow> \<not> has_prefix vr ''-''" "has_prefix vr [CHR 0x22] \<or> CHR '':'' \<notin> set vr"
    "closes vr" "\<not> isASCIISpace (hd vr) \<or> neg"
    and tok: "tok = (if neg then ''-'' else []) @ print_value v w q"
  shows "parseToken ul uu tok = Inr (plain_term Freeform v w q neg [])" "closed_token tok"
proof -
  let ?d = "print_value v w q"
  have d: "?d \<noteq> []" "hd ?d = hd vr" and pd: "parseValue ?d = Inr (v, w, q)"
    using print_value_hd [OF assms(1)] parseValue_print [OF assms(1)] by blast+
  have "vr \<noteq> []" using assms(1) by (rule parseValue_ne)
  with assms(2) d have nd: "\<not> neg \<longrightarrow> \<not> has_prefix ?d ''-''" by (simp add: has_prefix_char)
  have "has_prefix ?d [CHR 0x22] \<or> CHR '':'' \<notin> set ?d"
    using assms(1)
  proof (cases rule: parseValue_cases)
    case (quoted i)
    then show ?thesis by (simp add: print_value_def has_prefix_char)
  qed (use assms(3) in \<open>auto simp: print_value_def has_prefix_char\<close>)
  then have ix: "(if has_prefix ?d [CHR 0x22] then None else index_byte ?d (CHR '':'')) = None" by auto
  have neg: "has_prefix tok ''-'' = neg" "(if neg then drop 1 tok else tok) = ?d"
    using nd by (auto simp: tok has_prefix_char)
  show "parseToken ul uu tok = Inr (plain_term Freeform v w q neg [])"
    unfolding parseToken_def neg Let_def ix using d(1) pd by simp
  have "list_all plain_char (if neg then ''-'' else [])" by (simp add: plain_char_def isASCIISpace_def)
  then show "closed_token tok" unfolding tok
  proof (rule closed_token_plain [OF _ print_closes [OF assms(1,4)]])
    show "(if neg then ''-'' else []) @ ?d \<noteq> []" using d(1) by simp
    show "(if neg then ''-'' else []) = [] \<longrightarrow> \<not> isASCIISpace (hd ?d)"
      using d(2) assms(5) by (cases neg) simp_all
  qed
qed


lemma known_roundtrip:
  assumes f: "f \<in> set knownFields" and v: "parseValue vr = Inr (v, w, q)" "f \<in> set structuredFields \<longrightarrow> w = WildcardNone"
    and ft: "finishTerm ul uu raw (plain_term f v w q neg []) = Inr t" and c: "closes vr"
  shows "parseToken ul uu (ch_token (chip_of t)) = Inr (normal_term t) \<and> closed_token (ch_token (chip_of t))"
  using ft
proof (cases rule: finishTerm_cases)
  case verb
  let ?m = "ToUpper uu v"
  have m: "?m \<in> set canonicalHTTPMethods" and f': "f = FieldMethod" using verb by (simp_all add: plain_term_def)
  have w: "w = WildcardNone" using v(2) f' by (simp add: structuredFields_def)
  have "finishTerm ul uu raw (plain_term f ?m WildcardNone q neg []) = Inr t"
    using verb w by (simp add: finishTerm_def plain_term_def f' canonical_method(1) [OF m] Let_def)
  from keyed_roundtrip [OF f method_display(1) [OF m] _ this method_display(2) [OF m] refl]
  show ?thesis using verb w f' by (simp add: ch_token_of normal_term_def plain_term_def chipDisplayValue_print)
next
  case (status sf)
  have f': "f = FieldStatus" using status by (simp add: plain_term_def)
  have wf: "wf_filter sf" using status parseStatusValue_wf by blast
  let ?d = "if sf_exact sf \<noteq> 0 then Itoa (sf_exact sf) else sf_class sf"
  note d = status_display [OF wf]
  have w: "w = WildcardNone" using v(2) f' by (simp add: structuredFields_def)
  have "finishTerm ul uu raw (plain_term f ?d WildcardNone False neg []) = Inr (normal_term t)"
    using status w d(1) by (simp add: finishTerm_def plain_term_def f' normal_term_def chipDisplayValue_def)
  moreover have "closes ?d" using d(3) scan_plain [of ?d "[]"] by simp
  ultimately show ?thesis
    using keyed_roundtrip [OF f d(2) _ _ _ refl, of ul uu raw neg "normal_term t"] status f'
    by (simp add: ch_token_of plain_term_def chipDisplayValue_def)
next
  case (has_events b)
  from keyed_roundtrip [OF f parseValue_print [OF v(1)] v(2) ft print_closes [OF v(1) c] refl]
  show ?thesis using has_events by (simp add: ch_token_of normal_term_def plain_term_def chipDisplayValue_print)
next
  case other
  have "f \<noteq> Freeform \<and> f \<noteq> FieldHeader" using f by (auto simp: knownFields_def)
  with keyed_roundtrip [OF f parseValue_print [OF v(1)] v(2) ft print_closes [OF v(1) c] refl]
  show ?thesis using other by (simp add: ch_token_of normal_term_def plain_term_def chipDisplayValue_print)
qed

lemma token_roundtrip:
  assumes raw: "parseToken ul uu raw = Inr t" "closed_token raw" and ul: "lower_laws ul" and nq: "CHR 0x22 \<notin> set (t_header_name t)"
  shows "parseToken ul uu (ch_token (chip_of t)) = Inr (normal_term t) \<and> closed_token (ch_token (chip_of t))"
  using raw(1)
proof (cases rule: parseToken_cases)
  case (free neg vr v w q)
  have "list_all plain_char (if neg then ''-'' else [])" by (simp add: plain_char_def isASCIISpace_def)
  then have "closes vr" using raw(2) closes_value free(1) unfolding closed_token_def by blast
  moreover have "\<not> isASCIISpace (hd vr) \<or> neg" using raw(2) free(1) by (cases neg) (simp_all add: closed_token_def)
  ultimately show ?thesis using free_roundtrip [OF free(4,2,3) _ _ refl] free
    by (simp add: ch_token_of normal_term_def plain_term_def chipDisplayValue_print)
next
  case (keyed neg key vr)
  have cl: "closes (((if neg then ''-'' else []) @ key @ '':'') @ vr)" using raw(2) keyed(1) by (simp add: closed_token_def)
  have tail: "closes vr \<and> list_all plain_char key" if "CHR 0x22 \<notin> set key"
  proof -
    have "CHR 0x22 \<notin> set ((if neg then ''-'' else []) @ key @ '':'')" using that by simp
    from closes_plain [OF cl this] closes_value [OF cl] show ?thesis by simp
  qed
  from keyed(6) show ?thesis
  proof (cases rule: parseKeyed_cases)
    case (header v w q)
    let ?n = "drop 7 key"
    have "CHR 0x22 \<notin> set ?n" using nq header(7) by (simp add: plain_term_def Canonical_nonletter)
    moreover have "CHR 0x22 \<notin> set (take 7 key)" using header_prefix_plain ToLower_header [OF ul] header(2) by blast
    ultimately have "CHR 0x22 \<notin> set key" by (metis append_take_drop_id set_append Un_iff)
    with tail have c: "closes vr" "list_all plain_char key" by blast+
    then have "list_all plain_char ?n" using in_set_dropD by (fastforce simp: list_all_iff)
    then have p: "list_all plain_char (CanonicalMIMEHeaderKey ?n)" by (rule Canonical_plain)
    have "CHR '':'' \<notin> set ?n" using keyed(5) in_set_dropD by fast
    with header_roundtrip [OF ul _ _ _ Canonical_idem p parseValue_print [OF header(6)] print_closes [OF header(6) c(1)] refl]
    show ?thesis using header
      by (simp add: ch_token_of normal_term_def plain_term_def chipDisplayValue_print Canonical_nonletter)
  next
    case (known f v w q)
    have f: "f \<in> set knownFields" "field_string f = ToLower ul key" using known_field_Some known(1) by blast+
    have "CHR 0x22 \<notin> set (field_string f)"
      using field_string_lower [OF f(1)] by (auto simp: list_all_iff plain_char_def)
    with tail ToLower_quote [OF ul] f(2) have "closes vr" by simp
    from known_roundtrip [OF f(1) known(3-5) this] show ?thesis .
  qed
qed

lemma parse_tokens_roundtrip:
  assumes "parse_tokens ul uu toks = Inr q" "list_all closed_token toks" "lower_laws ul"
    "\<forall>t \<in> set q. CHR 0x22 \<notin> set (t_header_name t)"
  shows "parse_tokens ul uu (map (ch_token \<circ> chip_of) q) = Inr (map normal_term q) \<and>
    list_all closed_token (map (ch_token \<circ> chip_of) q)"
  using assms
proof (induction toks arbitrary: q)
  case (Cons tok toks)
  then obtain t q' where q: "q = t # q'" "parseToken ul uu tok = Inr t" "parse_tokens ul uu toks = Inr q'"
    by (auto split: sum.splits)
  with Cons token_roundtrip [of ul uu tok t] show ?case by simp
qed simp

section \<open>Properties\<close>

text \<open>
  C26. Chips lose nothing: rebuilding the query string from the chips of a parsed query, one
  token per chip separated by spaces, parses again to the same terms, whatever quoting,
  wildcards, negation and spacing the original query used. Only a status term is normalised
  (its value becomes the code or class it denotes). \<open>lower_laws\<close> is what the parser relies on
  of the Unicode lower-casing tables: no code point outside ASCII folds into the letters of
  the \<open>header.\<close> prefix or into a double quote.
\<close>

theorem chips_round_trip:
  assumes "Parse ul uu s = Inr q" and "lower_laws ul"
    and "\<forall>t \<in> set q. CHR 0x22 \<notin> set (t_header_name t)"
  shows "Parse ul uu (join '' '' (map ch_token (chipsFromQuery q))) = Inr (map normal_term q)"
proof -
  obtain toks where toks: "tokenize s = Inr toks" "parse_tokens ul uu toks = Inr q"
    using assms(1) by (auto simp: Parse_def split: sum.splits)
  from parse_tokens_roundtrip [OF toks(2) tokenize_tokens [OF toks(1)] assms(2,3)]
  have r: "parse_tokens ul uu (map (ch_token \<circ> chip_of) q) = Inr (map normal_term q)"
    "list_all closed_token (map (ch_token \<circ> chip_of) q)" by blast+
  have "map ch_token (chipsFromQuery q) = map (ch_token \<circ> chip_of) q" by (simp add: chipsFromQuery_def)
  with r tokenize_join show ?thesis by (simp add: Parse_def)
qed

definition sample_query :: string where
  "sample_query = ''-path:*api  status:+404 header.x-id:'' @ [CHR 0x22] @ ''a b'' @ [CHR 0x22]"

lemma sample_query_parsed:
  "Parse (map ascii_lower) (map ascii_upper) sample_query =
     Inr [plain_term FieldPath ''api'' WildcardSubstring False True [],
          (plain_term FieldStatus ''+404'' WildcardNone False False [])\<lparr>t_status_filter := Some \<lparr>sf_exact = 404, sf_class = []\<rparr>\<rparr>,
          plain_term FieldHeader ''a b'' WildcardNone True False ''X-Id'']"
  by code_simp

lemma lower_laws_ascii: "lower_laws (map ascii_lower)"
proof -
  have "CHR 0x22 \<in> set (map ascii_lower s) \<longleftrightarrow> CHR 0x22 \<in> set s" for s
    by (induction s) (simp_all add: ascii_case_nonletter)
  then show ?thesis by (simp add: lower_laws_def)
qed

theorem chips_round_trip_witness:
  "Parse (map ascii_lower) (map ascii_upper) (''-path:*api* status:404 header.X-Id:'' @ [CHR 0x22] @ ''a b'' @ [CHR 0x22]) =
     Inr [plain_term FieldPath ''api'' WildcardSubstring False True [],
          (plain_term FieldStatus ''404'' WildcardNone False False [])\<lparr>t_status_filter := Some \<lparr>sf_exact = 404, sf_class = []\<rparr>\<rparr>,
          plain_term FieldHeader ''a b'' WildcardNone True False ''X-Id'']"
proof -
  have tokens: "join '' '' (map ch_token (chipsFromQuery
      [plain_term FieldPath ''api'' WildcardSubstring False True [],
       (plain_term FieldStatus ''+404'' WildcardNone False False [])\<lparr>t_status_filter := Some \<lparr>sf_exact = 404, sf_class = []\<rparr>\<rparr>,
       plain_term FieldHeader ''a b'' WildcardNone True False ''X-Id''])) =
      ''-path:*api* status:404 header.X-Id:'' @ [CHR 0x22] @ ''a b'' @ [CHR 0x22]" by code_simp
  have norm: "map normal_term
      [plain_term FieldPath ''api'' WildcardSubstring False True [],
       (plain_term FieldStatus ''+404'' WildcardNone False False [])\<lparr>t_status_filter := Some \<lparr>sf_exact = 404, sf_class = []\<rparr>\<rparr>,
       plain_term FieldHeader ''a b'' WildcardNone True False ''X-Id''] =
      [plain_term FieldPath ''api'' WildcardSubstring False True [],
       (plain_term FieldStatus ''404'' WildcardNone False False [])\<lparr>t_status_filter := Some \<lparr>sf_exact = 404, sf_class = []\<rparr>\<rparr>,
       plain_term FieldHeader ''a b'' WildcardNone True False ''X-Id'']" by code_simp
  show ?thesis
    using chips_round_trip [OF sample_query_parsed lower_laws_ascii] unfolding tokens norm
    by (simp add: plain_term_def)
qed

end
