(* ===== verification/Ui_Views.thy ===== *)
theory Ui_Views
  imports Inspect Chips
begin

text \<open>
  The explorer pages of internal/admin/ui_views.go: the request list with its pagination
  link, and the two detail pages with their view accessors. Templates are not rendered: a
  response carries the page data the template is executed with. \<open>fmt_time\<close> is
  \<open>Time.Format(time.RFC3339Nano)\<close> of a UTC time and \<open>marshal\<close> is \<open>json.Marshal\<close> of a header
  map. An \<open>eventView\<close> wraps any record, so its accessors are functions of a record that return
  the zero value for the variants they do not cover. The constant \<open>Page\<close> fields are the
  constructors of \<open>ui_page\<close>.
\<close>

section \<open>Rows\<close>

definition httpMethods :: "string list" where
  "httpMethods = [''GET'', ''HEAD'', ''POST'', ''PUT'', ''DELETE'', ''CONNECT'', ''OPTIONS'', ''TRACE'', ''PATCH'']"

definition servicesSince :: int where "servicesSince = 24 * 3600 * 1000000000"

definition defaultExplorerWindow :: int where "defaultExplorerWindow = 15 * 60 * 1000000000"

definition httpStatusClass :: "int \<Rightarrow> string" where
  "httpStatusClass code =
     (if code \<ge> 200 \<and> code < 300 then ''2xx'' else if code \<ge> 300 \<and> code < 400 then ''3xx''
      else if code \<ge> 400 \<and> code < 500 then ''4xx'' else if code \<ge> 500 \<and> code < 600 then ''5xx'' else ''other'')"

definition EventCountText :: "root_row \<Rightarrow> string" where
  "EventCountText r = (case rr_event_count r of None \<Rightarrow> [] | Some n \<Rightarrow> Itoa n)"

definition EventCountNonZero :: "root_row \<Rightarrow> bool" where
  "EventCountNonZero r = (case rr_event_count r of None \<Rightarrow> False | Some n \<Rightarrow> n > 0)"

definition StatusText :: "root_row \<Rightarrow> string" where
  "StatusText r = (case rr_status r of None \<Rightarrow> [] | Some n \<Rightarrow> Itoa n)"

definition StatusClassCSS :: "root_row \<Rightarrow> string" where
  "StatusClassCSS r = (case rr_status r of None \<Rightarrow> [] | Some n \<Rightarrow> httpStatusClass n)"

section \<open>The detail views\<close>

definition formatBody :: "string \<Rightarrow> string" where
  "formatBody b = b"

text \<open>The prefix of a size that is a lower bound: U+2265 in UTF-8 and a blank.\<close>

definition size_label :: "bool \<Rightarrow> int \<Rightarrow> string" where
  "size_label truncated n = (if truncated then [CHR 0xE2, CHR 0x89, CHR 0xA5, CHR '' ''] @ Itoa n else Itoa n)"

definition root_HeadersJSON :: "(hmap option \<Rightarrow> string) \<Rightarrow> captured_request \<Rightarrow> string" where
  "root_HeadersJSON marshal v = marshal (cr_headers v)"

definition root_BodyBase64 :: "captured_request \<Rightarrow> string" where
  "root_BodyBase64 v = (if cr_body v = [] then [] else b64_encode (cr_body v))"

definition root_BodyText :: "captured_request \<Rightarrow> string" where
  "root_BodyText v = formatBody (cr_body v)"

definition root_BodyOriginalSizeLabel :: "captured_request \<Rightarrow> string" where
  "root_BodyOriginalSizeLabel v = size_label (cr_body_truncated v) (cr_body_original_size v)"

fun ev_Kind :: "capture_record \<Rightarrow> string" where
  "ev_Kind (Response r) = ''response_event''"
| "ev_Kind (Outbound r) = ''outbound_event''"
| "ev_Kind _ = []"

fun ev_Timestamp :: "capture_record \<Rightarrow> time" where
  "ev_Timestamp (Response r) = re_timestamp r"
| "ev_Timestamp (Outbound r) = oe_timestamp r"
| "ev_Timestamp _ = zero_time"

fun ev_DurationMS :: "capture_record \<Rightarrow> int" where
  "ev_DurationMS (Response r) = re_duration_ms r"
| "ev_DurationMS (Outbound r) = oe_duration_ms r"
| "ev_DurationMS _ = 0"

fun ev_Status :: "capture_record \<Rightarrow> int" where
  "ev_Status (Response r) = re_status r"
| "ev_Status _ = 0"

definition ev_StatusClass :: "capture_record \<Rightarrow> string" where
  "ev_StatusClass ev = httpStatusClass (ev_Status ev)"

fun ev_Headers :: "capture_record \<Rightarrow> hmap option" where
  "ev_Headers (Response r) = re_headers r"
| "ev_Headers _ = None"

fun ev_Body :: "capture_record \<Rightarrow> string" where
  "ev_Body (Response r) = re_body r"
| "ev_Body _ = []"

fun ev_BodyText :: "capture_record \<Rightarrow> string" where
  "ev_BodyText (Response r) = formatBody (re_body r)"
| "ev_BodyText _ = []"

fun ev_ContentType :: "capture_record \<Rightarrow> string" where
  "ev_ContentType (Response r) = re_content_type r"
| "ev_ContentType _ = []"

fun ev_BodyTruncated :: "capture_record \<Rightarrow> bool" where
  "ev_BodyTruncated (Response r) = re_body_truncated r"
| "ev_BodyTruncated _ = False"

fun ev_BodyOriginalSize :: "capture_record \<Rightarrow> int" where
  "ev_BodyOriginalSize (Response r) = re_body_original_size r"
| "ev_BodyOriginalSize _ = 0"

definition ev_BodyOriginalSizeLabel :: "capture_record \<Rightarrow> string" where
  "ev_BodyOriginalSizeLabel ev = size_label (ev_BodyTruncated ev) (ev_BodyOriginalSize ev)"

fun ev_HasOutboundResponse :: "capture_record \<Rightarrow> bool" where
  "ev_HasOutboundResponse (Outbound r) = (oe_response r \<noteq> None)"
| "ev_HasOutboundResponse _ = False"

fun ev_OutboundMethod :: "capture_record \<Rightarrow> string" where
  "ev_OutboundMethod (Outbound r) = oq_method (oe_request r)"
| "ev_OutboundMethod _ = []"

fun ev_OutboundPath :: "capture_record \<Rightarrow> string" where
  "ev_OutboundPath (Outbound r) = oq_path (oe_request r)"
| "ev_OutboundPath _ = []"

fun ev_OutboundRequestHeaders :: "capture_record \<Rightarrow> hmap option" where
  "ev_OutboundRequestHeaders (Outbound r) = oq_headers (oe_request r)"
| "ev_OutboundRequestHeaders _ = None"

fun ev_OutboundRequestBody :: "capture_record \<Rightarrow> string" where
  "ev_OutboundRequestBody (Outbound r) = oq_body (oe_request r)"
| "ev_OutboundRequestBody _ = []"

fun ev_OutboundRequestBodyText :: "capture_record \<Rightarrow> string" where
  "ev_OutboundRequestBodyText (Outbound r) = formatBody (oq_body (oe_request r))"
| "ev_OutboundRequestBodyText _ = []"

fun ev_OutboundRequestContentType :: "capture_record \<Rightarrow> string" where
  "ev_OutboundRequestContentType (Outbound r) = oq_content_type (oe_request r)"
| "ev_OutboundRequestContentType _ = []"

fun ev_OutboundRequestBodyTruncated :: "capture_record \<Rightarrow> bool" where
  "ev_OutboundRequestBodyTruncated (Outbound r) = oq_body_truncated (oe_request r)"
| "ev_OutboundRequestBodyTruncated _ = False"

fun ev_OutboundRequestBodyOriginalSize :: "capture_record \<Rightarrow> int" where
  "ev_OutboundRequestBodyOriginalSize (Outbound r) = oq_body_original_size (oe_request r)"
| "ev_OutboundRequestBodyOriginalSize _ = 0"

definition ev_OutboundRequestBodyOriginalSizeLabel :: "capture_record \<Rightarrow> string" where
  "ev_OutboundRequestBodyOriginalSizeLabel ev =
     size_label (ev_OutboundRequestBodyTruncated ev) (ev_OutboundRequestBodyOriginalSize ev)"

text \<open>The response half of an outbound event, absent for other records and for a nil response.\<close>

fun outbound_response :: "capture_record \<Rightarrow> outbound_response_half option" where
  "outbound_response (Outbound r) = oe_response r"
| "outbound_response _ = None"

definition ev_OutboundStatus :: "capture_record \<Rightarrow> int" where
  "ev_OutboundStatus ev = (case outbound_response ev of Some h \<Rightarrow> or_status h | None \<Rightarrow> 0)"

definition ev_OutboundStatusClass :: "capture_record \<Rightarrow> string" where
  "ev_OutboundStatusClass ev = httpStatusClass (ev_OutboundStatus ev)"

definition ev_OutboundResponseHeaders :: "capture_record \<Rightarrow> hmap option" where
  "ev_OutboundResponseHeaders ev = (case outbound_response ev of Some h \<Rightarrow> or_headers h | None \<Rightarrow> None)"

definition ev_OutboundResponseBody :: "capture_record \<Rightarrow> string" where
  "ev_OutboundResponseBody ev = (case outbound_response ev of Some h \<Rightarrow> or_body h | None \<Rightarrow> [])"

definition ev_OutboundResponseBodyText :: "capture_record \<Rightarrow> string" where
  "ev_OutboundResponseBodyText ev = (case outbound_response ev of Some h \<Rightarrow> formatBody (or_body h) | None \<Rightarrow> [])"

definition ev_OutboundResponseContentType :: "capture_record \<Rightarrow> string" where
  "ev_OutboundResponseContentType ev = (case outbound_response ev of Some h \<Rightarrow> or_content_type h | None \<Rightarrow> [])"

definition ev_OutboundResponseBodyTruncated :: "capture_record \<Rightarrow> bool" where
  "ev_OutboundResponseBodyTruncated ev = (case outbound_response ev of Some h \<Rightarrow> or_body_truncated h | None \<Rightarrow> False)"

definition ev_OutboundResponseBodyOriginalSize :: "capture_record \<Rightarrow> int" where
  "ev_OutboundResponseBodyOriginalSize ev = (case outbound_response ev of Some h \<Rightarrow> or_body_original_size h | None \<Rightarrow> 0)"

definition ev_OutboundResponseBodyOriginalSizeLabel :: "capture_record \<Rightarrow> string" where
  "ev_OutboundResponseBodyOriginalSizeLabel ev =
     size_label (ev_OutboundResponseBodyTruncated ev) (ev_OutboundResponseBodyOriginalSize ev)"

fun ev_Service :: "capture_record \<Rightarrow> string" where
  "ev_Service (Response r) = re_service r"
| "ev_Service (Outbound r) = oe_service r"
| "ev_Service _ = []"

fun ev_ServiceSource :: "capture_record \<Rightarrow> string" where
  "ev_ServiceSource (Response r) = re_service_source r"
| "ev_ServiceSource (Outbound r) = oe_service_source r"
| "ev_ServiceSource _ = []"

fun ev_CorrelationID :: "capture_record \<Rightarrow> string" where
  "ev_CorrelationID (Response r) = re_correlation_id r"
| "ev_CorrelationID (Outbound r) = oe_correlation_id r"
| "ev_CorrelationID _ = []"

fun ev_CorrelationSource :: "capture_record \<Rightarrow> string" where
  "ev_CorrelationSource (Response r) = re_correlation_source r"
| "ev_CorrelationSource (Outbound r) = oe_correlation_source r"
| "ev_CorrelationSource _ = []"

fun IsResponseEvent :: "capture_record \<Rightarrow> bool" where
  "IsResponseEvent (Response r) = True"
| "IsResponseEvent _ = False"

fun IsOutboundEvent :: "capture_record \<Rightarrow> bool" where
  "IsOutboundEvent (Outbound r) = True"
| "IsOutboundEvent _ = False"

section \<open>Pages\<close>

record list_query_view =
  lq_q :: string
  lq_since_raw :: string
  lq_until_raw :: string
  lq_chips :: "chip_view list"

datatype list_error = FieldErrorText field_error | NarrowingRequired

record list_page_data =
  lp_error :: "list_error option"
  lp_services :: "string list"
  lp_methods :: "string list"
  lp_query :: list_query_view
  lp_rows :: "root_row list"
  lp_unindexed_scan :: bool
  lp_next_url :: string

record detail_page_data =
  dp_not_found :: bool
  dp_id :: string
  dp_root :: "captured_request option"
  dp_events :: "capture_record list"

record event_detail_page_data =
  ep_root :: capture_record
  ep_events :: "capture_record list"
  ep_has_request_sibling :: bool

definition FirstResponse :: "detail_page_data \<Rightarrow> capture_record option" where
  "FirstResponse d = find IsResponseEvent (dp_events d)"

datatype ui_page =
    ListPage list_page_data
  | DetailPage detail_page_data
  | EventDetailPage event_detail_page_data
  | ReadErrorText read_error

record ui_response =
  ui_status :: int
  ui_headers :: hmap
  ui_page :: ui_page

definition html_type :: string where "html_type = ''text/html; charset=utf-8''"

text \<open>\<open>http.Error\<close>.\<close>

definition error_headers :: "hmap \<Rightarrow> hmap" where
  "error_headers hs =
     header_set (header_set hs ''Content-Type'' ''text/plain; charset=utf-8'') ''X-Content-Type-Options'' ''nosniff''"

section \<open>The request list\<close>

definition serviceAggregateReader :: "read_sources \<Rightarrow> inspect_reader option" where
  "serviceAggregateReader rs = (if src_sqlite rs \<noteq> None then src_sqlite rs else src_memory rs)"

definition renderList :: "list_page_data \<Rightarrow> int \<Rightarrow> ui_response" where
  "renderList d code =
     \<lparr>ui_status = code,
      ui_headers = header_set (header_set [] ''Content-Type'' html_type) ''Cache-Control'' ''no-store'',
      ui_page = ListPage d\<rparr>"

definition overrideQueryParam :: "hmap \<Rightarrow> string \<Rightarrow> string \<Rightarrow> string" where
  "overrideQueryParam existing key val =
     values_encode (hm_update key [val] (filter (\<lambda>(k, vs). k \<noteq> key) existing))"

definition default_window :: "(time \<Rightarrow> string) \<Rightarrow> time \<Rightarrow> hmap \<Rightarrow> hmap" where
  "default_window fmt_time now vals =
     (if values_get vals ''since'' = [] \<and> values_get vals ''until'' = [] \<and> values_get vals ''cursor'' = []
      then hm_update ''until'' [fmt_time now]
             (hm_update ''since'' [fmt_time (now - defaultExplorerWindow)] vals)
      else vals)"

definition services_dropdown :: "read_sources \<Rightarrow> time \<Rightarrow> string list" where
  "services_dropdown rs now =
     (case serviceAggregateReader rs of
        None \<Rightarrow> []
      | Some rd \<Rightarrow> (case ir_services_seen rd (now - servicesSince) of Inl _ \<Rightarrow> [] | Inr svcs \<Rightarrow> svcs))"

text \<open>The clock is read twice: \<open>clk\<close> for the dropdown, \<open>now\<close> for the default window.\<close>

definition requestListHandler ::
  "unicode_map \<Rightarrow> unicode_map \<Rightarrow> (string \<Rightarrow> time option) \<Rightarrow> (time \<Rightarrow> string) \<Rightarrow> read_sources \<Rightarrow> time \<Rightarrow> time \<Rightarrow> hmap \<Rightarrow> ui_response" where
  "requestListHandler ul uu pt fmt_time rs clk now vals0 =
     (let vals = default_window fmt_time now vals0;
          data = \<lparr>lp_error = None, lp_services = services_dropdown rs clk, lp_methods = httpMethods,
            lp_query = \<lparr>lq_q = values_get vals ''q'', lq_since_raw = values_get vals ''since'',
              lq_until_raw = values_get vals ''until'', lq_chips = []\<rparr>,
            lp_rows = [], lp_unindexed_scan = False, lp_next_url = []\<rparr>
      in case parseInspectQuery ul uu pt vals of (q, fieldErrs) \<Rightarrow>
        if fieldErrs \<noteq> [] then renderList (data\<lparr>lp_error := Some (FieldErrorText (hd fieldErrs))\<rparr>) 200
        else (let data1 = data\<lparr>lp_query := (lp_query data)\<lparr>lq_chips := chipsFromQuery (iq_query q)\<rparr>,
                lp_unindexed_scan := IsUnindexedScan (iq_query q)\<rparr> in
          if IsUnindexedScan (iq_query q) \<and> \<not> requiresNarrowing q
          then renderList (data1\<lparr>lp_error := Some NarrowingRequired\<rparr>) 400
          else (case gatherRoots q (src_memory rs) (src_sqlite rs) of
                  Inl e \<Rightarrow> \<lparr>ui_status = 500, ui_headers = error_headers [], ui_page = ReadErrorText e\<rparr>
                | Inr (rows, nextCur, _) \<Rightarrow>
                    renderList (data1\<lparr>lp_rows := rows,
                      lp_next_url := (case nextCur of None \<Rightarrow> []
                        | Some c \<Rightarrow> ''/ui/requests?'' @ overrideQueryParam vals ''cursor'' (Encode c))\<rparr>) 200)))"

section \<open>The detail page\<close>

definition renderDetailNotFound :: "hmap \<Rightarrow> string \<Rightarrow> ui_response" where
  "renderDetailNotFound hs ident =
     \<lparr>ui_status = 404, ui_headers = hs,
      ui_page = DetailPage \<lparr>dp_not_found = True, dp_id = ident, dp_root = None, dp_events = []\<rparr>\<rparr>"

definition requestDetailUIHandler :: "read_sources \<Rightarrow> string \<Rightarrow> ui_response" where
  "requestDetailUIHandler rs ident =
     (let hs = header_set (header_set [] ''Content-Type'' html_type) ''Cache-Control'' ''no-store'' in
      if src_memory rs = None \<and> src_sqlite rs = None then renderDetailNotFound hs ident
      else (case gatherDetail ident (src_memory rs) (src_sqlite rs) of
              Inl ErrNotFound \<Rightarrow> renderDetailNotFound hs ident
            | Inl e \<Rightarrow> \<lparr>ui_status = 500, ui_headers = error_headers hs, ui_page = ReadErrorText e\<rparr>
            | Inr detail \<Rightarrow>
                \<lparr>ui_status = 200, ui_headers = hs,
                 ui_page = (case dr_root detail of
                     Request root \<Rightarrow>
                       DetailPage \<lparr>dp_not_found = False, dp_id = [], dp_root = Some root, dp_events = dr_events detail\<rparr>
                   | root \<Rightarrow>
                       EventDetailPage \<lparr>ep_root = root,
                         ep_events = filter (\<lambda>e. \<not> is_request e) (dr_events detail),
                         ep_has_request_sibling = list_ex is_request (dr_events detail)\<rparr>)\<rparr>))"


section \<open>Facts about the pagination link\<close>

lemma values_get_cong: "values_of vs k = values_of vs' k \<Longrightarrow> values_get vs k = values_get vs' k"
  by (simp add: values_get_of)

lemma parseInspectQuery_known:
  "snd (parseInspectQuery ul uu pt vs) = [] \<Longrightarrow> fst ` set vs \<subseteq> set knownQueryKeys"
  by (auto simp: parseInspectQuery_def Let_def filter_empty_conv split: if_splits)

lemma cursor_known: "''cursor'' \<in> set knownQueryKeys"
  by (simp add: knownQueryKeys_def)

lemma Encode_ne: "Encode c \<noteq> []"
proof -
  have "b64_encode s = [] \<Longrightarrow> s = []" for s by (cases s rule: b64_encode.cases) (simp_all add: Let_def)
  then show ?thesis unfolding Encode_def by blast
qed

lemma values_of_filter_ne: "k \<noteq> key \<Longrightarrow> values_of (filter (\<lambda>(k, vs). k \<noteq> key) vs) k = values_of vs k"
  by (induction vs) (auto simp: values_of_def)

lemma distinct_default_window: "distinct (map fst vs) \<Longrightarrow> distinct (map fst (default_window fmt_time now vs))"
  by (simp add: default_window_def distinct_hm_update)

text \<open>What decoding the query part of the link gives: the same parameters with the new cursor.\<close>

lemma override_round_trip:
  assumes "distinct (map fst vals)" "values_count vals < max_query_params"
  shows "values_of (ParseQuery (overrideQueryParam vals key v)) k = (if k = key then [v] else values_of vals k)"
    "fst ` set (ParseQuery (overrideQueryParam vals key v)) \<subseteq> insert key (fst ` set vals)"
proof -
  let ?out = "hm_update key [v] (filter (\<lambda>(k, vs). k \<noteq> key) vals)"
  have d: "distinct (map fst ?out)"
    by (intro distinct_hm_update distinct_map_filter assms(1))
  have "length (query_pairs ?out) \<le> max_query_params"
    using values_count_update [of key v "filter (\<lambda>(k, vs). k \<noteq> key) vals"]
      values_count_filter [of "\<lambda>(k, vs). k \<noteq> key" vals] assms(2)
    unfolding length_query_pairs [OF d] by linarith
  note e = ParseQuery_encode [OF d this]
  show "values_of (ParseQuery (overrideQueryParam vals key v)) k = (if k = key then [v] else values_of vals k)"
    unfolding overrideQueryParam_def e(1) by (simp add: values_of_filter_ne)
  have "fst ` set ?out \<subseteq> insert key (fst ` set vals)"
    using keys_hm_update [of key "[v]" "filter (\<lambda>(k, vs). k \<noteq> key) vals"] by auto
  with e(2) show "fst ` set (ParseQuery (overrideQueryParam vals key v)) \<subseteq> insert key (fst ` set vals)"
    unfolding overrideQueryParam_def by blast
qed

text \<open>The parser reads the parameters through \<open>Get\<close>, so only the cursor of the query changes.\<close>

abbreviation with_cursor :: "cursor \<Rightarrow> inspect_query \<times> field_error list \<Rightarrow> inspect_query \<times> field_error list" where
  "with_cursor c \<equiv> apfst (\<lambda>q. q\<lparr>iq_cursor := Some c\<rparr>)"

lemma parse_stage_cursor:
  "parse_since pt vs (with_cursor c st) = with_cursor c (parse_since pt vs st)"
  "parse_until pt vs (with_cursor c st) = with_cursor c (parse_until pt vs st)"
  "parse_q ul uu vs (with_cursor c st) = with_cursor c (parse_q ul uu vs st)"
  by (cases st; simp add: parse_since_def parse_until_def parse_q_def Let_def split: option.split sum.split)+

lemma parse_stage_errors:
  "snd (parse_since pt vs st) = [] \<Longrightarrow> snd st = []" "snd (parse_until pt vs st) = [] \<Longrightarrow> snd st = []"
  "snd (parse_q ul uu vs st) = [] \<Longrightarrow> snd st = []" "snd (parse_cursor vs st) = [] \<Longrightarrow> snd st = []"
  by (cases st; simp add: parse_since_def parse_until_def parse_q_def parse_cursor_def Let_def split: option.splits sum.splits if_splits)+

lemma parse_stage_get:
  "values_get vs' ''limit'' = values_get vs ''limit'' \<Longrightarrow> parse_limit vs' st = parse_limit vs st"
  "values_get vs' ''since'' = values_get vs ''since'' \<Longrightarrow> parse_since pt vs' st = parse_since pt vs st"
  "values_get vs' ''until'' = values_get vs ''until'' \<Longrightarrow> parse_until pt vs' st = parse_until pt vs st"
  "values_get vs' ''q'' = values_get vs ''q'' \<Longrightarrow> parse_q ul uu vs' st = parse_q ul uu vs st"
  by (simp_all add: parse_limit_def parse_since_def parse_until_def parse_q_def)

lemma parse_cursor_replaced:
  assumes "values_get vs' ''cursor'' = Encode c" "DecodeCursor (Encode c) = Inr c" "snd (parse_cursor vs st) = []"
  shows "parse_cursor vs' st = with_cursor c (parse_cursor vs st)"
  using assms by (cases st) (auto simp: parse_cursor_def Encode_ne Let_def split: if_splits sum.splits)

lemma parse_with_cursor:
  assumes "parseInspectQuery ul uu pt vals = (q, [])"
    and "\<And>k. values_of vals' k = (if k = ''cursor'' then [Encode c] else values_of vals k)"
    and "fst ` set vals' \<subseteq> insert ''cursor'' (fst ` set vals)"
    and "cu_id c \<noteq> []" and "in_int64 (cu_timestamp c)"
  shows "parseInspectQuery ul uu pt vals' = (q\<lparr>iq_cursor := Some c\<rparr>, [])"
proof -
  have get: "k \<noteq> ''cursor'' \<Longrightarrow> values_get vals' k = values_get vals k" for k
    by (rule values_get_cong) (simp add: assms(2))
  have cur: "values_get vals' ''cursor'' = Encode c" by (simp add: values_get_of assms(2))
  have known: "fst ` set vals \<subseteq> set knownQueryKeys"
    using parseInspectQuery_known assms(1) by (metis snd_conv)
  then have known': "fst ` set vals' \<subseteq> set knownQueryKeys"
    by (intro subset_trans [OF assms(3)]) (simp add: cursor_known)
  have none: "fst ` set vs \<subseteq> set knownQueryKeys \<Longrightarrow> filter (\<lambda>k. k \<notin> set knownQueryKeys) (map fst vs) = []" for vs :: hmap
    by (auto simp: filter_empty_conv)
  have dec: "DecodeCursor (Encode c) = Inr c"
    using assms(4,5) by (simp add: cursor_round_trip UnixNano_id)
  let ?rest = "\<lambda>st. parse_q ul uu vals (parse_until pt vals (parse_since pt vals st))"
  let ?st = "parse_limit vals (empty_query\<lparr>iq_limit := defaultLimit\<rparr>, [])"
  have q: "?rest (parse_cursor vals ?st) = (q, [])"
    using assms(1) by (simp add: parseInspectQuery_def none [OF known])
  then have "snd (?rest (parse_cursor vals ?st)) = []" by (rule ssubst) (rule snd_conv)
  then have "snd (parse_cursor vals ?st) = []"
    by (rule parse_stage_errors(1) [OF parse_stage_errors(2) [OF parse_stage_errors(3)]])
  note c = parse_cursor_replaced [OF cur dec this]
  have "parseInspectQuery ul uu pt vals' = ?rest (parse_cursor vals' ?st)"
    by (simp add: parseInspectQuery_def none [OF known'] get parse_stage_get [where vs' = vals' and vs = vals])
  also have "\<dots> = with_cursor c (?rest (parse_cursor vals ?st))" unfolding c parse_stage_cursor ..
  finally show ?thesis unfolding q by simp
qed

text \<open>A page requested with a cursor keeps its parameters: no default window is added.\<close>

lemma default_window_cursor: "values_get vals ''cursor'' \<noteq> [] \<Longrightarrow> default_window fmt_time now vals = vals"
  by (simp add: default_window_def)

text \<open>The page of a query that parses, passes the narrowing check and is answered.\<close>

definition filled_page :: "read_sources \<Rightarrow> time \<Rightarrow> hmap \<Rightarrow> inspect_query \<Rightarrow> root_row list \<Rightarrow> cursor option \<Rightarrow> list_page_data" where
  "filled_page rs clk vals q rows nc =
     \<lparr>lp_error = None, lp_services = services_dropdown rs clk, lp_methods = httpMethods,
      lp_query = \<lparr>lq_q = values_get vals ''q'', lq_since_raw = values_get vals ''since'',
        lq_until_raw = values_get vals ''until'', lq_chips = chipsFromQuery (iq_query q)\<rparr>,
      lp_rows = rows, lp_unindexed_scan = IsUnindexedScan (iq_query q),
      lp_next_url = (case nc of None \<Rightarrow> [] | Some c \<Rightarrow> ''/ui/requests?'' @ overrideQueryParam vals ''cursor'' (Encode c))\<rparr>"

lemma list_page_of:
  assumes "parseInspectQuery ul uu pt (default_window fmt_time now vals) = (q, [])"
    and "IsUnindexedScan (iq_query q) \<longrightarrow> requiresNarrowing q"
  shows "requestListHandler ul uu pt fmt_time rs clk now vals =
    (case gatherRoots q (src_memory rs) (src_sqlite rs) of
       Inl e \<Rightarrow> \<lparr>ui_status = 500, ui_headers = error_headers [], ui_page = ReadErrorText e\<rparr>
     | Inr (rows, nc, _) \<Rightarrow> renderList (filled_page rs clk (default_window fmt_time now vals) q rows nc) 200)"
  using assms(2) by (auto simp: requestListHandler_def Let_def assms(1) filled_page_def split: sum.split)

text \<open>A parse error is never the narrowing error.\<close>

lemma parse_errors_not_narrowing:
  "(f, NeedsNarrowing) \<notin> set (snd (parseInspectQuery ul uu pt vs))"
proof -
  let ?ok = "\<lambda>st :: inspect_query \<times> field_error list. (f, NeedsNarrowing) \<notin> set (snd st)"
  have "?ok st \<Longrightarrow> ?ok (parse_limit vs st)" "?ok st \<Longrightarrow> ?ok (parse_cursor vs st)" "?ok st \<Longrightarrow> ?ok (parse_since pt vs st)"
    "?ok st \<Longrightarrow> ?ok (parse_until pt vs st)" "?ok st \<Longrightarrow> ?ok (parse_q ul uu vs st)" for st
    by (cases st; simp add: parse_limit_def parse_cursor_def parse_since_def parse_until_def parse_q_def Let_def split: option.split sum.split)+
  then show ?thesis by (auto simp: parseInspectQuery_def Let_def)
qed

text \<open>The request siblings that the event page folds into a flag.\<close>

lemma sibling_split:
  "\<exists>reqs. mset evs = mset (filter (\<lambda>e. \<not> is_request e) evs) + mset reqs \<and> list_all is_request reqs \<and>
     (list_ex is_request evs \<longleftrightarrow> reqs \<noteq> [])"
  by (rule exI [of _ "filter is_request evs"]) (auto simp: list_all_iff list_ex_iff filter_empty_conv add.commute)

section \<open>Properties\<close>

text \<open>
  C13. The Next link of the request list resumes the listing. When a page has a next cursor, the
  link's query string, parsed by the server, gives the same search, limit and time window with
  the cursor replaced; in particular the default window of the first page is carried along
  and no new one is computed when the link is followed at a later time. The page behind the link
  shows what the readers return for that query.
\<close>

theorem next_link_resumes:
  assumes "vals = default_window fmt_time now (ParseQuery raw)"
    and "parseInspectQuery ul uu pt vals = (q, [])" and "values_count vals < max_query_params"
    and "IsUnindexedScan (iq_query q) \<longrightarrow> requiresNarrowing q"
    and "gatherRoots q (src_memory rs) (src_sqlite rs) = Inr (rows, Some c, src)"
    and "cu_id c \<noteq> []" and "in_int64 (cu_timestamp c)"
  shows "\<exists>d link. requestListHandler ul uu pt fmt_time rs clk now (ParseQuery raw) = renderList d 200 \<and>
     lp_rows d = rows \<and> lp_next_url d = ''/ui/requests?'' @ link \<and>
     parseInspectQuery ul uu pt (default_window fmt_time now' (ParseQuery link)) = (q\<lparr>iq_cursor := Some c\<rparr>, []) \<and>
     (case gatherRoots (q\<lparr>iq_cursor := Some c\<rparr>) (src_memory rs') (src_sqlite rs') of
        Inl e \<Rightarrow> ui_page (requestListHandler ul uu pt fmt_time rs' clk' now' (ParseQuery link)) = ReadErrorText e
      | Inr (rows', _, _) \<Rightarrow> \<exists>d'. requestListHandler ul uu pt fmt_time rs' clk' now' (ParseQuery link) = renderList d' 200 \<and>
          lp_rows d' = rows')"
proof -
  let ?link = "overrideQueryParam vals ''cursor'' (Encode c)"
  have dist: "distinct (map fst vals)"
    unfolding assms(1) by (rule distinct_default_window [OF distinct_ParseQuery])
  note o = override_round_trip [OF dist assms(3), of "''cursor''" "Encode c"]
  have parse: "parseInspectQuery ul uu pt (ParseQuery ?link) = (q\<lparr>iq_cursor := Some c\<rparr>, [])"
    by (rule parse_with_cursor [OF assms(2) o assms(6,7)])
  have "values_get (ParseQuery ?link) ''cursor'' \<noteq> []" by (simp add: values_get_of o(1) Encode_ne)
  then have w: "default_window fmt_time t (ParseQuery ?link) = ParseQuery ?link" for t
    by (rule default_window_cursor)
  let ?q = "q\<lparr>iq_cursor := Some c\<rparr>"
  have narrow: "IsUnindexedScan (iq_query ?q) \<longrightarrow> requiresNarrowing ?q"
    using assms(4) by (simp add: requiresNarrowing_def)
  have first: "requestListHandler ul uu pt fmt_time rs clk now (ParseQuery raw) =
      renderList (filled_page rs clk vals q rows (Some c)) 200"
    using list_page_of [OF assms(2) [unfolded assms(1)], of rs clk] assms(4,5) unfolding assms(1) by simp
  have second: "requestListHandler ul uu pt fmt_time rs' clk' now' (ParseQuery ?link) =
      (case gatherRoots ?q (src_memory rs') (src_sqlite rs') of
         Inl e \<Rightarrow> \<lparr>ui_status = 500, ui_headers = error_headers [], ui_page = ReadErrorText e\<rparr>
       | Inr (rows, nc, _) \<Rightarrow> renderList (filled_page rs' clk' (ParseQuery ?link) ?q rows nc) 200)"
    using list_page_of [where now = now' and fmt_time = fmt_time and vals = "ParseQuery ?link", unfolded w, OF parse narrow] .
  show ?thesis
    by (intro exI [of _ "filled_page rs clk vals q rows (Some c)"] exI [of _ ?link] conjI first)
      (auto simp: filled_page_def w parse second split: sum.split)
qed

definition sample_format :: "time \<Rightarrow> string" where
  "sample_format t = (if t = 0 then ''t0'' else ''t1'')"

definition sample_parse :: "string \<Rightarrow> time option" where
  "sample_parse s = (if s = ''t0'' then Some 0 else if s = ''t1'' then Some defaultExplorerWindow else None)"

definition sample_sources :: read_sources where
  "sample_sources = \<lparr>src_memory = Some (memory_reader id sample_sink), src_sqlite = None\<rparr>"

definition first_page :: inspect_query where
  "first_page = \<lparr>iq_limit = 1, iq_cursor = None, iq_since = Some 0, iq_until = Some defaultExplorerWindow, iq_query = []\<rparr>"

theorem next_link_resumes_witness:
  "\<exists>d link. requestListHandler id id sample_parse sample_format sample_sources 0 defaultExplorerWindow (ParseQuery ''limit=1'') = renderList d 200 \<and>
     map rr_id (lp_rows d) = [''b''] \<and> lp_next_url d = ''/ui/requests?'' @ link \<and>
     (\<exists>d'. requestListHandler id id sample_parse sample_format sample_sources 0 0 (ParseQuery link) = renderList d' 200 \<and>
        map rr_id (lp_rows d') = [''c''])"
proof -
  let ?v = "[(''limit'', [''1'']), (''since'', [''t0'']), (''until'', [''t1''])]"
  let ?c = "\<lparr>cu_timestamp = 9, cu_id = ''b''\<rparr>"
  have v: "?v = default_window sample_format defaultExplorerWindow (ParseQuery ''limit=1'')" by code_simp
  have n: "values_count ?v < max_query_params" by code_simp
  have p: "parseInspectQuery id id sample_parse ?v = (first_page, [])" by code_simp
  have f: "\<not> IsUnindexedScan (iq_query first_page)" "\<not> hasNonTemporalFilter (first_page\<lparr>iq_cursor := x\<rparr>)" for x
    by (simp_all add: first_page_def hasNonTemporalFilter_def HasNonTemporalTerm_def IsUnindexedScan_def)
  have r: "ir_roots (memory_reader id sample_sink) first_page 1 None = Inr (take 1 (matching_rows id sample_sink first_page), Some ?c)"
    "map rr_id (take 1 (matching_rows id sample_sink first_page)) = [''b'']" by code_simp+
  have g: "gatherRoots first_page (src_memory sample_sources) (src_sqlite sample_sources) =
      Inr (take 1 (matching_rows id sample_sink first_page), Some ?c, SourceMemory)"
    using r(1) f(2) [of None] by (simp add: gatherRoots_def sample_sources_def first_page_def Let_def)
  have "ir_roots (memory_reader id sample_sink) (first_page\<lparr>iq_cursor := Some ?c\<rparr>) 1 (Some ?c) =
      Inr (drop 1 (matching_rows id sample_sink first_page), None)"
    "map rr_id (drop 1 (matching_rows id sample_sink first_page)) = [''c'']" by code_simp+
  then have g': "\<exists>rows. gatherRoots (first_page\<lparr>iq_cursor := Some ?c\<rparr>) (src_memory sample_sources) (src_sqlite sample_sources) =
      Inr (rows, None, SourceMemory) \<and> map rr_id rows = [''c'']"
    using f(2) [of "Some ?c"] by (simp add: gatherRoots_def sample_sources_def first_page_def Let_def)
  have "cu_id ?c \<noteq> []" "in_int64 (cu_timestamp ?c)" by (simp_all add: in_int64_def)
  from next_link_resumes [OF v p n _ g this, where clk = 0 and now' = 0 and clk' = 0 and rs' = sample_sources] f(1) g' r(2)
  show ?thesis by fastforce
qed

text \<open>
  C17. The pages show what the JSON API answers. For every set of readers and parameters, the list
  page has exactly the rows of GET /requests for the parameters with the default window filled
  in, and a Next link exactly when the API returns a cursor, carrying that cursor; where the API
  rejects a parameter the page names the same first error and lists nothing; read errors
  are reported by both. The detail page shows the root of GET /requests/{id} and every
  other record of its answer: all of them for a request, and for an event the events beside a
  flag that says whether a request is among them.
\<close>

theorem ui_agrees_with_api:
  "(let vals = default_window fmt_time now vals0; api = requestsHandler ul uu pt rs vals;
        ui = requestListHandler ul uu pt fmt_time rs clk now vals0
    in case rs_body api of
         RootsBody rows nc \<Rightarrow> (\<exists>d. ui_page ui = ListPage d \<and> ui_status ui = rs_status api \<and> lp_error d = None \<and> lp_rows d = rows \<and>
           lp_next_url d = (case nc of None \<Rightarrow> [] | Some s \<Rightarrow> ''/ui/requests?'' @ overrideQueryParam vals ''cursor'' s))
       | FieldErrorBody f e \<Rightarrow> (\<exists>d. ui_page ui = ListPage d \<and> lp_rows d = [] \<and> lp_next_url d = [] \<and>
           lp_error d = Some (if e = NeedsNarrowing then NarrowingRequired else FieldErrorText (f, e)))
       | ReadErrorBody e \<Rightarrow> ui_page ui = ReadErrorText e \<and> ui_status ui = rs_status api
       | _ \<Rightarrow> False) \<and>
   (let api = requestDetailHandler rs ident; ui = requestDetailUIHandler rs ident
    in ui_status ui = rs_status api \<and>
       (case rs_body api of
          DetailBody d \<Rightarrow>
            (case ui_page ui of
               DetailPage p \<Rightarrow> \<not> dp_not_found p \<and> map_option Request (dp_root p) = Some (dr_root d) \<and> dp_events p = dr_events d
             | EventDetailPage p \<Rightarrow> ep_root p = dr_root d \<and> \<not> is_request (ep_root p) \<and>
                 (\<exists>reqs. mset (dr_events d) = mset (ep_events p) + mset reqs \<and> list_all is_request reqs \<and>
                    (ep_has_request_sibling p \<longleftrightarrow> reqs \<noteq> []))
             | _ \<Rightarrow> False)
        | NotFoundBody i \<Rightarrow> (\<exists>p. ui_page ui = DetailPage p \<and> dp_not_found p \<and> dp_id p = i)
        | ReadErrorBody e \<Rightarrow> ui_page ui = ReadErrorText e
        | _ \<Rightarrow> False))"
  (is "?list \<and> ?detail")
proof
  let ?vals = "default_window fmt_time now vals0"
  obtain q errs where p: "parseInspectQuery ul uu pt ?vals = (q, errs)" by fastforce
  have n: "errs \<noteq> [] \<Longrightarrow> snd (hd errs) \<noteq> NeedsNarrowing"
    using parse_errors_not_narrowing [of "fst (hd errs)" ul uu pt ?vals] p hd_in_set [of errs] by (metis prod.collapse snd_conv)
  show ?list
    by (simp add: requestsHandler_def requestListHandler_def p n writeParseErrors_def writeFieldError_def renderList_def
        http_error_def writeRootsResponse_def Let_def split: sum.split option.split)
next
  show ?detail
    using sibling_split by (simp add: requestDetailHandler_def requestDetailUIHandler_def writeDetailNotFound_def
        renderDetailNotFound_def http_error_def Let_def split: sum.split read_error.split capture_record.split)
qed

end
