(* ===== verification/Config.thy ===== *)
theory Config
  imports Redact
begin

text \<open>
  Configuration, internal/config/config.go: defaults, the YAML file, the environment and the
  final validation. The YAML library and \<open>time.ParseDuration\<close> are arguments (a decoder of the
  file, a partial function on strings); so is the number of CPUs. A duration is an integer
  count of nanoseconds. The two long functions of the source that walk over the settings,
  \<open>applyRaw\<close> and \<open>applyEnv\<close>, are lists of steps run in the order of the code.
\<close>

section \<open>Results\<close>

datatype config_error = ReadConfig string | ParseConfig string string | BadDuration string string
  | BadInteger string string | BadBoolean string string | UnknownSink string | UnknownYAMLKey string string
  | Invalid "string list"

type_synonym 'a fallible = "config_error + 'a"

section \<open>The configuration\<close>

record timeouts_config =
  to_read_header :: int
  to_read :: int
  to_write :: int
  to_idle :: int

record retention_config =
  rt_max_age :: int
  rt_max_count :: int
  rt_interval :: int

record sinks_config =
  sk_stdout :: bool
  sk_memory :: bool
  sk_memory_capacity :: int
  sk_sqlite :: bool
  sk_sqlite_path :: string
  sk_retention :: retention_config

record admin_config =
  ad_bind :: string
  ad_token :: string
  ad_insecure_listen :: bool
  ad_session_ttl :: int
  ad_session_secure :: bool

record inspect_config =
  ic_query_timeout :: int

record config =
  cf_capture_port :: int
  cf_capture_bind :: string
  cf_queue_size :: int
  cf_body_cap :: int
  cf_max_events_payload :: int
  cf_max_events_per_batch :: int
  cf_workers :: int
  cf_service_header :: string
  cf_log_format :: string
  cf_timeouts :: timeouts_config
  cf_sinks :: sinks_config
  cf_redaction :: redaction_config
  cf_admin :: admin_config
  cf_inspect :: inspect_config

definition second :: int where "second = 1000000000"

definition Defaults :: "int \<Rightarrow> config" where
  "Defaults numCPU = \<lparr>cf_capture_port = 8080, cf_capture_bind = [], cf_queue_size = 1024, cf_body_cap = 1048576,
     cf_max_events_payload = 1048576, cf_max_events_per_batch = 1000, cf_workers = numCPU,
     cf_service_header = ''X-Httpcatch-Service'', cf_log_format = ''text'',
     cf_timeouts = \<lparr>to_read_header = 10 * second, to_read = 60 * second, to_write = 30 * second, to_idle = 120 * second\<rparr>,
     cf_sinks = \<lparr>sk_stdout = False, sk_memory = False, sk_memory_capacity = 1000, sk_sqlite = False,
       sk_sqlite_path = ''./httpcatch.db'', sk_retention = \<lparr>rt_max_age = 0, rt_max_count = 0, rt_interval = 0\<rparr>\<rparr>,
     cf_redaction = \<lparr>rc_headers = [], rc_query_params = [], rc_json_paths = [], rc_cookies = [], rc_regex = []\<rparr>,
     cf_admin = \<lparr>ad_bind = ''127.0.0.1:8081'', ad_token = [], ad_insecure_listen = False,
       ad_session_ttl = 24 * 3600 * second, ad_session_secure = False\<rparr>,
     cf_inspect = \<lparr>ic_query_timeout = 5 * second\<rparr>\<rparr>"

section \<open>The YAML shapes\<close>

text \<open>The parts of a \<open>yaml.Node\<close> the key checks read: whether it is a mapping, the values of its children.\<close>

record yaml_node =
  yn_mapping :: bool
  yn_content :: "string list"

fun mapping_keys :: "string list \<Rightarrow> string list" where
  "mapping_keys (k # v # rest) = k # mapping_keys rest"
| "mapping_keys _ = []"

definition check_keys :: "string \<Rightarrow> string list \<Rightarrow> yaml_node \<Rightarrow> (yaml_node \<Rightarrow> 'a fallible) \<Rightarrow> 'a fallible" where
  "check_keys section valid value decode =
     (case (if yn_mapping value then find (\<lambda>k. k \<notin> set valid) (mapping_keys (yn_content value)) else None) of
        Some key \<Rightarrow> Inl (UnknownYAMLKey section key)
      | None \<Rightarrow> decode value)"

record raw_retention =
  rr_max_age :: "string option"
  rr_max_count :: "int option"
  rr_interval :: "string option"

definition validSinksRetentionKeys :: "string list" where
  "validSinksRetentionKeys = [''max_age'', ''max_count'', ''interval'']"

definition retention_UnmarshalYAML :: "(yaml_node \<Rightarrow> raw_retention fallible) \<Rightarrow> yaml_node \<Rightarrow> raw_retention fallible" where
  "retention_UnmarshalYAML decode value = check_keys ''sinks.retention'' validSinksRetentionKeys value decode"

record raw_sinks =
  rs_stdout :: "bool option"
  rs_memory :: "bool option"
  rs_memory_capacity :: "int option"
  rs_sqlite :: "bool option"
  rs_sqlite_path :: "string option"
  rs_retention :: "raw_retention option"

record raw_timeouts =
  rw_read_header :: "string option"
  rw_read :: "string option"
  rw_write :: "string option"
  rw_idle :: "string option"

definition validTimeoutsKeys :: "string list" where
  "validTimeoutsKeys = [''read_header'', ''read'', ''write'', ''idle'']"

definition timeouts_UnmarshalYAML :: "(yaml_node \<Rightarrow> raw_timeouts fallible) \<Rightarrow> yaml_node \<Rightarrow> raw_timeouts fallible" where
  "timeouts_UnmarshalYAML decode value = check_keys ''timeouts'' validTimeoutsKeys value decode"

record raw_admin =
  ra_bind :: "string option"
  ra_token :: "string option"
  ra_insecure_listen :: "bool option"
  ra_session_ttl :: "string option"
  ra_session_secure :: "bool option"

definition validAdminKeys :: "string list" where
  "validAdminKeys = [''bind'', ''token'', ''insecure_listen'', ''session_ttl'', ''session_secure'']"

definition admin_UnmarshalYAML :: "(yaml_node \<Rightarrow> raw_admin fallible) \<Rightarrow> yaml_node \<Rightarrow> raw_admin fallible" where
  "admin_UnmarshalYAML decode value = check_keys ''admin'' validAdminKeys value decode"

definition validRedactionKeys :: "string list" where
  "validRedactionKeys = [''headers'', ''query_params'', ''json_paths'', ''regex'', ''cookies'']"

definition redaction_UnmarshalYAML :: "(yaml_node \<Rightarrow> redaction_config fallible) \<Rightarrow> yaml_node \<Rightarrow> redaction_config fallible" where
  "redaction_UnmarshalYAML decode value = check_keys ''redaction'' validRedactionKeys value decode"

definition validInspectKeys :: "string list" where
  "validInspectKeys = [''query_timeout'']"

record raw_inspect =
  ri_query_timeout :: "string option"

definition inspect_UnmarshalYAML :: "(yaml_node \<Rightarrow> raw_inspect fallible) \<Rightarrow> yaml_node \<Rightarrow> raw_inspect fallible" where
  "inspect_UnmarshalYAML decode value = check_keys ''inspect'' validInspectKeys value decode"

record raw_config =
  rf_capture_port :: "int option"
  rf_capture_bind :: "string option"
  rf_queue_size :: "int option"
  rf_body_cap :: "int option"
  rf_max_events_payload :: "int option"
  rf_max_events_per_batch :: "int option"
  rf_workers :: "int option"
  rf_service_header :: "string option"
  rf_log_format :: "string option"
  rf_timeouts :: "raw_timeouts option"
  rf_sinks :: raw_sinks
  rf_redaction :: "redaction_config option"
  rf_admin :: "raw_admin option"
  rf_inspect :: "raw_inspect option"

section \<open>Steps\<close>

type_synonym step = "config \<Rightarrow> config fallible"

fun run_steps :: "step list \<Rightarrow> step" where
  "run_steps [] c = Inr c"
| "run_steps (s # ss) c = (case s c of Inl e \<Rightarrow> Inl e | Inr c' \<Rightarrow> run_steps ss c')"

text \<open>Set a field when the pointer is not nil; parse a duration first where the field is one.\<close>

definition set_opt :: "'a option \<Rightarrow> ('a \<Rightarrow> config \<Rightarrow> config) \<Rightarrow> step" where
  "set_opt v upd c = (case v of None \<Rightarrow> Inr c | Some x \<Rightarrow> Inr (upd x c))"

definition set_duration :: "(string \<Rightarrow> int option) \<Rightarrow> string \<Rightarrow> string option \<Rightarrow> (int \<Rightarrow> config \<Rightarrow> config) \<Rightarrow> step" where
  "set_duration pd key v upd c = (case v of
      None \<Rightarrow> Inr c
    | Some s \<Rightarrow> (case pd s of None \<Rightarrow> Inl (BadDuration key s) | Some d \<Rightarrow> Inr (upd d c)))"

definition on_timeouts :: "(timeouts_config \<Rightarrow> timeouts_config) \<Rightarrow> config \<Rightarrow> config" where
  "on_timeouts f c = c\<lparr>cf_timeouts := f (cf_timeouts c)\<rparr>"

definition on_sinks :: "(sinks_config \<Rightarrow> sinks_config) \<Rightarrow> config \<Rightarrow> config" where
  "on_sinks f c = c\<lparr>cf_sinks := f (cf_sinks c)\<rparr>"

definition on_retention :: "(retention_config \<Rightarrow> retention_config) \<Rightarrow> config \<Rightarrow> config" where
  "on_retention f c = on_sinks (\<lambda>s. s\<lparr>sk_retention := f (sk_retention s)\<rparr>) c"

definition on_admin :: "(admin_config \<Rightarrow> admin_config) \<Rightarrow> config \<Rightarrow> config" where
  "on_admin f c = c\<lparr>cf_admin := f (cf_admin c)\<rparr>"

section \<open>The file\<close>

text \<open>Rules of a kind the file leaves empty keep what was there before.\<close>

definition apply_redaction :: "redaction_config \<Rightarrow> config \<Rightarrow> config" where
  "apply_redaction r c = c\<lparr>cf_redaction := \<lparr>rc_headers = rc_headers r, rc_query_params = rc_query_params r,
     rc_json_paths = rc_json_paths r,
     rc_cookies = (if rc_cookies r \<noteq> [] then rc_cookies r else rc_cookies (cf_redaction c)),
     rc_regex = (if rc_regex r \<noteq> [] then rc_regex r else rc_regex (cf_redaction c))\<rparr>\<rparr>"

definition raw_steps :: "(string \<Rightarrow> int option) \<Rightarrow> raw_config \<Rightarrow> step list" where
  "raw_steps pd raw =
     (let tm = (\<lambda>get. Option.bind (rf_timeouts raw) get); sk = rf_sinks raw in
     [set_opt (rf_capture_port raw) (\<lambda>v c. c\<lparr>cf_capture_port := v\<rparr>),
      set_opt (rf_capture_bind raw) (\<lambda>v c. c\<lparr>cf_capture_bind := v\<rparr>),
      set_opt (rf_queue_size raw) (\<lambda>v c. c\<lparr>cf_queue_size := v\<rparr>),
      set_opt (rf_body_cap raw) (\<lambda>v c. c\<lparr>cf_body_cap := v\<rparr>),
      set_opt (rf_max_events_payload raw) (\<lambda>v c. c\<lparr>cf_max_events_payload := v\<rparr>),
      set_opt (rf_max_events_per_batch raw) (\<lambda>v c. c\<lparr>cf_max_events_per_batch := v\<rparr>),
      set_opt (rf_workers raw) (\<lambda>v c. c\<lparr>cf_workers := v\<rparr>),
      set_opt (rf_service_header raw) (\<lambda>v c. c\<lparr>cf_service_header := v\<rparr>),
      set_opt (rf_log_format raw) (\<lambda>v c. c\<lparr>cf_log_format := v\<rparr>),
      set_duration pd ''timeouts.read_header'' (tm rw_read_header) (\<lambda>d. on_timeouts (\<lambda>t. t\<lparr>to_read_header := d\<rparr>)),
      set_duration pd ''timeouts.read'' (tm rw_read) (\<lambda>d. on_timeouts (\<lambda>t. t\<lparr>to_read := d\<rparr>)),
      set_duration pd ''timeouts.write'' (tm rw_write) (\<lambda>d. on_timeouts (\<lambda>t. t\<lparr>to_write := d\<rparr>)),
      set_duration pd ''timeouts.idle'' (tm rw_idle) (\<lambda>d. on_timeouts (\<lambda>t. t\<lparr>to_idle := d\<rparr>)),
      set_opt (rs_stdout sk) (\<lambda>v. on_sinks (\<lambda>s. s\<lparr>sk_stdout := v\<rparr>)),
      set_opt (rs_memory sk) (\<lambda>v. on_sinks (\<lambda>s. s\<lparr>sk_memory := v\<rparr>)),
      set_opt (rs_memory_capacity sk) (\<lambda>v. on_sinks (\<lambda>s. s\<lparr>sk_memory_capacity := v\<rparr>)),
      set_opt (rs_sqlite sk) (\<lambda>v. on_sinks (\<lambda>s. s\<lparr>sk_sqlite := v\<rparr>)),
      set_opt (rs_sqlite_path sk) (\<lambda>v. on_sinks (\<lambda>s. s\<lparr>sk_sqlite_path := v\<rparr>)),
      set_duration pd ''sinks.retention.max_age'' (Option.bind (rs_retention sk) rr_max_age) (\<lambda>d. on_retention (\<lambda>r. r\<lparr>rt_max_age := d\<rparr>)),
      set_duration pd ''sinks.retention.interval'' (Option.bind (rs_retention sk) rr_interval) (\<lambda>d. on_retention (\<lambda>r. r\<lparr>rt_interval := d\<rparr>)),
      set_opt (Option.bind (rs_retention sk) rr_max_count) (\<lambda>v. on_retention (\<lambda>r. r\<lparr>rt_max_count := v\<rparr>)),
      set_opt (rf_redaction raw) apply_redaction,
      set_opt (Option.bind (rf_admin raw) ra_bind) (\<lambda>v. on_admin (\<lambda>a. a\<lparr>ad_bind := v\<rparr>)),
      set_opt (Option.bind (rf_admin raw) ra_token) (\<lambda>v. on_admin (\<lambda>a. a\<lparr>ad_token := v\<rparr>)),
      set_opt (Option.bind (rf_admin raw) ra_insecure_listen) (\<lambda>v. on_admin (\<lambda>a. a\<lparr>ad_insecure_listen := v\<rparr>)),
      set_duration pd ''admin.session_ttl'' (Option.bind (rf_admin raw) ra_session_ttl) (\<lambda>d. on_admin (\<lambda>a. a\<lparr>ad_session_ttl := d\<rparr>)),
      set_opt (Option.bind (rf_admin raw) ra_session_secure) (\<lambda>v. on_admin (\<lambda>a. a\<lparr>ad_session_secure := v\<rparr>)),
      set_duration pd ''inspect.query_timeout'' (Option.bind (rf_inspect raw) ri_query_timeout)
        (\<lambda>d c. c\<lparr>cf_inspect := (cf_inspect c)\<lparr>ic_query_timeout := d\<rparr>\<rparr>)])"

definition applyRaw :: "(string \<Rightarrow> int option) \<Rightarrow> raw_config \<Rightarrow> step" where
  "applyRaw pd raw = run_steps (raw_steps pd raw)"

section \<open>The environment\<close>

type_synonym env = "string \<Rightarrow> string"

definition parseBoolEnv :: "string \<Rightarrow> string \<Rightarrow> bool fallible" where
  "parseBoolEnv name v =
     (if v \<in> {''true'', ''1''} then Inr True
      else if v \<in> {''false'', ''0''} then Inr False
      else Inl (BadBoolean name v))"

definition env_text :: "env \<Rightarrow> string \<Rightarrow> (string \<Rightarrow> config \<Rightarrow> config) \<Rightarrow> step" where
  "env_text env name upd c = (let v = env name in if v = [] then Inr c else Inr (upd v c))"

definition env_int :: "env \<Rightarrow> string \<Rightarrow> (int \<Rightarrow> config \<Rightarrow> config) \<Rightarrow> step" where
  "env_int env name upd c =
     (let v = env name in
      if v = [] then Inr c
      else (case ParseInt v of None \<Rightarrow> Inl (BadInteger name v) | Some n \<Rightarrow> Inr (upd n c)))"

definition env_duration :: "(string \<Rightarrow> int option) \<Rightarrow> env \<Rightarrow> string \<Rightarrow> (int \<Rightarrow> config \<Rightarrow> config) \<Rightarrow> step" where
  "env_duration pd env name upd c =
     (let v = env name in
      if v = [] then Inr c
      else (case pd v of None \<Rightarrow> Inl (BadDuration name v) | Some d \<Rightarrow> Inr (upd d c)))"

definition env_bool :: "env \<Rightarrow> string \<Rightarrow> (bool \<Rightarrow> config \<Rightarrow> config) \<Rightarrow> step" where
  "env_bool env name upd c =
     (let v = env name in
      if v = [] then Inr c
      else (case parseBoolEnv name v of Inl e \<Rightarrow> Inl e | Inr b \<Rightarrow> Inr (upd b c)))"

fun select_sinks :: "unicode_map \<Rightarrow> string list \<Rightarrow> step" where
  "select_sinks ul [] c = Inr c"
| "select_sinks ul (name # names) c =
     (let n = ToLower ul (TrimSpace name) in
      if n = ''stdout'' then select_sinks ul names (on_sinks (\<lambda>s. s\<lparr>sk_stdout := True\<rparr>) c)
      else if n = ''memory'' then select_sinks ul names (on_sinks (\<lambda>s. s\<lparr>sk_memory := True\<rparr>) c)
      else if n = ''sqlite'' then select_sinks ul names (on_sinks (\<lambda>s. s\<lparr>sk_sqlite := True\<rparr>) c)
      else Inl (UnknownSink name))"

definition env_sinks :: "unicode_map \<Rightarrow> env \<Rightarrow> step" where
  "env_sinks ul env c =
     (let v = env ''HTTPCATCH_SINKS'' in
      if v = [] then Inr c
      else select_sinks ul (filter (\<lambda>f. f \<noteq> []) (split_on (CHR '','') v))
             (on_sinks (\<lambda>s. s\<lparr>sk_stdout := False, sk_memory := False, sk_sqlite := False\<rparr>) c))"

definition env_steps :: "(string \<Rightarrow> int option) \<Rightarrow> unicode_map \<Rightarrow> env \<Rightarrow> step list" where
  "env_steps pd ul env =
     [env_int env ''HTTPCATCH_CAPTURE_PORT'' (\<lambda>n c. c\<lparr>cf_capture_port := n\<rparr>),
      env_int env ''HTTPCATCH_QUEUE_SIZE'' (\<lambda>n c. c\<lparr>cf_queue_size := n\<rparr>),
      env_int env ''HTTPCATCH_BODY_CAP'' (\<lambda>n c. c\<lparr>cf_body_cap := n\<rparr>),
      env_int env ''HTTPCATCH_MAX_EVENTS_PAYLOAD'' (\<lambda>n c. c\<lparr>cf_max_events_payload := n\<rparr>),
      env_int env ''HTTPCATCH_MAX_EVENTS_PER_BATCH'' (\<lambda>n c. c\<lparr>cf_max_events_per_batch := n\<rparr>),
      env_int env ''HTTPCATCH_WORKER_COUNT'' (\<lambda>n c. c\<lparr>cf_workers := n\<rparr>),
      env_int env ''HTTPCATCH_MEMORY_CAPACITY'' (\<lambda>n. on_sinks (\<lambda>s. s\<lparr>sk_memory_capacity := n\<rparr>)),
      env_text env ''HTTPCATCH_CAPTURE_BIND'' (\<lambda>v c. c\<lparr>cf_capture_bind := v\<rparr>),
      env_text env ''HTTPCATCH_SERVICE_HEADER'' (\<lambda>v c. c\<lparr>cf_service_header := v\<rparr>),
      env_text env ''HTTPCATCH_LOG_FORMAT'' (\<lambda>v c. c\<lparr>cf_log_format := v\<rparr>),
      env_text env ''HTTPCATCH_SQLITE_PATH'' (\<lambda>v. on_sinks (\<lambda>s. s\<lparr>sk_sqlite_path := v\<rparr>)),
      env_duration pd env ''HTTPCATCH_SINKS_RETENTION_MAX_AGE'' (\<lambda>d. on_retention (\<lambda>r. r\<lparr>rt_max_age := d\<rparr>)),
      env_duration pd env ''HTTPCATCH_SINKS_RETENTION_INTERVAL'' (\<lambda>d. on_retention (\<lambda>r. r\<lparr>rt_interval := d\<rparr>)),
      env_int env ''HTTPCATCH_SINKS_RETENTION_MAX_COUNT'' (\<lambda>n. on_retention (\<lambda>r. r\<lparr>rt_max_count := n\<rparr>)),
      env_sinks ul env,
      env_duration pd env ''HTTPCATCH_READ_HEADER_TIMEOUT'' (\<lambda>d. on_timeouts (\<lambda>t. t\<lparr>to_read_header := d\<rparr>)),
      env_duration pd env ''HTTPCATCH_READ_TIMEOUT'' (\<lambda>d. on_timeouts (\<lambda>t. t\<lparr>to_read := d\<rparr>)),
      env_duration pd env ''HTTPCATCH_WRITE_TIMEOUT'' (\<lambda>d. on_timeouts (\<lambda>t. t\<lparr>to_write := d\<rparr>)),
      env_duration pd env ''HTTPCATCH_IDLE_TIMEOUT'' (\<lambda>d. on_timeouts (\<lambda>t. t\<lparr>to_idle := d\<rparr>)),
      env_text env ''HTTPCATCH_ADMIN_BIND'' (\<lambda>v. on_admin (\<lambda>a. a\<lparr>ad_bind := v\<rparr>)),
      env_text env ''HTTPCATCH_ADMIN_TOKEN'' (\<lambda>v. on_admin (\<lambda>a. a\<lparr>ad_token := v\<rparr>)),
      env_bool env ''HTTPCATCH_ADMIN_INSECURE_LISTEN'' (\<lambda>b. on_admin (\<lambda>a. a\<lparr>ad_insecure_listen := b\<rparr>)),
      env_duration pd env ''HTTPCATCH_ADMIN_SESSION_TTL'' (\<lambda>d. on_admin (\<lambda>a. a\<lparr>ad_session_ttl := d\<rparr>)),
      env_bool env ''HTTPCATCH_ADMIN_SESSION_SECURE'' (\<lambda>b. on_admin (\<lambda>a. a\<lparr>ad_session_secure := b\<rparr>)),
      env_duration pd env ''HTTPCATCH_INSPECT_QUERY_TIMEOUT''
        (\<lambda>d c. c\<lparr>cf_inspect := (cf_inspect c)\<lparr>ic_query_timeout := d\<rparr>\<rparr>)]"

definition applyEnv :: "(string \<Rightarrow> int option) \<Rightarrow> unicode_map \<Rightarrow> env \<Rightarrow> step" where
  "applyEnv pd ul env = run_steps (env_steps pd ul env)"

section \<open>Validation and loading\<close>

definition valid_bind :: "string \<Rightarrow> bool" where
  "valid_bind b = (case SplitHostPort b of
      None \<Rightarrow> False
    | Some (_, portStr) \<Rightarrow> (case ParseInt portStr of None \<Rightarrow> False | Some p \<Rightarrow> \<not> (p < 1 \<or> p > 65535)))"

definition report :: "bool \<Rightarrow> string \<Rightarrow> string list" where
  "report bad key = (if bad then [key] else [])"

text \<open>The keys of the errors, in the order in which \<open>Validate\<close> joins them.\<close>

definition Validate :: "config \<Rightarrow> string list" where
  "Validate c =
     (let t = cf_timeouts c; s = cf_sinks c; r = sk_retention s in
      report (cf_capture_port c < 1 \<or> cf_capture_port c > 65535) ''capture_port'' @
      report (cf_capture_bind c \<noteq> [] \<and> \<not> valid_bind (cf_capture_bind c)) ''capture_bind'' @
      report (cf_queue_size c < 1) ''queue_size'' @
      report (cf_workers c < 1) ''workers'' @
      report (cf_body_cap c < 0) ''body_cap'' @
      report (cf_max_events_payload c < 0) ''max_events_payload'' @
      report (cf_max_events_per_batch c < 0) ''max_events_per_batch'' @
      report (to_read_header t < 0) ''timeouts.read_header'' @
      report (to_read t < 0) ''timeouts.read'' @
      report (to_write t < 0) ''timeouts.write'' @
      report (to_idle t < 0) ''timeouts.idle'' @
      report (sk_memory_capacity s < 1) ''sinks.memory_capacity'' @
      report (sk_sqlite s \<and> sk_sqlite_path s = []) ''sinks.sqlite_path'' @
      report (rt_max_age r > 0 \<and> rt_max_count r > 0) ''sinks.retention'' @
      report (rt_max_age r < 0) ''sinks.retention.max_age'' @
      report (rt_max_count r < 0) ''sinks.retention.max_count'' @
      report (rt_interval r < 0) ''sinks.retention.interval'' @
      report ((rt_max_age r > 0 \<or> rt_max_count r > 0 \<or> rt_interval r > 0) \<and> \<not> sk_sqlite s) ''sinks.retention'' @
      report (cf_log_format c \<noteq> ''text'' \<and> cf_log_format c \<noteq> ''json'') ''log_format'' @
      report (ad_session_ttl (cf_admin c) \<le> 0) ''admin.session_ttl'' @
      report (ic_query_timeout (cf_inspect c) < 0) ''inspect.query_timeout'')"

record load_libs =
  ll_cpus :: int
  ll_lower :: unicode_map
  ll_duration :: "string \<Rightarrow> int option"
  ll_read :: "string \<Rightarrow> string option"
  ll_yaml :: "string \<Rightarrow> string + raw_config"

text \<open>Defaults and file: the part of \<open>Load\<close> before the environment.\<close>

definition load_file :: "load_libs \<Rightarrow> string \<Rightarrow> config fallible" where
  "load_file L path =
     (let cfg = Defaults (ll_cpus L) in
      if path = [] then Inr cfg
      else (case ll_read L path of
              None \<Rightarrow> Inl (ReadConfig path)
            | Some data \<Rightarrow>
                (case ll_yaml L data of
                   Inl e \<Rightarrow> Inl (ParseConfig path e)
                 | Inr raw \<Rightarrow> applyRaw (ll_duration L) raw cfg)))"

definition Load :: "load_libs \<Rightarrow> string \<Rightarrow> env \<Rightarrow> config fallible" where
  "Load L path env =
     (case load_file L path of
        Inl e \<Rightarrow> Inl e
      | Inr cfg0 \<Rightarrow>
          (case applyEnv (ll_duration L) (ll_lower L) env cfg0 of
             Inl e \<Rightarrow> Inl e
           | Inr cfg1 \<Rightarrow>
               (let cfg = (if cf_capture_bind cfg1 = []
                           then cfg1\<lparr>cf_capture_bind := ''0.0.0.0:'' @ Itoa (cf_capture_port cfg1)\<rparr> else cfg1);
                    errs = Validate cfg
                in if errs = [] then Inr cfg else Inl (Invalid errs))))"

section \<open>Steps change one setting\<close>

text \<open>A step has an effect on a setting: what the setting is afterwards, if the step succeeds.\<close>

definition effect :: "(config \<Rightarrow> 'a) \<Rightarrow> step \<Rightarrow> ('a \<Rightarrow> 'a) \<Rightarrow> bool" where
  "effect g s f = (\<forall>c c'. s c = Inr c' \<longrightarrow> g c' = f (g c))"

definition keeps_setting :: "(config \<Rightarrow> 'a) \<Rightarrow> step \<Rightarrow> bool" where
  "keeps_setting g s = effect g s (\<lambda>x. x)"

fun others_keep :: "(config \<Rightarrow> 'a) \<Rightarrow> nat \<Rightarrow> step list \<Rightarrow> bool" where
  "others_keep g i [] = True"
| "others_keep g 0 (s # ss) = list_all (keeps_setting g) ss"
| "others_keep g (Suc i) (s # ss) = (keeps_setting g s \<and> others_keep g i ss)"

lemma others_keep_numeral [simp]:
  "others_keep g (numeral k) (s # ss) = (keeps_setting g s \<and> others_keep g (pred_numeral k) ss)"
  by (simp add: numeral_eq_Suc)

lemma run_keeps: "list_all (keeps_setting g) ss \<Longrightarrow> run_steps ss c = Inr c' \<Longrightarrow> g c' = g c"
  by (induction ss arbitrary: c) (auto simp: keeps_setting_def effect_def split: sum.splits)

lemma effect_at:
  assumes "i < length ss" and "effect g (ss ! i) f" and "others_keep g i ss"
  shows "effect g (run_steps ss) f"
  unfolding effect_def
proof (intro allI impI)
  fix c c'
  assume "run_steps ss c = Inr c'"
  with assms show "g c' = f (g c)"
  proof (induction ss arbitrary: i c)
    case (Cons s ss)
    then obtain c1 where c1: "s c = Inr c1" "run_steps ss c1 = Inr c'" by (auto split: sum.splits)
    show ?case
    proof (cases i)
      case 0
      then have "g c1 = f (g c)" using Cons.prems(2) c1(1) by (simp add: effect_def)
      then show ?thesis using run_keeps [OF _ c1(2), of g] Cons.prems(3) 0 by simp
    next
      case (Suc j)
      then have "g c1 = g c" using Cons.prems(3) c1(1) by (simp add: keeps_setting_def effect_def)
      then show ?thesis using Cons.IH [OF _ _ _ c1(2), of j] Cons.prems Suc by simp
    qed
  qed simp
qed

definition env_value :: "(string \<Rightarrow> 'a option) \<Rightarrow> env \<Rightarrow> string \<Rightarrow> 'a \<Rightarrow> 'a" where
  "env_value parse env name x = (if env name = [] then x else the (parse (env name)))"

definition file_value :: "'a option \<Rightarrow> 'a \<Rightarrow> 'a" where
  "file_value v x = (case v of None \<Rightarrow> x | Some y \<Rightarrow> y)"

definition file_duration :: "(string \<Rightarrow> int option) \<Rightarrow> string option \<Rightarrow> int \<Rightarrow> int" where
  "file_duration pd v x = (case v of None \<Rightarrow> x | Some s \<Rightarrow> the (pd s))"

definition bool_of_env :: "string \<Rightarrow> bool option" where
  "bool_of_env v = (case parseBoolEnv [] v of Inl _ \<Rightarrow> None | Inr b \<Rightarrow> Some b)"

lemma parseBoolEnv_name: "parseBoolEnv name v = Inr b \<Longrightarrow> bool_of_env v = Some b"
  by (auto simp: parseBoolEnv_def bool_of_env_def split: if_splits)

named_theorems setting_effects \<open>the effects of single steps\<close>

lemma effect_set [setting_effects]:
  "(\<And>v c. g (upd v c) = v) \<Longrightarrow> effect g (set_opt v upd) (file_value v)"
  "(\<And>d c. h (updd d c) = d) \<Longrightarrow> effect h (set_duration pd key s updd) (file_duration pd s)"
  "(\<And>v c. t (updt v c) = v) \<Longrightarrow> effect t (env_text env name updt) (env_value Some env name)"
  "(\<And>v c. n (updn v c) = v) \<Longrightarrow> effect n (env_int env name updn) (env_value ParseInt env name)"
  "(\<And>d c. h (updd d c) = d) \<Longrightarrow> effect h (env_duration pd env name updd) (env_value pd env name)"
  "(\<And>v c. b (updb v c) = v) \<Longrightarrow> effect b (env_bool env name updb) (env_value bool_of_env env name)"
  by (auto simp: effect_def set_opt_def set_duration_def env_text_def env_int_def env_duration_def env_bool_def
      file_value_def file_duration_def env_value_def Let_def parseBoolEnv_name split: option.splits if_splits sum.splits)

lemma keeps_step [setting_effects]:
  "(\<And>v c. g (upd v c) = g c) \<Longrightarrow> keeps_setting g (set_opt v upd)"
  "(\<And>d c. g (updd d c) = g c) \<Longrightarrow> keeps_setting g (set_duration pd key s updd)"
  "(\<And>v c. g (updt v c) = g c) \<Longrightarrow> keeps_setting g (env_text env name updt)"
  "(\<And>v c. g (updn v c) = g c) \<Longrightarrow> keeps_setting g (env_int env name updn)"
  "(\<And>d c. g (updd d c) = g c) \<Longrightarrow> keeps_setting g (env_duration pd env name updd)"
  "(\<And>v c. g (updb v c) = g c) \<Longrightarrow> keeps_setting g (env_bool env name updb)"
  by (auto simp: keeps_setting_def effect_def set_opt_def set_duration_def env_text_def env_int_def env_duration_def
      env_bool_def Let_def split: option.splits if_splits sum.splits)

lemma select_sinks_keeps:
  assumes "\<And>f c. g (on_sinks f c) = g c"
  shows "select_sinks ul names c = Inr c' \<Longrightarrow> g c' = g c"
  using assms by (induction names arbitrary: c) (auto simp: Let_def split: if_splits)

lemma keeps_env_sinks [setting_effects]:
  "(\<And>f c. g (on_sinks f c) = g c) \<Longrightarrow> keeps_setting g (env_sinks ul env)"
proof -
  assume keep: "\<And>f c. g (on_sinks f c) = g c"
  show "keeps_setting g (env_sinks ul env)" unfolding keeps_setting_def effect_def
  proof (intro allI impI)
    fix c c'
    assume e: "env_sinks ul env c = Inr c'"
    show "g c' = g c"
    proof (cases "env ''HTTPCATCH_SINKS'' = []")
      case False
      with e have "select_sinks ul (filter (\<lambda>f. f \<noteq> []) (split_on (CHR '','') (env ''HTTPCATCH_SINKS'')))
          (on_sinks (\<lambda>s. s\<lparr>sk_stdout := False, sk_memory := False, sk_sqlite := False\<rparr>) c) = Inr c'"
        by (simp add: env_sinks_def Let_def)
      from select_sinks_keeps [OF keep this] keep show ?thesis by simp
    qed (use e in \<open>simp add: env_sinks_def\<close>)
  qed
qed

text \<open>The settings of the sinks block that are not the three switches.\<close>

lemma select_sinks_block:
  "select_sinks ul names c = Inr c' \<Longrightarrow>
   sk_memory_capacity (cf_sinks c') = sk_memory_capacity (cf_sinks c) \<and> sk_sqlite_path (cf_sinks c') = sk_sqlite_path (cf_sinks c) \<and>
   sk_retention (cf_sinks c') = sk_retention (cf_sinks c)"
  by (induction names arbitrary: c) (auto simp: Let_def on_sinks_def split: if_splits)

lemma keeps_env_sinks_block [setting_effects]:
  "keeps_setting (\<lambda>c. sk_memory_capacity (cf_sinks c)) (env_sinks ul env)"
  "keeps_setting (\<lambda>c. sk_sqlite_path (cf_sinks c)) (env_sinks ul env)"
  "keeps_setting (\<lambda>c. rt_max_age (sk_retention (cf_sinks c))) (env_sinks ul env)"
  "keeps_setting (\<lambda>c. rt_max_count (sk_retention (cf_sinks c))) (env_sinks ul env)"
  "keeps_setting (\<lambda>c. rt_interval (sk_retention (cf_sinks c))) (env_sinks ul env)"
  by (auto simp: keeps_setting_def effect_def env_sinks_def Let_def on_sinks_def split: if_splits dest!: select_sinks_block)

lemmas on_defs = on_timeouts_def on_sinks_def on_retention_def on_admin_def apply_redaction_def

lemma effect_cf_capture_port:
  "effect cf_capture_port (applyRaw pd raw) (file_value (rf_capture_port raw))"
  "effect cf_capture_port (applyEnv pd ul env) (env_value ParseInt env ''HTTPCATCH_CAPTURE_PORT'')"
  unfolding applyRaw_def applyEnv_def
  by (rule effect_at [where i = 0], simp_all add: raw_steps_def Let_def setting_effects on_defs)
     (rule effect_at [where i = 0], simp_all add: env_steps_def setting_effects on_defs)

lemma effect_cf_capture_bind:
  "effect cf_capture_bind (applyRaw pd raw) (file_value (rf_capture_bind raw))"
  "effect cf_capture_bind (applyEnv pd ul env) (env_value Some env ''HTTPCATCH_CAPTURE_BIND'')"
  unfolding applyRaw_def applyEnv_def
  by (rule effect_at [where i = 1], simp_all add: raw_steps_def Let_def setting_effects on_defs)
     (rule effect_at [where i = 7], simp_all add: env_steps_def setting_effects on_defs)

lemma effect_cf_queue_size:
  "effect cf_queue_size (applyRaw pd raw) (file_value (rf_queue_size raw))"
  "effect cf_queue_size (applyEnv pd ul env) (env_value ParseInt env ''HTTPCATCH_QUEUE_SIZE'')"
  unfolding applyRaw_def applyEnv_def
  by (rule effect_at [where i = 2], simp_all add: raw_steps_def Let_def setting_effects on_defs)
     (rule effect_at [where i = 1], simp_all add: env_steps_def setting_effects on_defs)

lemma effect_cf_body_cap:
  "effect cf_body_cap (applyRaw pd raw) (file_value (rf_body_cap raw))"
  "effect cf_body_cap (applyEnv pd ul env) (env_value ParseInt env ''HTTPCATCH_BODY_CAP'')"
  unfolding applyRaw_def applyEnv_def
  by (rule effect_at [where i = 3], simp_all add: raw_steps_def Let_def setting_effects on_defs)
     (rule effect_at [where i = 2], simp_all add: env_steps_def setting_effects on_defs)

lemma effect_cf_max_events_payload:
  "effect cf_max_events_payload (applyRaw pd raw) (file_value (rf_max_events_payload raw))"
  "effect cf_max_events_payload (applyEnv pd ul env) (env_value ParseInt env ''HTTPCATCH_MAX_EVENTS_PAYLOAD'')"
  unfolding applyRaw_def applyEnv_def
  by (rule effect_at [where i = 4], simp_all add: raw_steps_def Let_def setting_effects on_defs)
     (rule effect_at [where i = 3], simp_all add: env_steps_def setting_effects on_defs)

lemma effect_cf_max_events_per_batch:
  "effect cf_max_events_per_batch (applyRaw pd raw) (file_value (rf_max_events_per_batch raw))"
  "effect cf_max_events_per_batch (applyEnv pd ul env) (env_value ParseInt env ''HTTPCATCH_MAX_EVENTS_PER_BATCH'')"
  unfolding applyRaw_def applyEnv_def
  by (rule effect_at [where i = 5], simp_all add: raw_steps_def Let_def setting_effects on_defs)
     (rule effect_at [where i = 4], simp_all add: env_steps_def setting_effects on_defs)

lemma effect_cf_workers:
  "effect cf_workers (applyRaw pd raw) (file_value (rf_workers raw))"
  "effect cf_workers (applyEnv pd ul env) (env_value ParseInt env ''HTTPCATCH_WORKER_COUNT'')"
  unfolding applyRaw_def applyEnv_def
  by (rule effect_at [where i = 6], simp_all add: raw_steps_def Let_def setting_effects on_defs)
     (rule effect_at [where i = 5], simp_all add: env_steps_def setting_effects on_defs)

lemma effect_cf_service_header:
  "effect cf_service_header (applyRaw pd raw) (file_value (rf_service_header raw))"
  "effect cf_service_header (applyEnv pd ul env) (env_value Some env ''HTTPCATCH_SERVICE_HEADER'')"
  unfolding applyRaw_def applyEnv_def
  by (rule effect_at [where i = 7], simp_all add: raw_steps_def Let_def setting_effects on_defs)
     (rule effect_at [where i = 8], simp_all add: env_steps_def setting_effects on_defs)

lemma effect_cf_log_format:
  "effect cf_log_format (applyRaw pd raw) (file_value (rf_log_format raw))"
  "effect cf_log_format (applyEnv pd ul env) (env_value Some env ''HTTPCATCH_LOG_FORMAT'')"
  unfolding applyRaw_def applyEnv_def
  by (rule effect_at [where i = 8], simp_all add: raw_steps_def Let_def setting_effects on_defs)
     (rule effect_at [where i = 9], simp_all add: env_steps_def setting_effects on_defs)

lemma effect_to_read_header:
  "effect (\<lambda>c. to_read_header (cf_timeouts c)) (applyRaw pd raw) (file_duration pd (Option.bind (rf_timeouts raw) rw_read_header))"
  "effect (\<lambda>c. to_read_header (cf_timeouts c)) (applyEnv pd ul env) (env_value pd env ''HTTPCATCH_READ_HEADER_TIMEOUT'')"
  unfolding applyRaw_def applyEnv_def
  by (rule effect_at [where i = 9], simp_all add: raw_steps_def Let_def setting_effects on_defs)
     (rule effect_at [where i = 15], simp_all add: env_steps_def setting_effects on_defs)

lemma effect_to_read:
  "effect (\<lambda>c. to_read (cf_timeouts c)) (applyRaw pd raw) (file_duration pd (Option.bind (rf_timeouts raw) rw_read))"
  "effect (\<lambda>c. to_read (cf_timeouts c)) (applyEnv pd ul env) (env_value pd env ''HTTPCATCH_READ_TIMEOUT'')"
  unfolding applyRaw_def applyEnv_def
  by (rule effect_at [where i = 10], simp_all add: raw_steps_def Let_def setting_effects on_defs)
     (rule effect_at [where i = 16], simp_all add: env_steps_def setting_effects on_defs)

lemma effect_to_write:
  "effect (\<lambda>c. to_write (cf_timeouts c)) (applyRaw pd raw) (file_duration pd (Option.bind (rf_timeouts raw) rw_write))"
  "effect (\<lambda>c. to_write (cf_timeouts c)) (applyEnv pd ul env) (env_value pd env ''HTTPCATCH_WRITE_TIMEOUT'')"
  unfolding applyRaw_def applyEnv_def
  by (rule effect_at [where i = 11], simp_all add: raw_steps_def Let_def setting_effects on_defs)
     (rule effect_at [where i = 17], simp_all add: env_steps_def setting_effects on_defs)

lemma effect_to_idle:
  "effect (\<lambda>c. to_idle (cf_timeouts c)) (applyRaw pd raw) (file_duration pd (Option.bind (rf_timeouts raw) rw_idle))"
  "effect (\<lambda>c. to_idle (cf_timeouts c)) (applyEnv pd ul env) (env_value pd env ''HTTPCATCH_IDLE_TIMEOUT'')"
  unfolding applyRaw_def applyEnv_def
  by (rule effect_at [where i = 12], simp_all add: raw_steps_def Let_def setting_effects on_defs)
     (rule effect_at [where i = 18], simp_all add: env_steps_def setting_effects on_defs)

lemma effect_sk_memory_capacity:
  "effect (\<lambda>c. sk_memory_capacity (cf_sinks c)) (applyRaw pd raw) (file_value (rs_memory_capacity (rf_sinks raw)))"
  "effect (\<lambda>c. sk_memory_capacity (cf_sinks c)) (applyEnv pd ul env) (env_value ParseInt env ''HTTPCATCH_MEMORY_CAPACITY'')"
  unfolding applyRaw_def applyEnv_def
  by (rule effect_at [where i = 15], simp_all add: raw_steps_def Let_def setting_effects on_defs)
     (rule effect_at [where i = 6], simp_all add: env_steps_def setting_effects on_defs)

lemma effect_sk_sqlite_path:
  "effect (\<lambda>c. sk_sqlite_path (cf_sinks c)) (applyRaw pd raw) (file_value (rs_sqlite_path (rf_sinks raw)))"
  "effect (\<lambda>c. sk_sqlite_path (cf_sinks c)) (applyEnv pd ul env) (env_value Some env ''HTTPCATCH_SQLITE_PATH'')"
  unfolding applyRaw_def applyEnv_def
  by (rule effect_at [where i = 17], simp_all add: raw_steps_def Let_def setting_effects on_defs)
     (rule effect_at [where i = 10], simp_all add: env_steps_def setting_effects on_defs)

lemma effect_rt_max_age:
  "effect (\<lambda>c. rt_max_age (sk_retention (cf_sinks c))) (applyRaw pd raw) (file_duration pd (Option.bind (rs_retention (rf_sinks raw)) rr_max_age))"
  "effect (\<lambda>c. rt_max_age (sk_retention (cf_sinks c))) (applyEnv pd ul env) (env_value pd env ''HTTPCATCH_SINKS_RETENTION_MAX_AGE'')"
  unfolding applyRaw_def applyEnv_def
  by (rule effect_at [where i = 18], simp_all add: raw_steps_def Let_def setting_effects on_defs)
     (rule effect_at [where i = 11], simp_all add: env_steps_def setting_effects on_defs)

lemma effect_rt_interval:
  "effect (\<lambda>c. rt_interval (sk_retention (cf_sinks c))) (applyRaw pd raw) (file_duration pd (Option.bind (rs_retention (rf_sinks raw)) rr_interval))"
  "effect (\<lambda>c. rt_interval (sk_retention (cf_sinks c))) (applyEnv pd ul env) (env_value pd env ''HTTPCATCH_SINKS_RETENTION_INTERVAL'')"
  unfolding applyRaw_def applyEnv_def
  by (rule effect_at [where i = 19], simp_all add: raw_steps_def Let_def setting_effects on_defs)
     (rule effect_at [where i = 12], simp_all add: env_steps_def setting_effects on_defs)

lemma effect_rt_max_count:
  "effect (\<lambda>c. rt_max_count (sk_retention (cf_sinks c))) (applyRaw pd raw) (file_value (Option.bind (rs_retention (rf_sinks raw)) rr_max_count))"
  "effect (\<lambda>c. rt_max_count (sk_retention (cf_sinks c))) (applyEnv pd ul env) (env_value ParseInt env ''HTTPCATCH_SINKS_RETENTION_MAX_COUNT'')"
  unfolding applyRaw_def applyEnv_def
  by (rule effect_at [where i = 20], simp_all add: raw_steps_def Let_def setting_effects on_defs)
     (rule effect_at [where i = 13], simp_all add: env_steps_def setting_effects on_defs)

lemma effect_ad_bind:
  "effect (\<lambda>c. ad_bind (cf_admin c)) (applyRaw pd raw) (file_value (Option.bind (rf_admin raw) ra_bind))"
  "effect (\<lambda>c. ad_bind (cf_admin c)) (applyEnv pd ul env) (env_value Some env ''HTTPCATCH_ADMIN_BIND'')"
  unfolding applyRaw_def applyEnv_def
  by (rule effect_at [where i = 22], simp_all add: raw_steps_def Let_def setting_effects on_defs)
     (rule effect_at [where i = 19], simp_all add: env_steps_def setting_effects on_defs)

lemma effect_ad_token:
  "effect (\<lambda>c. ad_token (cf_admin c)) (applyRaw pd raw) (file_value (Option.bind (rf_admin raw) ra_token))"
  "effect (\<lambda>c. ad_token (cf_admin c)) (applyEnv pd ul env) (env_value Some env ''HTTPCATCH_ADMIN_TOKEN'')"
  unfolding applyRaw_def applyEnv_def
  by (rule effect_at [where i = 23], simp_all add: raw_steps_def Let_def setting_effects on_defs)
     (rule effect_at [where i = 20], simp_all add: env_steps_def setting_effects on_defs)

lemma effect_ad_insecure_listen:
  "effect (\<lambda>c. ad_insecure_listen (cf_admin c)) (applyRaw pd raw) (file_value (Option.bind (rf_admin raw) ra_insecure_listen))"
  "effect (\<lambda>c. ad_insecure_listen (cf_admin c)) (applyEnv pd ul env) (env_value bool_of_env env ''HTTPCATCH_ADMIN_INSECURE_LISTEN'')"
  unfolding applyRaw_def applyEnv_def
  by (rule effect_at [where i = 24], simp_all add: raw_steps_def Let_def setting_effects on_defs)
     (rule effect_at [where i = 21], simp_all add: env_steps_def setting_effects on_defs)

lemma effect_ad_session_ttl:
  "effect (\<lambda>c. ad_session_ttl (cf_admin c)) (applyRaw pd raw) (file_duration pd (Option.bind (rf_admin raw) ra_session_ttl))"
  "effect (\<lambda>c. ad_session_ttl (cf_admin c)) (applyEnv pd ul env) (env_value pd env ''HTTPCATCH_ADMIN_SESSION_TTL'')"
  unfolding applyRaw_def applyEnv_def
  by (rule effect_at [where i = 25], simp_all add: raw_steps_def Let_def setting_effects on_defs)
     (rule effect_at [where i = 22], simp_all add: env_steps_def setting_effects on_defs)

lemma effect_ad_session_secure:
  "effect (\<lambda>c. ad_session_secure (cf_admin c)) (applyRaw pd raw) (file_value (Option.bind (rf_admin raw) ra_session_secure))"
  "effect (\<lambda>c. ad_session_secure (cf_admin c)) (applyEnv pd ul env) (env_value bool_of_env env ''HTTPCATCH_ADMIN_SESSION_SECURE'')"
  unfolding applyRaw_def applyEnv_def
  by (rule effect_at [where i = 26], simp_all add: raw_steps_def Let_def setting_effects on_defs)
     (rule effect_at [where i = 23], simp_all add: env_steps_def setting_effects on_defs)

lemma effect_ic_query_timeout:
  "effect (\<lambda>c. ic_query_timeout (cf_inspect c)) (applyRaw pd raw) (file_duration pd (Option.bind (rf_inspect raw) ri_query_timeout))"
  "effect (\<lambda>c. ic_query_timeout (cf_inspect c)) (applyEnv pd ul env) (env_value pd env ''HTTPCATCH_INSPECT_QUERY_TIMEOUT'')"
  unfolding applyRaw_def applyEnv_def
  by (rule effect_at [where i = 27], simp_all add: raw_steps_def Let_def setting_effects on_defs)
     (rule effect_at [where i = 24], simp_all add: env_steps_def setting_effects on_defs)


section \<open>Properties\<close>

lemma two_stages:
  "effect g A f \<Longrightarrow> effect g B h \<Longrightarrow> A c = Inr c0 \<Longrightarrow> B c0 = Inr c1 \<Longrightarrow> g c1 = h (f (g c))"
  by (simp add: effect_def)

text \<open>What the file contributes when there is none.\<close>

definition no_file :: raw_config where
  "no_file = \<lparr>rf_capture_port = None, rf_capture_bind = None, rf_queue_size = None, rf_body_cap = None,
     rf_max_events_payload = None, rf_max_events_per_batch = None, rf_workers = None, rf_service_header = None,
     rf_log_format = None, rf_timeouts = None,
     rf_sinks = \<lparr>rs_stdout = None, rs_memory = None, rs_memory_capacity = None, rs_sqlite = None,
       rs_sqlite_path = None, rs_retention = None\<rparr>,
     rf_redaction = None, rf_admin = None, rf_inspect = None\<rparr>"

lemma applyRaw_no_file: "applyRaw pd no_file c = Inr c"
  by (simp add: applyRaw_def raw_steps_def no_file_def set_opt_def set_duration_def Let_def)

definition file_read :: "load_libs \<Rightarrow> string \<Rightarrow> raw_config \<Rightarrow> bool" where
  "file_read L path raw =
     (if path = [] then raw = no_file else \<exists>data. ll_read L path = Some data \<and> ll_yaml L data = Inr raw)"

lemma Load_stages:
  assumes "Load L path env = Inr cfg"
  obtains raw cfg0 cfg1 where "file_read L path raw" and "applyRaw (ll_duration L) raw (Defaults (ll_cpus L)) = Inr cfg0"
    and "applyEnv (ll_duration L) (ll_lower L) env cfg0 = Inr cfg1"
    and "cfg = (if cf_capture_bind cfg1 = [] then cfg1\<lparr>cf_capture_bind := ''0.0.0.0:'' @ Itoa (cf_capture_port cfg1)\<rparr> else cfg1)"
    and "Validate cfg = []"
proof -
  obtain cfg0 where f: "load_file L path = Inr cfg0" using assms by (auto simp: Load_def split: sum.splits)
  obtain cfg1 where e: "applyEnv (ll_duration L) (ll_lower L) env cfg0 = Inr cfg1"
    using assms f by (auto simp: Load_def split: sum.splits)
  obtain raw where r: "file_read L path raw" "applyRaw (ll_duration L) raw (Defaults (ll_cpus L)) = Inr cfg0"
    using f by (auto simp: load_file_def file_read_def applyRaw_no_file Let_def split: if_splits option.splits sum.splits)
  show thesis using that [OF r e] assms f e by (auto simp: Load_def Let_def split: if_splits)
qed

text \<open>
  Where every setting comes from: the environment variable when it is set, else the file when
  it names the setting, else the default.
\<close>

definition general_settings :: "load_libs \<Rightarrow> env \<Rightarrow> raw_config \<Rightarrow> config \<Rightarrow> bool" where
  "general_settings L env raw cfg =
     (let pd = ll_duration L; base = Defaults (ll_cpus L) in
      cf_capture_port cfg = env_value ParseInt env ''HTTPCATCH_CAPTURE_PORT'' (file_value (rf_capture_port raw) (cf_capture_port base)) \<and>
      cf_queue_size cfg = env_value ParseInt env ''HTTPCATCH_QUEUE_SIZE'' (file_value (rf_queue_size raw) (cf_queue_size base)) \<and>
      cf_body_cap cfg = env_value ParseInt env ''HTTPCATCH_BODY_CAP'' (file_value (rf_body_cap raw) (cf_body_cap base)) \<and>
      cf_max_events_payload cfg = env_value ParseInt env ''HTTPCATCH_MAX_EVENTS_PAYLOAD'' (file_value (rf_max_events_payload raw) (cf_max_events_payload base)) \<and>
      cf_max_events_per_batch cfg = env_value ParseInt env ''HTTPCATCH_MAX_EVENTS_PER_BATCH'' (file_value (rf_max_events_per_batch raw) (cf_max_events_per_batch base)) \<and>
      cf_workers cfg = env_value ParseInt env ''HTTPCATCH_WORKER_COUNT'' (file_value (rf_workers raw) (cf_workers base)) \<and>
      cf_service_header cfg = env_value Some env ''HTTPCATCH_SERVICE_HEADER'' (file_value (rf_service_header raw) (cf_service_header base)) \<and>
      cf_log_format cfg = env_value Some env ''HTTPCATCH_LOG_FORMAT'' (file_value (rf_log_format raw) (cf_log_format base)))"

definition timeouts_settings :: "load_libs \<Rightarrow> env \<Rightarrow> raw_config \<Rightarrow> config \<Rightarrow> bool" where
  "timeouts_settings L env raw cfg =
     (let pd = ll_duration L; base = Defaults (ll_cpus L) in
      to_read_header (cf_timeouts cfg) = env_value pd env ''HTTPCATCH_READ_HEADER_TIMEOUT'' (file_duration pd (Option.bind (rf_timeouts raw) rw_read_header) (to_read_header (cf_timeouts base))) \<and>
      to_read (cf_timeouts cfg) = env_value pd env ''HTTPCATCH_READ_TIMEOUT'' (file_duration pd (Option.bind (rf_timeouts raw) rw_read) (to_read (cf_timeouts base))) \<and>
      to_write (cf_timeouts cfg) = env_value pd env ''HTTPCATCH_WRITE_TIMEOUT'' (file_duration pd (Option.bind (rf_timeouts raw) rw_write) (to_write (cf_timeouts base))) \<and>
      to_idle (cf_timeouts cfg) = env_value pd env ''HTTPCATCH_IDLE_TIMEOUT'' (file_duration pd (Option.bind (rf_timeouts raw) rw_idle) (to_idle (cf_timeouts base))) \<and>
      ic_query_timeout (cf_inspect cfg) = env_value pd env ''HTTPCATCH_INSPECT_QUERY_TIMEOUT'' (file_duration pd (Option.bind (rf_inspect raw) ri_query_timeout) (ic_query_timeout (cf_inspect base))))"

definition sinks_settings :: "load_libs \<Rightarrow> env \<Rightarrow> raw_config \<Rightarrow> config \<Rightarrow> bool" where
  "sinks_settings L env raw cfg =
     (let pd = ll_duration L; base = Defaults (ll_cpus L) in
      sk_memory_capacity (cf_sinks cfg) = env_value ParseInt env ''HTTPCATCH_MEMORY_CAPACITY'' (file_value (rs_memory_capacity (rf_sinks raw)) (sk_memory_capacity (cf_sinks base))) \<and>
      sk_sqlite_path (cf_sinks cfg) = env_value Some env ''HTTPCATCH_SQLITE_PATH'' (file_value (rs_sqlite_path (rf_sinks raw)) (sk_sqlite_path (cf_sinks base))) \<and>
      rt_max_age (sk_retention (cf_sinks cfg)) = env_value pd env ''HTTPCATCH_SINKS_RETENTION_MAX_AGE'' (file_duration pd (Option.bind (rs_retention (rf_sinks raw)) rr_max_age) (rt_max_age (sk_retention (cf_sinks base)))) \<and>
      rt_interval (sk_retention (cf_sinks cfg)) = env_value pd env ''HTTPCATCH_SINKS_RETENTION_INTERVAL'' (file_duration pd (Option.bind (rs_retention (rf_sinks raw)) rr_interval) (rt_interval (sk_retention (cf_sinks base)))) \<and>
      rt_max_count (sk_retention (cf_sinks cfg)) = env_value ParseInt env ''HTTPCATCH_SINKS_RETENTION_MAX_COUNT'' (file_value (Option.bind (rs_retention (rf_sinks raw)) rr_max_count) (rt_max_count (sk_retention (cf_sinks base)))))"

definition admin_settings :: "load_libs \<Rightarrow> env \<Rightarrow> raw_config \<Rightarrow> config \<Rightarrow> bool" where
  "admin_settings L env raw cfg =
     (let pd = ll_duration L; base = Defaults (ll_cpus L) in
      ad_bind (cf_admin cfg) = env_value Some env ''HTTPCATCH_ADMIN_BIND'' (file_value (Option.bind (rf_admin raw) ra_bind) (ad_bind (cf_admin base))) \<and>
      ad_token (cf_admin cfg) = env_value Some env ''HTTPCATCH_ADMIN_TOKEN'' (file_value (Option.bind (rf_admin raw) ra_token) (ad_token (cf_admin base))) \<and>
      ad_insecure_listen (cf_admin cfg) = env_value bool_of_env env ''HTTPCATCH_ADMIN_INSECURE_LISTEN'' (file_value (Option.bind (rf_admin raw) ra_insecure_listen) (ad_insecure_listen (cf_admin base))) \<and>
      ad_session_ttl (cf_admin cfg) = env_value pd env ''HTTPCATCH_ADMIN_SESSION_TTL'' (file_duration pd (Option.bind (rf_admin raw) ra_session_ttl) (ad_session_ttl (cf_admin base))) \<and>
      ad_session_secure (cf_admin cfg) = env_value bool_of_env env ''HTTPCATCH_ADMIN_SESSION_SECURE'' (file_value (Option.bind (rf_admin raw) ra_session_secure) (ad_session_secure (cf_admin base))))"

lemma all_settings:
  assumes r: "applyRaw (ll_duration L) raw (Defaults (ll_cpus L)) = Inr cfg0"
    and e: "applyEnv (ll_duration L) (ll_lower L) env cfg0 = Inr cfg1"
  shows "general_settings L env raw cfg1"
    "timeouts_settings L env raw cfg1"
    "sinks_settings L env raw cfg1"
    "admin_settings L env raw cfg1"
  unfolding general_settings_def timeouts_settings_def sinks_settings_def admin_settings_def Let_def
  by (intro conjI; (rule two_stages [OF effect_cf_capture_port r e] two_stages [OF effect_cf_capture_bind r e] two_stages [OF effect_cf_queue_size r e] two_stages [OF effect_cf_body_cap r e] two_stages [OF effect_cf_max_events_payload r e] two_stages [OF effect_cf_max_events_per_batch r e] two_stages [OF effect_cf_workers r e] two_stages [OF effect_cf_service_header r e] two_stages [OF effect_cf_log_format r e] two_stages [OF effect_to_read_header r e] two_stages [OF effect_to_read r e] two_stages [OF effect_to_write r e] two_stages [OF effect_to_idle r e] two_stages [OF effect_sk_memory_capacity r e] two_stages [OF effect_sk_sqlite_path r e] two_stages [OF effect_rt_max_age r e] two_stages [OF effect_rt_interval r e] two_stages [OF effect_rt_max_count r e] two_stages [OF effect_ad_bind r e] two_stages [OF effect_ad_token r e] two_stages [OF effect_ad_insecure_listen r e] two_stages [OF effect_ad_session_ttl r e] two_stages [OF effect_ad_session_secure r e] two_stages [OF effect_ic_query_timeout r e]))+


text \<open>
  A configuration that loads is one the components can run with: both ports are in range
  and the capture address splits into host and port, the queue, the worker pool and the
  memory ring are not empty, no limit or timeout is negative, sessions live, the log format
  is known, at most one retention limit is set and only with the SQLite sink on.
\<close>

theorem config_well_formed:
  assumes "Load L path env = Inr cfg"
  shows "1 \<le> cf_capture_port cfg \<and> cf_capture_port cfg \<le> 65535 \<and>
    (\<exists>host port n. SplitHostPort (cf_capture_bind cfg) = Some (host, port) \<and> ParseInt port = Some n \<and> 1 \<le> n \<and> n \<le> 65535) \<and>
    1 \<le> cf_queue_size cfg \<and> 1 \<le> cf_workers cfg \<and> 1 \<le> sk_memory_capacity (cf_sinks cfg) \<and>
    0 \<le> cf_body_cap cfg \<and> 0 \<le> cf_max_events_payload cfg \<and> 0 \<le> cf_max_events_per_batch cfg \<and>
    0 \<le> to_read_header (cf_timeouts cfg) \<and> 0 \<le> to_read (cf_timeouts cfg) \<and> 0 \<le> to_write (cf_timeouts cfg) \<and>
    0 \<le> to_idle (cf_timeouts cfg) \<and> 0 \<le> ic_query_timeout (cf_inspect cfg) \<and> 0 < ad_session_ttl (cf_admin cfg) \<and>
    cf_log_format cfg \<in> {''text'', ''json''} \<and>
    (let r = sk_retention (cf_sinks cfg) in
     0 \<le> rt_max_age r \<and> 0 \<le> rt_max_count r \<and> 0 \<le> rt_interval r \<and> (rt_max_age r = 0 \<or> rt_max_count r = 0) \<and>
     (if sk_sqlite (cf_sinks cfg) then sk_sqlite_path (cf_sinks cfg) \<noteq> []
      else rt_max_age r = 0 \<and> rt_max_count r = 0 \<and> rt_interval r = 0))"
proof -
  obtain cfg1 where c: "cfg = (if cf_capture_bind cfg1 = [] then cfg1\<lparr>cf_capture_bind := ''0.0.0.0:'' @ Itoa (cf_capture_port cfg1)\<rparr> else cfg1)"
    and v: "Validate cfg = []"
    using Load_stages [OF assms] by metis
  have "cf_capture_bind cfg \<noteq> []" using c by auto
  then have "valid_bind (cf_capture_bind cfg)" using v by (auto simp: Validate_def report_def Let_def split: if_splits)
  then have "\<exists>host port n. SplitHostPort (cf_capture_bind cfg) = Some (host, port) \<and> ParseInt port = Some n \<and> 1 \<le> n \<and> n \<le> 65535"
    by (auto simp: valid_bind_def split: option.splits)
  then show ?thesis using v by (auto simp: Validate_def report_def Let_def split: if_splits)
qed

text \<open>A loader for the examples: no file, no duration parser, two CPUs.\<close>

definition sample_libs :: load_libs where
  "sample_libs = \<lparr>ll_cpus = 2, ll_lower = map ascii_lower, ll_duration = (\<lambda>s. None), ll_read = (\<lambda>p. None), ll_yaml = (\<lambda>s. Inl [])\<rparr>"

definition sample_env :: env where
  "sample_env name = (if name = ''HTTPCATCH_QUEUE_SIZE'' then ''7'' else if name = ''HTTPCATCH_SINKS'' then ''stdout,,Memory'' else [])"

lemma sample_load: "\<exists>cfg. Load sample_libs [] sample_env = Inr cfg"
proof -
  have 1: "ParseInt ''7'' = Some 7" by code_simp
  have 2: "filter (\<lambda>f. f \<noteq> []) (split_on (CHR '','') ''stdout,,Memory'') = [''stdout'', ''Memory'']" by code_simp
  have 3: "ToLower (map ascii_lower) (TrimSpace ''stdout'') = ''stdout''" "ToLower (map ascii_lower) (TrimSpace ''Memory'') = ''memory''"
    by code_simp+
  have 4: "valid_bind ''0.0.0.0:8080''" by code_simp
  have 5: "Itoa 8080 = ''8080''" by (simp add: Itoa_def nat_digits.simps digit_char_def char_of_def bit_0)
  show ?thesis
    by (simp add: Load_def load_file_def applyEnv_def env_steps_def env_int_def env_text_def env_duration_def env_bool_def env_sinks_def
        sample_libs_def sample_env_def 1 2 3 4 5 on_defs Defaults_def second_def Validate_def report_def Let_def)
qed


theorem config_well_formed_witness:
  "\<exists>cfg. Load sample_libs [] sample_env = Inr cfg \<and> 0 < ad_session_ttl (cf_admin cfg) \<and> 1 \<le> cf_queue_size cfg"
proof -
  obtain cfg where l: "Load sample_libs [] sample_env = Inr cfg" using sample_load by blast
  with config_well_formed [OF l] show ?thesis by blast
qed

end
