(* ===== verification/Limiter.thy ===== *)
theory Limiter
  imports Capture Complex_Main
begin

text \<open>
  The token buckets of internal/admin/authlimit.go. A float64 is a rational number and every
  float64 operation is the exact operation followed by the rounding \<open>rnd\<close>, an argument of the
  model; \<open>ieee_round\<close> states the three facts of IEEE 754 binary64 rounding the lemmas rely
  on. Each operation takes the clock reading as an argument; the mutex makes it atomic.
\<close>

section \<open>Durations and float64\<close>

definition ieee_round :: "(rat \<Rightarrow> rat) \<Rightarrow> bool" where
  "ieee_round rnd \<longleftrightarrow>
     (\<forall>x y. x \<le> y \<longrightarrow> rnd x \<le> rnd y) \<and>
     (\<forall>n :: int. \<bar>n\<bar> \<le> 2 ^ 53 \<longrightarrow> rnd (of_int n) = of_int n) \<and>
     (\<forall>x. \<bar>rnd x - x\<bar> \<le> \<bar>x\<bar> / 2 ^ 53 + 1 / 2 ^ 1074)"

abbreviation Second :: int where
  "Second \<equiv> 1000000000"

text \<open>\<open>time.Time.Sub\<close> saturates at the int64 range; \<open>Duration.Seconds\<close> adds two float64 parts.\<close>

definition time_sub :: "time \<Rightarrow> time \<Rightarrow> int" where
  "time_sub t u = max (- (2 ^ 63)) (min (2 ^ 63 - 1) (t - u))"

definition Seconds :: "(rat \<Rightarrow> rat) \<Rightarrow> int \<Rightarrow> rat" where
  "Seconds rnd d =
     (let sec = go_div d Second; nsec = d - sec * Second in
      rnd (rnd (of_int sec) + rnd (rnd (of_int nsec) / 1000000000)))"

section \<open>The limiter\<close>

definition authLimitPerIPCapacity :: rat where "authLimitPerIPCapacity = 5"
definition authLimitGlobalCapacity :: rat where "authLimitGlobalCapacity = 20"

definition perIPRefillRate :: "(rat \<Rightarrow> rat) \<Rightarrow> rat" where
  "perIPRefillRate rnd = rnd (authLimitPerIPCapacity / Seconds rnd (30 * Second))"

definition globalRefillRate :: "(rat \<Rightarrow> rat) \<Rightarrow> rat" where
  "globalRefillRate rnd = rnd (authLimitGlobalCapacity / Seconds rnd Second)"

record auth_bucket =
  ab_tokens :: rat
  ab_last_seen :: time

record auth_limiter =
  al_per_ip :: "string \<rightharpoonup> auth_bucket"
  al_global :: auth_bucket
  al_invalid_token :: counter
  al_rate_limited :: counter
  al_csrf_blocked :: counter

definition NewAuthLimiter :: auth_limiter where
  "NewAuthLimiter =
     \<lparr>al_per_ip = Map.empty, al_global = \<lparr>ab_tokens = authLimitGlobalCapacity, ab_last_seen = zero_time\<rparr>,
      al_invalid_token = 0, al_rate_limited = 0, al_csrf_blocked = 0\<rparr>"

definition ClientIP :: "string \<Rightarrow> string" where
  "ClientIP remoteAddr = (case SplitHostPort remoteAddr of None \<Rightarrow> remoteAddr | Some (host, _) \<Rightarrow> host)"

definition refillTokens :: "(rat \<Rightarrow> rat) \<Rightarrow> auth_bucket \<Rightarrow> rat \<Rightarrow> rat \<Rightarrow> time \<Rightarrow> rat" where
  "refillTokens rnd b capacity refillPerSec now =
     (let e = Seconds rnd (time_sub now (ab_last_seen b));
          elapsed = (if e < 0 then 0 else e);
          t = rnd (ab_tokens b + rnd (elapsed * refillPerSec))
      in if t > capacity then capacity else t)"

definition Allowed :: "(rat \<Rightarrow> rat) \<Rightarrow> time \<Rightarrow> string \<Rightarrow> auth_limiter \<Rightarrow> bool \<times> auth_limiter" where
  "Allowed rnd now ip l =
     (if refillTokens rnd (al_global l) authLimitGlobalCapacity (globalRefillRate rnd) now < 1 then (False, l)
      else (case al_per_ip l ip of
              None \<Rightarrow> (True, l\<lparr>al_per_ip := (al_per_ip l)(ip \<mapsto>
                 \<lparr>ab_tokens = authLimitPerIPCapacity, ab_last_seen = now\<rparr>)\<rparr>)
            | Some b \<Rightarrow> (refillTokens rnd b authLimitPerIPCapacity (perIPRefillRate rnd) now \<ge> 1, l)))"

definition debit :: "(rat \<Rightarrow> rat) \<Rightarrow> rat \<Rightarrow> rat" where
  "debit rnd t = (if t > 0 then rnd (t - 1) else t)"

definition RegisterFailure :: "(rat \<Rightarrow> rat) \<Rightarrow> time \<Rightarrow> string \<Rightarrow> auth_limiter \<Rightarrow> auth_limiter" where
  "RegisterFailure rnd now ip l =
     (let gt = refillTokens rnd (al_global l) authLimitGlobalCapacity (globalRefillRate rnd) now;
          b = (case al_per_ip l ip of Some b \<Rightarrow> b
               | None \<Rightarrow> \<lparr>ab_tokens = authLimitPerIPCapacity, ab_last_seen = zero_time\<rparr>);
          bt = refillTokens rnd b authLimitPerIPCapacity (perIPRefillRate rnd) now
      in l\<lparr>al_global := \<lparr>ab_tokens = debit rnd gt, ab_last_seen = now\<rparr>,
           al_per_ip := (al_per_ip l)(ip \<mapsto> \<lparr>ab_tokens = debit rnd bt, ab_last_seen = now\<rparr>)\<rparr>)"

text \<open>The float64 to int64 conversion truncates.\<close>

definition RetryAfter :: "(rat \<Rightarrow> rat) \<Rightarrow> time \<Rightarrow> string \<Rightarrow> auth_limiter \<Rightarrow> int" where
  "RetryAfter rnd now ip l =
     (let gt = refillTokens rnd (al_global l) authLimitGlobalCapacity (globalRefillRate rnd) now;
          globalWait = (if gt < 1 \<and> globalRefillRate rnd > 0 then rnd (rnd (1 - gt) / globalRefillRate rnd) else 0);
          perIPWait = (case al_per_ip l ip of
             None \<Rightarrow> 0
           | Some b \<Rightarrow>
               (let bt = refillTokens rnd b authLimitPerIPCapacity (perIPRefillRate rnd) now in
                if bt < 1 \<and> perIPRefillRate rnd > 0 then rnd (rnd (1 - bt) / perIPRefillRate rnd) else 0));
          waitSecs = max globalWait perIPWait;
          d = \<lfloor>rnd (waitSecs * 1000000000)\<rfloor>
      in max (go_div (d + Second - 1) Second * Second) Second)"

definition RecordInvalidToken :: "auth_limiter \<Rightarrow> auth_limiter" where
  "RecordInvalidToken l = l\<lparr>al_invalid_token := al_invalid_token l + 1\<rparr>"

definition RecordRateLimited :: "auth_limiter \<Rightarrow> auth_limiter" where
  "RecordRateLimited l = l\<lparr>al_rate_limited := al_rate_limited l + 1\<rparr>"

definition RecordCSRFBlocked :: "auth_limiter \<Rightarrow> auth_limiter" where
  "RecordCSRFBlocked l = l\<lparr>al_csrf_blocked := al_csrf_blocked l + 1\<rparr>"

definition sweep_limiter :: "time \<Rightarrow> auth_limiter \<Rightarrow> auth_limiter" where
  "sweep_limiter now l =
     l\<lparr>al_per_ip := (\<lambda>ip. case al_per_ip l ip of
        None \<Rightarrow> None
      | Some b \<Rightarrow> if time_sub now (ab_last_seen b) > 600 * Second then None else Some b)\<rparr>"

section \<open>Facts about rounding\<close>

definition eps :: rat where
  "eps = 1 / 2 ^ 46"

lemma eps_small: "0 < eps" "eps \<le> 1 / 1000000"
  by (simp_all add: eps_def)

lemma ieee_mono: "ieee_round rnd \<Longrightarrow> x \<le> y \<Longrightarrow> rnd x \<le> rnd y"
  by (simp add: ieee_round_def)

lemma ieee_int: "ieee_round rnd \<Longrightarrow> \<bar>n\<bar> \<le> 2 ^ 53 \<Longrightarrow> rnd (of_int n) = of_int n"
  unfolding ieee_round_def by blast

lemma ieee_small: "ieee_round rnd \<Longrightarrow> rnd 0 = 0" "ieee_round rnd \<Longrightarrow> rnd (-1) = -1"
  using ieee_int [of rnd 0] ieee_int [of rnd "-1"] by simp_all

lemma ieee_err:
  assumes "ieee_round rnd" "\<bar>x\<bar> \<le> 64" shows "\<bar>rnd x - x\<bar> \<le> eps"
proof -
  have "\<bar>rnd x - x\<bar> \<le> \<bar>x\<bar> / 2 ^ 53 + 1 / 2 ^ 1074" using assms(1) by (simp add: ieee_round_def)
  also have "\<dots> \<le> 64 / 2 ^ 53 + 1 / 2 ^ 1074" using assms(2) by (simp add: divide_right_mono)
  also have "\<dots> \<le> eps" by (simp add: eps_def)
  finally show ?thesis .
qed

lemma go_div_pos: "0 \<le> d \<Longrightarrow> go_div d Second = d div Second"
  by (cases "d = 0") (simp_all add: go_div_def sgn_if)

lemma Seconds_err:
  assumes "ieee_round rnd" "0 \<le> d" "d \<le> 60 * Second"
  shows "0 \<le> Seconds rnd d" "\<bar>Seconds rnd d - of_int d / 1000000000\<bar> \<le> 2 * eps"
proof -
  define s where "s = d div Second"
  define n where "n = d - s * Second"
  have s: "0 \<le> s" "s \<le> 60" unfolding s_def using assms(2,3) by linarith+
  have n: "0 \<le> n" "n < Second" using pos_mod_bound [of Second d] pos_mod_sign [of Second d]
    by (simp_all add: n_def s_def minus_div_mult_eq_mod)
  have ri: "rnd (of_int s) = of_int s" "rnd (of_int n) = of_int n" using s n by (auto intro!: ieee_int [OF assms(1)])
  define f where "f = rnd (of_int n / 1000000000)"
  have n1: "0 \<le> (of_int n :: rat) / 1000000000" "(of_int n :: rat) / 1000000000 \<le> 1"
    using n by (simp_all add: divide_le_eq)
  then have f: "\<bar>f - of_int n / 1000000000\<bar> \<le> eps" unfolding f_def by (intro ieee_err [OF assms(1)]) simp
  have f0: "0 \<le> f" using ieee_mono [OF assms(1) n1(1)] ieee_small(1) [OF assms(1)] by (simp add: f_def)
  have sr: "0 \<le> (of_int s :: rat)" "(of_int s :: rat) \<le> 60" using s by simp_all
  have b: "\<bar>of_int s + f\<bar> \<le> 64" using f f0 sr n1 eps_small by linarith
  have sec: "Seconds rnd d = rnd (of_int s + f)"
  proof -
    have "Seconds rnd d = rnd (rnd (of_int s) + rnd (rnd (of_int n) / 1000000000))"
      unfolding Seconds_def Let_def go_div_pos [OF assms(2)] s_def n_def by (rule refl)
    then show ?thesis by (simp only: ri f_def)
  qed
  have "\<bar>rnd (of_int s + f) - (of_int s + f)\<bar> \<le> eps" by (rule ieee_err [OF assms(1) b])
  moreover have "(of_int d :: rat) / 1000000000 = of_int s + of_int n / 1000000000"
    by (simp add: n_def field_simps)
  ultimately show "\<bar>Seconds rnd d - of_int d / 1000000000\<bar> \<le> 2 * eps" using f unfolding sec by linarith
  have "rnd 0 \<le> rnd (of_int s + f)" using sr f0 by (intro ieee_mono [OF assms(1)]) simp
  then show "0 \<le> Seconds rnd d" using ieee_small(1) [OF assms(1)] by (simp add: sec)
qed

lemma Seconds_int:
  assumes "ieee_round rnd" "0 \<le> k" "k \<le> 60" shows "Seconds rnd (k * Second) = of_int k"
proof -
  have "go_div (k * Second) Second = k" using assms(2) by (subst go_div_pos) simp_all
  moreover have "rnd (of_int k) = of_int k" using assms(2,3) by (intro ieee_int [OF assms(1)]) simp
  ultimately show ?thesis using ieee_small(1) [OF assms(1)] by (simp add: Seconds_def)
qed

lemma perIPRate: "ieee_round rnd \<Longrightarrow> \<bar>perIPRefillRate rnd - 1 / 6\<bar> \<le> eps"
  using ieee_err [of rnd "1 / 6"] Seconds_int [of rnd 30] by (simp add: perIPRefillRate_def authLimitPerIPCapacity_def)

section \<open>The per-IP bucket\<close>

definition bucket_ok :: "time \<Rightarrow> auth_bucket \<Rightarrow> bool" where
  "bucket_ok t b \<longleftrightarrow> -1 \<le> ab_tokens b \<and> ab_tokens b \<le> 5 \<and> ab_last_seen b \<le> t"

lemma time_sub_small: "u \<le> t \<Longrightarrow> t - u \<le> 60 * Second \<Longrightarrow> time_sub t u = t - u"
  by (simp add: time_sub_def)

lemma product_gap: "(s :: rat) * r - x * k = (s - x) * r + x * (r - k)"
  by (simp add: algebra_simps)

lemma elapsed_credit:
  assumes "ieee_round rnd" "0 \<le> d" "d \<le> 60 * Second"
  defines "c \<equiv> rnd (Seconds rnd d * perIPRefillRate rnd)"
  shows "0 \<le> c" "\<bar>c - of_int d / 6000000000\<bar> \<le> 62 * eps"
proof -
  let ?s = "Seconds rnd d" and ?r = "perIPRefillRate rnd"
  note sec = Seconds_err [OF assms(1-3)]
  have r: "\<bar>?r - 1 / 6\<bar> \<le> eps" by (rule perIPRate [OF assms(1)])
  have d: "0 \<le> (of_int d :: rat) / 1000000000" "(of_int d :: rat) / 1000000000 \<le> 60"
    using assms(2,3) by (simp_all add: divide_le_eq)
  have r0: "0 \<le> ?r" "?r \<le> 1 / 2" using r eps_small by linarith+
  have "\<bar>?s * ?r - of_int d / 1000000000 * (1 / 6)\<bar> \<le> \<bar>?s - of_int d / 1000000000\<bar> * ?r + of_int d / 1000000000 * \<bar>?r - 1 / 6\<bar>"
  proof -
    have "?s * ?r - of_int d / 1000000000 * (1 / 6) = (?s - of_int d / 1000000000) * ?r + of_int d / 1000000000 * (?r - 1 / 6)"
      by (rule product_gap)
    also have "\<bar>\<dots>\<bar> \<le> \<bar>(?s - of_int d / 1000000000) * ?r\<bar> + \<bar>of_int d / 1000000000 * (?r - 1 / 6)\<bar>" by (rule abs_triangle_ineq)
    finally show ?thesis using r0 d by (simp add: abs_mult)
  qed
  also have "\<dots> \<le> 2 * eps * (1 / 2) + 60 * eps"
  proof (rule add_mono)
    show "\<bar>?s - of_int d / 1000000000\<bar> * ?r \<le> 2 * eps * (1 / 2)" using sec(2) r0 eps_small by (intro mult_mono) simp_all
    show "of_int d / 1000000000 * \<bar>?r - 1 / 6\<bar> \<le> 60 * eps" using d r eps_small by (intro mult_mono) simp_all
  qed
  finally have p: "\<bar>?s * ?r - of_int d / 6000000000\<bar> \<le> 61 * eps" by simp
  have "\<bar>?s * ?r\<bar> \<le> 64" using p d eps_small by linarith
  from ieee_err [OF assms(1) this] p show "\<bar>c - of_int d / 6000000000\<bar> \<le> 62 * eps" unfolding c_def by linarith
  show "0 \<le> c" using ieee_mono [OF assms(1), of 0 "?s * ?r"] sec(1) r0 ieee_small(1) [OF assms(1)] by (simp add: c_def)
qed

text \<open>Refilling and debiting: the tokens stay in range and gain at most a sixth of a token per second.\<close>

abbreviation ip_refill :: "(rat \<Rightarrow> rat) \<Rightarrow> auth_bucket \<Rightarrow> time \<Rightarrow> rat" where
  "ip_refill rnd b t \<equiv> refillTokens rnd b authLimitPerIPCapacity (perIPRefillRate rnd) t"

lemma refill_range:
  assumes "ieee_round rnd" "bucket_ok t b"
  shows "-1 \<le> ip_refill rnd b t" "ip_refill rnd b t \<le> 5"
proof -
  let ?e = "Seconds rnd (time_sub t (ab_last_seen b))"
  have r: "0 \<le> perIPRefillRate rnd" using perIPRate [OF assms(1)] eps_small by linarith
  have "0 \<le> (if ?e < 0 then 0 else ?e) * perIPRefillRate rnd" using r by simp
  then have "0 \<le> rnd ((if ?e < 0 then 0 else ?e) * perIPRefillRate rnd)"
    using ieee_mono [OF assms(1)] ieee_small(1) [OF assms(1)] by metis
  then have "-1 \<le> ab_tokens b + rnd ((if ?e < 0 then 0 else ?e) * perIPRefillRate rnd)"
    using assms(2) by (simp add: bucket_ok_def)
  then have "-1 \<le> rnd (ab_tokens b + rnd ((if ?e < 0 then 0 else ?e) * perIPRefillRate rnd))"
    using ieee_mono [OF assms(1)] ieee_small(2) [OF assms(1)] by metis
  then show "-1 \<le> ip_refill rnd b t" by (simp add: refillTokens_def Let_def authLimitPerIPCapacity_def)
  show "ip_refill rnd b t \<le> 5" by (simp add: refillTokens_def Let_def authLimitPerIPCapacity_def)
qed

lemma refill_gain:
  assumes "ieee_round rnd" "bucket_ok t b"
  shows "ip_refill rnd b t \<le> ab_tokens b + of_int (t - ab_last_seen b) / 6000000000 + 63 * eps"
proof (cases "t - ab_last_seen b \<le> 60 * Second")
  case True
  let ?d = "t - ab_last_seen b"
  have d: "0 \<le> ?d" using assms(2) by (simp add: bucket_ok_def)
  note c = elapsed_credit [OF assms(1) d True]
  have ts: "time_sub t (ab_last_seen b) = ?d" using True d by (intro time_sub_small) simp_all
  have nn: "\<not> Seconds rnd ?d < 0" using Seconds_err(1) [OF assms(1) d True] by simp
  let ?c = "rnd (Seconds rnd ?d * perIPRefillRate rnd)"
  have b: "0 \<le> (of_int ?d :: rat) / 6000000000" "(of_int ?d :: rat) / 6000000000 \<le> 10"
    using d True by (simp_all add: divide_le_eq)
  have "-1 \<le> ab_tokens b" "ab_tokens b \<le> 5" using assms(2) by (simp_all add: bucket_ok_def)
  then have "\<bar>ab_tokens b + ?c\<bar> \<le> 64" using c b eps_small by linarith
  from ieee_err [OF assms(1) this] c have "rnd (ab_tokens b + ?c) \<le> ab_tokens b + of_int ?d / 6000000000 + 63 * eps" by linarith
  moreover have "ip_refill rnd b t \<le> rnd (ab_tokens b + ?c)" using nn by (simp add: refillTokens_def Let_def ts)
  ultimately show ?thesis by linarith
next
  case False
  then have "10 \<le> (of_int (t - ab_last_seen b) :: rat) / 6000000000"
    using of_int_le_iff [of "60 * Second" "t - ab_last_seen b", where 'a = rat] by (simp add: le_divide_eq)
  with refill_range(2) [OF assms] assms(2) eps_small show ?thesis unfolding bucket_ok_def by linarith
qed

lemma debit_range:
  assumes "ieee_round rnd" "-1 \<le> x" "x \<le> 5" shows "-1 \<le> debit rnd x" "debit rnd x \<le> 5"
proof -
  have m: "rnd (x - 1) \<le> rnd (of_int 4)" by (rule ieee_mono [OF assms(1)]) (use assms in simp)
  have "rnd (of_int 4) = of_int 4" by (rule ieee_int [OF assms(1)]) simp
  with m assms show "debit rnd x \<le> 5" by (simp add: debit_def)
  show "-1 \<le> debit rnd x"
  proof (cases "x > 0")
    case True
    then have "rnd (-1) \<le> rnd (x - 1)" by (intro ieee_mono [OF assms(1)]) simp
    with True ieee_small(2) [OF assms(1)] show ?thesis by (simp add: debit_def)
  qed (use assms in \<open>simp add: debit_def\<close>)
qed

lemma debit_allowed:
  assumes "ieee_round rnd" "1 \<le> x" "x \<le> 5" shows "0 \<le> debit rnd x" "debit rnd x \<le> x - 1 + eps"
proof -
  have "rnd 0 \<le> rnd (x - 1)" by (rule ieee_mono [OF assms(1)]) (use assms in simp)
  then show "0 \<le> debit rnd x" using ieee_small(1) [OF assms(1)] assms by (simp add: debit_def)
  have "\<bar>rnd (x - 1) - (x - 1)\<bar> \<le> eps" by (rule ieee_err [OF assms(1)]) (use assms in simp)
  then show "debit rnd x \<le> x - 1 + eps" using assms by (simp add: debit_def)
qed

section \<open>A guessing client\<close>

text \<open>
  What the middleware and the login handler do with a wrong credential: ask \<open>Allowed\<close>, and
  register the failure when the attempt was let through. The sweeper runs in between.
\<close>

datatype limiter_event = Attempt string time | Sweep time

definition attempt :: "(rat \<Rightarrow> rat) \<Rightarrow> time \<Rightarrow> string \<Rightarrow> auth_limiter \<Rightarrow> bool \<times> auth_limiter" where
  "attempt rnd t ip l = (case Allowed rnd t ip l of (ok, l1) \<Rightarrow> (ok, if ok then RegisterFailure rnd t ip l1 else l1))"

fun guess_run :: "(rat \<Rightarrow> rat) \<Rightarrow> string \<Rightarrow> limiter_event list \<Rightarrow> auth_limiter \<Rightarrow> nat \<times> auth_limiter" where
  "guess_run rnd ip [] l = (0, l)"
| "guess_run rnd ip (Attempt ip' t # es) l =
     (let (ok, l1) = attempt rnd t ip' l; (n, l2) = guess_run rnd ip es l1 in
      (if ok \<and> ip' = ip then n + 1 else n, l2))"
| "guess_run rnd ip (Sweep t # es) l = guess_run rnd ip es (sweep_limiter t l)"

fun event_time :: "limiter_event \<Rightarrow> time" where
  "event_time (Attempt ip t) = t"
| "event_time (Sweep t) = t"

definition earned :: "time \<Rightarrow> rat" where
  "earned d = of_int d / 6000000000"

definition credit :: "time \<Rightarrow> time \<Rightarrow> nat \<Rightarrow> string \<Rightarrow> auth_limiter \<Rightarrow> bool" where
  "credit t0 t n ip l \<longleftrightarrow> t0 \<le> t \<and> (case al_per_ip l ip of
      None \<Rightarrow> of_nat n * (1 - 64 * eps) \<le> earned (t - t0)
    | Some b \<Rightarrow> bucket_ok t b \<and>
        (0 < n \<longrightarrow> t0 \<le> ab_last_seen b \<and> 0 \<le> ab_tokens b \<and>
           of_nat n * (1 - 64 * eps) + ab_tokens b \<le> 5 + earned (ab_last_seen b - t0)))"

lemma earned_mono: "a \<le> b \<Longrightarrow> earned a \<le> earned b"
  by (simp add: earned_def divide_right_mono)

lemma earned_pos: "0 \<le> d \<Longrightarrow> 0 \<le> earned d"
  by (simp add: earned_def)

lemma earned_split: "earned (t - t0) = earned (t - u) + earned (u - t0)"
  by (simp add: earned_def add_divide_distrib [symmetric])

lemma credit_later: "credit t0 t n ip l \<Longrightarrow> t \<le> t' \<Longrightarrow> credit t0 t' n ip l"
  using earned_mono [of "t - t0" "t' - t0"] by (auto simp: credit_def bucket_ok_def split: option.splits)

lemma credit_bound: "credit t0 t n ip l \<Longrightarrow> of_nat n * (1 - 64 * eps) \<le> 5 + earned (t - t0)"
proof (cases "n = 0")
  case True
  then show "credit t0 t n ip l \<Longrightarrow> ?thesis" using earned_pos [of "t - t0"] by (simp add: credit_def)
next
  case False
  assume c: "credit t0 t n ip l"
  show ?thesis
  proof (cases "al_per_ip l ip")
    case None
    with c show ?thesis by (simp add: credit_def)
  next
    case (Some b)
    then have "of_nat n * (1 - 64 * eps) \<le> 5 + earned (ab_last_seen b - t0)" "ab_last_seen b \<le> t"
      using c False by (simp_all add: credit_def bucket_ok_def)
    with earned_mono [of "ab_last_seen b - t0" "t - t0"] show ?thesis by linarith
  qed
qed

text \<open>An attempt that is let through costs a token.\<close>

lemma credit_spend:
  assumes "ieee_round rnd" "t0 \<le> t" "bucket_ok t b" "1 \<le> ip_refill rnd b t"
    and "0 < n \<longrightarrow> t0 \<le> ab_last_seen b \<and> of_nat n * (1 - 64 * eps) + ab_tokens b \<le> 5 + earned (ab_last_seen b - t0)"
  defines "x \<equiv> debit rnd (ip_refill rnd b t)"
  shows "0 \<le> x" "x \<le> 5" "of_nat (Suc n) * (1 - 64 * eps) + x \<le> 5 + earned (t - t0)"
proof -
  note r = refill_range(2) [OF assms(1,3)]
  note d = debit_allowed [OF assms(1,4) r]
  show "0 \<le> x" "x \<le> 5" using d r eps_small unfolding x_def by linarith+
  show "of_nat (Suc n) * (1 - 64 * eps) + x \<le> 5 + earned (t - t0)"
  proof (cases "n = 0")
    case True
    have "0 \<le> earned (t - t0)" using assms(2) by (intro earned_pos) simp
    with d r eps_small have "1 - 64 * eps + x \<le> 5 + earned (t - t0)" unfolding x_def by linarith
    with True show ?thesis by simp
  next
    case False
    note earned_split [of t t0 "ab_last_seen b"]
    moreover have "of_nat (Suc n) * (1 - 64 * eps) = of_nat n * (1 - 64 * eps) + (1 - 64 * eps)" by (simp add: algebra_simps)
    ultimately show ?thesis using False assms(5) refill_gain [OF assms(1,3)] d
      unfolding x_def earned_def by linarith
  qed
qed

lemma Allowed_other: "ip' \<noteq> ip \<Longrightarrow> al_per_ip (snd (attempt rnd t ip' l)) ip = al_per_ip l ip"
  by (auto simp: attempt_def Allowed_def RegisterFailure_def Let_def split: option.splits)

lemma credit_attempt:
  assumes "ieee_round rnd" "credit t0 t n ip l" "t \<le> t'" "attempt rnd t' ip' l = (ok, l')"
  shows "credit t0 t' (if ok \<and> ip' = ip then n + 1 else n) ip l'"
proof (cases "ip' = ip")
  case False
  have "al_per_ip l' ip = al_per_ip l ip" using Allowed_other [OF False, of rnd t' l] assms(4) by simp
  then show ?thesis using False credit_later [OF assms(2,3)] by (simp add: credit_def)
next
  case True
  note c = credit_later [OF assms(2,3)]
  then have t0: "t0 \<le> t'" by (simp add: credit_def)
  show ?thesis
  proof (cases ok)
    case False
    then have "l' = l" using assms(4) True by (auto simp: attempt_def Allowed_def split: option.splits if_splits)
    with False c show ?thesis by simp
  next
    case ok: True
    define b where "b = (case al_per_ip l ip of Some b \<Rightarrow> b | None \<Rightarrow> \<lparr>ab_tokens = 5, ab_last_seen = t'\<rparr>)"
    have bok: "bucket_ok t' b" using c by (auto simp: b_def credit_def bucket_ok_def split: option.splits)
    have prev: "0 < n \<longrightarrow> t0 \<le> ab_last_seen b \<and> of_nat n * (1 - 64 * eps) + ab_tokens b \<le> 5 + earned (ab_last_seen b - t0)"
      using c t0 by (auto simp: b_def credit_def split: option.splits)
    have l': "al_per_ip l' ip = Some \<lparr>ab_tokens = debit rnd (ip_refill rnd b t'), ab_last_seen = t'\<rparr>"
      using assms(4) True ok
      by (auto simp: attempt_def Allowed_def RegisterFailure_def Let_def b_def authLimitPerIPCapacity_def split: option.splits if_splits)
    have one: "1 \<le> ip_refill rnd b t'"
    proof (cases "al_per_ip l ip")
      case (Some b0)
      with assms(4) True ok show ?thesis
        by (auto simp: attempt_def Allowed_def b_def split: if_splits)
    next
      case None
      then have "b = \<lparr>ab_tokens = 5, ab_last_seen = t'\<rparr>" by (simp add: b_def)
      moreover have "Seconds rnd (time_sub t' t') = 0" using Seconds_int [OF assms(1), of 0] by (simp add: time_sub_def)
      moreover have "rnd 5 = 5" using ieee_int [OF assms(1), of 5] by simp
      ultimately show ?thesis using ieee_small(1) [OF assms(1)]
        by (simp add: refillTokens_def Let_def authLimitPerIPCapacity_def)
    qed
    from credit_spend [OF assms(1) t0 bok one prev] l' ok True t0 show ?thesis
      by (simp add: credit_def bucket_ok_def)
  qed
qed

lemma credit_sweep:
  assumes "credit t0 t n ip l" "t \<le> t'" shows "credit t0 t' n ip (sweep_limiter t' l)"
proof (cases "al_per_ip l ip")
  case None
  with credit_later [OF assms] show ?thesis by (simp add: credit_def sweep_limiter_def)
next
  case (Some b)
  note c = credit_later [OF assms]
  show ?thesis
  proof (cases "time_sub t' (ab_last_seen b) > 600 * Second")
    case False
    with Some c show ?thesis by (simp add: credit_def sweep_limiter_def)
  next
    case True
    then have "600 * Second \<le> t' - ab_last_seen b" by (simp add: time_sub_def)
    then have "100 \<le> earned (t' - ab_last_seen b)"
      using of_int_le_iff [of "600 * Second" "t' - ab_last_seen b", where 'a = rat] by (simp add: earned_def le_divide_eq)
    moreover note earned_split [of t' t0 "ab_last_seen b"]
    moreover have "0 < n \<Longrightarrow> of_nat n * (1 - 64 * eps) \<le> 5 + earned (ab_last_seen b - t0)"
      using c Some by (simp add: credit_def)
    moreover have "n = 0 \<Longrightarrow> of_nat n * (1 - 64 * eps) \<le> earned (t' - t0)"
      using c earned_pos [of "t' - t0"] by (simp add: credit_def)
    ultimately have "of_nat n * (1 - 64 * eps) \<le> earned (t' - t0)" by (cases "n = 0") linarith+
    with True Some c show ?thesis by (simp add: credit_def sweep_limiter_def)
  qed
qed

lemma guess_run_credit:
  assumes "ieee_round rnd"
  shows "credit t0 t n ip l \<Longrightarrow> sorted (t # map event_time es) \<Longrightarrow> guess_run rnd ip es l = (k, l') \<Longrightarrow>
    \<exists>t'. credit t0 t' (n + k) ip l' \<and> t' \<in> set (t # map event_time es)"
proof (induction es arbitrary: t n l k l')
  case (Cons e es)
  show ?case
  proof (cases e)
    case (Attempt ip' s)
    obtain ok l1 where a: "attempt rnd s ip' l = (ok, l1)" by (cases "attempt rnd s ip' l")
    obtain m l2 where g: "guess_run rnd ip es l1 = (m, l2)" by (cases "guess_run rnd ip es l1")
    have "t \<le> s" "sorted (s # map event_time es)" using Cons.prems(2) Attempt by simp_all
    from Cons.IH [OF credit_attempt [OF assms Cons.prems(1) this(1) a] this(2) g]
    show ?thesis using Cons.prems(3) Attempt a g by (auto split: if_splits)
  next
    case (Sweep s)
    have "t \<le> s" "sorted (s # map event_time es)" using Cons.prems(2) Sweep by simp_all
    from Cons.IH [OF credit_sweep [OF Cons.prems(1) this(1)] this(2)] Cons.prems(3) Sweep
    show ?thesis by auto
  qed
qed auto

section \<open>Properties\<close>


lemma ieee_round_id: "ieee_round (\<lambda>x. x)"
  by (simp add: ieee_round_def)


text \<open>
  The lockout ends: an address with no failure in the last thirteen seconds is let
  through again, provided the global bucket holds a token; an address the limiter does not
  know is never blocked by its own bucket; and asking does not spend a token.
\<close>

lemma lockout_ends:
  assumes "ieee_round rnd" and "1 \<le> refillTokens rnd (al_global l) authLimitGlobalCapacity (globalRefillRate rnd) t"
    and "\<forall>b. al_per_ip l ip = Some b \<longrightarrow> bucket_ok t b \<and> 13 * Second \<le> t - ab_last_seen b \<and> t - ab_last_seen b \<le> 60 * Second"
  shows "fst (Allowed rnd t ip l) \<and> al_global (snd (Allowed rnd t ip l)) = al_global l"
proof (cases "al_per_ip l ip")
  case None
  with assms(2) show ?thesis by (simp add: Allowed_def)
next
  case (Some b)
  let ?d = "t - ab_last_seen b"
  have b: "bucket_ok t b" "13 * Second \<le> ?d" "?d \<le> 60 * Second" "0 \<le> ?d" using assms(3) Some by auto
  let ?c = "rnd (Seconds rnd ?d * perIPRefillRate rnd)"
  note c = elapsed_credit(2) [OF assms(1) b(4,3)]
  have e: "13 / 6 \<le> (of_int ?d :: rat) / 6000000000" "(of_int ?d :: rat) / 6000000000 \<le> 10"
    using b(2,3) of_int_le_iff [of "13 * Second" ?d, where 'a = rat] by (simp_all add: divide_le_eq le_divide_eq)
  have "rnd 1 \<le> rnd (ab_tokens b + ?c)"
    by (rule ieee_mono [OF assms(1)]) (use b(1) c e eps_small in \<open>unfold bucket_ok_def, linarith\<close>)
  moreover have "rnd 1 = 1" using ieee_int [OF assms(1), of 1] by simp
  moreover have "time_sub t (ab_last_seen b) = ?d" using b by (intro time_sub_small) simp_all
  moreover have "\<not> Seconds rnd ?d < 0" using Seconds_err(1) [OF assms(1) b(4,3)] by simp
  ultimately have "1 \<le> ip_refill rnd b t" by (simp add: refillTokens_def Let_def authLimitPerIPCapacity_def)
  with Some assms(2) show ?thesis by (simp add: Allowed_def)
qed

text \<open>
  \<open>RetryAfter\<close> always names a whole number of seconds, at least one, so the header the
  middleware sends is a positive integer.
\<close>

lemma retry_after_whole_seconds:
  "RetryAfter rnd now ip l \<ge> Second \<and> RetryAfter rnd now ip l mod Second = 0"
  by (auto simp: RetryAfter_def Let_def max_def)

end
