(* ===== verification/Ui_Pages.thy ===== *)
theory Ui_Pages
  imports Ui_Views Config Limiter
begin

text \<open>
  The remaining pages of the admin port: services and configuration (internal/admin/ui_views.go),
  static assets (static.go), healthz.go and the root redirect. The YAML
  encoder, the HTML template and SHA-256 are arguments: \<open>yaml\<close> returns None when encoding fails,
  \<open>render\<close> when the template fails, and \<open>sha_hex\<close> is the hexadecimal digest of a byte string.
  float64 arithmetic is rounded by \<open>rnd\<close>, as in Limiter.
\<close>

section \<open>Services\<close>

record status_segment =
  sg_class :: string
  sg_count :: int
  sg_pct :: rat

record service_card =
  sv_name :: string
  sv_requests :: int
  sv_last_seen :: string
  sv_responses :: int
  sv_segments :: "status_segment list"

record services_page_data =
  sp_error :: "read_error option"
  sp_services :: "service_card list"
  sp_since :: string
  sp_until :: string

definition Minute :: int where "Minute = 60 * 1000000000"
definition Hour :: int where "Hour = 3600 * 1000000000"

text \<open>\<open>Duration.Minutes\<close> and \<open>Duration.Hours\<close> add an integral and a fractional float64 part.\<close>

definition duration_in :: "(rat \<Rightarrow> rat) \<Rightarrow> int \<Rightarrow> int \<Rightarrow> rat" where
  "duration_in rnd unit_ns d =
     (let n = go_div d unit_ns; rest = d - n * unit_ns in
      rnd (rnd (of_int n) + rnd (rnd (of_int rest) / of_int unit_ns)))"

text \<open>A float64 to int conversion truncates; the values converted here are not negative.\<close>

definition relativeTime :: "(rat \<Rightarrow> rat) \<Rightarrow> time \<Rightarrow> time \<Rightarrow> string" where
  "relativeTime rnd t now =
     (if t = zero_time then []
      else (let d = time_sub now t in
        if d < Minute then ''just now''
        else if d < Hour then Itoa \<lfloor>duration_in rnd Minute d\<rfloor> @ ''m ago''
        else if d < 24 * Hour then Itoa \<lfloor>duration_in rnd Hour d\<rfloor> @ ''h ago''
        else Itoa \<lfloor>rnd (duration_in rnd Hour d / 24)\<rfloor> @ ''d ago''))"

definition status_classes :: "service_stat \<Rightarrow> (string \<times> int) list" where
  "status_classes st = [(''2xx'', ss_s2xx st), (''3xx'', ss_s3xx st), (''4xx'', ss_s4xx st),
     (''5xx'', ss_s5xx st), (''other'', ss_other st)]"

definition buildServiceCard :: "(rat \<Rightarrow> rat) \<Rightarrow> service_stat \<Rightarrow> time \<Rightarrow> service_card" where
  "buildServiceCard rnd st now =
     (let responses = wrap64 (ss_s2xx st + ss_s3xx st + ss_s4xx st + ss_s5xx st + ss_other st) in
      \<lparr>sv_name = ss_name st, sv_requests = ss_requests st, sv_last_seen = relativeTime rnd (ss_last_seen st) now,
       sv_responses = responses,
       sv_segments =
         (if responses > 0 then
            map (\<lambda>(nm, n). \<lparr>sg_class = nm, sg_count = n,
                sg_pct = rnd (rnd (rnd (of_int n) / rnd (of_int responses)) * 100)\<rparr>)
              (filter (\<lambda>(nm, n). n \<noteq> 0) (status_classes st))
          else [])\<rparr>)"

definition servicesUIHandler :: "(rat \<Rightarrow> rat) \<Rightarrow> (time \<Rightarrow> string) \<Rightarrow> read_sources \<Rightarrow> time \<Rightarrow> services_page_data" where
  "servicesUIHandler rnd fmt_time rs now =
     (let since = now - servicesSince;
          data = \<lparr>sp_error = None, sp_services = [], sp_since = fmt_time since, sp_until = fmt_time now\<rparr>
      in case serviceAggregateReader rs of
           None \<Rightarrow> data
         | Some rd \<Rightarrow>
             (case ir_service_stats rd since of
                Inl e \<Rightarrow> data\<lparr>sp_error := Some e\<rparr>
              | Inr stats \<Rightarrow> data\<lparr>sp_services := map (\<lambda>st. buildServiceCard rnd st now) stats\<rparr>))"

section \<open>Configuration\<close>

definition adminTokenMaskUnset :: string where "adminTokenMaskUnset = ''<unset>''"
definition adminTokenMaskSet :: string where "adminTokenMaskSet = ''<set>''"

text \<open>\<open>template.HTMLEscapeString\<close>; a NUL byte becomes U+FFFD.\<close>

definition html_escape_byte :: "char \<Rightarrow> string" where
  "html_escape_byte c =
     (if c = CHR 0x00 then [CHR 0xEF, CHR 0xBF, CHR 0xBD]
      else if c = CHR 0x22 then ''&#34;'' else if c = CHR 0x27 then ''&#39;''
      else if c = CHR ''&'' then ''&amp;'' else if c = CHR ''<'' then ''&lt;''
      else if c = CHR ''>'' then ''&gt;'' else [c])"

definition HTMLEscapeString :: "string \<Rightarrow> string" where
  "HTMLEscapeString s = concat (map html_escape_byte s)"

definition anchor_char :: "char \<Rightarrow> bool" where
  "anchor_char c = (let n = (of_char c :: nat) in (97 \<le> n \<and> n \<le> 122) \<or> c = CHR ''_'')"

text \<open>One line of the multi-line pattern: a non-empty run of key characters at its start and a colon.\<close>

definition anchor_line :: "string \<Rightarrow> string" where
  "anchor_line l =
     (let key = takeWhile anchor_char l; rest = dropWhile anchor_char l in
      if key \<noteq> [] \<and> has_prefix rest '':''
      then ''<span id='' @ [CHR 0x22] @ key @ [CHR 0x22] @ ''>'' @ key @ ''</span>'' @ rest else l)"

definition injectConfigurationAnchors :: "string \<Rightarrow> string" where
  "injectConfigurationAnchors yamlText =
     join [CHR 0x0A] (map anchor_line (split_on (CHR 0x0A) (HTMLEscapeString yamlText)))"

definition masked_config :: "config \<Rightarrow> config" where
  "masked_config effective =
     on_admin (\<lambda>a. a\<lparr>ad_token := (if ad_token a = [] then adminTokenMaskUnset else adminTokenMaskSet)\<rparr>) effective"

record configuration_page_data =
  cp_yaml :: string
  cp_unredacted :: bool

record page_reply =
  pr_status :: int
  pr_headers :: hmap
  pr_body :: string

text \<open>The handler is built once; None is the panic of a failed encoding or template.\<close>

definition configurationUIHandler ::
  "(config \<Rightarrow> string option) \<Rightarrow> (configuration_page_data \<Rightarrow> string option) \<Rightarrow> (string \<Rightarrow> string) \<Rightarrow> config \<Rightarrow> bool \<Rightarrow> (http_request \<Rightarrow> page_reply) option" where
  "configurationUIHandler yaml render sha_hex effective unredacted =
     (case yaml (masked_config effective) of
        None \<Rightarrow> None
      | Some y \<Rightarrow>
          (case render \<lparr>cp_yaml = injectConfigurationAnchors y, cp_unredacted = unredacted\<rparr> of
             None \<Rightarrow> None
           | Some body \<Rightarrow>
               (let etag = [CHR 0x22] @ take 16 (sha_hex body) @ [CHR 0x22] in
                Some (\<lambda>r. if header_get (rq_header r) ''If-None-Match'' = etag
                  then \<lparr>pr_status = 304, pr_headers = [], pr_body = []\<rparr>
                  else \<lparr>pr_status = 200,
                    pr_headers = header_set (header_set (header_set [] ''Content-Type'' html_type) ''Cache-Control'' ''no-cache'') ''ETag'' etag,
                    pr_body = body\<rparr>))))"

section \<open>Static assets\<close>

definition allowedExtensions :: "(string \<times> string) list" where
  "allowedExtensions = [(''.css'', ''text/css; charset=utf-8''), (''.js'', ''application/javascript; charset=utf-8''),
     (''.png'', ''image/png''), (''.svg'', ''image/svg+xml''), (''.woff2'', ''font/woff2'')]"

text \<open>
  The embedded file system lists its readable regular files below \<open>ui\<close> with their bytes;
  \<open>path.Ext\<close> is the part from the last dot after the last slash.
\<close>

type_synonym ui_files = "(string \<times> string) list"

definition buildEtags :: "(string \<Rightarrow> string) \<Rightarrow> ui_files \<Rightarrow> (string \<times> string) list" where
  "buildEtags sha_hex files = map (\<lambda>(p, data). (p, [CHR 0x22] @ take 16 (sha_hex data) @ [CHR 0x22])) files"

definition path_ext :: "string \<Rightarrow> string" where
  "path_ext p =
     (case index_byte (takeWhile (\<lambda>c. c \<noteq> CHR ''/'') (rev p)) (CHR ''.'') of
        None \<Rightarrow> [] | Some i \<Rightarrow> drop (length p - 1 - i) p)"

definition TrimPrefix :: "string \<Rightarrow> string \<Rightarrow> string" where
  "TrimPrefix s p = (if has_prefix s p then drop (length p) s else s)"

definition http_not_found :: page_reply where
  "http_not_found = \<lparr>pr_status = 404, pr_headers = error_headers [], pr_body = ''404 page not found'' @ [CHR 0x0A]\<rparr>"

definition staticHandler :: "(string \<times> string) list \<Rightarrow> ui_files \<Rightarrow> http_request \<Rightarrow> page_reply" where
  "staticHandler etags files r =
     (let tail = TrimPrefix (rq_path r) ''/static/'' in
      if tail = [] \<or> contains tail ''/'' then http_not_found
      else (case map_of allowedExtensions (path_ext tail) of
              None \<Rightarrow> http_not_found
            | Some ct \<Rightarrow>
                (case map_of etags (''ui/'' @ tail) of
                   None \<Rightarrow> http_not_found
                 | Some etag \<Rightarrow>
                     if header_get (rq_header r) ''If-None-Match'' = etag
                     then \<lparr>pr_status = 304, pr_headers = [], pr_body = []\<rparr>
                     else (case map_of files (''ui/'' @ tail) of
                             None \<Rightarrow> http_not_found
                           | Some data \<Rightarrow>
                               \<lparr>pr_status = 200,
                                pr_headers = header_set (header_set (header_set [] ''Content-Type'' ct) ''Cache-Control'' ''no-cache'') ''ETag'' etag,
                                pr_body = data\<rparr>))))"

section \<open>Health and root\<close>

definition healthzHandler :: page_reply where
  "healthzHandler = \<lparr>pr_status = 200, pr_headers = header_set [] ''Content-Type'' ''text/plain; charset=utf-8'', pr_body = ''ok''\<rparr>"

text \<open>The target of the redirect.\<close>

definition rootRedirectHandler :: string where
  "rootRedirectHandler = ''/ui/requests''"

section \<open>The text of an HTML fragment\<close>

text \<open>What a reader of the page sees: tags are skipped and the escapes are decoded.\<close>

function html_text :: "string \<Rightarrow> string" where
  "html_text [] = []"
| "html_text (c # cs) =
     (if c = CHR ''<'' then html_text (drop 1 (dropWhile (\<lambda>d. d \<noteq> CHR ''>'') cs))
      else if c = CHR ''&'' \<and> prefix ''#34;'' cs then CHR 0x22 # html_text (drop 4 cs)
      else if c = CHR ''&'' \<and> prefix ''#39;'' cs then CHR 0x27 # html_text (drop 4 cs)
      else if c = CHR ''&'' \<and> prefix ''amp;'' cs then CHR ''&'' # html_text (drop 4 cs)
      else if c = CHR ''&'' \<and> prefix ''lt;'' cs then CHR ''<'' # html_text (drop 3 cs)
      else if c = CHR ''&'' \<and> prefix ''gt;'' cs then CHR ''>'' # html_text (drop 3 cs)
      else c # html_text cs)"
  by pat_completeness auto
termination
proof (relation "measure length")
  fix c and cs :: string
  show "(drop 1 (dropWhile (\<lambda>d. d \<noteq> CHR ''>'') cs), c # cs) \<in> measure length"
    using length_dropWhile_le [of "\<lambda>d. d \<noteq> CHR ''>''" cs] by simp
qed auto

declare html_text.simps(2) [simp del]

lemma html_text_plain: "c \<noteq> CHR ''<'' \<Longrightarrow> c \<noteq> CHR ''&'' \<Longrightarrow> html_text (c # cs) = c # html_text cs"
  by (simp add: html_text.simps)

lemma html_text_tag: "CHR ''>'' \<notin> set xs \<Longrightarrow> html_text (CHR ''<'' # xs @ CHR ''>'' # ys) = html_text ys"
proof -
  assume "CHR ''>'' \<notin> set xs"
  then have "dropWhile (\<lambda>d. d \<noteq> CHR ''>'') (xs @ CHR ''>'' # ys) = CHR ''>'' # ys"
    by (subst dropWhile_append2) auto
  then show ?thesis by (simp add: html_text.simps(2))
qed

definition shown_byte :: "char \<Rightarrow> string" where
  "shown_byte c = (if c = CHR 0x00 then [CHR 0xEF, CHR 0xBF, CHR 0xBD] else [c])"

definition shown :: "string \<Rightarrow> string" where
  "shown s = concat (map shown_byte s)"

lemma html_text_escaped: "html_text (html_escape_byte c @ t) = shown_byte c @ html_text t"
  by (auto simp: html_escape_byte_def shown_byte_def html_text.simps(2))

lemma html_text_escape: "html_text (HTMLEscapeString s @ t) = shown s @ html_text t"
  by (induction s) (simp_all add: HTMLEscapeString_def shown_def html_text_escaped)

lemma html_text_key: "list_all anchor_char key \<Longrightarrow> html_text (key @ t) = key @ html_text t"
proof (induction key)
  case (Cons c key)
  then have "c \<noteq> CHR ''<''" "c \<noteq> CHR ''&''" by (auto simp: anchor_char_def Let_def)
  then show ?case using Cons by (simp add: html_text_plain)
qed simp

lemma shown_key: "list_all anchor_char key \<Longrightarrow> shown key = key"
  by (induction key) (auto simp: shown_def shown_byte_def anchor_char_def Let_def)

lemma escape_key_byte: "anchor_char c \<Longrightarrow> html_escape_byte c = [c]"
  by (auto simp: html_escape_byte_def anchor_char_def Let_def)

lemma escape_other_byte: "\<not> anchor_char c \<Longrightarrow> \<exists>d ds. html_escape_byte c = d # ds \<and> \<not> anchor_char d"
  by (simp add: html_escape_byte_def anchor_char_def Let_def)

lemma escape_key:
  "takeWhile anchor_char (HTMLEscapeString l) = takeWhile anchor_char l"
  "dropWhile anchor_char (HTMLEscapeString l) = HTMLEscapeString (dropWhile anchor_char l)"
proof (induction l)
  case (Cons c l)
  { case 1 show ?case using Cons(1) escape_key_byte [of c] escape_other_byte [of c]
      by (cases "anchor_char c") (auto simp: HTMLEscapeString_def) }
  { case 2 show ?case using Cons(2) escape_key_byte [of c] escape_other_byte [of c]
      by (cases "anchor_char c") (auto simp: HTMLEscapeString_def) }
qed (simp_all add: HTMLEscapeString_def)

lemma html_text_anchor_line: "html_text (anchor_line (HTMLEscapeString l) @ t) = shown l @ html_text t"
proof -
  let ?key = "takeWhile anchor_char l" and ?rest = "dropWhile anchor_char l"
  have k: "list_all anchor_char ?key" by (auto simp: list_all_iff dest: set_takeWhileD)
  then have gt: "CHR ''>'' \<notin> set (''span id='' @ CHR 0x22 # ?key @ [CHR 0x22])" by (auto simp: list_all_iff anchor_char_def)
  have sk: "shown l = ?key @ shown ?rest"
    using shown_key [OF k] by (metis concat_append map_append shown_def takeWhile_dropWhile_id)
  show ?thesis
  proof (cases "?key \<noteq> [] \<and> has_prefix (HTMLEscapeString ?rest) '':''")
    case True
    then have a: "anchor_line (HTMLEscapeString l) @ t =
        CHR ''<'' # (''span id='' @ CHR 0x22 # ?key @ [CHR 0x22]) @ CHR ''>'' # ?key @
        CHR ''<'' # ''/span'' @ CHR ''>'' # HTMLEscapeString ?rest @ t"
      unfolding anchor_line_def escape_key Let_def by simp
    have b: "html_text (CHR ''<'' # (''span id='' @ CHR 0x22 # ?key @ [CHR 0x22]) @ CHR ''>'' # ?key @
        CHR ''<'' # ''/span'' @ CHR ''>'' # HTMLEscapeString ?rest @ t) = ?key @ html_text (CHR ''<'' # ''/span'' @ CHR ''>'' # HTMLEscapeString ?rest @ t)"
      unfolding html_text_tag [OF gt] html_text_key [OF k] ..
    have c: "html_text (CHR ''<'' # ''/span'' @ CHR ''>'' # HTMLEscapeString ?rest @ t) = shown ?rest @ html_text t"
      by (subst html_text_tag) (simp_all add: html_text_escape)
    have "html_text (anchor_line (HTMLEscapeString l) @ t) = ?key @ shown ?rest @ html_text t"
      unfolding a b c ..
    then show ?thesis by (simp only: sk append_assoc)
  next
    case False
    then have "anchor_line (HTMLEscapeString l) = HTMLEscapeString l"
      unfolding anchor_line_def escape_key Let_def by (rule if_not_P)
    then show ?thesis by (simp add: html_text_escape)
  qed
qed

lemma escape_newline: "html_escape_byte c = [CHR 0x0A] \<longleftrightarrow> c = CHR 0x0A" "c \<noteq> CHR 0x0A \<Longrightarrow> CHR 0x0A \<notin> set (html_escape_byte c)"
  by (auto simp: html_escape_byte_def)

lemma split_on_append_free:
  "sep \<notin> set p \<Longrightarrow> split_on sep (p @ s) = (case split_on sep s of q # qs \<Rightarrow> (p @ q) # qs | [] \<Rightarrow> [p])"
  by (induction p) (auto split: list.splits)

lemma split_escape: "split_on (CHR 0x0A) (HTMLEscapeString s) = map HTMLEscapeString (split_on (CHR 0x0A) s)"
proof (induction s)
  case (Cons c s)
  show ?case
  proof (cases "c = CHR 0x0A")
    case True
    then show ?thesis using Cons by (simp add: HTMLEscapeString_def html_escape_byte_def)
  next
    case False
    with Cons show ?thesis
      by (simp add: HTMLEscapeString_def split_on_append_free [OF escape_newline(2)] split: list.split)
  qed
qed (simp add: HTMLEscapeString_def)

lemma html_text_lines:
  "html_text (join [CHR 0x0A] (map (\<lambda>l. anchor_line (HTMLEscapeString l)) ls)) = join [CHR 0x0A] (map shown ls)"
proof (induction "[CHR 0x0A] :: string" ls rule: join.induct)
  case (2 l)
  show ?case using html_text_anchor_line [of l "[]"] by simp
next
  case (3 l m ls)
  then show ?case by (simp add: html_text_anchor_line html_text_plain)
qed simp

lemma shown_join: "join [CHR 0x0A] (map shown ls) = shown (join [CHR 0x0A] ls)"
  by (induction "[CHR 0x0A] :: string" ls rule: join.induct) (simp_all add: shown_def shown_byte_def)

lemma html_text_inject: "html_text (injectConfigurationAnchors y) = shown y"
  by (simp add: injectConfigurationAnchors_def split_escape comp_def html_text_lines shown_join join_split_on)

section \<open>Facts about the service cards\<close>

definition plausible_stat :: "service_stat \<Rightarrow> bool" where
  "plausible_stat st \<longleftrightarrow> 0 \<le> ss_s2xx st \<and> 0 \<le> ss_s3xx st \<and> 0 \<le> ss_s4xx st \<and> 0 \<le> ss_s5xx st \<and> 0 \<le> ss_other st \<and>
     ss_s2xx st + ss_s3xx st + ss_s4xx st + ss_s5xx st + ss_other st < 2 ^ 63"

lemma ieee_ratio:
  assumes "ieee_round rnd" "0 \<le> c" "c \<le> n" "0 < n"
  shows "0 \<le> rnd (rnd (rnd (of_int c) / rnd (of_int n)) * 100)" "rnd (rnd (rnd (of_int c) / rnd (of_int n)) * 100) \<le> 100"
proof -
  note mono = ieee_mono [OF assms(1)] and fix_int = ieee_int [OF assms(1)]
  have fixed: "rnd 0 = 0" "rnd 1 = 1" "rnd 100 = 100"
    using fix_int [of 0] fix_int [of 1] fix_int [of 100] by simp_all
  have n: "1 \<le> rnd (of_int n)" using mono [of 1 "of_int n"] assms(4) fixed(2) by simp
  have c: "0 \<le> rnd (of_int c)" "rnd (of_int c) \<le> rnd (of_int n)"
    using mono [of 0 "of_int c"] mono [of "of_int c" "of_int n"] assms(2,3) fixed(1) by simp_all
  have "0 \<le> rnd (of_int c) / rnd (of_int n)" "rnd (of_int c) / rnd (of_int n) \<le> 1"
    using n c by (simp_all add: divide_le_eq_1)
  from mono [OF this(1)] mono [OF this(2)]
  have "0 \<le> rnd (rnd (of_int c) / rnd (of_int n)) * 100" "rnd (rnd (of_int c) / rnd (of_int n)) * 100 \<le> 100"
    using fixed by simp_all
  from mono [OF this(1)] mono [OF this(2)] fixed
  show "0 \<le> rnd (rnd (rnd (of_int c) / rnd (of_int n)) * 100)" "rnd (rnd (rnd (of_int c) / rnd (of_int n)) * 100) \<le> 100"
    by simp_all
qed

lemma sum_nonzero: "sum_list (map snd (filter (\<lambda>(nm, n). n \<noteq> 0) xs)) = sum_list (map snd xs)" for xs :: "('a \<times> int) list"
  by (induction xs) auto

section \<open>Properties\<close>

text \<open>
  The status mix of a service card is exact: the responses of the card are the sum of the
  class counters, the segments are the classes with responses, once each and in the order 2xx to
  other, their counts add up to the number of responses, and each width is a percentage between
  0 and 100 whatever IEEE rounding does.
\<close>

theorem service_card_mix:
  assumes "ieee_round rnd" and "plausible_stat st"
  shows "let card = buildServiceCard rnd st now in
     sv_responses card = sum_list (map snd (status_classes st)) \<and>
     map (\<lambda>g. (sg_class g, sg_count g)) (sv_segments card) = filter (\<lambda>(nm, n). n > 0) (status_classes st) \<and>
     sum_list (map sg_count (sv_segments card)) = sv_responses card \<and>
     list_all (\<lambda>g. 0 \<le> sg_pct g \<and> sg_pct g \<le> 100) (sv_segments card)"
proof -
  let ?card = "buildServiceCard rnd st now" and ?n = "sum_list (map snd (status_classes st))"
  have n: "sv_responses ?card = ?n"
    using assms(2) by (simp add: buildServiceCard_def plausible_stat_def status_classes_def wrap64_id in_int64_def Let_def)
  have pos: "0 \<le> m" "m \<le> ?n" if "(nm, m) \<in> set (status_classes st)" for nm m
    using that assms(2) by (auto simp: status_classes_def plausible_stat_def)
  have zero: "?n \<le> 0 \<Longrightarrow> (nm, m) \<in> set (status_classes st) \<Longrightarrow> m = 0" for nm m using pos [of nm m] by linarith
  have f: "filter (\<lambda>(nm, n). n > 0) (status_classes st) = filter (\<lambda>(nm, n). n \<noteq> 0) (status_classes st)"
    using pos(1) by (intro filter_cong) fastforce+
  have segs: "sv_segments ?card = map (\<lambda>(nm, m). \<lparr>sg_class = nm, sg_count = m,
      sg_pct = rnd (rnd (rnd (of_int m) / rnd (of_int ?n)) * 100)\<rparr>) (filter (\<lambda>(nm, n). n \<noteq> 0) (status_classes st))"
  proof (cases "?n > 0")
    case True
    with n show ?thesis by (simp add: buildServiceCard_def Let_def)
  next
    case False
    then have "filter (\<lambda>(nm, n). n \<noteq> 0) (status_classes st) = []" using zero by (fastforce simp: filter_empty_conv)
    with False n show ?thesis by (simp add: buildServiceCard_def Let_def)
  qed
  have counts: "map (\<lambda>g. (sg_class g, sg_count g)) (sv_segments ?card) = filter (\<lambda>(nm, n). n \<noteq> 0) (status_classes st)"
    by (simp add: segs comp_def case_prod_beta)
  have "sum_list (map sg_count (sv_segments ?card)) = ?n"
    using sum_nonzero [of "status_classes st"] by (simp add: segs comp_def case_prod_beta)
  moreover have "list_all (\<lambda>g. 0 \<le> sg_pct g \<and> sg_pct g \<le> 100) (sv_segments ?card)"
    using ieee_ratio [OF assms(1) pos] zero by (fastforce simp: segs list_all_iff)
  ultimately show ?thesis using n counts f by (simp add: Let_def)
qed

theorem service_card_mix_witness:
  "map (\<lambda>g. (sg_class g, sg_count g)) (sv_segments (buildServiceCard (\<lambda>x. x)
     \<lparr>ss_name = ''api'', ss_requests = 9, ss_last_seen = 0, ss_s2xx = 3, ss_s3xx = 0, ss_s4xx = 1, ss_s5xx = 0, ss_other = 0\<rparr> 5)) =
   [(''2xx'', 3), (''4xx'', 1)]"
  using service_card_mix [of "\<lambda>x. x" "\<lparr>ss_name = ''api'', ss_requests = 9, ss_last_seen = 0, ss_s2xx = 3, ss_s3xx = 0, ss_s4xx = 1, ss_s5xx = 0, ss_other = 0\<rparr>" 5,
      OF ieee_round_id] by (simp add: plausible_stat_def status_classes_def Let_def)

text \<open>
  C30. The configuration page never depends on the admin token: two configurations that differ
  only in a configured token give the same handler, page body and entity tag included. The markup
  it adds is inert: with tags skipped and escapes decoded, the fragment reads as the YAML text
  (NUL bytes shown as U+FFFD).
\<close>

theorem configuration_hides_token:
  "configurationUIHandler yaml render sha_hex (on_admin (\<lambda>a. a\<lparr>ad_token := c # t\<rparr>) cfg) u =
   configurationUIHandler yaml render sha_hex (on_admin (\<lambda>a. a\<lparr>ad_token := c' # t'\<rparr>) cfg) u \<and>
   html_text (injectConfigurationAnchors y) = concat (map (\<lambda>c. if c = CHR 0x00 then [CHR 0xEF, CHR 0xBF, CHR 0xBD] else [c]) y)"
  using html_text_inject [of y]
  by (simp add: configurationUIHandler_def masked_config_def on_admin_def shown_def shown_byte_def [abs_def])

text \<open>
  Static assets: a path is answered with the bytes of an embedded file only when it names a
  file directly below \<open>ui\<close> with one of the five asset extensions, so templates and paths with a
  slash are never served; the entity tag is the digest of those bytes, and 304 is answered
  only for the tag of such a file. Every other request gets 404.
\<close>

theorem static_serves_only_assets:
  "(let tail = TrimPrefix (rq_path r) ''/static/''; reply = staticHandler (buildEtags sha_hex files) files r in
    case (if CHR ''/'' \<in> set tail \<or> path_ext tail \<notin> {''.css'', ''.js'', ''.png'', ''.svg'', ''.woff2''} then None
          else map_of files (''ui/'' @ tail)) of
      None \<Rightarrow> reply = http_not_found
    | Some data \<Rightarrow>
        (let etag = [CHR 0x22] @ take 16 (sha_hex data) @ [CHR 0x22] in
         if header_get (rq_header r) ''If-None-Match'' = etag then pr_status reply = 304 \<and> pr_body reply = []
         else pr_status reply = 200 \<and> pr_body reply = data \<and> header_get (pr_headers reply) ''ETag'' = etag))"
proof -
  let ?tail = "TrimPrefix (rq_path r) ''/static/''"
  have slash: "contains ?tail ''/'' \<longleftrightarrow> CHR ''/'' \<in> set ?tail"
    by (simp add: contains_sublist sublist_def in_set_conv_decomp)
  have etags: "map_of (buildEtags sha_hex files) p = map_option (\<lambda>d. [CHR 0x22] @ take 16 (sha_hex d) @ [CHR 0x22]) (map_of files p)" for p
    by (induction files) (auto simp: buildEtags_def)
  have empty: "path_ext [] = []" by (simp add: path_ext_def)
  have ct: "map_of allowedExtensions e = None \<longleftrightarrow> e \<notin> {''.css'', ''.js'', ''.png'', ''.svg'', ''.woff2''}" for e
    by (simp add: map_of_eq_None_iff allowedExtensions_def)
  have tag: "header_get (header_set h ''ETag'' v) ''ETag'' = v" for h v by (simp add: header_get_set)
  show ?thesis
  proof (cases "CHR ''/'' \<in> set ?tail \<or> path_ext ?tail \<notin> {''.css'', ''.js'', ''.png'', ''.svg'', ''.woff2''}")
    case True
    then have "staticHandler (buildEtags sha_hex files) files r = http_not_found"
      unfolding staticHandler_def Let_def slash ct [symmetric] by auto
    with True show ?thesis by (simp add: Let_def)
  next
    case False
    then obtain c where c: "map_of allowedExtensions (path_ext ?tail) = Some c" unfolding ct [symmetric] by auto
    from False have "?tail \<noteq> []" using empty by auto
    with False show ?thesis
      by (cases "map_of files (''ui/'' @ ?tail)") (auto simp: staticHandler_def Let_def slash c etags tag)
  qed
qed

end
