(* ===== verification/Auth.thy ===== *)
theory Auth
  imports Limiter Inspect_Types Url
begin

text \<open>
  Admin authentication: the session store (internal/admin/session.go), the auth middleware
  (middleware.go), the cross-site check (csrf.go), login and logout (login.go), the bind
  policy (bindpolicy.go) and the security headers (security_headers.go). Clock readings and
  random bytes are arguments. \<open>url_host\<close> is the host that package net/url parses out of an
  origin (None for a parse error), \<open>ip_loopback\<close> what package net says of an IP literal,
  \<open>uf\<close> the Unicode part of \<open>strings.EqualFold\<close>. A redirect response carries the URL given
  to \<open>http.Redirect\<close>; rendering a template is the constructor \<open>LoginPage\<close>.
\<close>

section \<open>Sessions\<close>

record session =
  se_id :: string
  se_expires_at :: time

type_synonym session_store = "string \<rightharpoonup> session"

definition NewSessionStore :: session_store where
  "NewSessionStore = Map.empty"

text \<open>\<open>base64.RawURLEncoding\<close>: the URL alphabet without padding.\<close>

definition raw_url_encode :: "string \<Rightarrow> string" where
  "raw_url_encode s =
     map (\<lambda>c. if c = CHR ''+'' then CHR ''-'' else if c = CHR ''/'' then CHR ''_'' else c)
       (filter (\<lambda>c. c \<noteq> CHR ''='') (b64_encode s))"

text \<open>\<open>raw\<close> is what the random source yields: 32 bytes, or None when it fails.\<close>

definition Create :: "string option \<Rightarrow> time \<Rightarrow> int \<Rightarrow> session_store \<Rightarrow> (session \<times> session_store) option" where
  "Create raw now ttl st =
     (case raw of
        None \<Rightarrow> None
      | Some bytes \<Rightarrow>
          (let sess = \<lparr>se_id = raw_url_encode bytes, se_expires_at = now + ttl\<rparr>
           in Some (sess, st(se_id sess \<mapsto> sess))))"

definition Validate :: "time \<Rightarrow> string \<Rightarrow> session_store \<Rightarrow> bool" where
  "Validate now ident st = (case st ident of None \<Rightarrow> False | Some sess \<Rightarrow> se_expires_at sess > now)"

definition Revoke :: "string \<Rightarrow> session_store \<Rightarrow> session_store" where
  "Revoke ident st = st(ident := None)"

definition Sweep_sessions :: "time \<Rightarrow> session_store \<Rightarrow> session_store" where
  "Sweep_sessions now st =
     (\<lambda>ident. case st ident of None \<Rightarrow> None | Some sess \<Rightarrow> if se_expires_at sess < now then None else Some sess)"

section \<open>Requests and responses\<close>

record admin_state =
  as_limiter :: auth_limiter
  as_sessions :: session_store

record set_cookie =
  sc_value :: string
  sc_path :: string
  sc_expires :: "time option"
  sc_max_age :: int
  sc_http_only :: bool
  sc_secure :: bool

datatype 'a reply =
    Served 'a
  | TooManyRequests int
  | Unauthorized
  | SeeOther string "set_cookie option"
  | Forbidden
  | BadRequest string
  | InternalError
  | LoginPage int string bool

definition sessionCookieName :: string where "sessionCookieName = ''httpcatch_session''"

text \<open>\<open>http.Request.Cookie\<close>: the first cookie of that name.\<close>

definition request_cookie :: "http_request \<Rightarrow> string \<Rightarrow> string option" where
  "request_cookie r nm = map_option snd (find (\<lambda>c. fst c = nm) (rq_cookies r))"

section \<open>The auth middleware\<close>

definition extractBearer :: "http_request \<Rightarrow> string" where
  "extractBearer r =
     (let auth = header_get (rq_header r) ''Authorization'' in
      if \<not> has_prefix auth ''Bearer '' then [] else drop 7 auth)"

text \<open>\<open>subtle.ConstantTimeCompare\<close> is 1 exactly on equal byte strings.\<close>

definition checkBearer :: "string \<Rightarrow> string \<Rightarrow> bool" where
  "checkBearer presented adminToken = (if adminToken = [] then False else presented = adminToken)"

definition authenticate :: "time \<Rightarrow> http_request \<Rightarrow> string \<Rightarrow> session_store \<Rightarrow> bool \<Rightarrow> bool" where
  "authenticate now r adminToken st cookieAuth =
     (let bearer = extractBearer r in
      if bearer \<noteq> [] \<and> checkBearer bearer adminToken then True
      else if cookieAuth then
        (case request_cookie r sessionCookieName of None \<Rightarrow> False | Some v \<Rightarrow> Validate now v st)
      else False)"

definition denyRequest :: "http_request \<Rightarrow> string \<Rightarrow> 'a reply" where
  "denyRequest r requestURI =
     (if contains (header_get (rq_header r) ''Accept'') ''text/html''
      then SeeOther (''/login?next='' @ QueryEscape requestURI) None
      else Unauthorized)"

text \<open>
  The middleware around a handler \<open>nxt\<close>. The clock is read by the limiter, by the session
  check and by the failure registration: \<open>now\<close> is the one reading all of them see.
\<close>

definition Middleware ::
  "(rat \<Rightarrow> rat) \<Rightarrow> string \<Rightarrow> bool \<Rightarrow> time \<Rightarrow> http_request \<Rightarrow> string \<Rightarrow> (unit \<Rightarrow> 'a) \<Rightarrow> admin_state \<Rightarrow> 'a reply \<times> admin_state" where
  "Middleware rnd adminToken cookieAuth now r requestURI nxt s =
     (let ip = ClientIP (rq_remote_addr r); (ok, l1) = Allowed rnd now ip (as_limiter s) in
      if \<not> ok then
        (TooManyRequests (go_div (RetryAfter rnd now ip (RecordRateLimited l1)) Second),
         s\<lparr>as_limiter := RecordRateLimited l1\<rparr>)
      else if authenticate now r adminToken (as_sessions s) cookieAuth
        then (Served (nxt ()), s\<lparr>as_limiter := l1\<rparr>)
      else (denyRequest r requestURI, s\<lparr>as_limiter := RecordInvalidToken (RegisterFailure rnd now ip l1)\<rparr>))"

section \<open>The cross-site check\<close>

definition EqualFold :: "(string \<Rightarrow> string \<Rightarrow> bool) \<Rightarrow> string \<Rightarrow> string \<Rightarrow> bool" where
  "EqualFold uf a b = (if is_ascii a \<and> is_ascii b then map ascii_lower a = map ascii_lower b else uf a b)"

definition originMatchesHost ::
  "(string \<Rightarrow> string option) \<Rightarrow> (string \<Rightarrow> string \<Rightarrow> bool) \<Rightarrow> string \<Rightarrow> string \<Rightarrow> bool" where
  "originMatchesHost url_host uf origin host =
     (if origin = ''null'' then False
      else (case url_host origin of
              None \<Rightarrow> False
            | Some h \<Rightarrow> if h = [] then False else EqualFold uf h host))"

definition isSameOrigin :: "(string \<Rightarrow> string option) \<Rightarrow> (string \<Rightarrow> string \<Rightarrow> bool) \<Rightarrow> http_request \<Rightarrow> bool" where
  "isSameOrigin url_host uf r =
     (let site = header_get (rq_header r) ''Sec-Fetch-Site'' in
      if site \<noteq> [] then
        (if site = ''same-origin'' \<or> site = ''none'' then True
         else if site = ''same-site'' then originMatchesHost url_host uf (header_get (rq_header r) ''Origin'') (rq_host r)
         else False)
      else (let origin = header_get (rq_header r) ''Origin'' in
        if origin = [] then True else originMatchesHost url_host uf origin (rq_host r)))"

definition csrfOriginCheck ::
  "(string \<Rightarrow> string option) \<Rightarrow> (string \<Rightarrow> string \<Rightarrow> bool) \<Rightarrow> http_request
   \<Rightarrow> (admin_state \<Rightarrow> 'a reply \<times> admin_state) \<Rightarrow> admin_state \<Rightarrow> 'a reply \<times> admin_state" where
  "csrfOriginCheck url_host uf r nxt s =
     (if \<not> isSameOrigin url_host uf r
      then (Forbidden, s\<lparr>as_limiter := RecordCSRFBlocked (as_limiter s)\<rparr>)
      else nxt s)"

section \<open>Login and logout\<close>

definition isSafePath :: "string \<Rightarrow> bool" where
  "isSafePath nxt = (has_prefix nxt ''/'' \<and> \<not> has_prefix nxt ''//'')"

definition loginPageHandler :: "string \<Rightarrow> string \<Rightarrow> 'a reply" where
  "loginPageHandler nxt err = LoginPage 200 (if isSafePath nxt then nxt else []) (err = ''1'')"

record admin_config =
  ac_token :: string
  ac_session_ttl :: int
  ac_session_secure :: bool

text \<open>\<open>form\<close> is the parsed form, None when \<open>ParseForm\<close> fails; absent fields read as empty.\<close>

definition form_value :: "(string \<times> string) list \<Rightarrow> string \<Rightarrow> string" where
  "form_value f k = (case map_of f k of Some v \<Rightarrow> v | None \<Rightarrow> [])"

definition loginPostHandler ::
  "(rat \<Rightarrow> rat) \<Rightarrow> admin_config \<Rightarrow> time \<Rightarrow> string option \<Rightarrow> http_request \<Rightarrow> (string \<times> string) list option
   \<Rightarrow> admin_state \<Rightarrow> 'a reply \<times> admin_state" where
  "loginPostHandler rnd cfg now raw r form s =
     (let ip = ClientIP (rq_remote_addr r); (ok, l1) = Allowed rnd now ip (as_limiter s) in
      if \<not> ok then
        (TooManyRequests (go_div (RetryAfter rnd now ip (RecordRateLimited l1)) Second),
         s\<lparr>as_limiter := RecordRateLimited l1\<rparr>)
      else (case form of
        None \<Rightarrow> (BadRequest ''bad request'', s\<lparr>as_limiter := l1\<rparr>)
      | Some f \<Rightarrow>
          if form_value f ''token'' = [] then (BadRequest ''missing token'', s\<lparr>as_limiter := l1\<rparr>)
          else if \<not> checkBearer (form_value f ''token'') (ac_token cfg) then
            (LoginPage 401 (if isSafePath (form_value f ''next'') then form_value f ''next'' else []) True,
             s\<lparr>as_limiter := RecordInvalidToken (RegisterFailure rnd now ip l1)\<rparr>)
          else (case Create raw now (ac_session_ttl cfg) (as_sessions s) of
              None \<Rightarrow> (InternalError, s\<lparr>as_limiter := l1\<rparr>)
            | Some (sess, st) \<Rightarrow>
                (SeeOther (if isSafePath (form_value f ''next'') then form_value f ''next'' else ''/'')
                   (Some \<lparr>sc_value = se_id sess, sc_path = ''/'', sc_expires = Some (se_expires_at sess),
                      sc_max_age = go_div (ac_session_ttl cfg) Second, sc_http_only = True,
                      sc_secure = ac_session_secure cfg\<rparr>),
                 s\<lparr>as_limiter := l1, as_sessions := st\<rparr>))))"

definition logoutHandler :: "admin_config \<Rightarrow> http_request \<Rightarrow> admin_state \<Rightarrow> 'a reply \<times> admin_state" where
  "logoutHandler cfg r s =
     (SeeOther ''/login'' (Some \<lparr>sc_value = [], sc_path = ''/'', sc_expires = None, sc_max_age = -1,
        sc_http_only = True, sc_secure = ac_session_secure cfg\<rparr>),
      (case request_cookie r sessionCookieName of
         None \<Rightarrow> s
       | Some v \<Rightarrow> s\<lparr>as_sessions := Revoke v (as_sessions s)\<rparr>))"

section \<open>The bind policy\<close>

datatype reason = ReasonLoopbackDefault | ReasonTokenConfigured | ReasonInsecureMode

datatype bind_error = ErrInvalidBind | ErrRefused

definition isLoopback :: "(string \<Rightarrow> bool) \<Rightarrow> string \<Rightarrow> bool" where
  "isLoopback ip_loopback host = (if host = ''localhost'' then True else ip_loopback host)"

definition Guard :: "(string \<Rightarrow> bool) \<Rightarrow> string \<Rightarrow> bool \<Rightarrow> bool \<Rightarrow> bind_error + reason" where
  "Guard ip_loopback bind tokenConfigured insecureListen =
     (case SplitHostPort bind of
        None \<Rightarrow> Inl ErrInvalidBind
      | Some (host, _) \<Rightarrow>
          if isLoopback ip_loopback host then Inr ReasonLoopbackDefault
          else if tokenConfigured then Inr ReasonTokenConfigured
          else if insecureListen then Inr ReasonInsecureMode
          else Inl ErrRefused)"

section \<open>Security headers\<close>

definition jsonSecurityHeaders :: "hmap \<Rightarrow> hmap" where
  "jsonSecurityHeaders h =
     header_set (header_set (header_set h ''X-Content-Type-Options'' ''nosniff'') ''X-Frame-Options'' ''DENY'')
       ''Referrer-Policy'' ''no-referrer''"

definition cspHTML :: string where
  "cspHTML = concat [''default-src '', [CHR 0x27], ''none'', [CHR 0x27], ''; script-src '', [CHR 0x27], ''self'', [CHR 0x27],
     ''; style-src '', [CHR 0x27], ''self'', [CHR 0x27], ''; img-src '', [CHR 0x27], ''self'', [CHR 0x27],
     ''; connect-src '', [CHR 0x27], ''self'', [CHR 0x27], ''; base-uri '', [CHR 0x27], ''none'', [CHR 0x27],
     ''; form-action '', [CHR 0x27], ''self'', [CHR 0x27], ''; frame-ancestors '', [CHR 0x27], ''none'', [CHR 0x27]]"

definition htmlSecurityHeaders :: "hmap \<Rightarrow> hmap" where
  "htmlSecurityHeaders h =
     header_set (header_set (header_set (header_set h ''Content-Security-Policy'' cspHTML)
       ''X-Content-Type-Options'' ''nosniff'') ''X-Frame-Options'' ''DENY'') ''Referrer-Policy'' ''no-referrer''"

section \<open>Facts\<close>

lemma b64_alphabet_table:
  "list_all (\<lambda>n. b64_char n \<noteq> CHR ''='' \<and> b64_char n \<noteq> CHR ''-'' \<and> b64_char n \<noteq> CHR ''_'') [0..<64]"
  by code_simp

lemma b64_char_plain [simp]:
  "n < 64 \<Longrightarrow> b64_char n \<noteq> CHR ''-''" "n < 64 \<Longrightarrow> b64_char n \<noteq> CHR ''_''"
  using b64_alphabet_table by (simp_all add: list_all_iff)

definition unpadded :: "string \<Rightarrow> string" where
  "unpadded s = filter (\<lambda>c. c \<noteq> CHR ''='') (b64_encode s)"

lemma b64_encode_unpadded:
  "b64_encode s = unpadded s @ replicate ((4 - length (unpadded s) mod 4) mod 4) (CHR ''='')"
  unfolding unpadded_def
proof (induction s rule: b64_encode.induct)
  case (4 x y z r)
  have "b64_encode r = filter (\<lambda>c. c \<noteq> CHR ''='') (b64_encode r) @
      replicate ((4 - length (filter (\<lambda>c. c \<noteq> CHR ''='') (b64_encode r)) mod 4) mod 4) (CHR ''='')"
    by (rule 4 [OF refl refl refl])
  moreover have "(4 + k) mod 4 = k mod 4" for k :: nat by simp
  ultimately show ?case by (simp add: Let_def b64_bounds)
qed (simp_all add: Let_def b64_bounds numeral_2_eq_2)

lemma unpadded_chars: "c \<in> set (unpadded s) \<Longrightarrow> c \<noteq> CHR ''-'' \<and> c \<noteq> CHR ''_''"
  unfolding unpadded_def by (induction s rule: b64_encode.induct) (auto simp: Let_def b64_bounds)

lemma raw_url_encode_inj: "raw_url_encode s = raw_url_encode s' \<Longrightarrow> s = s'"
proof -
  assume eq: "raw_url_encode s = raw_url_encode s'"
  let ?f = "\<lambda>c. if c = CHR ''+'' then CHR ''-'' else if c = CHR ''/'' then CHR ''_'' else c"
  have "inj_on ?f (set (unpadded s) \<union> set (unpadded s'))"
  proof (rule inj_onI)
    fix x y assume x: "x \<in> set (unpadded s) \<union> set (unpadded s')" and y: "y \<in> set (unpadded s) \<union> set (unpadded s')"
      and f: "?f x = ?f y"
    have "x \<noteq> CHR ''-'' \<and> x \<noteq> CHR ''_''" "y \<noteq> CHR ''-'' \<and> y \<noteq> CHR ''_''" using x y unpadded_chars by blast+
    with f show "x = y" by (simp split: if_splits)
  qed
  moreover have "map ?f (unpadded s) = map ?f (unpadded s')" using eq by (simp add: raw_url_encode_def unpadded_def)
  ultimately have "unpadded s = unpadded s'" by (rule map_inj_on [rotated])
  then have "b64_encode s = b64_encode s'" using b64_encode_unpadded by metis
  then show ?thesis using b64_decode_encode by (metis option.inject)
qed

lemma bearer_matches:
  "extractBearer r \<noteq> [] \<and> checkBearer (extractBearer r) tok \<longleftrightarrow>
     tok \<noteq> [] \<and> header_get (rq_header r) ''Authorization'' = ''Bearer '' @ tok"
  by (auto simp: extractBearer_def checkBearer_def has_prefix_def prefix_def Let_def)

section \<open>Properties\<close>

text \<open>
  C29. The auth gate. The protected handler runs exactly when the limiter lets the address
  through and the request carries the exact bearer token (never an empty one) or, on routes
  that accept cookies, a live session cookie. On bearer-only routes the sessions are
  irrelevant. Every refused credential is charged to the address and counted; a rate-limited
  request is answered 429 whatever its credential and only counted; sessions never change.
\<close>

theorem middleware_gate:
  "let ip = ClientIP (rq_remote_addr r); (reply, s') = Middleware rnd tok cookieAuth now r uri nxt s;
       allowed = fst (Allowed rnd now ip (as_limiter s)); l1 = snd (Allowed rnd now ip (as_limiter s));
       credential = (tok \<noteq> [] \<and> header_get (rq_header r) ''Authorization'' = ''Bearer '' @ tok) \<or>
         (cookieAuth \<and> (\<exists>v. request_cookie r sessionCookieName = Some v \<and> Validate now v (as_sessions s)))
   in as_sessions s' = as_sessions s \<and>
      (reply = Served (nxt ()) \<and> as_limiter s' = l1 \<and> allowed \<and> credential \<or>
       reply \<in> {Unauthorized, SeeOther (''/login?next='' @ QueryEscape uri) None} \<and> allowed \<and> \<not> credential \<and>
         as_limiter s' = RecordInvalidToken (RegisterFailure rnd now ip l1) \<or>
       (\<exists>secs. reply = TooManyRequests secs) \<and> \<not> allowed \<and> as_limiter s' = RecordRateLimited l1)"
proof -
  have auth: "authenticate now r tok (as_sessions s) cookieAuth \<longleftrightarrow>
      (tok \<noteq> [] \<and> header_get (rq_header r) ''Authorization'' = ''Bearer '' @ tok) \<or>
      (cookieAuth \<and> (\<exists>v. request_cookie r sessionCookieName = Some v \<and> Validate now v (as_sessions s)))"
    unfolding bearer_matches [symmetric] by (auto simp: authenticate_def Let_def split: option.splits)
  show ?thesis
    by (auto simp: Middleware_def Let_def case_prod_beta auth denyRequest_def)
qed

text \<open>
  Sessions. A created session is valid exactly until its expiry; revoking it ends it at
  once and for good; a sweep never ends a session that is still valid then or later; creating
  one leaves every session with another random value as it was. Logging out revokes the
  session the request carries.
\<close>

theorem session_lifecycle:
  assumes "Create (Some raw) now ttl st = Some (sess, st')"
  shows "(Validate t (se_id sess) st' \<longleftrightarrow> t < now + ttl) \<and>
    \<not> Validate t (se_id sess) (Revoke (se_id sess) st') \<and>
    (t0 \<le> t \<longrightarrow> Validate t ident (Sweep_sessions t0 st') = Validate t ident st') \<and>
    (raw' \<noteq> raw \<longrightarrow> Validate t (raw_url_encode raw') st' = Validate t (raw_url_encode raw') st) \<and>
    (request_cookie r sessionCookieName = Some (se_id sess) \<longrightarrow>
       \<not> Validate t (se_id sess) (as_sessions (snd (logoutHandler cfg r s))))"
proof -
  have s: "sess = \<lparr>se_id = raw_url_encode raw, se_expires_at = now + ttl\<rparr>" "st' = st(raw_url_encode raw \<mapsto> sess)"
    using assms by (auto simp: Create_def Let_def)
  have ne: "raw' \<noteq> raw \<Longrightarrow> raw_url_encode raw' \<noteq> raw_url_encode raw" using raw_url_encode_inj by blast
  show ?thesis
  proof (intro conjI impI)
    show "Validate t (se_id sess) st' \<longleftrightarrow> t < now + ttl" by (simp add: Validate_def s)
    show "t0 \<le> t \<Longrightarrow> Validate t ident (Sweep_sessions t0 st') = Validate t ident st'"
      by (auto simp: Validate_def Sweep_sessions_def split: option.split)
    show "raw' \<noteq> raw \<Longrightarrow> Validate t (raw_url_encode raw') st' = Validate t (raw_url_encode raw') st"
      using ne by (simp add: Validate_def s)
  qed (simp_all add: Validate_def Revoke_def logoutHandler_def)
qed

theorem session_lifecycle_witness:
  "Validate 9 (raw_url_encode ''k'') (snd (the (Create (Some ''k'') 0 10 NewSessionStore))) \<and>
   \<not> Validate 10 (raw_url_encode ''k'') (snd (the (Create (Some ''k'') 0 10 NewSessionStore)))"
proof -
  let ?sess = "\<lparr>se_id = raw_url_encode ''k'', se_expires_at = 10\<rparr>"
  have c: "Create (Some ''k'') 0 10 NewSessionStore = Some (?sess, NewSessionStore(raw_url_encode ''k'' \<mapsto> ?sess))"
    by (simp add: Create_def Let_def)
  from session_lifecycle [OF c, THEN conjunct1, of 9] session_lifecycle [OF c, THEN conjunct1, of 10] c
  show ?thesis by simp
qed

text \<open>
  Login. A session is issued only for the configured, non-empty token from an address the
  limiter lets through; the cookie is HTTP-only and its session is valid for exactly the
  configured lifetime; the redirect goes to a path with a single leading slash. In every
  other case the sessions are unchanged, and a wrong token is charged to the address.
\<close>

theorem login_issues_session:
  "let ip = ClientIP (rq_remote_addr r); (reply, s') = loginPostHandler rnd cfg now raw r form s in
   (case reply of
      SeeOther target ck \<Rightarrow>
        (\<exists>f c. form = Some f \<and> ck = Some c \<and> form_value f ''token'' = ac_token cfg \<and> ac_token cfg \<noteq> [] \<and>
           fst (Allowed rnd now ip (as_limiter s)) \<and> isSafePath target \<and> sc_http_only c \<and>
           (\<forall>t. Validate t (sc_value c) (as_sessions s') = (t < now + ac_session_ttl cfg)))
    | LoginPage code nxt err \<Rightarrow> code = 401 \<and> err \<and> (nxt = [] \<or> isSafePath nxt) \<and> as_sessions s' = as_sessions s \<and>
        as_limiter s' = RecordInvalidToken (RegisterFailure rnd now ip (snd (Allowed rnd now ip (as_limiter s))))
    | _ \<Rightarrow> as_sessions s' = as_sessions s)"
proof -
  have root: "isSafePath ''/''" by (simp add: isSafePath_def has_prefix_def)
  show ?thesis
    by (auto simp: loginPostHandler_def Let_def case_prod_beta checkBearer_def Create_def Validate_def root
        split: option.splits if_splits)
qed

text \<open>
  The redirect check lets a backslash through: every target that starts with a slash and
  a backslash passes \<open>isSafePath\<close>, and a successful login redirects there. Browsers read the
  backslash as a slash, which makes such a target a protocol-relative URL.
\<close>

lemma login_redirect_backslash:
  assumes "fst (Allowed rnd now (ClientIP (rq_remote_addr r)) (as_limiter s))" and "ac_token cfg \<noteq> []"
    and "form_value f ''token'' = ac_token cfg" and "form_value f ''next'' = [CHR ''/'', CHR 0x5C] @ host"
  shows "\<exists>ck s'. loginPostHandler rnd cfg now (Some raw) r (Some f) s = (SeeOther ([CHR ''/'', CHR 0x5C] @ host) (Some ck), s')"
proof -
  have "isSafePath ([CHR ''/'', CHR 0x5C] @ host)" by (simp add: isSafePath_def has_prefix_def)
  with assms show ?thesis
    by (auto simp: loginPostHandler_def Let_def case_prod_beta checkBearer_def Create_def)
qed

definition sample_login :: http_request where
  "sample_login = \<lparr>rq_method = ''POST'', rq_path = ''/auth/login'', rq_query = [], rq_header = [], rq_host = [],
     rq_remote_addr = ''10.0.0.1:9'', rq_cookies = [], rq_body = \<lparr>rd_data = [], rd_fails = False\<rparr>\<rparr>"

text \<open>
  Cross-site posts are stopped before the handler: when the browser reports a cross-site
  fetch, or reports nothing and sends an origin that is null, unparsable or of another host,
  the answer is 403, the handler does not run, and only the blocked counter changes.
\<close>

theorem csrf_blocks_cross_site:
  assumes "header_get (rq_header r) ''Sec-Fetch-Site'' = ''cross-site'' \<or>
    (header_get (rq_header r) ''Sec-Fetch-Site'' \<in> {[], ''same-site''} \<and> header_get (rq_header r) ''Origin'' \<noteq> [] \<and>
     (header_get (rq_header r) ''Origin'' = ''null'' \<or> url_host (header_get (rq_header r) ''Origin'') = None \<or>
      (\<exists>h. url_host (header_get (rq_header r) ''Origin'') = Some h \<and> \<not> EqualFold uf h (rq_host r))))"
  shows "csrfOriginCheck url_host uf r nxt s =
    (Forbidden, s\<lparr>as_limiter := RecordCSRFBlocked (as_limiter s)\<rparr>)"
  using assms by (auto simp: csrfOriginCheck_def isSameOrigin_def originMatchesHost_def Let_def)

theorem csrf_blocks_cross_site_witness:
  "csrfOriginCheck Some (=) (sample_login\<lparr>rq_header := [(''Origin'', [''evil.example''])], rq_host := ''catch.local''\<rparr>)
     (\<lambda>s. (Served (), s)) \<lparr>as_limiter = NewAuthLimiter, as_sessions = NewSessionStore\<rparr> =
   (Forbidden, \<lparr>as_limiter = RecordCSRFBlocked NewAuthLimiter, as_sessions = NewSessionStore\<rparr>)"
proof -
  have h: "header_get [(''Origin'', [''evil.example''])] ''Sec-Fetch-Site'' = []"
    "header_get [(''Origin'', [''evil.example''])] ''Origin'' = ''evil.example''"
    "\<not> EqualFold (=) ''evil.example'' ''catch.local''" by code_simp+
  show ?thesis
    using csrf_blocks_cross_site [of "sample_login\<lparr>rq_header := [(''Origin'', [''evil.example''])], rq_host := ''catch.local''\<rparr>" Some "(=)"
      "\<lambda>s. (Served (), s)" "\<lparr>as_limiter = NewAuthLimiter, as_sessions = NewSessionStore\<rparr>"]
    by (simp add: h)
qed

text \<open>
  The bind policy: an admin port starts exactly on a well-formed address that is loopback,
  or when a token is configured, or when insecure listening is enabled; a public address with
  neither is refused, and the reason names the first rule that applies.
\<close>

theorem bind_policy:
  "(Guard lb bind tok insec = Inl ErrInvalidBind \<longleftrightarrow> SplitHostPort bind = None) \<and>
   (Guard lb bind tok insec = Inl ErrRefused \<longleftrightarrow>
      (\<exists>h p. SplitHostPort bind = Some (h, p) \<and> h \<noteq> ''localhost'' \<and> \<not> lb h) \<and> \<not> tok \<and> \<not> insec) \<and>
   (Guard lb bind tok insec = Inr ReasonInsecureMode \<longleftrightarrow>
      (\<exists>h p. SplitHostPort bind = Some (h, p) \<and> h \<noteq> ''localhost'' \<and> \<not> lb h) \<and> \<not> tok \<and> insec)"
  by (auto simp: Guard_def isLoopback_def split: option.splits)

end
