(* ===== verification/Events.thy ===== *)
theory Events
  imports Capture
begin

text \<open>
  The events API, internal/admin/events.go and events_counters.go: POST /events takes one
  event or a batch, validates every item, builds the records and enqueues them. Decoding is
  \<open>encoding/json\<close>, an argument of the handler (the record \<open>event_json\<close>: the two wire shapes and
  the split of a batch, each with its error text), about which nothing is assumed. Other
  goroutines may use the queue between two sends of a batch; what they do to it is the
  argument \<open>other\<close>.
\<close>

section \<open>Counters\<close>

record events_counters =
  ec_ingestedResponse :: counter
  ec_ingestedOutbound :: counter
  ec_rejectedInvalidJSON :: counter
  ec_rejectedPayloadTooLarge :: counter
  ec_rejectedUnknownType :: counter
  ec_rejectedMissingType :: counter
  ec_rejectedMissingRequiredField :: counter
  ec_rejectedEmptyBatch :: counter
  ec_rejectedBatchTooLarge :: counter
  ec_rejectedBodyTooLarge :: counter
  ec_droppedQueueFull :: counter

definition NewEventsCounters :: events_counters where
  "NewEventsCounters = \<lparr>ec_ingestedResponse = 0, ec_ingestedOutbound = 0, ec_rejectedInvalidJSON = 0,
     ec_rejectedPayloadTooLarge = 0, ec_rejectedUnknownType = 0, ec_rejectedMissingType = 0,
     ec_rejectedMissingRequiredField = 0, ec_rejectedEmptyBatch = 0, ec_rejectedBatchTooLarge = 0,
     ec_rejectedBodyTooLarge = 0, ec_droppedQueueFull = 0\<rparr>"

definition incIngestedResponse :: "events_counters \<Rightarrow> events_counters" where
  "incIngestedResponse c = c\<lparr>ec_ingestedResponse := ec_ingestedResponse c + 1\<rparr>"

definition incIngestedOutbound :: "events_counters \<Rightarrow> events_counters" where
  "incIngestedOutbound c = c\<lparr>ec_ingestedOutbound := ec_ingestedOutbound c + 1\<rparr>"

datatype reject_reason = RejectReasonInvalidJSON | RejectReasonPayloadTooLarge | RejectReasonUnknownType
  | RejectReasonMissingType | RejectReasonMissingRequiredField | RejectReasonEmptyBatch
  | RejectReasonBatchTooLarge | RejectReasonBodyTooLarge

definition incRejected :: "reject_reason \<Rightarrow> events_counters \<Rightarrow> events_counters" where
  "incRejected reason c = (case reason of
      RejectReasonInvalidJSON \<Rightarrow> c\<lparr>ec_rejectedInvalidJSON := ec_rejectedInvalidJSON c + 1\<rparr>
    | RejectReasonPayloadTooLarge \<Rightarrow> c\<lparr>ec_rejectedPayloadTooLarge := ec_rejectedPayloadTooLarge c + 1\<rparr>
    | RejectReasonUnknownType \<Rightarrow> c\<lparr>ec_rejectedUnknownType := ec_rejectedUnknownType c + 1\<rparr>
    | RejectReasonMissingType \<Rightarrow> c\<lparr>ec_rejectedMissingType := ec_rejectedMissingType c + 1\<rparr>
    | RejectReasonMissingRequiredField \<Rightarrow> c\<lparr>ec_rejectedMissingRequiredField := ec_rejectedMissingRequiredField c + 1\<rparr>
    | RejectReasonEmptyBatch \<Rightarrow> c\<lparr>ec_rejectedEmptyBatch := ec_rejectedEmptyBatch c + 1\<rparr>
    | RejectReasonBatchTooLarge \<Rightarrow> c\<lparr>ec_rejectedBatchTooLarge := ec_rejectedBatchTooLarge c + 1\<rparr>
    | RejectReasonBodyTooLarge \<Rightarrow> c\<lparr>ec_rejectedBodyTooLarge := ec_rejectedBodyTooLarge c + 1\<rparr>)"

definition incDroppedQueueFull :: "events_counters \<Rightarrow> events_counters" where
  "incDroppedQueueFull c = c\<lparr>ec_droppedQueueFull := ec_droppedQueueFull c + 1\<rparr>"

text \<open>The counters may be nil: the increments are then skipped.\<close>

definition incRejectedSafe :: "reject_reason \<Rightarrow> events_counters option \<Rightarrow> events_counters option" where
  "incRejectedSafe reason c = map_option (incRejected reason) c"

definition incIngestedSafe :: "capture_record \<Rightarrow> events_counters option \<Rightarrow> events_counters option" where
  "incIngestedSafe rec c = map_option (\<lambda>c. case rec of
      Response _ \<Rightarrow> incIngestedResponse c | Outbound _ \<Rightarrow> incIngestedOutbound c | Request _ \<Rightarrow> c) c"

definition incDroppedQueueFullSafe :: "events_counters option \<Rightarrow> events_counters option" where
  "incDroppedQueueFullSafe c = map_option incDroppedQueueFull c"

section \<open>Wire shapes\<close>

record wire_response_event =
  wr_type :: string
  wr_correlation_id :: string
  wr_service :: string
  wr_timestamp :: "time option"
  wr_status :: "int option"
  wr_headers :: "hmap option"
  wr_body :: string
  wr_content_type :: string
  wr_duration_ms :: "int option"

record wire_outbound_half =
  wh_method :: string
  wh_path :: string
  wh_headers :: "hmap option"
  wh_body :: string
  wh_content_type :: string
  wh_status :: "int option"

record wire_outbound_event =
  wo_type :: string
  wo_correlation_id :: string
  wo_service :: string
  wo_timestamp :: "time option"
  wo_request :: "wire_outbound_half option"
  wo_response :: "wire_outbound_half option"
  wo_duration_ms :: "int option"

record event_json =
  ej_response :: "string \<Rightarrow> string + wire_response_event"
  ej_outbound :: "string \<Rightarrow> string + wire_outbound_event"
  ej_batch :: "string \<Rightarrow> string + string list"

datatype event_message = Text string | UnknownTypeText string

record validation_error =
  ve_index :: "nat option"
  ve_field :: string
  ve_message :: event_message

section \<open>Validation\<close>

definition service_errors :: "unicode_map \<Rightarrow> string \<Rightarrow> string list" where
  "service_errors ul s =
     (let service = TrimSpace s in
      if service = [] then [''service: required'']
      else if SanitiseServiceLabel ul service = [] then [''service: invalid''] else [])"

definition validateResponseEvent :: "unicode_map \<Rightarrow> wire_response_event \<Rightarrow> string list" where
  "validateResponseEvent ul e =
     service_errors ul (wr_service e) @
     (if wr_status e = None then [''status: required''] else []) @
     (if wr_duration_ms e = None then [''duration_ms: required''] else [])"

definition validateOutboundEvent :: "unicode_map \<Rightarrow> wire_outbound_event \<Rightarrow> string list" where
  "validateOutboundEvent ul e =
     service_errors ul (wo_service e) @
     (case wo_request e of
        None \<Rightarrow> [''request: required'']
      | Some h \<Rightarrow>
          (if TrimSpace (wh_method h) = [] then [''request.method: required''] else []) @
          (if TrimSpace (wh_path h) = [] then [''request.path: required''] else [])) @
     (if wo_duration_ms e = None then [''duration_ms: required''] else []) @
     (case wo_response e of
        Some h \<Rightarrow> if wh_status h = None then [''response.status: required when response is present''] else []
      | None \<Rightarrow> [])"

definition maxExplicitCorrelationID :: nat where "maxExplicitCorrelationID = 256"

definition isPrintableASCII :: "string \<Rightarrow> bool" where
  "isPrintableASCII s = list_all (\<lambda>c. \<not> ((of_char c :: nat) < 0x20 \<or> (of_char c :: nat) > 0x7E)) s"

section \<open>Building records\<close>

definition header_of_map :: "hmap \<Rightarrow> hmap" where
  "header_of_map headers =
     foldl (\<lambda>h (k, v). header_add h k v) [] (concat (map (\<lambda>(k, vs). map (\<lambda>v. (k, v)) vs) headers))"

definition deriveCorrelation :: "unicode_map \<Rightarrow> string \<Rightarrow> hmap option \<Rightarrow> string \<Rightarrow> string \<times> string" where
  "deriveCorrelation ul correlationID headers uuid =
     (let c = TrimSpace correlationID in
      if c \<noteq> [] \<and> length c \<le> maxExplicitCorrelationID \<and> isPrintableASCII c then (c, ''explicit'')
      else IdentifyCorrelation ul (header_of_map (entries headers)) uuid)"

definition capEventBody :: "string \<Rightarrow> int \<Rightarrow> string \<times> int \<times> bool" where
  "capEventBody body bodyCap =
     (if body = [] then ([], 0, False)
      else (case CapBody \<lparr>rd_data = body, rd_fails = False\<rparr> bodyCap of
              Some x \<Rightarrow> x | None \<Rightarrow> ([], 0, False)))"

definition first_value :: "string list \<Rightarrow> string option" where
  "first_value vals = (case vals of v # _ \<Rightarrow> (if v \<noteq> [] then Some v else None) | [] \<Rightarrow> None)"

definition resolveContentType :: "string \<Rightarrow> hmap option \<Rightarrow> string" where
  "resolveContentType wireContentType headers =
     (if wireContentType \<noteq> [] then wireContentType
      else (let key = CanonicalMIMEHeaderKey ''Content-Type'' in
        case Option.bind (map_of (entries headers) key) first_value of
          Some v \<Rightarrow> v
        | None \<Rightarrow>
            (case find (\<lambda>(k, vals). CanonicalMIMEHeaderKey k = key \<and> first_value vals \<noteq> None) (entries headers) of
               Some (k, vals) \<Rightarrow> hd vals | None \<Rightarrow> [])))"

text \<open>A nil pointer that is dereferenced is a panic, the result None.\<close>

definition buildResponseRecord :: "unicode_map \<Rightarrow> stamp \<Rightarrow> wire_response_event \<Rightarrow> int \<Rightarrow> response_event option" where
  "buildResponseRecord ul st e bodyCap =
     (let ts = (case wr_timestamp e of Some t \<Rightarrow> t | None \<Rightarrow> st_now st);
          (corrID, corrSource) = deriveCorrelation ul (wr_correlation_id e) (wr_headers e) (st_corr_uuid st);
          (body, originalSize, truncated) = capEventBody (wr_body e) bodyCap
      in case (wr_status e, wr_duration_ms e) of
           (Some status, Some duration) \<Rightarrow>
             Some \<lparr>re_id = st_uuid st, re_timestamp = ts, re_correlation_id = corrID,
               re_correlation_source = corrSource, re_service = SanitiseServiceLabel ul (wr_service e),
               re_service_source = ''explicit'', re_status = status, re_headers = wr_headers e, re_body = body,
               re_body_truncated = truncated, re_body_original_size = originalSize,
               re_content_type = resolveContentType (wr_content_type e) (wr_headers e), re_duration_ms = duration\<rparr>
         | _ \<Rightarrow> None)"

definition outbound_response_half_of :: "wire_outbound_half \<Rightarrow> int \<Rightarrow> outbound_response_half option" where
  "outbound_response_half_of h bodyCap =
     (let (respBody, respOrigSize, respTruncated) = capEventBody (wh_body h) bodyCap in
      case wh_status h of
        None \<Rightarrow> None
      | Some status \<Rightarrow> Some \<lparr>or_status = status, or_headers = wh_headers h, or_body = respBody,
          or_body_truncated = respTruncated, or_body_original_size = respOrigSize,
          or_content_type = resolveContentType (wh_content_type h) (wh_headers h)\<rparr>)"

definition buildOutboundRecord :: "unicode_map \<Rightarrow> stamp \<Rightarrow> wire_outbound_event \<Rightarrow> int \<Rightarrow> outbound_event option" where
  "buildOutboundRecord ul st e bodyCap =
     (let ts = (case wo_timestamp e of Some t \<Rightarrow> t | None \<Rightarrow> st_now st);
          headers = (case wo_request e of Some h \<Rightarrow> wh_headers h | None \<Rightarrow> None);
          (corrID, corrSource) = deriveCorrelation ul (wo_correlation_id e) headers (st_corr_uuid st)
      in case wo_request e of
           None \<Rightarrow> None
         | Some rq \<Rightarrow>
             (let (reqBody, reqOrigSize, reqTruncated) = capEventBody (wh_body rq) bodyCap;
                  req = \<lparr>oq_method = wh_method rq, oq_path = wh_path rq, oq_headers = wh_headers rq,
                    oq_body = reqBody, oq_body_truncated = reqTruncated, oq_body_original_size = reqOrigSize,
                    oq_content_type = resolveContentType (wh_content_type rq) (wh_headers rq)\<rparr>;
                  resp = (case wo_response e of
                     None \<Rightarrow> Some None | Some h \<Rightarrow> map_option Some (outbound_response_half_of h bodyCap))
              in case (resp, wo_duration_ms e) of
                   (Some p, Some duration) \<Rightarrow>
                     Some \<lparr>oe_id = st_uuid st, oe_timestamp = ts, oe_correlation_id = corrID,
                       oe_correlation_source = corrSource, oe_service = SanitiseServiceLabel ul (wo_service e),
                       oe_service_source = ''explicit'', oe_duration_ms = duration, oe_request = req, oe_response = p\<rparr>
                 | _ \<Rightarrow> None))"

section \<open>One item\<close>

text \<open>\<open>strings.Cut\<close>: the text before and after the first separator.\<close>

fun Cut :: "string \<Rightarrow> string \<Rightarrow> string \<times> string" where
  "Cut s sep = (if has_prefix s sep then ([], drop (length sep) s)
     else (case s of [] \<Rightarrow> ([], []) | c # cs \<Rightarrow> (let (a, b) = Cut cs sep in (c # a, b))))"

declare Cut.simps [simp del]

definition fieldErrors :: "nat option \<Rightarrow> string list \<Rightarrow> validation_error list" where
  "fieldErrors idx errs =
     map (\<lambda>e. case Cut e '': '' of (field, msg) \<Rightarrow> \<lparr>ve_index = idx, ve_field = field, ve_message = Text msg\<rparr>) errs"

definition singleFieldError :: "string \<Rightarrow> string \<Rightarrow> validation_error list" where
  "singleFieldError field message = [\<lparr>ve_index = None, ve_field = field, ve_message = Text message\<rparr>]"

definition item_error :: "nat option \<Rightarrow> string \<Rightarrow> event_message \<Rightarrow> validation_error list" where
  "item_error idx field message = [\<lparr>ve_index = idx, ve_field = field, ve_message = message\<rparr>]"

definition too_large :: "int \<Rightarrow> string \<Rightarrow> bool" where
  "too_large bodyCap body = (bodyCap > 0 \<and> int (length body) > bodyCap)"

text \<open>The outer option is the panic, the sum is the pair of results of the source.\<close>

definition parseAndBuild ::
  "unicode_map \<Rightarrow> event_json \<Rightarrow> string \<Rightarrow> nat option \<Rightarrow> int \<Rightarrow> stamp \<Rightarrow> events_counters option
   \<Rightarrow> (events_counters option \<times> (validation_error list + capture_record)) option" where
  "parseAndBuild ul J item idx bodyCap st counters =
     (case ej_response J item of
        Inl err \<Rightarrow> Some (incRejectedSafe RejectReasonInvalidJSON counters, Inl (item_error idx ''body'' (Text err)))
      | Inr re \<Rightarrow>
          if wr_type re = [] then
            Some (incRejectedSafe RejectReasonMissingType counters, Inl (item_error idx ''type'' (Text ''required'')))
          else if wr_type re = ''response'' then
            (let errs = validateResponseEvent ul re in
             if errs \<noteq> [] then
               Some (incRejectedSafe RejectReasonMissingRequiredField counters, Inl (fieldErrors idx errs))
             else if too_large bodyCap (wr_body re) then
               Some (incRejectedSafe RejectReasonBodyTooLarge counters, Inl (item_error idx ''body'' (Text ''body too large'')))
             else (case buildResponseRecord ul st re bodyCap of
                     None \<Rightarrow> None | Some r \<Rightarrow> Some (counters, Inr (Response r))))
          else if wr_type re = ''outbound'' then
            (case ej_outbound J item of
               Inl err \<Rightarrow> Some (incRejectedSafe RejectReasonInvalidJSON counters, Inl (item_error idx ''body'' (Text err)))
             | Inr oe \<Rightarrow>
                 (let errs = validateOutboundEvent ul oe in
                  if errs \<noteq> [] then
                    Some (incRejectedSafe RejectReasonMissingRequiredField counters, Inl (fieldErrors idx errs))
                  else if (case wo_request oe of Some h \<Rightarrow> too_large bodyCap (wh_body h) | None \<Rightarrow> False) then
                    Some (incRejectedSafe RejectReasonBodyTooLarge counters, Inl (item_error idx ''request.body'' (Text ''body too large'')))
                  else if (case wo_response oe of Some h \<Rightarrow> too_large bodyCap (wh_body h) | None \<Rightarrow> False) then
                    Some (incRejectedSafe RejectReasonBodyTooLarge counters, Inl (item_error idx ''response.body'' (Text ''body too large'')))
                  else (case buildOutboundRecord ul st oe bodyCap of
                          None \<Rightarrow> None | Some r \<Rightarrow> Some (counters, Inr (Outbound r)))))
          else
            Some (incRejectedSafe RejectReasonUnknownType counters, Inl (item_error idx ''type'' (UnknownTypeText (wr_type re)))))"

section \<open>The handler\<close>

datatype events_response = EvStatus nat | EvError nat "validation_error list" | EvText nat string
  | EvMulti nat nat

definition status_of :: "events_response \<Rightarrow> nat" where
  "status_of r = (case r of EvStatus s \<Rightarrow> s | EvError s _ \<Rightarrow> s | EvText s _ \<Rightarrow> s | EvMulti _ _ \<Rightarrow> 207)"

record events_config =
  ev_body_cap :: int
  ev_max_payload :: int
  ev_max_batch :: int

record events_request =
  er_content_length :: int
  er_body :: reader

text \<open>\<open>io.ReadAll\<close> through \<open>http.MaxBytesReader\<close>: more than the limit is an error.\<close>

definition read_payload :: "int \<Rightarrow> reader \<Rightarrow> string option" where
  "read_payload maxPayload r =
     (if maxPayload > 0 \<and> int (length (rd_data r)) > maxPayload then None else ReadAll r)"

definition is_batch :: "string \<Rightarrow> bool" where
  "is_batch rawBody =
     (case dropWhile (\<lambda>b. b \<in> {CHR '' '', CHR 0x09, CHR 0x0D, CHR 0x0A}) rawBody of
        [] \<Rightarrow> False | b # _ \<Rightarrow> b = CHR ''['')"

fun parse_items ::
  "unicode_map \<Rightarrow> event_json \<Rightarrow> int \<Rightarrow> (nat \<Rightarrow> stamp) \<Rightarrow> nat \<Rightarrow> string list \<Rightarrow> events_counters option
   \<Rightarrow> (events_counters option \<times> (validation_error list + capture_record list)) option" where
  "parse_items ul J bodyCap sts i [] counters = Some (counters, Inr [])"
| "parse_items ul J bodyCap sts i (item # items) counters =
     (case parseAndBuild ul J item (Some i) bodyCap (sts i) counters of
        None \<Rightarrow> None
      | Some (counters', Inl verrs) \<Rightarrow> Some (counters', Inl verrs)
      | Some (counters', Inr rec) \<Rightarrow>
          (case parse_items ul J bodyCap sts (Suc i) items counters' of
             Some (counters'', Inr recs) \<Rightarrow> Some (counters'', Inr (rec # recs))
           | x \<Rightarrow> x))"

fun enqueue_all ::
  "(nat \<Rightarrow> queue \<Rightarrow> queue) \<Rightarrow> nat \<Rightarrow> capture_record list \<Rightarrow> queue \<times> events_counters option \<times> nat \<times> nat
   \<Rightarrow> (queue \<times> events_counters option \<times> nat \<times> nat) option" where
  "enqueue_all other i [] st = Some st"
| "enqueue_all other i (rec # recs) (q, counters, accepted, dropped) =
     (case Enqueue (other i q) rec of
        None \<Rightarrow> None
      | Some (q', True) \<Rightarrow> enqueue_all other (Suc i) recs (q', incIngestedSafe rec counters, accepted + 1, dropped)
      | Some (q', False) \<Rightarrow> enqueue_all other (Suc i) recs (q', incDroppedQueueFullSafe counters, accepted, dropped + 1))"

definition queue_full_error :: events_response where
  "queue_full_error = EvError 503 (singleFieldError ''queue'' ''queue full'')"

definition batch_events ::
  "unicode_map \<Rightarrow> event_json \<Rightarrow> events_config \<Rightarrow> (nat \<Rightarrow> stamp) \<Rightarrow> (nat \<Rightarrow> queue \<Rightarrow> queue) \<Rightarrow> string
   \<Rightarrow> queue \<Rightarrow> events_counters option \<Rightarrow> (events_response \<times> queue \<times> events_counters option) option" where
  "batch_events ul J cfg sts other rawBody q counters =
     (case ej_batch J rawBody of
        Inl err \<Rightarrow> Some (EvError 400 (singleFieldError ''body'' err), q, incRejectedSafe RejectReasonInvalidJSON counters)
      | Inr rawItems \<Rightarrow>
          if rawItems = [] then
            Some (EvError 400 (singleFieldError ''body'' ''empty batch''), q, incRejectedSafe RejectReasonEmptyBatch counters)
          else if ev_max_batch cfg > 0 \<and> int (length rawItems) > ev_max_batch cfg then
            Some (EvError 413 (singleFieldError ''body'' ''batch too large''), q, incRejectedSafe RejectReasonBatchTooLarge counters)
          else (case parse_items ul J (ev_body_cap cfg) sts 0 rawItems counters of
                  None \<Rightarrow> None
                | Some (counters', Inl verrs) \<Rightarrow> Some (EvError 400 verrs, q, counters')
                | Some (counters', Inr records) \<Rightarrow>
                    (case enqueue_all other 0 records (q, counters', 0, 0) of
                       None \<Rightarrow> None
                     | Some (q', counters'', accepted, dropped) \<Rightarrow>
                         Some (if dropped = 0 then EvStatus 202
                               else if accepted > 0 then EvMulti accepted dropped
                               else queue_full_error, q', counters''))))"

definition single_event ::
  "unicode_map \<Rightarrow> event_json \<Rightarrow> events_config \<Rightarrow> (nat \<Rightarrow> stamp) \<Rightarrow> (nat \<Rightarrow> queue \<Rightarrow> queue) \<Rightarrow> string
   \<Rightarrow> queue \<Rightarrow> events_counters option \<Rightarrow> (events_response \<times> queue \<times> events_counters option) option" where
  "single_event ul J cfg sts other rawBody q counters =
     (case parseAndBuild ul J rawBody None (ev_body_cap cfg) (sts 0) counters of
        None \<Rightarrow> None
      | Some (counters', Inl verrs) \<Rightarrow> Some (EvError 400 verrs, q, counters')
      | Some (counters', Inr rec) \<Rightarrow>
          (case Enqueue (other 0 q) rec of
             None \<Rightarrow> None
           | Some (q', True) \<Rightarrow> Some (EvStatus 202, q', incIngestedSafe rec counters')
           | Some (q', False) \<Rightarrow> Some (queue_full_error, q', incDroppedQueueFullSafe counters')))"

definition eventsHandler ::
  "unicode_map \<Rightarrow> event_json \<Rightarrow> events_config \<Rightarrow> (nat \<Rightarrow> stamp) \<Rightarrow> (nat \<Rightarrow> queue \<Rightarrow> queue) \<Rightarrow> events_request
   \<Rightarrow> queue option \<Rightarrow> events_counters option \<Rightarrow> (events_response \<times> queue option \<times> events_counters option) option" where
  "eventsHandler ul J cfg sts other r queue counters =
     (let tooLarge = Some (EvError 413 (singleFieldError ''body'' ''payload too large''), queue,
            incRejectedSafe RejectReasonPayloadTooLarge counters) in
      if ev_max_payload cfg > 0 \<and> er_content_length r > ev_max_payload cfg then tooLarge
      else (case read_payload (ev_max_payload cfg) (er_body r) of
              None \<Rightarrow> tooLarge
            | Some rawBody \<Rightarrow>
                (case queue of
                   None \<Rightarrow> Some (EvText 503 ''events pipeline not configured'', queue, counters)
                 | Some q \<Rightarrow>
                     map_option (\<lambda>(resp, q', c'). (resp, Some q', c'))
                       ((if is_batch rawBody then batch_events else single_event)
                          ul J cfg sts other rawBody q counters))))"

section \<open>Facts about one item\<close>

lemma service_errors_Nil: "service_errors ul s = [] \<longleftrightarrow> SanitiseServiceLabel ul s \<noteq> []"
proof -
  have "SanitiseServiceLabel ul (TrimSpace s) = SanitiseServiceLabel ul s"
    by (simp add: SanitiseServiceLabel_def)
  then show ?thesis by (auto simp: service_errors_def SanitiseServiceLabel_def Let_def)
qed

lemma validateResponseEvent_Nil:
  "validateResponseEvent ul e = [] \<longleftrightarrow>
   SanitiseServiceLabel ul (wr_service e) \<noteq> [] \<and> wr_status e \<noteq> None \<and> wr_duration_ms e \<noteq> None"
  by (simp add: validateResponseEvent_def service_errors_Nil)

lemma validateOutboundEvent_Nil:
  "validateOutboundEvent ul e = [] \<longleftrightarrow>
   SanitiseServiceLabel ul (wo_service e) \<noteq> [] \<and>
   (\<exists>h. wo_request e = Some h \<and> TrimSpace (wh_method h) \<noteq> [] \<and> TrimSpace (wh_path h) \<noteq> []) \<and>
   wo_duration_ms e \<noteq> None \<and> (\<forall>h. wo_response e = Some h \<longrightarrow> wh_status h \<noteq> None)"
  by (auto simp: validateOutboundEvent_def service_errors_Nil split: option.splits)

lemma capEventBody_whole:
  assumes "\<not> too_large bodyCap body" and "bodyCap < 2 ^ 63 - 1"
  shows "capEventBody body bodyCap = (body, int (length body), False)"
proof (cases "bodyCap > 0 \<and> body \<noteq> []")
  case True
  then have "wrap64 (bodyCap + 1) = bodyCap + 1" using assms(2) by (intro wrap64_id) (simp add: in_int64_def)
  then show ?thesis using True assms
    by (simp add: capEventBody_def CapBody_def LimitReader_def ReadAll_def too_large_def)
next
  case False
  then show ?thesis by (auto simp: capEventBody_def CapBody_def ReadAll_def)
qed

lemma buildResponseRecord_total:
  "validateResponseEvent ul e = [] \<Longrightarrow> \<exists>r. buildResponseRecord ul st e bodyCap = Some r"
  by (auto simp: validateResponseEvent_Nil buildResponseRecord_def Let_def split: prod.split)

lemma buildOutboundRecord_total:
  "validateOutboundEvent ul e = [] \<Longrightarrow> \<exists>r. buildOutboundRecord ul st e bodyCap = Some r"
  by (cases "wo_response e")
     (auto simp: validateOutboundEvent_Nil buildOutboundRecord_def outbound_response_half_of_def Let_def split: prod.split)

lemma parseAndBuild_total: "parseAndBuild ul J item idx bodyCap st c \<noteq> None"
proof
  assume "parseAndBuild ul J item idx bodyCap st c = None"
  then have "(\<exists>e. validateResponseEvent ul e = [] \<and> buildResponseRecord ul st e bodyCap = None) \<or>
      (\<exists>e. validateOutboundEvent ul e = [] \<and> buildOutboundRecord ul st e bodyCap = None)"
    by (auto simp: parseAndBuild_def Let_def split: sum.splits option.splits if_splits)
  then show False using buildResponseRecord_total [of ul _ st bodyCap] buildOutboundRecord_total [of ul _ st bodyCap]
    by (metis option.distinct(1))
qed

text \<open>What an item becomes: a refusal that costs one rejection, or a record and no count.\<close>

definition rejected_total :: "events_counters \<Rightarrow> counter" where
  "rejected_total c = ec_rejectedInvalidJSON c + ec_rejectedPayloadTooLarge c + ec_rejectedUnknownType c +
     ec_rejectedMissingType c + ec_rejectedMissingRequiredField c + ec_rejectedEmptyBatch c +
     ec_rejectedBatchTooLarge c + ec_rejectedBodyTooLarge c"

definition ingested_total :: "events_counters \<Rightarrow> counter" where
  "ingested_total c = ec_ingestedResponse c + ec_ingestedOutbound c"

text \<open>The three totals an observer reads, all zero without counters.\<close>

definition tallies :: "events_counters option \<Rightarrow> counter \<times> counter \<times> counter" where
  "tallies c = (case c of None \<Rightarrow> (0, 0, 0) | Some c \<Rightarrow> (rejected_total c, ingested_total c, ec_droppedQueueFull c))"

definition answers_counted :: "events_counters option \<Rightarrow> counter" where
  "answers_counted c = (if c = None then 0 else 1)"

definition add_tallies :: "counter \<times> counter \<times> counter \<Rightarrow> counter \<times> counter \<times> counter \<Rightarrow> counter \<times> counter \<times> counter" where
  "add_tallies = (\<lambda>(r, i, d) (r', i', d'). (r + r', i + i', d + d'))"

lemma tallies_rejected: "tallies (incRejectedSafe reason c) = add_tallies (tallies c) (answers_counted c, 0, 0)"
  by (cases c; cases reason)
     (simp_all add: tallies_def incRejectedSafe_def incRejected_def rejected_total_def ingested_total_def add_tallies_def answers_counted_def)

lemma tallies_ingested:
  "\<not> is_request rec \<Longrightarrow> tallies (incIngestedSafe rec c) = add_tallies (tallies c) (0, answers_counted c, 0)"
  by (cases c; cases rec)
     (simp_all add: tallies_def incIngestedSafe_def incIngestedResponse_def incIngestedOutbound_def rejected_total_def ingested_total_def add_tallies_def answers_counted_def)

lemma tallies_dropped: "tallies (incDroppedQueueFullSafe c) = add_tallies (tallies c) (0, 0, answers_counted c)"
  by (cases c)
     (simp_all add: tallies_def incDroppedQueueFullSafe_def incDroppedQueueFull_def rejected_total_def ingested_total_def add_tallies_def answers_counted_def)

lemma counted_inc [simp]:
  "answers_counted (incRejectedSafe reason c) = answers_counted c" "answers_counted (incIngestedSafe rec c) = answers_counted c"
  "answers_counted (incDroppedQueueFullSafe c) = answers_counted c"
  by (simp_all add: answers_counted_def incRejectedSafe_def incIngestedSafe_def incDroppedQueueFullSafe_def)

lemma parseAndBuild_cases:
  assumes "parseAndBuild ul J item idx bodyCap st c = Some (c', out)"
  shows "(\<exists>errs reason. out = Inl errs \<and> c' = incRejectedSafe reason c \<and> errs \<noteq> []) \<or> (\<exists>rec. out = Inr rec \<and> c' = c \<and> \<not> is_request rec)"
  using assms by (auto simp: parseAndBuild_def Let_def fieldErrors_def item_error_def split: sum.splits option.splits if_splits)

section \<open>Facts about batches\<close>

lemma parse_items_total: "parse_items ul J bodyCap sts i items c \<noteq> None"
proof (induction items arbitrary: i c)
  case (Cons item items)
  obtain c' out where p: "parseAndBuild ul J item (Some i) bodyCap (sts i) c = Some (c', out)"
    using parseAndBuild_total [of ul J item "Some i" bodyCap "sts i" c] by auto
  show ?case
  proof (cases out)
    case (Inr rec)
    obtain c'' out' where "parse_items ul J bodyCap sts (Suc i) items c' = Some (c'', out')"
      using Cons.IH [of "Suc i" c'] by auto
    then show ?thesis using p Inr by (cases out') simp_all
  qed (simp add: p)
qed simp

lemma parse_items_cases:
  assumes "parse_items ul J bodyCap sts i items c = Some (c', out)"
  shows "(\<exists>errs reason. out = Inl errs \<and> c' = incRejectedSafe reason c \<and> errs \<noteq> []) \<or>
    (\<exists>recs. out = Inr recs \<and> c' = c \<and> length recs = length items \<and> list_all (\<lambda>r. \<not> is_request r) recs)"
  using assms
proof (induction items arbitrary: i c c' out)
  case (Cons item items)
  obtain c1 o1 where p: "parseAndBuild ul J item (Some i) bodyCap (sts i) c = Some (c1, o1)"
    using parseAndBuild_total [of ul J item "Some i" bodyCap "sts i" c] by auto
  show ?case
  proof (cases o1)
    case (Inl errs)
    then show ?thesis using parseAndBuild_cases [OF p] Cons.prems p by auto
  next
    case (Inr rec)
    then have c1: "c1 = c" "\<not> is_request rec" using parseAndBuild_cases [OF p] by auto
    obtain c2 o2 where q: "parse_items ul J bodyCap sts (Suc i) items c = Some (c2, o2)"
      using parse_items_total [of ul J bodyCap sts "Suc i" items c] by auto
    show ?thesis using Cons.IH [OF q] Cons.prems p q Inr c1 by (cases o2) auto
  qed
qed simp

definition keeps_open :: "(nat \<Rightarrow> queue \<Rightarrow> queue) \<Rightarrow> bool" where
  "keeps_open other = (\<forall>i q. \<not> q_closed q \<longrightarrow> \<not> q_closed (other i q))"

lemma Enqueue_open:
  assumes "\<not> q_closed q"
  obtains q' ok where "Enqueue q rec = Some (q', ok)" and "\<not> q_closed q'"
  using assms by (cases "length (q_c q) < q_cap q") (auto simp: Enqueue_def)

lemma enqueue_all_total:
  "keeps_open other \<Longrightarrow> \<not> q_closed q \<Longrightarrow> enqueue_all other i recs (q, c, a, d) \<noteq> None"
proof (induction recs arbitrary: i q c a d)
  case (Cons rec recs)
  have "\<not> q_closed (other i q)" using Cons.prems by (simp add: keeps_open_def)
  then obtain q' ok where "Enqueue (other i q) rec = Some (q', ok)" and "\<not> q_closed q'" by (rule Enqueue_open)
  then show ?case using Cons by (cases ok) simp_all
qed simp

lemma enqueue_all_counts:
  assumes "enqueue_all other i recs (q, c, a, d) = Some (q', c', a', d')" and "list_all (\<lambda>r. \<not> is_request r) recs"
  shows "\<exists>m n. a' = a + m \<and> d' = d + n \<and> m + n = length recs \<and>
    tallies c' = add_tallies (tallies c) (0, of_nat m * answers_counted c, of_nat n * answers_counted c)"
  using assms
proof (induction recs arbitrary: i q c a d)
  case Nil
  then show ?case by (simp add: add_tallies_def split: prod.split)
next
  case (Cons rec recs)
  obtain q1 ok where e: "Enqueue (other i q) rec = Some (q1, ok)" using Cons.prems(1) by (auto split: option.splits)
  show ?case
  proof (cases ok)
    case True
    then have "enqueue_all other (Suc i) recs (q1, incIngestedSafe rec c, a + 1, d) = Some (q', c', a', d')"
      using Cons.prems(1) e by simp
    from Cons.IH [OF this] Cons.prems(2) obtain m n where "a' = a + 1 + m" "d' = d + n" "m + n = length recs"
      "tallies c' = add_tallies (tallies (incIngestedSafe rec c)) (0, of_nat m * answers_counted c, of_nat n * answers_counted c)" by auto
    then show ?thesis using Cons.prems(2) tallies_ingested [of rec c]
      by (intro exI [of _ "Suc m"] exI [of _ n]) (simp add: add_tallies_def algebra_simps split: prod.split)
  next
    case False
    then have "enqueue_all other (Suc i) recs (q1, incDroppedQueueFullSafe c, a, d + 1) = Some (q', c', a', d')"
      using Cons.prems(1) e by simp
    from Cons.IH [OF this] Cons.prems(2) obtain m n where "a' = a + m" "d' = d + 1 + n" "m + n = length recs"
      "tallies c' = add_tallies (tallies (incDroppedQueueFullSafe c)) (0, of_nat m * answers_counted c, of_nat n * answers_counted c)" by auto
    then show ?thesis using tallies_dropped [of c]
      by (intro exI [of _ m] exI [of _ "Suc n"]) (simp add: add_tallies_def algebra_simps split: prod.split)
  qed
qed

text \<open>Without interference the queue takes records while there is room.\<close>

lemma enqueue_all_alone:
  assumes "\<not> q_closed q" and "length (q_c q) \<le> q_cap q"
    and "enqueue_all (\<lambda>_ q. q) i recs (q, c, a, d) = Some (q', c', a', d')"
  defines "m \<equiv> min (length recs) (q_cap q - length (q_c q))"
  shows "q_c q' = q_c q @ take m recs \<and> a' = a + m \<and> q_dropped q' = q_dropped q + of_nat (length recs - m)"
  using assms(1-3) unfolding m_def
proof (induction recs arbitrary: i q c a d)
  case (Cons rec recs)
  show ?case
  proof (cases "length (q_c q) < q_cap q")
    case True
    then have r: "enqueue_all (\<lambda>_ q. q) (Suc i) recs (q\<lparr>q_c := q_c q @ [rec]\<rparr>, incIngestedSafe rec c, a + 1, d) = Some (q', c', a', d')"
      using Cons.prems by (simp add: Enqueue_def)
    have "min (length (rec # recs)) (q_cap q - length (q_c q)) = Suc (min (length recs) (q_cap q - Suc (length (q_c q))))"
      using True by simp
    then show ?thesis using Cons.IH [OF _ _ r] Cons.prems True by simp
  next
    case False
    then have r: "enqueue_all (\<lambda>_ q. q) (Suc i) recs (q\<lparr>q_dropped := q_dropped q + 1\<rparr>, incDroppedQueueFullSafe c, a, d + 1) = Some (q', c', a', d')"
      using Cons.prems by (simp add: Enqueue_def)
    then show ?thesis using Cons.IH [OF _ _ r] Cons.prems False by simp
  qed
qed simp

section \<open>Properties\<close>

text \<open>
  The bookkeeping an answer stands for: a refusal leaves the queue alone and costs one
  rejection; otherwise every item of the request was either ingested or dropped.
\<close>

definition accounted ::
  "events_response \<Rightarrow> queue option \<Rightarrow> events_counters option \<Rightarrow> queue option \<Rightarrow> events_counters option \<Rightarrow> bool" where
  "accounted resp q c q' c' =
     (let delta = (\<lambda>r i d. tallies c' = add_tallies (tallies c) (r * answers_counted c, i * answers_counted c, d * answers_counted c)) in
      case resp of
        EvStatus s \<Rightarrow> s = 202 \<and> (\<exists>n > 0. delta 0 (of_nat n) 0)
      | EvMulti a d \<Rightarrow> a > 0 \<and> d > 0 \<and> delta 0 (of_nat a) (of_nat d)
      | EvText s _ \<Rightarrow> s = 503 \<and> q = None \<and> q' = None \<and> c' = c
      | EvError s errs \<Rightarrow> errs \<noteq> [] \<and>
          (if s = 503 then \<exists>n > 0. delta 0 0 (of_nat n) else s \<in> {400, 413} \<and> q' = q \<and> delta 1 0 0))"

lemma batch_total: "keeps_open other \<Longrightarrow> \<not> q_closed q \<Longrightarrow> batch_events ul J cfg sts other raw q c \<noteq> None"
  by (auto simp: batch_events_def parse_items_total enqueue_all_total split: sum.splits option.splits)

lemma single_total: "keeps_open other \<Longrightarrow> \<not> q_closed q \<Longrightarrow> single_event ul J cfg sts other raw q c \<noteq> None"
  by (auto simp: single_event_def parseAndBuild_total keeps_open_def Enqueue_def split: sum.splits option.splits bool.splits if_splits)

lemma single_accounted:
  assumes "single_event ul J cfg sts other raw q c = Some (resp, q', c')"
  shows "accounted resp (Some q) c (Some q') c'"
proof -
  obtain c1 out where p: "parseAndBuild ul J raw None (ev_body_cap cfg) (sts 0) c = Some (c1, out)"
    using parseAndBuild_total [of ul J raw None "ev_body_cap cfg" "sts 0" c] by auto
  show ?thesis
  proof (cases out)
    case (Inl errs)
    then show ?thesis using assms p parseAndBuild_cases [OF p]
      by (auto simp: single_event_def accounted_def tallies_rejected Let_def)
  next
    case (Inr rec)
    then have "c1 = c" "\<not> is_request rec" using parseAndBuild_cases [OF p] by auto
    then show ?thesis using assms p Inr
      by (auto simp: single_event_def accounted_def tallies_ingested tallies_dropped queue_full_error_def singleFieldError_def Let_def
          split: option.splits bool.splits intro!: exI [of _ "Suc 0"])
  qed
qed

lemma batch_accounted:
  assumes "batch_events ul J cfg sts other raw q c = Some (resp, q', c')"
  shows "accounted resp (Some q) c (Some q') c'"
proof (cases "\<exists>items. ej_batch J raw = Inr items \<and> items \<noteq> [] \<and> \<not> (ev_max_batch cfg > 0 \<and> int (length items) > ev_max_batch cfg)")
  case True
  then obtain items where it: "ej_batch J raw = Inr items" "items \<noteq> []"
    "\<not> (ev_max_batch cfg > 0 \<and> int (length items) > ev_max_batch cfg)" by blast
  obtain c1 out where p: "parse_items ul J (ev_body_cap cfg) sts 0 items c = Some (c1, out)"
    using parse_items_total [of ul J "ev_body_cap cfg" sts 0 items c] by auto
  show ?thesis
  proof (cases out)
    case (Inl errs)
    then show ?thesis using assms it p parse_items_cases [OF p]
      by (auto simp: batch_events_def accounted_def tallies_rejected Let_def)
  next
    case (Inr recs)
    then have r: "c1 = c" "length recs = length items" "list_all (\<lambda>r. \<not> is_request r) recs" using parse_items_cases [OF p] by auto
    obtain q2 c2 a d where e: "enqueue_all other 0 recs (q, c, 0, 0) = Some (q2, c2, a, d)"
      using assms it p Inr r(1) by (auto simp: batch_events_def split: option.splits)
    have "(resp, q', c') = (if d = 0 then EvStatus 202 else if a > 0 then EvMulti a d else queue_full_error, q2, c2)"
      using assms it p Inr r(1) e by (auto simp: batch_events_def)
    moreover have "a + d > 0 \<and> tallies c2 = add_tallies (tallies c) (0, of_nat a * answers_counted c, of_nat d * answers_counted c)"
      using enqueue_all_counts [OF e r(3)] r(2) it(2) by auto
    ultimately show ?thesis by (auto simp: accounted_def Let_def queue_full_error_def singleFieldError_def)
  qed
next
  case False
  then show ?thesis using assms
    by (auto simp: batch_events_def accounted_def tallies_rejected singleFieldError_def Let_def split: sum.splits if_splits)
qed


definition sample_stamps :: "nat \<Rightarrow> stamp" where
  "sample_stamps i = \<lparr>st_uuid = ''id-'' @ nat_digits i, st_corr_uuid = ''corr-'' @ nat_digits i, st_now = 100\<rparr>"

definition sample_wire :: "string \<Rightarrow> wire_response_event" where
  "sample_wire body = \<lparr>wr_type = ''response'', wr_correlation_id = '' c-1 '', wr_service = ''API'', wr_timestamp = None,
     wr_status = Some 200, wr_headers = None, wr_body = body, wr_content_type = ''text/plain'', wr_duration_ms = Some 3\<rparr>"

text \<open>A decoder for the examples: an item is the body of a response event.\<close>

definition sample_json :: event_json where
  "sample_json = \<lparr>ej_response = (\<lambda>s. Inr (sample_wire s)), ej_outbound = (\<lambda>s. Inl ''unused''),
     ej_batch = (\<lambda>s. Inr [''a'', ''b''])\<rparr>"

definition sample_config :: events_config where
  "sample_config = \<lparr>ev_body_cap = 8, ev_max_payload = 64, ev_max_batch = 5\<rparr>"


text \<open>A body taken over as a whole, and a correlation id from the event itself.\<close>

definition taken_over :: "int \<Rightarrow> string \<Rightarrow> string \<Rightarrow> int \<Rightarrow> bool \<Rightarrow> bool" where
  "taken_over bodyCap src stored originalSize truncated =
     (stored = src \<and> originalSize = int (length src) \<and> \<not> truncated \<and> \<not> too_large bodyCap src)"

definition explicit_ok :: "string \<Rightarrow> string \<Rightarrow> string \<Rightarrow> bool" where
  "explicit_ok given corrID source =
     (if source = ''explicit'' then corrID = TrimSpace given \<and> corrID \<noteq> [] \<and> length corrID \<le> 256 \<and> isPrintableASCII corrID
      else TrimSpace given = [] \<or> length (TrimSpace given) > 256 \<or> \<not> isPrintableASCII (TrimSpace given))"

lemma deriveCorrelation_ok: "deriveCorrelation ul given headers uuid = (corrID, source) \<Longrightarrow> explicit_ok given corrID source"
  by (auto simp: deriveCorrelation_def explicit_ok_def IdentifyCorrelation_def maxExplicitCorrelationID_def Let_def split: if_splits option.splits)

definition response_faithful :: "unicode_map \<Rightarrow> int \<Rightarrow> wire_response_event \<Rightarrow> response_event \<Rightarrow> bool" where
  "response_faithful ul bodyCap e v =
     (taken_over bodyCap (wr_body e) (re_body v) (re_body_original_size v) (re_body_truncated v) \<and>
      explicit_ok (wr_correlation_id e) (re_correlation_id v) (re_correlation_source v) \<and>
      re_service v = SanitiseServiceLabel ul (wr_service e) \<and> re_service v \<noteq> [] \<and>
      wr_status e = Some (re_status v) \<and> wr_duration_ms e = Some (re_duration_ms v) \<and> re_headers v = wr_headers e)"

definition half_faithful :: "int \<Rightarrow> wire_outbound_half \<Rightarrow> outbound_response_half \<Rightarrow> bool" where
  "half_faithful bodyCap h p =
     (taken_over bodyCap (wh_body h) (or_body p) (or_body_original_size p) (or_body_truncated p) \<and>
      wh_status h = Some (or_status p) \<and> or_headers p = wh_headers h)"

definition outbound_faithful :: "unicode_map \<Rightarrow> int \<Rightarrow> wire_outbound_event \<Rightarrow> outbound_event \<Rightarrow> bool" where
  "outbound_faithful ul bodyCap e v =
     (explicit_ok (wo_correlation_id e) (oe_correlation_id v) (oe_correlation_source v) \<and>
      oe_service v = SanitiseServiceLabel ul (wo_service e) \<and> oe_service v \<noteq> [] \<and>
      wo_duration_ms e = Some (oe_duration_ms v) \<and>
      (case wo_request e of
         None \<Rightarrow> False
       | Some h \<Rightarrow> oq_method (oe_request v) = wh_method h \<and> oq_path (oe_request v) = wh_path h \<and>
           TrimSpace (wh_method h) \<noteq> [] \<and> TrimSpace (wh_path h) \<noteq> [] \<and>
           taken_over bodyCap (wh_body h) (oq_body (oe_request v)) (oq_body_original_size (oe_request v)) (oq_body_truncated (oe_request v))) \<and>
      (case (wo_response e, oe_response v) of
         (None, None) \<Rightarrow> True | (Some h, Some p) \<Rightarrow> half_faithful bodyCap h p | _ \<Rightarrow> False))"

lemma buildResponseRecord_faithful:
  assumes "buildResponseRecord ul st e bodyCap = Some v" and "validateResponseEvent ul e = []"
    and "\<not> too_large bodyCap (wr_body e)" and "bodyCap < 2 ^ 63 - 1"
  shows "response_faithful ul bodyCap e v"
proof -
  obtain cid cs where d: "deriveCorrelation ul (wr_correlation_id e) (wr_headers e) (st_corr_uuid st) = (cid, cs)" by fastforce
  show ?thesis using assms(1,2,3) capEventBody_whole [OF assms(3,4)] d deriveCorrelation_ok [OF d]
    by (auto simp: buildResponseRecord_def validateResponseEvent_Nil response_faithful_def taken_over_def Let_def split: option.splits)
qed

lemma outbound_half_faithful:
  assumes "outbound_response_half_of h bodyCap = Some p" and "\<not> too_large bodyCap (wh_body h)" and "bodyCap < 2 ^ 63 - 1"
  shows "half_faithful bodyCap h p"
  using assms(1,2) capEventBody_whole [OF assms(2,3)]
  by (auto simp: outbound_response_half_of_def half_faithful_def taken_over_def split: option.splits)

lemma buildOutboundRecord_faithful:
  assumes b: "buildOutboundRecord ul st e bodyCap = Some v" and v: "validateOutboundEvent ul e = []"
    and rq: "case wo_request e of Some h \<Rightarrow> \<not> too_large bodyCap (wh_body h) | None \<Rightarrow> True"
    and rp: "case wo_response e of Some h \<Rightarrow> \<not> too_large bodyCap (wh_body h) | None \<Rightarrow> True"
    and cap: "bodyCap < 2 ^ 63 - 1"
  shows "outbound_faithful ul bodyCap e v"
proof -
  obtain h where h: "wo_request e = Some h" using v by (auto simp: validateOutboundEvent_Nil)
  obtain cid cs where d: "deriveCorrelation ul (wo_correlation_id e) (wh_headers h) (st_corr_uuid st) = (cid, cs)" by fastforce
  have c: "capEventBody (wh_body h) bodyCap = (wh_body h, int (length (wh_body h)), False)"
    by (rule capEventBody_whole) (use rq h cap in auto)
  show ?thesis
  proof (cases "wo_response e")
    case None
    then show ?thesis using b v rq h d c deriveCorrelation_ok [OF d]
      by (auto simp: buildOutboundRecord_def validateOutboundEvent_Nil outbound_faithful_def taken_over_def Let_def split: option.splits)
  next
    case (Some g)
    then obtain p where p: "outbound_response_half_of g bodyCap = Some p"
      using b h by (auto simp: buildOutboundRecord_def Let_def split: option.splits prod.splits)
    have "half_faithful bodyCap g p" by (rule outbound_half_faithful [OF p _ cap]) (use rp Some in auto)
    then show ?thesis using b v rq h d c p Some deriveCorrelation_ok [OF d]
      by (auto simp: buildOutboundRecord_def validateOutboundEvent_Nil outbound_faithful_def taken_over_def Let_def split: option.splits)
  qed
qed

text \<open>
  An accepted event is stored as it was sent. The record has the declared type; its body
  is the whole body of the event, within the cap and never marked truncated; status,
  duration, headers, method and path are those of the event; the service label is
  present; and the correlation id is the sender's exactly when that is printable and at most
  256 bytes long.
\<close>

theorem event_record_faithful:
  assumes "parseAndBuild ul J item idx bodyCap st c = Some (c', Inr rec)" and "bodyCap < 2 ^ 63 - 1"
  shows "case rec of
      Request _ \<Rightarrow> False
    | Response v \<Rightarrow> (\<exists>e. ej_response J item = Inr e \<and> wr_type e = ''response'' \<and> response_faithful ul bodyCap e v)
    | Outbound v \<Rightarrow> (\<exists>e. ej_outbound J item = Inr e \<and> outbound_faithful ul bodyCap e v)"
proof (cases rec)
  case (Request v)
  then show ?thesis using parseAndBuild_cases [OF assms(1)] by auto
next
  case (Response v)
  then obtain e where "ej_response J item = Inr e" "wr_type e = ''response''" "validateResponseEvent ul e = []"
    "\<not> too_large bodyCap (wr_body e)" "buildResponseRecord ul st e bodyCap = Some v"
    using assms(1) by (auto simp: parseAndBuild_def Let_def split: sum.splits option.splits if_splits)
  then show ?thesis using Response buildResponseRecord_faithful assms(2) by auto
next
  case (Outbound v)
  then obtain e where "ej_outbound J item = Inr e" "validateOutboundEvent ul e = []"
    "case wo_request e of Some h \<Rightarrow> \<not> too_large bodyCap (wh_body h) | None \<Rightarrow> True"
    "case wo_response e of Some h \<Rightarrow> \<not> too_large bodyCap (wh_body h) | None \<Rightarrow> True"
    "buildOutboundRecord ul st e bodyCap = Some v"
    using assms(1) by (auto simp: parseAndBuild_def Let_def split: sum.splits option.splits if_splits)
  then show ?thesis using Outbound buildOutboundRecord_faithful assms(2) by auto
qed

theorem event_record_faithful_witness:
  "\<exists>v. parseAndBuild id sample_json ''hi'' None 8 (sample_stamps 0) None = Some (None, Inr (Response v)) \<and>
     (\<exists>e. ej_response sample_json ''hi'' = Inr e \<and> wr_type e = ''response'' \<and> response_faithful id 8 e v)"
proof -
  have "SanitiseServiceLabel id ''API'' \<noteq> []" by code_simp
  then obtain v where v: "parseAndBuild id sample_json ''hi'' None 8 (sample_stamps 0) None = Some (None, Inr (Response v))"
    using parseAndBuild_total [of id sample_json "''hi''" None 8 "sample_stamps 0" None]
      validateResponseEvent_Nil [of id "sample_wire ''hi''"] buildResponseRecord_total [of id "sample_wire ''hi''" "sample_stamps 0" 8]
    by (auto simp: parseAndBuild_def sample_json_def sample_wire_def too_large_def Let_def)
  show ?thesis using event_record_faithful [OF v] v by simp
qed

end
