(* ===== verification/Metrics.thy ===== *)
theory Metrics
  imports Limiter
begin

text \<open>
  The Prometheus exposition: the accessor bundle of internal/admin/metrics.go and the collector
  of internal/metrics/metrics.go. An accessor is what it returns at the scrape, None a nil
  function. A float64 is a rational, \<open>rnd\<close> the rounding of a conversion. The registry, the HTTP
  handler and the runtime collectors belong to the Prometheus client library.
\<close>

section \<open>Sources\<close>

record metric_sources =
  mt_captured :: "counter option"
  mt_dropped :: "counter option"
  mt_capture_errors :: "counter option"
  mt_without_correlation :: "counter option"
  mt_without_service :: "counter option"
  mt_redaction_errors :: "counter option"
  mt_worker_panics :: "counter option"
  mt_unredacted :: "bool option"
  mt_ingested_response :: "counter option"
  mt_ingested_outbound :: "counter option"
  mt_rejected_invalid_json :: "counter option"
  mt_rejected_payload_too_large :: "counter option"
  mt_rejected_unknown_type :: "counter option"
  mt_rejected_missing_type :: "counter option"
  mt_rejected_missing_required_field :: "counter option"
  mt_rejected_empty_batch :: "counter option"
  mt_rejected_batch_too_large :: "counter option"
  mt_rejected_body_too_large :: "counter option"
  mt_dropped_queue_full :: "counter option"
  mt_orphans_response :: "int option"
  mt_orphans_outbound :: "int option"
  mt_auth_invalid_token :: "counter option"
  mt_auth_rate_limited :: "counter option"
  mt_auth_csrf_blocked :: "counter option"
  mt_sink_errors_memory :: "counter option"
  mt_sink_errors_sqlite :: "counter option"
  mt_sink_errors_stdout :: "counter option"

record prom_sources =
  ps_captured :: "counter option"
  ps_dropped :: "counter option"
  ps_capture_errors :: "counter option"
  ps_without_correlation :: "counter option"
  ps_without_service :: "counter option"
  ps_redaction_errors :: "counter option"
  ps_worker_panics :: "counter option"
  ps_ingested_response :: "counter option"
  ps_ingested_outbound :: "counter option"
  ps_rejected_invalid_json :: "counter option"
  ps_rejected_payload_too_large :: "counter option"
  ps_rejected_unknown_type :: "counter option"
  ps_rejected_missing_type :: "counter option"
  ps_rejected_missing_required_field :: "counter option"
  ps_rejected_empty_batch :: "counter option"
  ps_rejected_batch_too_large :: "counter option"
  ps_rejected_body_too_large :: "counter option"
  ps_dropped_queue_full :: "counter option"
  ps_orphans_response :: "int option"
  ps_orphans_outbound :: "int option"
  ps_auth_invalid_token :: "counter option"
  ps_auth_rate_limited :: "counter option"
  ps_auth_csrf_blocked :: "counter option"
  ps_sink_errors_memory :: "counter option"
  ps_sink_errors_sqlite :: "counter option"
  ps_sink_errors_stdout :: "counter option"
  ps_version :: string
  ps_build_time :: string

definition coalesce :: "'a \<Rightarrow> 'a option \<Rightarrow> 'a option" where
  "coalesce zero f = (case f of Some v \<Rightarrow> Some v | None \<Rightarrow> Some zero)"

definition normalize :: "metric_sources \<Rightarrow> metric_sources" where
  "normalize s = s\<lparr>
     mt_captured := coalesce 0 (mt_captured s),
     mt_dropped := coalesce 0 (mt_dropped s),
     mt_capture_errors := coalesce 0 (mt_capture_errors s),
     mt_without_correlation := coalesce 0 (mt_without_correlation s),
     mt_without_service := coalesce 0 (mt_without_service s),
     mt_redaction_errors := coalesce 0 (mt_redaction_errors s),
     mt_worker_panics := coalesce 0 (mt_worker_panics s),
     mt_unredacted := coalesce False (mt_unredacted s),
     mt_ingested_response := coalesce 0 (mt_ingested_response s),
     mt_ingested_outbound := coalesce 0 (mt_ingested_outbound s),
     mt_rejected_invalid_json := coalesce 0 (mt_rejected_invalid_json s),
     mt_rejected_payload_too_large := coalesce 0 (mt_rejected_payload_too_large s),
     mt_rejected_unknown_type := coalesce 0 (mt_rejected_unknown_type s),
     mt_rejected_missing_type := coalesce 0 (mt_rejected_missing_type s),
     mt_rejected_missing_required_field := coalesce 0 (mt_rejected_missing_required_field s),
     mt_rejected_empty_batch := coalesce 0 (mt_rejected_empty_batch s),
     mt_rejected_batch_too_large := coalesce 0 (mt_rejected_batch_too_large s),
     mt_rejected_body_too_large := coalesce 0 (mt_rejected_body_too_large s),
     mt_dropped_queue_full := coalesce 0 (mt_dropped_queue_full s),
     mt_orphans_response := coalesce 0 (mt_orphans_response s),
     mt_orphans_outbound := coalesce 0 (mt_orphans_outbound s),
     mt_auth_invalid_token := coalesce 0 (mt_auth_invalid_token s),
     mt_auth_rate_limited := coalesce 0 (mt_auth_rate_limited s),
     mt_auth_csrf_blocked := coalesce 0 (mt_auth_csrf_blocked s),
     mt_sink_errors_memory := coalesce 0 (mt_sink_errors_memory s),
     mt_sink_errors_sqlite := coalesce 0 (mt_sink_errors_sqlite s),
     mt_sink_errors_stdout := coalesce 0 (mt_sink_errors_stdout s)\<rparr>"

definition promSources :: "string \<Rightarrow> string \<Rightarrow> metric_sources \<Rightarrow> prom_sources" where
  "promSources version build_time s = \<lparr>
     ps_captured = mt_captured s,
     ps_dropped = mt_dropped s,
     ps_capture_errors = mt_capture_errors s,
     ps_without_correlation = mt_without_correlation s,
     ps_without_service = mt_without_service s,
     ps_redaction_errors = mt_redaction_errors s,
     ps_worker_panics = mt_worker_panics s,
     ps_ingested_response = mt_ingested_response s,
     ps_ingested_outbound = mt_ingested_outbound s,
     ps_rejected_invalid_json = mt_rejected_invalid_json s,
     ps_rejected_payload_too_large = mt_rejected_payload_too_large s,
     ps_rejected_unknown_type = mt_rejected_unknown_type s,
     ps_rejected_missing_type = mt_rejected_missing_type s,
     ps_rejected_missing_required_field = mt_rejected_missing_required_field s,
     ps_rejected_empty_batch = mt_rejected_empty_batch s,
     ps_rejected_batch_too_large = mt_rejected_batch_too_large s,
     ps_rejected_body_too_large = mt_rejected_body_too_large s,
     ps_dropped_queue_full = mt_dropped_queue_full s,
     ps_orphans_response = mt_orphans_response s,
     ps_orphans_outbound = mt_orphans_outbound s,
     ps_auth_invalid_token = mt_auth_invalid_token s,
     ps_auth_rate_limited = mt_auth_rate_limited s,
     ps_auth_csrf_blocked = mt_auth_csrf_blocked s,
     ps_sink_errors_memory = mt_sink_errors_memory s,
     ps_sink_errors_sqlite = mt_sink_errors_sqlite s,
     ps_sink_errors_stdout = mt_sink_errors_stdout s,
     ps_version = version, ps_build_time = build_time\<rparr>"

section \<open>The collector\<close>

text \<open>A descriptor is its name and its label names; the help text plays no part.\<close>

record desc =
  de_name :: string
  de_labels :: "string list"

record collector =
  cl_captured :: desc
  cl_dropped :: desc
  cl_capture_errors :: desc
  cl_without_correlation :: desc
  cl_without_service :: desc
  cl_redaction_errors :: desc
  cl_worker_panics :: desc
  cl_events_ingested :: desc
  cl_events_rejected :: desc
  cl_events_dropped_queue_full :: desc
  cl_orphans :: desc
  cl_auth_failures :: desc
  cl_sink_write_errors :: desc
  cl_build_info :: desc

definition newCollector :: collector where
  "newCollector = \<lparr>
     cl_captured = \<lparr>de_name = ''httpcatch_captured_total'', de_labels = []\<rparr>,
     cl_dropped = \<lparr>de_name = ''httpcatch_dropped_total'', de_labels = []\<rparr>,
     cl_capture_errors = \<lparr>de_name = ''httpcatch_capture_errors_total'', de_labels = []\<rparr>,
     cl_without_correlation = \<lparr>de_name = ''httpcatch_captured_without_correlation_total'', de_labels = []\<rparr>,
     cl_without_service = \<lparr>de_name = ''httpcatch_captured_without_service_total'', de_labels = []\<rparr>,
     cl_redaction_errors = \<lparr>de_name = ''httpcatch_redaction_errors_total'', de_labels = []\<rparr>,
     cl_worker_panics = \<lparr>de_name = ''httpcatch_worker_panics_total'', de_labels = []\<rparr>,
     cl_events_ingested = \<lparr>de_name = ''httpcatch_events_ingested_total'', de_labels = [''type'']\<rparr>,
     cl_events_rejected = \<lparr>de_name = ''httpcatch_events_rejected_total'', de_labels = [''reason'']\<rparr>,
     cl_events_dropped_queue_full = \<lparr>de_name = ''httpcatch_events_dropped_queue_full_total'', de_labels = []\<rparr>,
     cl_orphans = \<lparr>de_name = ''httpcatch_orphans'', de_labels = [''type'']\<rparr>,
     cl_auth_failures = \<lparr>de_name = ''httpcatch_auth_failures_total'', de_labels = [''reason'']\<rparr>,
     cl_sink_write_errors = \<lparr>de_name = ''httpcatch_sink_write_errors_total'', de_labels = [''sink'']\<rparr>,
     cl_build_info = \<lparr>de_name = ''httpcatch_build_info'', de_labels = [''version'', ''build_time'']\<rparr>\<rparr>"

definition Describe :: "collector \<Rightarrow> desc list" where
  "Describe c = [cl_captured c, cl_dropped c, cl_capture_errors c, cl_without_correlation c, cl_without_service c, cl_redaction_errors c, cl_worker_panics c, cl_events_ingested c, cl_events_rejected c, cl_events_dropped_queue_full c, cl_orphans c, cl_auth_failures c, cl_sink_write_errors c, cl_build_info c]"

datatype value_type = CounterValue | GaugeValue

record metric =
  me_desc :: desc
  me_type :: value_type
  me_value :: rat
  me_labels :: "string list"

definition countUint :: "(rat \<Rightarrow> rat) \<Rightarrow> counter option \<Rightarrow> rat" where
  "countUint rnd f = (case f of None \<Rightarrow> 0 | Some v \<Rightarrow> rnd (of_nat (unat v)))"

definition countInt :: "(rat \<Rightarrow> rat) \<Rightarrow> int option \<Rightarrow> rat" where
  "countInt rnd f = (case f of None \<Rightarrow> 0 | Some v \<Rightarrow> rnd (of_int v))"

text \<open>\<open>MustNewConstMetric\<close> panics (None) when the labels do not fit the descriptor.\<close>

definition MustNewConstMetric :: "desc \<Rightarrow> value_type \<Rightarrow> rat \<Rightarrow> string list \<Rightarrow> metric option" where
  "MustNewConstMetric d ty v labels =
     (if length labels = length (de_labels d) then Some \<lparr>me_desc = d, me_type = ty, me_value = v, me_labels = labels\<rparr> else None)"

fun send_all :: "metric option list \<Rightarrow> metric list option" where
  "send_all [] = Some []"
| "send_all (None # ms) = None"
| "send_all (Some m # ms) = map_option (\<lambda>rest. m # rest) (send_all ms)"

definition Collect_metrics :: "(rat \<Rightarrow> rat) \<Rightarrow> collector \<Rightarrow> prom_sources \<Rightarrow> metric list option" where
  "Collect_metrics rnd c src =
     (let counter_of = (\<lambda>d f labels. MustNewConstMetric d CounterValue (countUint rnd f) labels);
          gauge = (\<lambda>d f labels. MustNewConstMetric d GaugeValue (countInt rnd f) labels)
      in send_all [
        counter_of (cl_captured c) (ps_captured src) [],
        counter_of (cl_dropped c) (ps_dropped src) [],
        counter_of (cl_capture_errors c) (ps_capture_errors src) [],
        counter_of (cl_without_correlation c) (ps_without_correlation src) [],
        counter_of (cl_without_service c) (ps_without_service src) [],
        counter_of (cl_redaction_errors c) (ps_redaction_errors src) [],
        counter_of (cl_worker_panics c) (ps_worker_panics src) [],
        counter_of (cl_events_ingested c) (ps_ingested_response src) [''response''],
        counter_of (cl_events_ingested c) (ps_ingested_outbound src) [''outbound''],
        counter_of (cl_events_rejected c) (ps_rejected_invalid_json src) [''invalid_json''],
        counter_of (cl_events_rejected c) (ps_rejected_payload_too_large src) [''payload_too_large''],
        counter_of (cl_events_rejected c) (ps_rejected_unknown_type src) [''unknown_type''],
        counter_of (cl_events_rejected c) (ps_rejected_missing_type src) [''missing_type''],
        counter_of (cl_events_rejected c) (ps_rejected_missing_required_field src) [''missing_required_field''],
        counter_of (cl_events_rejected c) (ps_rejected_empty_batch src) [''empty_batch''],
        counter_of (cl_events_rejected c) (ps_rejected_batch_too_large src) [''batch_too_large''],
        counter_of (cl_events_rejected c) (ps_rejected_body_too_large src) [''body_too_large''],
        counter_of (cl_events_dropped_queue_full c) (ps_dropped_queue_full src) [],
        gauge (cl_orphans c) (ps_orphans_response src) [''response''],
        gauge (cl_orphans c) (ps_orphans_outbound src) [''outbound''],
        counter_of (cl_auth_failures c) (ps_auth_invalid_token src) [''invalid_token''],
        counter_of (cl_auth_failures c) (ps_auth_rate_limited src) [''rate_limited''],
        counter_of (cl_auth_failures c) (ps_auth_csrf_blocked src) [''csrf_blocked''],
        counter_of (cl_sink_write_errors c) (ps_sink_errors_memory src) [''memory''],
        counter_of (cl_sink_write_errors c) (ps_sink_errors_sqlite src) [''sqlite''],
        counter_of (cl_sink_write_errors c) (ps_sink_errors_stdout src) [''stdout''],
        MustNewConstMetric (cl_build_info c) GaugeValue 1 [ps_version src, ps_build_time src]])"

definition ProcessingBuckets :: "rat list" where
  "ProcessingBuckets = [1/10000, 25/100000, 5/10000, 1/1000, 25/10000, 5/1000, 1/100, 25/1000, 5/100, 1/10, 25/100, 5/10, 1]"

section \<open>The status endpoint\<close>

record status_response =
  st_unredacted :: bool
  st_dropped_total :: counter
  st_without_correlation_total :: counter
  st_without_service_total :: counter
  st_redaction_errors_total :: counter
  st_version :: string
  st_build_time :: string

text \<open>The handler calls the accessors; \<open>New\<close> has normalised them, so none is nil (None is the panic).\<close>

definition statusHandler :: "string \<Rightarrow> string \<Rightarrow> metric_sources \<Rightarrow> status_response option" where
  "statusHandler version build_time src =
     (case (mt_unredacted src, mt_dropped src, mt_without_correlation src, mt_without_service src, mt_redaction_errors src) of
        (Some u, Some d, Some wc, Some ws, Some re) \<Rightarrow>
          Some \<lparr>st_unredacted = u, st_dropped_total = d, st_without_correlation_total = wc,
            st_without_service_total = ws, st_redaction_errors_total = re, st_version = version, st_build_time = build_time\<rparr>
      | _ \<Rightarrow> None)"

section \<open>Facts\<close>

lemmas collect_defs = Collect_metrics_def newCollector_def MustNewConstMetric_def Let_def

lemma coalesce_simps [simp]: "coalesce z (Some v) = Some v" "coalesce z None = Some z"
  by (simp_all add: coalesce_def)

lemma countUint_coalesce: "rnd 0 = 0 \<Longrightarrow> countUint rnd (coalesce 0 f) = countUint rnd f"
  by (cases f) (simp_all add: countUint_def)

lemma countInt_coalesce: "rnd 0 = 0 \<Longrightarrow> countInt rnd (coalesce 0 f) = countInt rnd f"
  by (cases f) (simp_all add: countInt_def)

text \<open>The sources whose values a float64 holds exactly.\<close>

definition small_count :: "counter option \<Rightarrow> bool" where
  "small_count f = (case f of None \<Rightarrow> True | Some v \<Rightarrow> unat v \<le> 2 ^ 53)"

definition small_gauge :: "int option \<Rightarrow> bool" where
  "small_gauge f = (case f of None \<Rightarrow> True | Some v \<Rightarrow> \<bar>v\<bar> \<le> 2 ^ 53)"

definition exact_sources :: "metric_sources \<Rightarrow> bool" where
  "exact_sources s \<longleftrightarrow> list_all small_count [mt_captured s, mt_dropped s, mt_capture_errors s, mt_without_correlation s, mt_without_service s, mt_redaction_errors s, mt_worker_panics s, mt_ingested_response s, mt_ingested_outbound s, mt_rejected_invalid_json s, mt_rejected_payload_too_large s, mt_rejected_unknown_type s, mt_rejected_missing_type s, mt_rejected_missing_required_field s, mt_rejected_empty_batch s, mt_rejected_batch_too_large s, mt_rejected_body_too_large s, mt_dropped_queue_full s, mt_auth_invalid_token s, mt_auth_rate_limited s, mt_auth_csrf_blocked s, mt_sink_errors_memory s, mt_sink_errors_sqlite s, mt_sink_errors_stdout s] \<and> small_gauge (mt_orphans_response s) \<and> small_gauge (mt_orphans_outbound s)"

lemma coalesce_value: obtains v where "coalesce z f = Some v" "f = Some v \<or> v = z"
  by (cases f) auto

lemma countUint_exact:
  assumes "ieee_round rnd" "small_count f" "coalesce 0 f = Some v"
  shows "countUint rnd (Some v) = of_nat (unat v)"
proof -
  have "unat v \<le> 2 ^ 53" using assms(2,3) by (cases f) (auto simp: small_count_def)
  then have "int (unat v) \<le> int (2 ^ 53)" by (simp only: of_nat_le_iff)
  then have "\<bar>int (unat v)\<bar> \<le> 2 ^ 53" by (simp only: abs_of_nat of_nat_power of_nat_numeral)
  from ieee_int [OF assms(1) this] show ?thesis unfolding countUint_def option.case of_int_of_nat_eq .
qed

lemma countInt_exact:
  assumes "ieee_round rnd" "small_gauge f" "coalesce 0 f = Some v"
  shows "countInt rnd (Some v) = of_int v"
proof -
  have "\<bar>v\<bar> \<le> 2 ^ 53" using assms(2,3) by (cases f) (auto simp: small_gauge_def)
  from ieee_int [OF assms(1) this] show ?thesis unfolding countInt_def option.case .
qed

lemma countUint_inject:
  assumes "ieee_round rnd" "small_count f" "small_count g"
  shows "countUint rnd (coalesce 0 f) = countUint rnd (coalesce 0 g) \<longleftrightarrow> coalesce 0 f = coalesce 0 g"
proof -
  obtain v w where c: "coalesce 0 f = Some v" "coalesce 0 g = Some w" by (meson coalesce_value)
  show ?thesis unfolding c countUint_exact [OF assms(1,2) c(1)] countUint_exact [OF assms(1,3) c(2)]
    by (simp only: of_nat_eq_iff option.inject word_unat_eq_iff)
qed

lemma countInt_inject:
  assumes "ieee_round rnd" "small_gauge f" "small_gauge g"
  shows "countInt rnd (coalesce 0 f) = countInt rnd (coalesce 0 g) \<longleftrightarrow> coalesce 0 f = coalesce 0 g"
proof -
  obtain v w where c: "coalesce 0 f = Some v" "coalesce 0 g = Some w" by (meson coalesce_value)
  show ?thesis unfolding c countInt_exact [OF assms(1,2) c(1)] countInt_exact [OF assms(1,3) c(2)] by simp
qed

section \<open>Properties\<close>


text \<open>
  The exposition loses nothing and mixes nothing up: a nil accessor reads like a counter at
  zero, and up to 2 to the 53rd, where float64 is exact, two scrapes are equal only when every single
  counter and gauge is equal.
\<close>

theorem exposition_lossless:
  assumes "ieee_round rnd" and "exact_sources s" and "exact_sources s'"
  shows "Collect_metrics rnd newCollector (promSources v b (normalize s)) = Collect_metrics rnd newCollector (promSources v b s) \<and>
    (Collect_metrics rnd newCollector (promSources v b s) = Collect_metrics rnd newCollector (promSources v b s') \<longleftrightarrow>
     normalize s\<lparr>mt_unredacted := None\<rparr> = normalize s'\<lparr>mt_unredacted := None\<rparr>)"
proof -
  have z: "rnd 0 = 0" by (rule ieee_small(1) [OF assms(1)])
  have n: "Collect_metrics rnd newCollector (promSources v b (normalize s)) = Collect_metrics rnd newCollector (promSources v b s)" for s
    by (simp add: collect_defs promSources_def normalize_def countUint_coalesce countInt_coalesce z)
  have "Collect_metrics rnd newCollector (promSources v b (normalize s)) = Collect_metrics rnd newCollector (promSources v b (normalize s')) \<longleftrightarrow>
     normalize s\<lparr>mt_unredacted := None\<rparr> = normalize s'\<lparr>mt_unredacted := None\<rparr>"
    using assms(2,3) unfolding exact_sources_def
    by (cases s; cases s') (simp add: collect_defs promSources_def normalize_def countUint_inject [OF assms(1)] countInt_inject [OF assms(1)])
  with n show ?thesis by simp
qed

definition nil_sources :: metric_sources where
  "nil_sources = \<lparr>mt_captured = None, mt_dropped = None, mt_capture_errors = None, mt_without_correlation = None, mt_without_service = None, mt_redaction_errors = None, mt_worker_panics = None, mt_unredacted = None, mt_ingested_response = None, mt_ingested_outbound = None, mt_rejected_invalid_json = None, mt_rejected_payload_too_large = None, mt_rejected_unknown_type = None, mt_rejected_missing_type = None, mt_rejected_missing_required_field = None, mt_rejected_empty_batch = None, mt_rejected_batch_too_large = None, mt_rejected_body_too_large = None, mt_dropped_queue_full = None, mt_orphans_response = None, mt_orphans_outbound = None, mt_auth_invalid_token = None, mt_auth_rate_limited = None, mt_auth_csrf_blocked = None, mt_sink_errors_memory = None, mt_sink_errors_sqlite = None, mt_sink_errors_stdout = None\<rparr>"

theorem exposition_lossless_witness:
  "Collect_metrics (\<lambda>x. x) newCollector (promSources ''1'' ''t'' nil_sources) \<noteq>
   Collect_metrics (\<lambda>x. x) newCollector (promSources ''1'' ''t'' (nil_sources\<lparr>mt_captured := Some 7\<rparr>)) \<and>
   Collect_metrics (\<lambda>x. x) newCollector (promSources ''1'' ''t'' nil_sources) =
   Collect_metrics (\<lambda>x. x) newCollector (promSources ''1'' ''t'' (nil_sources\<lparr>mt_dropped := Some 0\<rparr>))"
proof -
  have e: "exact_sources nil_sources" "exact_sources (nil_sources\<lparr>mt_captured := Some 7\<rparr>)" "exact_sources (nil_sources\<lparr>mt_dropped := Some 0\<rparr>)"
    by (simp_all add: exact_sources_def nil_sources_def small_count_def small_gauge_def)
  show ?thesis
    using exposition_lossless [OF ieee_round_id e(1) e(2)] exposition_lossless [OF ieee_round_id e(1) e(3)]
    by (simp add: normalize_def nil_sources_def)
qed

end
