(* ===== verification/Admin_Server.thy ===== *)
theory Admin_Server
  imports Ui_Pages Auth Events Metrics
begin

text \<open>
  The admin server of internal/admin/server.go: its construction and its route table with the
  middleware chain of every route, composed with the handlers of the other theories. The chi
  router is a library: \<open>pick\<close>, an argument, is the route it selects for a request, with the value
  of the id parameter (None is its own 404 or 405 answer). The registry behind /metrics is the
  list that Metrics collects. Opening the listener is I/O; a sweep is the
  operation of Auth and Limiter, and the two sweeper goroutines are in Sweepers.
\<close>

section \<open>Routes\<close>

datatype endpoint =
    EpHealthz | EpMetrics | EpLoginPage | EpLoginPost | EpLogout | EpStatic
  | EpRoot | EpStatus | EpRequests | EpAggregate | EpRequestDetail
  | EpUiRequests | EpUiRequestDetail | EpUiServices | EpUiConfiguration | EpEvents

datatype layer = JsonHeaders | HtmlHeaders | CsrfCheck | AuthGate bool

record route =
  rt_verb :: string
  rt_pattern :: string
  rt_layers :: "layer list"
  rt_endpoint :: endpoint

definition get_route :: "layer list \<Rightarrow> string \<Rightarrow> endpoint \<Rightarrow> route" where
  "get_route ls p e = \<lparr>rt_verb = ''GET'', rt_pattern = p, rt_layers = ls, rt_endpoint = e\<rparr>"

definition post_route :: "layer list \<Rightarrow> string \<Rightarrow> endpoint \<Rightarrow> route" where
  "post_route ls p e = \<lparr>rt_verb = ''POST'', rt_pattern = p, rt_layers = ls, rt_endpoint = e\<rparr>"

definition admin_routes :: "route list" where
  "admin_routes =
     [get_route [JsonHeaders] ''/healthz'' EpHealthz,
      get_route [JsonHeaders] ''/metrics'' EpMetrics,
      get_route [HtmlHeaders] ''/login'' EpLoginPage,
      post_route [HtmlHeaders, CsrfCheck] ''/auth/login'' EpLoginPost,
      post_route [HtmlHeaders, CsrfCheck] ''/auth/logout'' EpLogout,
      get_route [JsonHeaders] ''/static/*'' EpStatic] @
     map (\<lambda>(p, e). get_route [HtmlHeaders, AuthGate True] p e)
       [(''/'', EpRoot), (''/status'', EpStatus), (''/requests'', EpRequests), (''/requests/aggregate'', EpAggregate),
        (''/requests/{id}'', EpRequestDetail), (''/ui/requests'', EpUiRequests), (''/ui/requests/{id}'', EpUiRequestDetail),
        (''/ui/services'', EpUiServices), (''/ui/configuration'', EpUiConfiguration)] @
     [post_route [JsonHeaders, AuthGate False] ''/events'' EpEvents]"

section \<open>The server\<close>

text \<open>What a server is built from, and the libraries its handlers call.\<close>

record server_libs =
  sl_rnd :: "rat \<Rightarrow> rat"
  sl_lower :: unicode_map
  sl_upper :: unicode_map
  sl_parse_time :: "string \<Rightarrow> time option"
  sl_format_time :: "time \<Rightarrow> string"
  sl_url_host :: "string \<Rightarrow> string option"
  sl_fold_eq :: "string \<Rightarrow> string \<Rightarrow> bool"
  sl_ip_loopback :: "string \<Rightarrow> bool"
  sl_event_json :: event_json
  sl_yaml :: "config \<Rightarrow> string option"
  sl_render :: "configuration_page_data \<Rightarrow> string option"
  sl_sha_hex :: "string \<Rightarrow> string"
  sl_ui_files :: ui_files
  sl_version :: string
  sl_build_time :: string

record server_options =
  so_readers :: read_sources
  so_events :: events_config
  so_effective :: config

record server =
  se_libs :: server_libs
  se_cfg :: Auth.admin_config
  se_etags :: "(string \<times> string) list"
  se_options :: server_options
  se_configuration :: "http_request \<Rightarrow> page_reply"

record server_state =
  ss_admin :: admin_state
  ss_queue :: "queue option"
  ss_events :: "events_counters option"
  ss_sources :: metric_sources

datatype server_error = BindRefused bind_error | ConfigurationPanic

definition auth_settings :: "Config.admin_config \<Rightarrow> Auth.admin_config" where
  "auth_settings a = \<lparr>ac_token = ad_token a, ac_session_ttl = ad_session_ttl a, ac_session_secure = ad_session_secure a\<rparr>"

text \<open>
  The auth counters are read from the limiter at the scrape; the unredacted flag of the
  configuration page is read once, at construction.
\<close>

definition wire_auth :: "auth_limiter \<Rightarrow> metric_sources \<Rightarrow> metric_sources" where
  "wire_auth l src = src\<lparr>mt_auth_invalid_token := Some (al_invalid_token l),
     mt_auth_rate_limited := Some (al_rate_limited l), mt_auth_csrf_blocked := Some (al_csrf_blocked l)\<rparr>"

definition live_sources :: "server_state \<Rightarrow> metric_sources" where
  "live_sources s = normalize (wire_auth (as_limiter (ss_admin s)) (ss_sources s))"

definition New_server ::
  "server_libs \<Rightarrow> Config.admin_config \<Rightarrow> metric_sources \<Rightarrow> server_options \<Rightarrow> queue option \<Rightarrow> events_counters option
   \<Rightarrow> server_error + server \<times> server_state" where
  "New_server L cfg sources opts q ec =
     (case Guard (sl_ip_loopback L) (ad_bind cfg) (ad_token cfg \<noteq> []) (ad_insecure_listen cfg) of
        Inl e \<Rightarrow> Inl (BindRefused e)
      | Inr _ \<Rightarrow>
          (let s = \<lparr>ss_admin = \<lparr>as_limiter = NewAuthLimiter, as_sessions = NewSessionStore\<rparr>,
                    ss_queue = q, ss_events = ec, ss_sources = sources\<rparr>
           in case configurationUIHandler (sl_yaml L) (sl_render L) (sl_sha_hex L) (so_effective opts)
                     (mt_unredacted (live_sources s) = Some True) of
                None \<Rightarrow> Inl ConfigurationPanic
              | Some page \<Rightarrow>
                  Inr (\<lparr>se_libs = L, se_cfg = auth_settings cfg, se_etags = buildEtags (sl_sha_hex L) (sl_ui_files L),
                        se_options = opts, se_configuration = page\<rparr>, s)))"

section \<open>Requests\<close>

text \<open>
  One request with what the environment supplies while it is served: the clock readings, the
  random bytes, the parsed form, the id parameter, the stamps of the events and the enqueues
  of other goroutines between the items of a batch.
\<close>

record served_request =
  sr_request :: http_request
  sr_uri :: string
  sr_ident :: string
  sr_now :: time
  sr_random :: "string option"
  sr_form :: "(string \<times> string) list option"
  sr_payload :: events_request
  sr_stamps :: "nat \<Rightarrow> stamp"
  sr_other :: "nat \<Rightarrow> queue \<Rightarrow> queue"

datatype payload =
    Page page_reply
  | Metrics "metric list option"
  | Redirect string
  | Status "status_response option"
  | Api response
  | Ui ui_response
  | Services services_page_data
  | Events "events_response option"

text \<open>
  One clock reading serves all handlers. A panicking events handler answers nothing (None); what it
  enqueued before is not tracked.
\<close>

definition handle :: "server \<Rightarrow> endpoint \<Rightarrow> served_request \<Rightarrow> server_state \<Rightarrow> payload reply \<times> server_state" where
  "handle S ep q s =
     (let L = se_libs S; r = sr_request q; vals = rq_query r; rs = so_readers (se_options S);
          ul = sl_lower L; uu = sl_upper L; pt = sl_parse_time L; fmt = sl_format_time L; now = sr_now q
      in case ep of
           EpHealthz \<Rightarrow> (Served (Page healthzHandler), s)
         | EpMetrics \<Rightarrow> (Served (Metrics (Collect_metrics (sl_rnd L) newCollector
             (promSources (sl_version L) (sl_build_time L) (live_sources s)))), s)
         | EpLoginPage \<Rightarrow> (loginPageHandler (values_get vals ''next'') (values_get vals ''err''), s)
         | EpLoginPost \<Rightarrow> (case loginPostHandler (sl_rnd L) (se_cfg S) now (sr_random q) r (sr_form q) (ss_admin s) of
             (reply, a) \<Rightarrow> (reply, s\<lparr>ss_admin := a\<rparr>))
         | EpLogout \<Rightarrow> (case logoutHandler (se_cfg S) r (ss_admin s) of (reply, a) \<Rightarrow> (reply, s\<lparr>ss_admin := a\<rparr>))
         | EpStatic \<Rightarrow> (Served (Page (staticHandler (se_etags S) (sl_ui_files L) r)), s)
         | EpRoot \<Rightarrow> (Served (Redirect rootRedirectHandler), s)
         | EpStatus \<Rightarrow> (Served (Status (statusHandler (sl_version L) (sl_build_time L) (live_sources s))), s)
         | EpRequests \<Rightarrow> (Served (Api (requestsHandler ul uu pt rs vals)), s)
         | EpAggregate \<Rightarrow> (Served (Api (requestsAggregateHandler ul uu pt rs vals)), s)
         | EpRequestDetail \<Rightarrow> (Served (Api (requestDetailHandler rs (sr_ident q))), s)
         | EpUiRequests \<Rightarrow> (Served (Ui (requestListHandler ul uu pt fmt rs now now vals)), s)
         | EpUiRequestDetail \<Rightarrow> (Served (Ui (requestDetailUIHandler rs (sr_ident q))), s)
         | EpUiServices \<Rightarrow> (Served (Services (servicesUIHandler (sl_rnd L) fmt rs now)), s)
         | EpUiConfiguration \<Rightarrow> (Served (Page (se_configuration S r)), s)
         | EpEvents \<Rightarrow>
             (case eventsHandler ul (sl_event_json L) (so_events (se_options S)) (sr_stamps q) (sr_other q) (sr_payload q) (ss_queue s) (ss_events s) of
                None \<Rightarrow> (Served (Events None), s)
              | Some (resp, queue', ec) \<Rightarrow> (Served (Events (Some resp)), s\<lparr>ss_queue := queue', ss_events := ec\<rparr>)))"

record outcome =
  oc_headers :: hmap
  oc_reply :: "payload reply"

text \<open>The layers of a route, outermost first, around its handler.\<close>

fun run_layers :: "server \<Rightarrow> layer list \<Rightarrow> endpoint \<Rightarrow> served_request \<Rightarrow> hmap \<Rightarrow> server_state \<Rightarrow> outcome \<times> server_state" where
  "run_layers S [] ep q h s = (case handle S ep q s of (reply, s') \<Rightarrow> (\<lparr>oc_headers = h, oc_reply = reply\<rparr>, s'))"
| "run_layers S (JsonHeaders # ls) ep q h s = run_layers S ls ep q (jsonSecurityHeaders h) s"
| "run_layers S (HtmlHeaders # ls) ep q h s = run_layers S ls ep q (htmlSecurityHeaders h) s"
| "run_layers S (CsrfCheck # ls) ep q h s =
     (case csrfOriginCheck (sl_url_host (se_libs S)) (sl_fold_eq (se_libs S)) (sr_request q) (\<lambda>a. (Served (), a)) (ss_admin s) of
        (Served _, a) \<Rightarrow> run_layers S ls ep q h (s\<lparr>ss_admin := a\<rparr>)
      | (reply, a) \<Rightarrow> (\<lparr>oc_headers = h, oc_reply = Forbidden\<rparr>, s\<lparr>ss_admin := a\<rparr>))"
| "run_layers S (AuthGate cookieAuth # ls) ep q h s =
     (case Middleware (sl_rnd (se_libs S)) (ac_token (se_cfg S)) cookieAuth (sr_now q) (sr_request q) (sr_uri q) (\<lambda>_. ()) (ss_admin s) of
        (Served _, a) \<Rightarrow> run_layers S ls ep q h (s\<lparr>ss_admin := a\<rparr>)
      | (TooManyRequests n, a) \<Rightarrow> (\<lparr>oc_headers = h, oc_reply = TooManyRequests n\<rparr>, s\<lparr>ss_admin := a\<rparr>)
      | (SeeOther u c, a) \<Rightarrow> (\<lparr>oc_headers = h, oc_reply = SeeOther u c\<rparr>, s\<lparr>ss_admin := a\<rparr>)
      | (_, a) \<Rightarrow> (\<lparr>oc_headers = h, oc_reply = Unauthorized\<rparr>, s\<lparr>ss_admin := a\<rparr>))"

definition serve_route :: "server \<Rightarrow> route \<Rightarrow> served_request \<Rightarrow> server_state \<Rightarrow> outcome \<times> server_state" where
  "serve_route S rt q s = run_layers S (rt_layers rt) (rt_endpoint rt) q [] s"

text \<open>The server on a request; None is the router's own answer.\<close>

definition ServeHTTP ::
  "(http_request \<Rightarrow> route option) \<Rightarrow> server \<Rightarrow> served_request \<Rightarrow> server_state \<Rightarrow> outcome option \<times> server_state" where
  "ServeHTTP pick S q s =
     (case pick (sr_request q) of
        None \<Rightarrow> (None, s)
      | Some rt \<Rightarrow> (case serve_route S rt q s of (oc, s') \<Rightarrow> (Some oc, s')))"

section \<open>Facts\<close>

definition public_endpoints :: "endpoint list" where
  "public_endpoints = [EpHealthz, EpMetrics, EpLoginPage, EpLoginPost, EpLogout, EpStatic]"

definition guarded :: "route \<Rightarrow> bool" where
  "guarded rt = (rt_endpoint rt \<notin> set public_endpoints)"

text \<open>Whether the rate limiter lets the client through and the credential is accepted.\<close>

definition admitted :: "server \<Rightarrow> route \<Rightarrow> served_request \<Rightarrow> server_state \<Rightarrow> bool" where
  "admitted S rt q s =
     (fst (Allowed (sl_rnd (se_libs S)) (sr_now q) (ClientIP (rq_remote_addr (sr_request q))) (as_limiter (ss_admin s))) \<and>
      authenticate (sr_now q) (sr_request q) (ac_token (se_cfg S)) (as_sessions (ss_admin s)) (rt_endpoint rt \<noteq> EpEvents))"

definition refused :: "payload reply \<Rightarrow> bool" where
  "refused reply = (case reply of Unauthorized \<Rightarrow> True | TooManyRequests _ \<Rightarrow> True | SeeOther u c \<Rightarrow> has_prefix u ''/login?next='' \<and> c = None | _ \<Rightarrow> False)"

text \<open>The routes as the code groups them.\<close>

lemma route_cases:
  assumes "rt \<in> set admin_routes"
  shows "guarded rt \<and> (if rt_endpoint rt = EpEvents then rt_layers rt = [JsonHeaders, AuthGate False] \<and> rt_verb rt = ''POST''
      else rt_layers rt = [HtmlHeaders, AuthGate True] \<and> rt_verb rt = ''GET'') \<or>
    \<not> guarded rt \<and> (if rt_endpoint rt \<in> {EpLoginPost, EpLogout} then rt_layers rt = [HtmlHeaders, CsrfCheck] \<and> rt_verb rt = ''POST''
      else rt_layers rt \<in> {[JsonHeaders], [HtmlHeaders]} \<and> rt_verb rt = ''GET'')"
  using assms by (auto simp: admin_routes_def get_route_def post_route_def guarded_def public_endpoints_def)

lemma Middleware_sessions: "as_sessions (snd (Middleware rnd tok ca now r uri nxt a)) = as_sessions a"
  by (simp add: Middleware_def Let_def case_prod_beta)

lemma gate_refuses:
  assumes "\<not> (fst (Allowed rnd now (ClientIP (rq_remote_addr r)) (as_limiter a)) \<and> authenticate now r tok (as_sessions a) ca)"
  shows "\<exists>n. fst (Middleware rnd tok ca now r uri (\<lambda>_. ()) a) = TooManyRequests n \<or>
    fst (Middleware rnd tok ca now r uri (\<lambda>_. ()) a) = Unauthorized \<or>
    fst (Middleware rnd tok ca now r uri (\<lambda>_. ()) a) = SeeOther (''/login?next='' @ QueryEscape uri) None"
  using assms by (auto simp: Middleware_def Let_def case_prod_beta denyRequest_def)

lemma gate_blocks:
  assumes "\<not> (fst (Allowed (sl_rnd (se_libs S)) (sr_now q) (ClientIP (rq_remote_addr (sr_request q))) (as_limiter (ss_admin s))) \<and>
      authenticate (sr_now q) (sr_request q) (ac_token (se_cfg S)) (as_sessions (ss_admin s)) ca)"
  shows "refused (oc_reply (fst (run_layers S (AuthGate ca # ls) ep q h s)))"
    "\<exists>a. as_sessions a = as_sessions (ss_admin s) \<and> snd (run_layers S (AuthGate ca # ls) ep q h s) = s\<lparr>ss_admin := a\<rparr>"
    "run_layers (S\<lparr>se_options := opts, se_configuration := page\<rparr>) (AuthGate ca # ls) ep' q h
       (s\<lparr>ss_queue := queue, ss_events := ec, ss_sources := src\<rparr>) =
     (fst (run_layers S (AuthGate ca # ls) ep q h s),
      (snd (run_layers S (AuthGate ca # ls) ep q h s))\<lparr>ss_queue := queue, ss_events := ec, ss_sources := src\<rparr>)"
proof -
  let ?m = "Middleware (sl_rnd (se_libs S)) (ac_token (se_cfg S)) ca (sr_now q) (sr_request q) (sr_uri q) (\<lambda>_. ()) (ss_admin s)"
  obtain reply a where m: "?m = (reply, a)" by fastforce
  have a: "as_sessions a = as_sessions (ss_admin s)"
    using Middleware_sessions [of "sl_rnd (se_libs S)" "ac_token (se_cfg S)" ca "sr_now q" "sr_request q" "sr_uri q" "\<lambda>_. ()" "ss_admin s"] m by simp
  have r: "\<exists>n. reply = TooManyRequests n \<or> reply = Unauthorized \<or> reply = SeeOther (''/login?next='' @ QueryEscape (sr_uri q)) None"
    using gate_refuses [OF assms, of "sr_uri q"] m by simp
  then show "refused (oc_reply (fst (run_layers S (AuthGate ca # ls) ep q h s)))"
    "\<exists>a. as_sessions a = as_sessions (ss_admin s) \<and> snd (run_layers S (AuthGate ca # ls) ep q h s) = s\<lparr>ss_admin := a\<rparr>"
    "run_layers (S\<lparr>se_options := opts, se_configuration := page\<rparr>) (AuthGate ca # ls) ep' q h
       (s\<lparr>ss_queue := queue, ss_events := ec, ss_sources := src\<rparr>) =
     (fst (run_layers S (AuthGate ca # ls) ep q h s),
      (snd (run_layers S (AuthGate ca # ls) ep q h s))\<lparr>ss_queue := queue, ss_events := ec, ss_sources := src\<rparr>)"
    using m a by (auto simp: refused_def has_prefix_def)
qed

lemma gate_passes:
  assumes "fst (Allowed (sl_rnd (se_libs S)) (sr_now q) (ClientIP (rq_remote_addr (sr_request q))) (as_limiter (ss_admin s)))"
    and "authenticate (sr_now q) (sr_request q) (ac_token (se_cfg S)) (as_sessions (ss_admin s)) ca"
  shows "\<exists>l. run_layers S (AuthGate ca # ls) ep q h s = run_layers S ls ep q h (s\<lparr>ss_admin := (ss_admin s)\<lparr>as_limiter := l\<rparr>\<rparr>)"
  using assms by (auto simp: Middleware_def Let_def case_prod_beta)

lemma handle_guarded:
  "ep \<notin> set public_endpoints \<Longrightarrow> \<exists>pl. fst (handle S ep q s) = Served pl"
  by (cases ep) (auto simp: handle_def public_endpoints_def Let_def split: option.split)

lemma handle_keeps:
  "ep \<notin> {EpLoginPost, EpLogout, EpEvents} \<Longrightarrow> snd (handle S ep q s) = s"
  by (cases ep) (auto simp: handle_def Let_def)

lemma run_layers_headers:
  "list_all (\<lambda>l. l \<noteq> JsonHeaders \<and> l \<noteq> HtmlHeaders) ls \<Longrightarrow> oc_headers (fst (run_layers S ls ep q h s)) = h"
  by (induction S ls ep q h s rule: run_layers.induct) (auto split: prod.split reply.split)

lemma csrf_sessions: "as_sessions (snd (csrfOriginCheck uh uf r (\<lambda>a. (Served (), a)) a)) = as_sessions a"
  by (simp add: csrfOriginCheck_def)

text \<open>A gate either answers itself or hands on; it never touches the sessions.\<close>

lemma gate_step:
  assumes "l = CsrfCheck \<or> l = AuthGate ca"
  obtains a where "as_sessions a = as_sessions (ss_admin s)"
    "run_layers S (l # ls) ep q h s = run_layers S ls ep q h (s\<lparr>ss_admin := a\<rparr>) \<or>
     (\<exists>reply. run_layers S (l # ls) ep q h s = (\<lparr>oc_headers = h, oc_reply = reply\<rparr>, s\<lparr>ss_admin := a\<rparr>))"
  using assms
proof
  assume l: "l = CsrfCheck"
  obtain reply a where m: "csrfOriginCheck (sl_url_host (se_libs S)) (sl_fold_eq (se_libs S)) (sr_request q) (\<lambda>a. (Served (), a)) (ss_admin s) = (reply, a)"
    by fastforce
  have "as_sessions a = as_sessions (ss_admin s)" using csrf_sessions m by (metis snd_conv)
  then show thesis by (rule that) (use l m in \<open>cases reply; simp\<close>)
next
  assume l: "l = AuthGate ca"
  obtain reply a where m: "Middleware (sl_rnd (se_libs S)) (ac_token (se_cfg S)) ca (sr_now q) (sr_request q) (sr_uri q) (\<lambda>_. ()) (ss_admin s) = (reply, a)"
    by fastforce
  have "as_sessions a = as_sessions (ss_admin s)" using Middleware_sessions m by (metis snd_conv)
  then show thesis by (rule that) (use l m in \<open>cases reply; simp\<close>)
qed

text \<open>Induction over the layers for what the gates and the header layers do not change.\<close>

lemma run_layers_inv:
  assumes "\<And>s. P s \<Longrightarrow> P (snd (handle S ep q s))"
    and "\<And>s a. P s \<Longrightarrow> as_sessions a = as_sessions (ss_admin s) \<Longrightarrow> P (s\<lparr>ss_admin := a\<rparr>)"
  shows "P s \<Longrightarrow> P (snd (run_layers S ls ep q h s))"
proof (induction ls arbitrary: h s)
  case Nil
  then show ?case using assms(1) by (simp add: case_prod_beta)
next
  case (Cons l ls)
  show ?case
  proof (cases "l = JsonHeaders \<or> l = HtmlHeaders")
    case True
    then show ?thesis using Cons by auto
  next
    case False
    then obtain ca where "l = CsrfCheck \<or> l = AuthGate ca" by (cases l) auto
    then obtain a where "as_sessions a = as_sessions (ss_admin s)"
      "run_layers S (l # ls) ep q h s = run_layers S ls ep q h (s\<lparr>ss_admin := a\<rparr>) \<or>
       (\<exists>reply. run_layers S (l # ls) ep q h s = (\<lparr>oc_headers = h, oc_reply = reply\<rparr>, s\<lparr>ss_admin := a\<rparr>))"
      by (rule gate_step)
    with assms(2) [OF Cons.prems] Cons.IH show ?thesis by auto
  qed
qed

text \<open>Only login, logout and the events handler touch what the gates leave alone.\<close>

lemma run_layers_keeps:
  assumes "ep \<notin> {EpLoginPost, EpLogout, EpEvents}"
  shows "ss_queue (snd (run_layers S ls ep q h s)) = ss_queue s \<and> ss_events (snd (run_layers S ls ep q h s)) = ss_events s \<and>
    as_sessions (ss_admin (snd (run_layers S ls ep q h s))) = as_sessions (ss_admin s)"
  by (rule run_layers_inv [where P = "\<lambda>s'. ss_queue s' = ss_queue s \<and> ss_events s' = ss_events s \<and> as_sessions (ss_admin s') = as_sessions (ss_admin s)"])
    (simp_all add: handle_keeps [OF assms])

section \<open>The running server\<close>

text \<open>
  The states a server goes through: requests are served one by one, the sweepers run, and the
  rest of the program changes the queue, the event counters and the sampled counters at will.
\<close>

inductive server_reaches :: "(http_request \<Rightarrow> route option) \<Rightarrow> server \<Rightarrow> server_state \<Rightarrow> server_state \<Rightarrow> bool"
  for pick S s0 where
  Started: "server_reaches pick S s0 s0"
| Served_one: "server_reaches pick S s0 s \<Longrightarrow> server_reaches pick S s0 (snd (ServeHTTP pick S q s))"
| Swept: "server_reaches pick S s0 s \<Longrightarrow> server_reaches pick S s0
     (s\<lparr>ss_admin := \<lparr>as_limiter = sweep_limiter now (as_limiter (ss_admin s)), as_sessions = Sweep_sessions now' (as_sessions (ss_admin s))\<rparr>\<rparr>)"
| Elsewhere: "server_reaches pick S s0 s \<Longrightarrow> server_reaches pick S s0 (s\<lparr>ss_queue := queue, ss_events := ec, ss_sources := src\<rparr>)"

abbreviation no_sessions :: "server_state \<Rightarrow> bool" where
  "no_sessions s \<equiv> as_sessions (ss_admin s) = Map.empty"

lemma handle_no_token:
  "ac_token (se_cfg S) = [] \<Longrightarrow> no_sessions s \<Longrightarrow> no_sessions (snd (handle S ep q s))"
  by (cases ep) (auto simp: handle_def Let_def loginPostHandler_def logoutHandler_def checkBearer_def Revoke_def case_prod_beta split: option.split)

lemma run_layers_no_token:
  "ac_token (se_cfg S) = [] \<Longrightarrow> no_sessions s \<Longrightarrow> no_sessions (snd (run_layers S ls ep q h s))"
  by (rule run_layers_inv) (simp_all add: handle_no_token)

lemma tokenless_invariant:
  assumes "server_reaches pick S s0 s" "ac_token (se_cfg S) = []" "no_sessions s0"
  shows "no_sessions s"
  using assms(1)
proof induction
  case (Served_one s q)
  then show ?case using run_layers_no_token [OF assms(2)]
    by (simp add: ServeHTTP_def serve_route_def case_prod_beta split: option.split)
qed (simp_all add: assms(3) Sweep_sessions_def)

lemma tokenless_not_admitted:
  "ac_token (se_cfg S) = [] \<Longrightarrow> no_sessions s \<Longrightarrow> \<not> admitted S rt q s"
  by (simp add: admitted_def authenticate_def checkBearer_def Auth.Validate_def Let_def split: option.split)

lemma guarded_refused:
  assumes "rt \<in> set admin_routes" "guarded rt" "\<not> admitted S rt q s"
  shows "refused (oc_reply (fst (serve_route S rt q s)))"
proof -
  obtain h where "serve_route S rt q s = run_layers S [AuthGate (rt_endpoint rt \<noteq> EpEvents)] (rt_endpoint rt) q h s"
    using route_cases [OF assms(1)] assms(2) by (cases "rt_endpoint rt = EpEvents") (auto simp: serve_route_def)
  then show ?thesis using gate_blocks(1) [OF assms(3) [unfolded admitted_def]] by simp
qed

lemma security_header_values:
  "header_get (htmlSecurityHeaders []) ''X-Content-Type-Options'' = ''nosniff''" "header_get (jsonSecurityHeaders []) ''X-Content-Type-Options'' = ''nosniff''"
  "header_get (htmlSecurityHeaders []) ''X-Frame-Options'' = ''DENY''" "header_get (jsonSecurityHeaders []) ''X-Frame-Options'' = ''DENY''"
  "header_get (htmlSecurityHeaders []) ''Referrer-Policy'' = ''no-referrer''" "header_get (jsonSecurityHeaders []) ''Referrer-Policy'' = ''no-referrer''"
  "header_get (htmlSecurityHeaders []) ''Content-Security-Policy'' = cspHTML"
  by code_simp+

section \<open>Properties\<close>

text \<open>
  C5. Nothing behind the login is served without a credential. For every route of the table
  other than the six public ones, a request is handled exactly when the rate limiter admits the
  client and the bearer token matches or, except for POST /events, the session cookie is
  valid. A request that is not admitted is answered 401, 429 or with a redirect to the login page,
  leaves the queue, the event counters and the sessions as they were, and gets the same answer
  whatever the readers hold, whatever the configuration is and whatever the counters and the
  queue are.
\<close>

theorem admin_routes_guarded:
  "list_all (\<lambda>rt. let (oc, s') = serve_route S rt q s in
     if guarded rt \<and> \<not> admitted S rt q s then
       refused (oc_reply oc) \<and> ss_queue s' = ss_queue s \<and> ss_events s' = ss_events s \<and>
       as_sessions (ss_admin s') = as_sessions (ss_admin s) \<and>
       fst (serve_route (S\<lparr>se_options := opts, se_configuration := page\<rparr>) rt q
         (s\<lparr>ss_queue := queue, ss_events := ec, ss_sources := src\<rparr>)) = oc
     else if guarded rt then (\<exists>pl. oc_reply oc = Served pl) else True) admin_routes"
  unfolding list_all_iff
proof (intro ballI)
  fix rt assume rt: "rt \<in> set admin_routes"
  let ?ca = "rt_endpoint rt \<noteq> EpEvents"
  show "let (oc, s') = serve_route S rt q s in
     if guarded rt \<and> \<not> admitted S rt q s then
       refused (oc_reply oc) \<and> ss_queue s' = ss_queue s \<and> ss_events s' = ss_events s \<and>
       as_sessions (ss_admin s') = as_sessions (ss_admin s) \<and>
       fst (serve_route (S\<lparr>se_options := opts, se_configuration := page\<rparr>) rt q
         (s\<lparr>ss_queue := queue, ss_events := ec, ss_sources := src\<rparr>)) = oc
     else if guarded rt then (\<exists>pl. oc_reply oc = Served pl) else True"
  proof (cases "guarded rt")
    case g: True
    then obtain h where run: "serve_route S' rt q s' = run_layers S' [AuthGate ?ca] (rt_endpoint rt) q h s'" for S' s'
      using route_cases [OF rt] by (cases "rt_endpoint rt = EpEvents") (auto simp: serve_route_def)
    show ?thesis
    proof (cases "admitted S rt q s")
      case True
      then obtain l where "serve_route S rt q s = run_layers S [] (rt_endpoint rt) q h (s\<lparr>ss_admin := (ss_admin s)\<lparr>as_limiter := l\<rparr>\<rparr>)"
        unfolding run admitted_def using gate_passes by blast
      with g True handle_guarded [of "rt_endpoint rt"] show ?thesis
        by (auto simp: guarded_def split: prod.split) (metis fst_conv)
    next
      case False
      note b = gate_blocks [OF False [unfolded admitted_def]]
      have "refused (oc_reply (fst (serve_route S rt q s)))" unfolding run by (rule b(1))
      moreover have "\<exists>a. as_sessions a = as_sessions (ss_admin s) \<and> snd (serve_route S rt q s) = s\<lparr>ss_admin := a\<rparr>"
        unfolding run by (rule b(2))
      moreover have "fst (serve_route (S\<lparr>se_options := opts, se_configuration := page\<rparr>) rt q
         (s\<lparr>ss_queue := queue, ss_events := ec, ss_sources := src\<rparr>)) = fst (serve_route S rt q s)"
        unfolding run by (simp only: b(3) [where ep = "rt_endpoint rt"] fst_conv)
      ultimately show ?thesis using g False by (auto simp: Let_def case_prod_beta)
    qed
  qed (simp add: Let_def case_prod_beta)
qed


text \<open>
  C15. A server without an admin token is sealed: from its construction on, whatever requests
  arrive and however the sweepers and the rest of the program interleave with them, no session ever
  exists and every request for a guarded route is refused, even when the bind policy allowed
  the address.
\<close>

theorem tokenless_server_sealed:
  assumes "New_server L cfg sources opts queue ec = Inr (S, s0)" and "ad_token cfg = []"
    and "server_reaches pick S s0 s" and "rt \<in> set admin_routes" and "guarded rt"
  shows "no_sessions s \<and> refused (oc_reply (fst (serve_route S rt q s)))"
proof -
  have S: "ac_token (se_cfg S) = []" "no_sessions s0"
    using assms(1,2) by (auto simp: New_server_def Let_def auth_settings_def NewSessionStore_def split: sum.splits option.splits)
  have n: "no_sessions s" by (rule tokenless_invariant [OF assms(3) S])
  show ?thesis using n guarded_refused [OF assms(4,5) tokenless_not_admitted [OF S(1) n]] by blast
qed

definition stub_libs :: server_libs where
  "stub_libs = \<lparr>sl_rnd = (\<lambda>x. x), sl_lower = id, sl_upper = id, sl_parse_time = (\<lambda>_. None), sl_format_time = (\<lambda>_. []),
     sl_url_host = (\<lambda>_. None), sl_fold_eq = (=), sl_ip_loopback = (\<lambda>h. h = ''127.0.0.1''), sl_event_json = sample_json,
     sl_yaml = (\<lambda>_. Some ''admin:''), sl_render = (\<lambda>d. Some (cp_yaml d)), sl_sha_hex = (\<lambda>_. ''0123456789abcdef''),
     sl_ui_files = [(''ui/app.css'', ''body'')], sl_version = ''1'', sl_build_time = ''t''\<rparr>"

definition stub_admin :: Config.admin_config where
  "stub_admin = \<lparr>ad_bind = ''127.0.0.1:9090'', ad_token = [], ad_insecure_listen = False, ad_session_ttl = 3600, ad_session_secure = False\<rparr>"

definition stub_options :: server_options where
  "stub_options = \<lparr>so_readers = \<lparr>src_memory = None, src_sqlite = None\<rparr>, so_events = sample_config, so_effective = Defaults 8\<rparr>"

theorem tokenless_server_sealed_witness:
  "\<exists>S s0. New_server stub_libs stub_admin nil_sources stub_options None None = Inr (S, s0) \<and>
     (\<forall>q. refused (oc_reply (fst (serve_route S (get_route [HtmlHeaders, AuthGate True] ''/requests'' EpRequests) q s0))))"
proof -
  have "Guard (sl_ip_loopback stub_libs) (ad_bind stub_admin) (ad_token stub_admin \<noteq> []) (ad_insecure_listen stub_admin) = Inr ReasonLoopbackDefault"
    by code_simp
  then obtain S s0 where S: "New_server stub_libs stub_admin nil_sources stub_options None None = Inr (S, s0)"
    by (simp add: New_server_def Let_def configurationUIHandler_def stub_libs_def)
  let ?rt = "get_route [HtmlHeaders, AuthGate True] ''/requests'' EpRequests"
  have rt: "?rt \<in> set admin_routes" "guarded ?rt"
    by (simp_all add: admin_routes_def guarded_def get_route_def post_route_def public_endpoints_def)
  have "ad_token stub_admin = []" by (simp add: stub_admin_def)
  from tokenless_server_sealed [OF S this Started rt] S show ?thesis by blast
qed

end
