(* ===== verification/Sql_Compile.thy ===== *)
theory Sql_Compile
  imports Term_Predicate
begin

text \<open>
  The SQL compiler of internal/searchql/compile_sql.go: the WHERE fragment of the request arm,
  the HAVING fragment and the WHERE fragment of the orphan arm, each with its bound
  arguments. Fragments are the literal texts of the source.
\<close>

section \<open>Fragments\<close>

datatype sql_arg = SqlText string | SqlInt int

text \<open>The text \<open> LIKE ? ESCAPE '\'\<close>.\<close>

definition like_clause :: string where
  "like_clause = '' LIKE ? ESCAPE '' @ [CHR 0x27, CHR 0x5C, CHR 0x27]"

definition scannedTextLike :: "string \<Rightarrow> string" where
  "scannedTextLike col = ''LOWER(CAST('' @ col @ '' AS TEXT))'' @ like_clause"

definition escape_byte :: "char \<Rightarrow> string" where
  "escape_byte c = (if c \<in> {CHR 0x5C, CHR ''%'', CHR ''_''} then [CHR 0x5C, c] else [c])"

text \<open>The replacer has one-byte patterns only, so it rewrites byte by byte.\<close>

definition escapeLike :: "string \<Rightarrow> string" where
  "escapeLike s = concat (map escape_byte s)"

definition likeNeedle :: "unicode_map \<Rightarrow> qterm \<Rightarrow> string" where
  "likeNeedle ul t = ''%'' @ escapeLike (ToLower ul (t_value t)) @ ''%''"

definition indexedPredicate :: "string \<Rightarrow> qterm \<Rightarrow> string \<times> sql_arg" where
  "indexedPredicate col t = (case t_wildcard t of
      WildcardPrefix \<Rightarrow> (col @ like_clause, SqlText (escapeLike (t_value t) @ ''%''))
    | WildcardSubstring \<Rightarrow> (col @ like_clause, SqlText (''%'' @ escapeLike (t_value t) @ ''%''))
    | WildcardNone \<Rightarrow> (col @ '' = ?'', SqlText (t_value t)))"

definition scannedTextPredicate :: "unicode_map \<Rightarrow> string \<Rightarrow> qterm \<Rightarrow> string \<times> sql_arg list" where
  "scannedTextPredicate ul col t = (scannedTextLike col, [SqlText (likeNeedle ul t)])"

definition freeformPredicate :: "unicode_map \<Rightarrow> qterm \<Rightarrow> string \<times> sql_arg list" where
  "freeformPredicate ul t =
     (let (hostPred, hostArg) = indexedPredicate ''host'' t;
          (pathPred, pathArg) = indexedPredicate ''path'' t;
          (servicePred, serviceArg) = indexedPredicate ''service'' t;
          (eventPathPred, eventPathArg) = indexedPredicate ''e_ff.request_path'' t;
          needle = SqlText (likeNeedle ul t);
          pred = ''cr.id IN ('' @
            ''SELECT id FROM captured_requests WHERE '' @ hostPred @ '' UNION '' @
            ''SELECT id FROM captured_requests WHERE '' @ pathPred @ '' UNION '' @
            ''SELECT id FROM captured_requests WHERE '' @ servicePred @ '' UNION '' @
            ''SELECT id FROM captured_requests WHERE '' @ scannedTextLike ''body'' @ '' UNION '' @
            ''SELECT id FROM captured_requests WHERE '' @ scannedTextLike ''headers'' @ '' UNION '' @
            ''SELECT cr_ff.id FROM captured_requests cr_ff JOIN events e_ff '' @
            ''ON e_ff.correlation_id = cr_ff.correlation_id '' @
            ''WHERE '' @ eventPathPred @ '' OR '' @
            scannedTextLike ''e_ff.request_body'' @ '' OR '' @
            scannedTextLike ''e_ff.request_headers'' @ '' OR '' @
            scannedTextLike ''e_ff.response_body'' @ '' OR '' @
            scannedTextLike ''e_ff.response_headers'' @
            '')''
      in (pred, [hostArg, pathArg, serviceArg, needle, needle, eventPathArg, needle, needle, needle, needle]))"

definition headersAnyPredicate :: "unicode_map \<Rightarrow> qterm \<Rightarrow> string \<times> sql_arg list" where
  "headersAnyPredicate ul t =
     (let needle = SqlText (likeNeedle ul t) in
      (''('' @ scannedTextLike ''cr.headers'' @ '' OR '' @
       ''EXISTS (SELECT 1 FROM events e_h '' @
       ''WHERE e_h.correlation_id = cr.correlation_id '' @
       ''AND ('' @ scannedTextLike ''e_h.request_headers'' @ '' OR '' @ scannedTextLike ''e_h.response_headers'' @ '')))'',
       [needle, needle, needle]))"

definition jsonHeaderPath :: "string \<Rightarrow> string" where
  "jsonHeaderPath name =
     (let escaped = replace_all [CHR 0x5C] [CHR 0x5C, CHR 0x5C] name;
          escaped' = replace_all [CHR 0x22] [CHR 0x5C, CHR 0x22] escaped
      in ''$.'' @ [CHR 0x22] @ escaped' @ [CHR 0x22])"

text \<open>The EXISTS test over the values of one header of a column.\<close>

definition header_exists :: "string \<Rightarrow> string" where
  "header_exists col = ''EXISTS (SELECT 1 FROM json_each(json_extract('' @ col @ '', ?)) WHERE LOWER(value)'' @ like_clause @ '')''"

definition headerNamedPredicate :: "unicode_map \<Rightarrow> qterm \<Rightarrow> string \<times> sql_arg list" where
  "headerNamedPredicate ul t =
     (let needle = SqlText (likeNeedle ul t); path = SqlText (jsonHeaderPath (t_header_name t)) in
      (''('' @ header_exists ''cr.headers'' @ '' OR '' @
       ''EXISTS (SELECT 1 FROM events e_h '' @
       ''WHERE e_h.correlation_id = cr.correlation_id '' @
       ''AND ('' @ header_exists ''e_h.request_headers'' @ '' OR '' @ header_exists ''e_h.response_headers'' @ ''))'' @ '')'',
       [path, needle, path, needle, path, needle]))"

definition negate :: "qterm \<Rightarrow> string \<Rightarrow> string" where
  "negate t pred = (if t_negated t then ''NOT ('' @ pred @ '')'' else pred)"

section \<open>The WHERE fragment of the request arm\<close>

definition compileTermSQL :: "unicode_map \<Rightarrow> qterm \<Rightarrow> string \<times> sql_arg list" where
  "compileTermSQL ul t =
     (let indexed = (\<lambda>col. case indexedPredicate col t of (p, arg) \<Rightarrow> (p, [arg]));
          wrap = (\<lambda>(pred, argList). (negate t pred, argList))
      in case t_field t of
           Freeform \<Rightarrow> wrap (freeformPredicate ul t)
         | FieldHost \<Rightarrow> wrap (indexed ''cr.host'')
         | FieldPath \<Rightarrow> wrap (indexed ''cr.path'')
         | FieldService \<Rightarrow> wrap (indexed ''cr.service'')
         | FieldBody \<Rightarrow> wrap (scannedTextPredicate ul ''cr.body'' t)
         | FieldHeaders \<Rightarrow> wrap (headersAnyPredicate ul t)
         | FieldHeader \<Rightarrow> wrap (headerNamedPredicate ul t)
         | FieldMethod \<Rightarrow> wrap (''cr.method = ?'', [SqlText (t_value t)])
         | FieldSourceIP \<Rightarrow> wrap (''cr.source_ip = ?'', [SqlText (t_value t)])
         | FieldCorrelationID \<Rightarrow> wrap (''cr.correlation_id = ?'', [SqlText (t_value t)])
         | FieldStatus \<Rightarrow> ([], [])
         | FieldHasEvents \<Rightarrow> ([], []))"

text \<open>The loop all three compilers share: clauses joined by AND, arguments in their order.\<close>

definition assemble :: "(string \<times> sql_arg list) list \<Rightarrow> string \<times> sql_arg list" where
  "assemble cs = (if cs = [] then ([], []) else (join '' AND '' (map fst cs), concat (map snd cs)))"

definition CompileSQL :: "unicode_map \<Rightarrow> query \<Rightarrow> string \<times> sql_arg list" where
  "CompileSQL ul q = assemble (filter (\<lambda>(clause, vals). clause \<noteq> []) (map (compileTermSQL ul) q))"

section \<open>The HAVING fragment\<close>

definition status_column :: string where
  "status_column = ''MAX(CASE WHEN e.type = 'response' THEN e.status ELSE NULL END)''"

definition having_term :: "qterm \<Rightarrow> (string \<times> sql_arg list) option" where
  "having_term t =
     (case (t_field t, t_status_filter t, t_has_events t) of
        (FieldStatus, Some sf, _) \<Rightarrow>
          Some (if sf_exact sf \<noteq> 0 then (negate t (status_column @ '' = ?''), [SqlInt (sf_exact sf)])
                else (case ClassRange sf of (lo, hi) \<Rightarrow>
                  (negate t (status_column @ '' BETWEEN ? AND ?''), [SqlInt lo, SqlInt hi])))
      | (FieldHasEvents, _, Some b) \<Rightarrow>
          Some (negate t (if b then ''COUNT(e.id) > 0'' else ''COUNT(e.id) = 0''), [])
      | _ \<Rightarrow> None)"

definition CompileSQLHaving :: "query \<Rightarrow> string \<times> sql_arg list" where
  "CompileSQLHaving q = assemble (List.map_filter having_term q)"

section \<open>The WHERE fragment of the orphan arm\<close>

definition freeformOrphanPredicate :: "unicode_map \<Rightarrow> qterm \<Rightarrow> string \<times> sql_arg list" where
  "freeformOrphanPredicate ul t =
     (let (servicePred, serviceArg) = indexedPredicate ''service'' t;
          (pathPred, pathArg) = indexedPredicate ''request_path'' t;
          needle = SqlText (likeNeedle ul t);
          pred = ''e.id IN ('' @
            ''SELECT id FROM events WHERE '' @ servicePred @ '' UNION '' @
            ''SELECT id FROM events WHERE '' @ pathPred @ '' UNION '' @
            ''SELECT id FROM events WHERE '' @ scannedTextLike ''request_body'' @ '' UNION '' @
            ''SELECT id FROM events WHERE '' @ scannedTextLike ''request_headers'' @ '' UNION '' @
            ''SELECT id FROM events WHERE '' @ scannedTextLike ''response_body'' @ '' UNION '' @
            ''SELECT id FROM events WHERE '' @ scannedTextLike ''response_headers'' @
            '')''
      in (pred, [serviceArg, pathArg, needle, needle, needle, needle]))"

definition orphan_term :: "unicode_map \<Rightarrow> qterm \<Rightarrow> (string \<times> sql_arg list) option" where
  "orphan_term ul t = (case t_field t of
      FieldService \<Rightarrow> (case indexedPredicate ''e.service'' t of (pred, val) \<Rightarrow> Some (negate t pred, [val]))
    | FieldCorrelationID \<Rightarrow> Some (negate t ''e.correlation_id = ?'', [SqlText (t_value t)])
    | FieldHeaders \<Rightarrow>
        (let needle = SqlText (likeNeedle ul t) in
         Some (negate t (''('' @ scannedTextLike ''e.request_headers'' @ '' OR '' @ scannedTextLike ''e.response_headers'' @ '')''),
               [needle, needle]))
    | FieldHeader \<Rightarrow>
        (let needle = SqlText (likeNeedle ul t); path = SqlText (jsonHeaderPath (t_header_name t)) in
         Some (negate t (''('' @ header_exists ''e.request_headers'' @ '' OR '' @ header_exists ''e.response_headers'' @ '')''),
               [path, needle, path, needle]))
    | FieldStatus \<Rightarrow>
        (case t_status_filter t of
           None \<Rightarrow> None
         | Some sf \<Rightarrow>
             Some (if sf_exact sf \<noteq> 0 then (negate t ''e.type = 'response' AND e.status = ?'', [SqlInt (sf_exact sf)])
                   else (case ClassRange sf of (lo, hi) \<Rightarrow>
                     (negate t ''e.type = 'response' AND e.status BETWEEN ? AND ?'', [SqlInt lo, SqlInt hi]))))
    | Freeform \<Rightarrow> (case freeformOrphanPredicate ul t of (pred, vals) \<Rightarrow> Some (negate t pred, vals))
    | _ \<Rightarrow> None)"

definition CompileSQLOrphans :: "unicode_map \<Rightarrow> query \<Rightarrow> string \<times> sql_arg list" where
  "CompileSQLOrphans ul q = assemble (List.map_filter (orphan_term ul) q)"

section \<open>Placeholders and arguments\<close>

definition marks :: "string \<Rightarrow> nat" where
  "marks s = length (filter (\<lambda>c. c = CHR ''?'') s)"

definition balanced :: "string \<times> sql_arg list \<Rightarrow> bool" where
  "balanced cs = (marks (fst cs) = length (snd cs))"

named_theorems sql_marks \<open>placeholder counts of the fragments\<close>

lemma marks_simps [simp]:
  "marks [] = 0" "marks (c # s) = (if c = CHR ''?'' then Suc (marks s) else marks s)" "marks (s @ t) = marks s + marks t"
  by (simp_all add: marks_def)

lemma marks_like [sql_marks]: "marks like_clause = 1"
  by (simp add: like_clause_def)

lemma marks_scanned [sql_marks]: "marks (scannedTextLike col) = marks col + 1"
  by (simp add: scannedTextLike_def sql_marks)

lemma marks_exists [sql_marks]: "marks (header_exists col) = marks col + 2"
  by (simp add: header_exists_def sql_marks)

lemma marks_negate [sql_marks]: "marks (negate t pred) = marks pred"
  by (simp add: negate_def)

lemma marks_status [sql_marks]: "marks status_column = 0"
  by (simp add: status_column_def)

lemma marks_indexed [sql_marks]: "indexedPredicate col t = (p, a) \<Longrightarrow> marks p = marks col + 1"
  by (auto simp: indexedPredicate_def sql_marks split: wildcard.splits)

lemma balanced_freeform: "balanced (freeformPredicate ul t)" "balanced (freeformOrphanPredicate ul t)"
  by (simp_all add: freeformPredicate_def freeformOrphanPredicate_def balanced_def Let_def sql_marks split: prod.split)

lemma balanced_term: "balanced (compileTermSQL ul t)"
  using balanced_freeform(1) [of ul t]
  by (cases "t_field t")
     (simp_all add: compileTermSQL_def balanced_def scannedTextPredicate_def headersAnyPredicate_def
       headerNamedPredicate_def Let_def sql_marks case_prod_beta surjective_pairing [THEN sym] marks_indexed [OF surjective_pairing])

lemma balanced_having: "having_term t = Some c \<Longrightarrow> balanced c"
  by (auto simp: having_term_def balanced_def sql_marks split: field.splits option.splits if_splits prod.splits)

lemma balanced_orphan: "orphan_term ul t = Some c \<Longrightarrow> balanced c"
  using balanced_freeform(2) [of ul t]
  by (auto simp: orphan_term_def balanced_def Let_def sql_marks split: field.splits option.splits if_splits prod.splits)

lemma balanced_assemble:
  assumes "\<forall>c \<in> set cs. balanced c"
  shows "balanced (assemble cs)"
proof -
  have "marks (join '' AND '' (map fst cs)) = length (concat (map snd cs))"
    using assms
  proof (induction cs)
    case (Cons c cs)
    then show ?case by (cases cs) (simp_all add: balanced_def)
  qed simp
  then show ?thesis by (simp add: assemble_def balanced_def)
qed

lemma set_map_filter: "set (List.map_filter f xs) = {y. \<exists>x \<in> set xs. f x = Some y}"
  by (force simp: List.map_filter_def)

section \<open>The text does not contain the values\<close>

text \<open>A term with everything the user typed removed: only its shape is left.\<close>

definition shape :: "qterm \<Rightarrow> qterm" where
  "shape t = t\<lparr>t_value := [], t_quoted := False, t_header_name := [],
     t_status_filter := map_option (\<lambda>sf. \<lparr>sf_exact = (if sf_exact sf = 0 then 0 else 1), sf_class = []\<rparr>) (t_status_filter t)\<rparr>"

lemma shape_simps [simp]:
  "t_field (shape t) = t_field t" "t_wildcard (shape t) = t_wildcard t" "t_negated (shape t) = t_negated t"
  "t_has_events (shape t) = t_has_events t" "negate (shape t) p = negate t p"
  by (simp_all add: shape_def negate_def)

lemma indexed_shape: "fst (indexedPredicate col (shape t)) = fst (indexedPredicate col t)"
  by (simp add: indexedPredicate_def split: wildcard.split)

lemma freeform_shape:
  "fst (freeformPredicate ul (shape t)) = fst (freeformPredicate ul t)"
  "fst (freeformOrphanPredicate ul (shape t)) = fst (freeformOrphanPredicate ul t)"
  by (simp_all add: freeformPredicate_def freeformOrphanPredicate_def Let_def case_prod_beta indexed_shape)

lemma term_shape: "fst (compileTermSQL ul (shape t)) = fst (compileTermSQL ul t)"
  by (cases "t_field t")
     (simp_all add: compileTermSQL_def Let_def case_prod_beta indexed_shape freeform_shape scannedTextPredicate_def
       headersAnyPredicate_def headerNamedPredicate_def)

lemma having_shape: "map_option fst (having_term (shape t)) = map_option fst (having_term t)"
  by (cases "t_field t"; cases "t_status_filter t"; cases "t_has_events t")
     (simp_all add: having_term_def shape_def negate_def case_prod_beta)

lemma orphan_shape: "map_option fst (orphan_term ul (shape t)) = map_option fst (orphan_term ul t)"
proof (cases "t_field t = FieldStatus")
  case True
  then show ?thesis by (cases "t_status_filter t") (simp_all add: orphan_term_def shape_def negate_def case_prod_beta)
next
  case False
  then show ?thesis
    by (cases "t_field t") (simp_all add: orphan_term_def Let_def case_prod_beta indexed_shape freeform_shape)
qed

lemma assemble_text: "fst (assemble cs) = (if cs = [] then [] else join '' AND '' (map fst cs))"
  by (simp add: assemble_def)

lemma map_filter_text:
  assumes "\<And>t. map_option fst (f (g t)) = map_option fst (f t)"
  shows "map fst (List.map_filter f (map g q)) = map fst (List.map_filter f q)"
proof (induction q)
  case (Cons t q)
  then show ?case using assms [of t] by (cases "f (g t)"; cases "f t") (auto simp: map_filter_simps)
qed (simp add: map_filter_simps)

lemma assemble_cong_text: "map fst cs = map fst ds \<Longrightarrow> fst (assemble cs) = fst (assemble ds)"
  by (auto simp: assemble_text)

section \<open>The LIKE operator\<close>

text \<open>
  SQLite is not part of the program. The code relies on the documented meaning of
  \<open>x LIKE p ESCAPE '\'\<close> with case-sensitive matching (the sink opens its connections with the pragma): a percent
  sign matches any text, an escaped metacharacter and any ordinary character match
  themselves. The underscore is never sent unescaped, so nothing is assumed of it.
\<close>

definition metachars :: "char set" where
  "metachars = {CHR 0x5C, CHR ''%'', CHR ''_''}"

locale like_operator =
  fixes like :: "string \<Rightarrow> string \<Rightarrow> bool"
  assumes like_end: "like [] s \<longleftrightarrow> s = []"
    and like_percent: "like (CHR ''%'' # p) s \<longleftrightarrow> (\<exists>a b. s = a @ b \<and> like p b)"
    and like_escaped: "c \<in> metachars \<Longrightarrow> like (CHR 0x5C # c # p) s \<longleftrightarrow> (\<exists>s'. s = c # s' \<and> like p s')"
    and like_plain: "c \<notin> metachars \<Longrightarrow> like (c # p) s \<longleftrightarrow> (\<exists>s'. s = c # s' \<and> like p s')"
begin

lemma like_escapeLike: "like (escapeLike v @ p) s \<longleftrightarrow> (\<exists>r. s = v @ r \<and> like p r)"
proof (induction v arbitrary: s)
  case (Cons c v)
  show ?case
  proof (cases "c \<in> metachars")
    case True
    then have "like (escapeLike (c # v) @ p) s \<longleftrightarrow> (\<exists>s'. s = c # s' \<and> like (escapeLike v @ p) s')"
      using like_escaped [of c] by (auto simp: escapeLike_def escape_byte_def metachars_def)
    then show ?thesis using Cons.IH by auto
  next
    case False
    then have "like (escapeLike (c # v) @ p) s \<longleftrightarrow> (\<exists>s'. s = c # s' \<and> like (escapeLike v @ p) s')"
      using like_plain [of c] by (auto simp: escapeLike_def escape_byte_def metachars_def)
    then show ?thesis using Cons.IH by auto
  qed
qed (simp add: escapeLike_def)

lemma like_rest: "like ''%'' s"
  by (auto simp: like_percent like_end)

lemma like_prefix: "like (escapeLike v @ ''%'') s \<longleftrightarrow> has_prefix s v"
  by (auto simp: like_escapeLike like_rest has_prefix_def prefix_def)

lemma like_contains: "like (''%'' @ escapeLike v @ ''%'') s \<longleftrightarrow> contains s v"
  by (auto simp: like_percent like_prefix has_prefix_def contains_sublist prefix_def sublist_def)

end

text \<open>A matcher with these laws, for the examples: the usual one, underscore included.\<close>

fun sql_like :: "string \<Rightarrow> string \<Rightarrow> bool" where
  "sql_like [] s = (s = [])"
| "sql_like (c # p) [] = (c = CHR ''%'' \<and> sql_like p [])"
| "sql_like (c # p) (x # s) =
     (if c = CHR ''%'' then sql_like p (x # s) \<or> sql_like (c # p) s
      else if c = CHR 0x5C then (case p of [] \<Rightarrow> False | d # p' \<Rightarrow> x = d \<and> sql_like p' s)
      else (c = CHR ''_'' \<or> x = c) \<and> sql_like p s)"

lemma sql_like_percent: "sql_like (CHR ''%'' # p) s \<longleftrightarrow> (\<exists>a b. s = a @ b \<and> sql_like p b)"
proof (induction s)
  case (Cons x s)
  have "(\<exists>a b. x # s = a @ b \<and> sql_like p b) \<longleftrightarrow> sql_like p (x # s) \<or> (\<exists>a b. s = a @ b \<and> sql_like p b)"
    by (auto simp: Cons_eq_append_conv)
  then show ?case using Cons.IH by simp
qed simp

interpretation sqlite: like_operator sql_like
proof
  fix s p c
  show "sql_like [] s \<longleftrightarrow> s = []" by simp
  show "sql_like (CHR ''%'' # p) s \<longleftrightarrow> (\<exists>a b. s = a @ b \<and> sql_like p b)" by (rule sql_like_percent)
  show "sql_like (CHR 0x5C # c # p) s \<longleftrightarrow> (\<exists>s'. s = c # s' \<and> sql_like p s')" if "c \<in> metachars"
    by (cases s) auto
  show "sql_like (c # p) s \<longleftrightarrow> (\<exists>s'. s = c # s' \<and> sql_like p s')" if "c \<notin> metachars"
    using that by (cases s) (auto simp: metachars_def)
qed

section \<open>Properties\<close>

text \<open>
  No search text becomes SQL. For every query the three compiled fragments have exactly as
  many placeholders as bound arguments, and their text is a function of the shape of the
  query alone (fields, wildcards, negations, kinds of status filter): values, header names
  and status codes only ever occur as arguments.
\<close>

lemma compiled_sql_parametrised:
  "balanced (CompileSQL ul q) \<and> balanced (CompileSQLHaving q) \<and> balanced (CompileSQLOrphans ul q) \<and>
   fst (CompileSQL ul q) = fst (CompileSQL ul (map shape q)) \<and>
   fst (CompileSQLHaving q) = fst (CompileSQLHaving (map shape q)) \<and>
   fst (CompileSQLOrphans ul q) = fst (CompileSQLOrphans ul (map shape q))"
proof (intro conjI)
  show "balanced (CompileSQL ul q)" unfolding CompileSQL_def by (rule balanced_assemble) (auto simp: balanced_term)
  show "balanced (CompileSQLHaving q)" unfolding CompileSQLHaving_def
    by (rule balanced_assemble) (auto simp: set_map_filter dest: balanced_having)
  show "balanced (CompileSQLOrphans ul q)" unfolding CompileSQLOrphans_def
    by (rule balanced_assemble) (auto simp: set_map_filter dest: balanced_orphan)
  have texts: "map fst (filter (\<lambda>(clause, vals). clause \<noteq> []) cs) = filter (\<lambda>c. c \<noteq> []) (map fst cs)" for cs :: "(string \<times> sql_arg list) list"
    by (induction cs) auto
  show "fst (CompileSQL ul q) = fst (CompileSQL ul (map shape q))" unfolding CompileSQL_def
    by (rule assemble_cong_text) (simp add: texts comp_def term_shape)
  show "fst (CompileSQLHaving q) = fst (CompileSQLHaving (map shape q))" unfolding CompileSQLHaving_def
    by (rule assemble_cong_text) (simp only: map_filter_text [where f = having_term and g = shape, OF having_shape])
  show "fst (CompileSQLOrphans ul q) = fst (CompileSQLOrphans ul (map shape q))" unfolding CompileSQLOrphans_def
    by (rule assemble_cong_text) (simp only: map_filter_text [where f = "orphan_term ul" and g = shape, OF orphan_shape])
qed

text \<open>
  The bound LIKE patterns mean what the in-memory matcher means, for every LIKE operator
  with SQLite's documented behaviour. An indexed column passes the compiled test (equality
  without a wildcard, LIKE with one) exactly when the memory predicate matches the same
  value; the needle of a scanned column matches a lowered text exactly when that contains
  the lowered search value. Percent signs, underscores and backslashes in the search value
  stand for themselves.
\<close>

lemma compiled_like_matches_memory:
  assumes "like_operator like"
  shows "(case indexedPredicate col t of
      (pred, SqlText arg) \<Rightarrow>
        if t_wildcard t = WildcardNone then pred = col @ '' = ?'' \<and> (s = arg \<longleftrightarrow> matchString s t)
        else pred = col @ like_clause \<and> (like arg s \<longleftrightarrow> matchString s t)
    | _ \<Rightarrow> False) \<and>
    (like (likeNeedle ul t) (ToLower ul s) \<longleftrightarrow> bodyContainsFold ul s (ToLower ul (t_value t)))"
proof -
  have p: "like (escapeLike v @ ''%'') x \<longleftrightarrow> has_prefix x v" for v x by (rule like_operator.like_prefix [OF assms])
  have c: "like (''%'' @ escapeLike v @ ''%'') x \<longleftrightarrow> contains x v" for v x by (rule like_operator.like_contains [OF assms])
  have "like (likeNeedle ul t) (ToLower ul s) \<longleftrightarrow> contains (ToLower ul s) (ToLower ul (t_value t))"
    unfolding likeNeedle_def by (rule c)
  then show ?thesis using p [of "t_value t" s] c [of "t_value t" s]
    by (simp add: indexedPredicate_def matchString_def bodyContainsFold_def split: wildcard.split)
qed

end
