(* ===== verification/Sqlite.thy ===== *)
theory Sqlite
  imports Memory_Reader
begin

text \<open>
  The SQLite sink: its writes (internal/sinks/sqlite.go), the detail reads
  (sqlite_reader.go, from scanRequestRow on) and the retention sweep (sqlite_sweeper.go). The
  database is two tables, lists of rows in insertion order; the statements of the source are
  functions on them: an INSERT fails on a primary key that is present, a SELECT filters and
  sorts. Encoding a header map or the cookies as JSON is \<open>encoding/json\<close>, the argument
  \<open>json_codec\<close>; that decoding inverts encoding is the named hypothesis \<open>codec_ok\<close>. A driver
  error or a cancelled context is the boolean argument \<open>ok\<close> of an operation. Opening the file
  (permissions, pragmas, schema) is not modelled.
\<close>

section \<open>Tables\<close>

record request_row =
  q_id :: string
  q_timestamp :: int
  q_service :: string
  q_service_source :: string
  q_host :: string
  q_correlation_id :: string
  q_correlation_source :: string
  q_method :: string
  q_path :: string
  q_source_ip :: string
  q_content_type :: string
  q_query :: string
  q_headers :: string
  q_cookies :: string
  q_body :: string
  q_body_truncated :: int
  q_body_original_size :: int

text \<open>A column that may be NULL is an option.\<close>

record event_row =
  v_id :: string
  v_timestamp :: int
  v_type :: string
  v_correlation_id :: string
  v_service :: string
  v_service_source :: string
  v_status :: "int option"
  v_duration_ms :: int
  v_request_method :: "string option"
  v_request_path :: "string option"
  v_request_headers :: "string option"
  v_request_body :: "string option"
  v_request_body_truncated :: "int option"
  v_request_body_original_size :: "int option"
  v_response_status :: "int option"
  v_response_headers :: "string option"
  v_response_body :: "string option"
  v_response_body_truncated :: "int option"
  v_response_body_original_size :: "int option"

record sqlite_sink =
  sq_requests :: "request_row list"
  sq_events :: "event_row list"

record json_codec =
  jc_map :: "hmap option \<Rightarrow> string option"
  jc_cookies :: "cookie list \<Rightarrow> string option"
  jc_unmap :: "string \<Rightarrow> hmap option option"
  jc_uncookies :: "string \<Rightarrow> cookie list option"

datatype sqlite_error = MarshalError | InsertError string | NotFound | ScanError string | UnknownEventType string
  | QueryError string | SlicePanic

section \<open>Writing\<close>

definition flag :: "bool \<Rightarrow> int" where
  "flag b = (if b then 1 else 0)"

definition host_column :: "captured_request \<Rightarrow> string" where
  "host_column r = (case map_of (entries (cr_headers r)) ''Host'' of Some (v # vs) \<Rightarrow> v | _ \<Rightarrow> [])"

definition insert_request :: "bool \<Rightarrow> request_row \<Rightarrow> sqlite_sink \<Rightarrow> sqlite_error + sqlite_sink" where
  "insert_request ok row s =
     (if \<not> ok \<or> q_id row \<in> q_id ` set (sq_requests s) then Inl (InsertError (q_id row))
      else Inr (s\<lparr>sq_requests := sq_requests s @ [row]\<rparr>))"

definition insert_event :: "bool \<Rightarrow> event_row \<Rightarrow> sqlite_sink \<Rightarrow> sqlite_error + sqlite_sink" where
  "insert_event ok row s =
     (if \<not> ok \<or> v_id row \<in> v_id ` set (sq_events s) then Inl (InsertError (v_id row))
      else Inr (s\<lparr>sq_events := sq_events s @ [row]\<rparr>))"

definition writeCapturedRequest :: "json_codec \<Rightarrow> bool \<Rightarrow> captured_request \<Rightarrow> sqlite_sink \<Rightarrow> sqlite_error + sqlite_sink" where
  "writeCapturedRequest J ok r s =
     (case (jc_map J (cr_query r), jc_map J (cr_headers r), jc_cookies J (cr_cookies r)) of
        (Some queryJSON, Some headersJSON, Some cookiesJSON) \<Rightarrow>
          insert_request ok
            \<lparr>q_id = cr_id r, q_timestamp = UnixNano (cr_timestamp r), q_service = cr_service r,
             q_service_source = cr_service_source r, q_host = host_column r,
             q_correlation_id = cr_correlation_id r, q_correlation_source = cr_correlation_source r,
             q_method = cr_method r, q_path = cr_path r, q_source_ip = cr_source_ip r,
             q_content_type = cr_content_type r, q_query = queryJSON, q_headers = headersJSON,
             q_cookies = cookiesJSON, q_body = cr_body r, q_body_truncated = flag (cr_body_truncated r),
             q_body_original_size = cr_body_original_size r\<rparr> s
      | _ \<Rightarrow> Inl MarshalError)"

definition writeResponseEvent :: "json_codec \<Rightarrow> bool \<Rightarrow> response_event \<Rightarrow> sqlite_sink \<Rightarrow> sqlite_error + sqlite_sink" where
  "writeResponseEvent J ok r s =
     (case jc_map J (re_headers r) of
        None \<Rightarrow> Inl MarshalError
      | Some headersJSON \<Rightarrow>
          insert_event ok
            \<lparr>v_id = re_id r, v_timestamp = UnixNano (re_timestamp r), v_type = ''response'',
             v_correlation_id = re_correlation_id r, v_service = re_service r,
             v_service_source = re_service_source r, v_status = Some (re_status r),
             v_duration_ms = re_duration_ms r, v_request_method = None, v_request_path = None,
             v_request_headers = None, v_request_body = None, v_request_body_truncated = None,
             v_request_body_original_size = None, v_response_status = None,
             v_response_headers = Some headersJSON, v_response_body = Some (re_body r),
             v_response_body_truncated = Some (flag (re_body_truncated r)),
             v_response_body_original_size = Some (re_body_original_size r)\<rparr> s)"

definition writeOutboundEvent :: "json_codec \<Rightarrow> bool \<Rightarrow> outbound_event \<Rightarrow> sqlite_sink \<Rightarrow> sqlite_error + sqlite_sink" where
  "writeOutboundEvent J ok r s =
     (case (jc_map J (oq_headers (oe_request r)),
            case oe_response r of None \<Rightarrow> Some None | Some p \<Rightarrow> map_option Some (jc_map J (or_headers p))) of
        (Some reqHeadersJSON, Some respHeadersJSON) \<Rightarrow>
          insert_event ok
            \<lparr>v_id = oe_id r, v_timestamp = UnixNano (oe_timestamp r), v_type = ''outbound'',
             v_correlation_id = oe_correlation_id r, v_service = oe_service r,
             v_service_source = oe_service_source r, v_status = None, v_duration_ms = oe_duration_ms r,
             v_request_method = Some (oq_method (oe_request r)), v_request_path = Some (oq_path (oe_request r)),
             v_request_headers = Some reqHeadersJSON, v_request_body = Some (oq_body (oe_request r)),
             v_request_body_truncated = Some (flag (oq_body_truncated (oe_request r))),
             v_request_body_original_size = Some (oq_body_original_size (oe_request r)),
             v_response_status = map_option or_status (oe_response r), v_response_headers = respHeadersJSON,
             v_response_body = map_option or_body (oe_response r),
             v_response_body_truncated = map_option (\<lambda>p. flag (or_body_truncated p)) (oe_response r),
             v_response_body_original_size = map_option or_body_original_size (oe_response r)\<rparr> s
      | _ \<Rightarrow> Inl MarshalError)"

definition sqlite_Write :: "json_codec \<Rightarrow> bool \<Rightarrow> capture_record \<Rightarrow> sqlite_sink \<Rightarrow> sqlite_error + sqlite_sink" where
  "sqlite_Write J ok r s = (case r of
      Request v \<Rightarrow> writeCapturedRequest J ok v s
    | Response v \<Rightarrow> writeResponseEvent J ok v s
    | Outbound v \<Rightarrow> writeOutboundEvent J ok v s)"

section \<open>Reading a row back\<close>

definition scanRequestRow :: "json_codec \<Rightarrow> request_row \<Rightarrow> sqlite_error + captured_request" where
  "scanRequestRow J row =
     (case jc_unmap J (q_query row) of
        None \<Rightarrow> Inl (ScanError ''query'')
      | Some query \<Rightarrow>
          (case jc_unmap J (q_headers row) of
             None \<Rightarrow> Inl (ScanError ''headers'')
           | Some headers \<Rightarrow>
               (case jc_uncookies J (q_cookies row) of
                  None \<Rightarrow> Inl (ScanError ''cookies'')
                | Some cookies \<Rightarrow>
                    Inr \<lparr>cr_id = q_id row, cr_timestamp = q_timestamp row, cr_method = q_method row,
                      cr_path = q_path row, cr_query = query, cr_headers = headers, cr_cookies = cookies,
                      cr_body = q_body row, cr_body_truncated = (q_body_truncated row \<noteq> 0),
                      cr_body_original_size = q_body_original_size row, cr_content_type = q_content_type row,
                      cr_source_ip = q_source_ip row, cr_service = q_service row,
                      cr_service_source = q_service_source row, cr_correlation_id = q_correlation_id row,
                      cr_correlation_source = q_correlation_source row\<rparr>)))"

text \<open>A NULL or empty headers column is the nil map; a NULL number is zero, a NULL text empty.\<close>

definition headers_of :: "json_codec \<Rightarrow> string option \<Rightarrow> hmap option option" where
  "headers_of J col = (case col of None \<Rightarrow> Some None | Some s \<Rightarrow> if s = [] then Some None else jc_unmap J s)"

definition null_int :: "int option \<Rightarrow> int" where
  "null_int v = (case v of None \<Rightarrow> 0 | Some n \<Rightarrow> n)"

definition null_text :: "string option \<Rightarrow> string" where
  "null_text v = (case v of None \<Rightarrow> [] | Some s \<Rightarrow> s)"

definition null_flag :: "int option \<Rightarrow> bool" where
  "null_flag v = (case v of None \<Rightarrow> False | Some n \<Rightarrow> n \<noteq> 0)"

definition scanEventRow :: "json_codec \<Rightarrow> event_row \<Rightarrow> sqlite_error + capture_record" where
  "scanEventRow J row =
     (if v_type row = ''response'' then
        (case headers_of J (v_response_headers row) of
           None \<Rightarrow> Inl (ScanError ''response event headers'')
         | Some headers \<Rightarrow>
             Inr (Response \<lparr>re_id = v_id row, re_timestamp = v_timestamp row, re_correlation_id = v_correlation_id row,
               re_correlation_source = [], re_service = v_service row, re_service_source = v_service_source row,
               re_status = null_int (v_status row), re_headers = headers, re_body = null_text (v_response_body row),
               re_body_truncated = null_flag (v_response_body_truncated row),
               re_body_original_size = null_int (v_response_body_original_size row), re_content_type = [],
               re_duration_ms = v_duration_ms row\<rparr>))
      else if v_type row = ''outbound'' then
        (case headers_of J (v_request_headers row) of
           None \<Rightarrow> Inl (ScanError ''outbound request headers'')
         | Some reqHeaders \<Rightarrow>
             (case (case v_response_status row of
                      None \<Rightarrow> Some None
                    | Some st \<Rightarrow> map_option (\<lambda>respHeaders. Some \<lparr>or_status = st, or_headers = respHeaders,
                        or_body = null_text (v_response_body row),
                        or_body_truncated = null_flag (v_response_body_truncated row),
                        or_body_original_size = null_int (v_response_body_original_size row), or_content_type = []\<rparr>)
                        (headers_of J (v_response_headers row))) of
                None \<Rightarrow> Inl (ScanError ''outbound response headers'')
              | Some resp \<Rightarrow>
                  Inr (Outbound \<lparr>oe_id = v_id row, oe_timestamp = v_timestamp row,
                    oe_correlation_id = v_correlation_id row, oe_correlation_source = [],
                    oe_service = v_service row, oe_service_source = v_service_source row,
                    oe_duration_ms = v_duration_ms row,
                    oe_request = \<lparr>oq_method = null_text (v_request_method row), oq_path = null_text (v_request_path row),
                      oq_headers = reqHeaders, oq_body = null_text (v_request_body row),
                      oq_body_truncated = null_flag (v_request_body_truncated row),
                      oq_body_original_size = null_int (v_request_body_original_size row), oq_content_type = []\<rparr>,
                    oe_response = resp\<rparr>)))
      else Inl (UnknownEventType (v_type row)))"

definition sqliteLoadRequest :: "json_codec \<Rightarrow> sqlite_sink \<Rightarrow> string \<Rightarrow> sqlite_error + captured_request" where
  "sqliteLoadRequest J s ident =
     (case find (\<lambda>row. q_id row = ident) (sq_requests s) of
        None \<Rightarrow> Inl NotFound | Some row \<Rightarrow> scanRequestRow J row)"

definition sqliteLoadEvent :: "json_codec \<Rightarrow> sqlite_sink \<Rightarrow> string \<Rightarrow> sqlite_error + capture_record" where
  "sqliteLoadEvent J s ident =
     (case find (\<lambda>row. v_id row = ident) (sq_events s) of
        None \<Rightarrow> Inl NotFound | Some row \<Rightarrow> scanEventRow J row)"

definition sqliteFindRoot :: "json_codec \<Rightarrow> sqlite_sink \<Rightarrow> string \<Rightarrow> sqlite_error + capture_record" where
  "sqliteFindRoot J s ident =
     (case sqliteLoadRequest J s ident of
        Inr cr \<Rightarrow> Inr (Request cr)
      | Inl e \<Rightarrow> if e \<noteq> NotFound then Inl e else sqliteLoadEvent J s ident)"

fun scan_all :: "('a \<Rightarrow> sqlite_error + capture_record) \<Rightarrow> 'a list \<Rightarrow> sqlite_error + capture_record list" where
  "scan_all rd [] = Inr []"
| "scan_all rd (row # rows) =
     (case rd row of
        Inl e \<Rightarrow> Inl e
      | Inr r \<Rightarrow> (case scan_all rd rows of Inl e \<Rightarrow> Inl e | Inr rs \<Rightarrow> Inr (r # rs)))"

definition request_row_lt :: "request_row \<Rightarrow> request_row \<Rightarrow> bool" where
  "request_row_lt a b = (if q_timestamp a \<noteq> q_timestamp b then q_timestamp a < q_timestamp b else q_id a < q_id b)"

definition event_row_lt :: "event_row \<Rightarrow> event_row \<Rightarrow> bool" where
  "event_row_lt a b = (if v_timestamp a \<noteq> v_timestamp b then v_timestamp a < v_timestamp b else v_id a < v_id b)"

definition scan_request :: "json_codec \<Rightarrow> request_row \<Rightarrow> sqlite_error + capture_record" where
  "scan_request J row = (case scanRequestRow J row of Inl e \<Rightarrow> Inl e | Inr r \<Rightarrow> Inr (Request r))"

definition sqliteFetchSiblings :: "json_codec \<Rightarrow> sqlite_sink \<Rightarrow> string \<Rightarrow> string \<Rightarrow> sqlite_error + capture_record list" where
  "sqliteFetchSiblings J s rootID corrID =
     (let reqRows = SliceStable request_row_lt (filter (\<lambda>r. q_correlation_id r = corrID \<and> q_id r \<noteq> rootID) (sq_requests s));
          evtRows = SliceStable event_row_lt (filter (\<lambda>r. v_correlation_id r = corrID \<and> v_id r \<noteq> rootID) (sq_events s))
      in case scan_all (scan_request J) reqRows of
           Inl e \<Rightarrow> Inl e
         | Inr reqs \<Rightarrow>
             (case scan_all (scanEventRow J) evtRows of
                Inl e \<Rightarrow> Inl e
              | Inr evts \<Rightarrow> Inr (SliceStable record_lt (reqs @ evts))))"

definition sqlite_ReadDetail :: "json_codec \<Rightarrow> sqlite_sink \<Rightarrow> string \<Rightarrow> sqlite_error + detail_record" where
  "sqlite_ReadDetail J s ident =
     (case sqliteFindRoot J s ident of
        Inl e \<Rightarrow> Inl e
      | Inr root \<Rightarrow>
          (case sqliteFetchSiblings J s ident (RecordCorrelationID root) of
             Inl e \<Rightarrow> Inl e
           | Inr siblings \<Rightarrow> Inr \<lparr>dr_root = root, dr_events = siblings\<rparr>))"

section \<open>Retention\<close>

record sweeper_policy =
  sp_max_age :: int
  sp_max_count :: int

text \<open>
  The order of rows with equal timestamps in the count-based sweep is SQLite's choice: the
  arguments \<open>qsort\<close> and \<open>vsort\<close> are the two ORDER BY results. A negative LIMIT is no limit.
\<close>

definition sql_limit :: "int \<Rightarrow> 'a list \<Rightarrow> 'a list" where
  "sql_limit n xs = (if n < 0 then xs else take (nat n) xs)"

definition Sweep ::
  "(request_row list \<Rightarrow> request_row list) \<Rightarrow> (event_row list \<Rightarrow> event_row list) \<Rightarrow> bool \<Rightarrow> time
   \<Rightarrow> sweeper_policy \<Rightarrow> sqlite_sink \<Rightarrow> (int option \<times> sqlite_sink)" where
  "Sweep qsort vsort ok now pol s =
     (if sp_max_age pol = 0 \<and> sp_max_count pol = 0 then (Some 0, s)
      else if \<not> ok then (None, s)
      else (let s' =
          (if sp_max_age pol > 0 then
             (let cutoff = wrap64 (UnixNano now - sp_max_age pol) in
              s\<lparr>sq_requests := filter (\<lambda>r. \<not> q_timestamp r < cutoff) (sq_requests s),
                sq_events := filter (\<lambda>r. \<not> v_timestamp r < cutoff) (sq_events s)\<rparr>)
           else
             (let keepq = q_id ` set (sql_limit (sp_max_count pol) (qsort (sq_requests s)));
                  keepv = v_id ` set (sql_limit (sp_max_count pol) (vsort (sq_events s)))
              in s\<lparr>sq_requests := filter (\<lambda>r. q_id r \<in> keepq) (sq_requests s),
                   sq_events := filter (\<lambda>r. v_id r \<in> keepv) (sq_events s)\<rparr>))
         in (Some (int (length (sq_requests s) - length (sq_requests s')) +
                   int (length (sq_events s) - length (sq_events s'))), s')))"

definition sweeper_interval :: "int \<Rightarrow> int" where
  "sweeper_interval interval = (if interval \<le> 0 then 60 * 1000000000 else interval)"

section \<open>The records a store holds\<close>

text \<open>
  JSON turns a map into text from which the same map is read back; this holds for maps of
  valid UTF-8 strings, so it is a condition on the record.
\<close>

definition map_ok :: "json_codec \<Rightarrow> hmap option \<Rightarrow> bool" where
  "map_ok J h = (case jc_map J h of None \<Rightarrow> True | Some s \<Rightarrow> s \<noteq> [] \<and> jc_unmap J s = Some h)"

definition codec_ok :: "json_codec \<Rightarrow> capture_record \<Rightarrow> bool" where
  "codec_ok J r = (case r of
      Request v \<Rightarrow> map_ok J (cr_query v) \<and> map_ok J (cr_headers v) \<and>
        (case jc_cookies J (cr_cookies v) of None \<Rightarrow> True | Some s \<Rightarrow> jc_uncookies J s = Some (cr_cookies v))
    | Response v \<Rightarrow> map_ok J (re_headers v)
    | Outbound v \<Rightarrow> map_ok J (oq_headers (oe_request v)) \<and>
        (case oe_response v of None \<Rightarrow> True | Some p \<Rightarrow> map_ok J (or_headers p)))"

text \<open>What comes back: the events table has no column for content types and the correlation source.\<close>

definition persisted :: "capture_record \<Rightarrow> capture_record" where
  "persisted r = (case r of
      Request v \<Rightarrow> Request v
    | Response v \<Rightarrow> Response (v\<lparr>re_correlation_source := [], re_content_type := []\<rparr>)
    | Outbound v \<Rightarrow> Outbound (v\<lparr>oe_correlation_source := [],
        oe_request := (oe_request v)\<lparr>oq_content_type := []\<rparr>,
        oe_response := map_option (\<lambda>p. p\<lparr>or_content_type := []\<rparr>) (oe_response v)\<rparr>))"

lemma persisted_key [simp]:
  "RecordID (persisted r) = RecordID r" "RecordCorrelationID (persisted r) = RecordCorrelationID r"
  "RecordTimestamp (persisted r) = RecordTimestamp r" "is_request (persisted r) = is_request r"
  by (cases r; simp add: persisted_def)+

definition stored_requests :: "json_codec \<Rightarrow> sqlite_sink \<Rightarrow> capture_record list" where
  "stored_requests J s = map (\<lambda>row. projr (scan_request J row)) (sq_requests s)"

definition stored_events :: "json_codec \<Rightarrow> sqlite_sink \<Rightarrow> capture_record list" where
  "stored_events J s = map (\<lambda>row. projr (scanEventRow J row)) (sq_events s)"

definition stored :: "json_codec \<Rightarrow> sqlite_sink \<Rightarrow> capture_record list" where
  "stored J s = stored_requests J s @ stored_events J s"

text \<open>The invariant of the store: unique keys per table, rows that scan, int64 timestamps.\<close>

definition store_ok :: "json_codec \<Rightarrow> sqlite_sink \<Rightarrow> bool" where
  "store_ok J s = (distinct (map q_id (sq_requests s)) \<and> distinct (map v_id (sq_events s)) \<and>
     list_all (\<lambda>row. isl (scanRequestRow J row) = False \<and> in_int64 (q_timestamp row)) (sq_requests s) \<and>
     list_all (\<lambda>row. isl (scanEventRow J row) = False \<and> in_int64 (v_timestamp row)) (sq_events s))"

definition empty_store :: sqlite_sink where
  "empty_store = \<lparr>sq_requests = [], sq_events = []\<rparr>"

lemma flag_ne [simp]: "flag b \<noteq> 0 \<longleftrightarrow> b"
  by (simp add: flag_def)

lemma null_simps [simp]:
  "null_int None = 0" "null_int (Some n) = n" "null_text None = []" "null_text (Some t) = t"
  "null_flag None = False" "null_flag (Some (flag b)) = b"
  by (simp_all add: null_int_def null_text_def null_flag_def)

lemma headers_of_ok: "map_ok J h \<Longrightarrow> jc_map J h = Some t \<Longrightarrow> headers_of J (Some t) = Some h"
  by (simp add: map_ok_def headers_of_def)

lemma scan_request_row:
  assumes "scan_request J row = Inr r"
  shows "RecordID r = q_id row" "RecordCorrelationID r = q_correlation_id row" "RecordTimestamp r = q_timestamp row" "is_request r"
  using assms by (auto simp: scan_request_def scanRequestRow_def split: sum.splits option.splits)

lemma scan_event_row:
  assumes "scanEventRow J row = Inr r"
  shows "RecordID r = v_id row" "RecordCorrelationID r = v_correlation_id row" "RecordTimestamp r = v_timestamp row" "\<not> is_request r"
  using assms by (auto simp: scanEventRow_def split: if_splits option.splits)

lemma insert_request_cases:
  "insert_request ok row s = Inr s' \<Longrightarrow>
   s' = s\<lparr>sq_requests := sq_requests s @ [row]\<rparr> \<and> q_id row \<notin> q_id ` set (sq_requests s) \<and> ok"
  by (auto simp: insert_request_def split: if_splits)

lemma insert_event_cases:
  "insert_event ok row s = Inr s' \<Longrightarrow>
   s' = s\<lparr>sq_events := sq_events s @ [row]\<rparr> \<and> v_id row \<notin> v_id ` set (sq_events s) \<and> ok"
  by (auto simp: insert_event_def split: if_splits)

lemma written_request:
  assumes "sqlite_Write J ok (Request v) s = Inr s'" and "codec_ok J (Request v)" and "in_int64 (cr_timestamp v)"
  obtains row where "s' = s\<lparr>sq_requests := sq_requests s @ [row]\<rparr>" and "q_id row \<notin> q_id ` set (sq_requests s)"
    and "scan_request J row = Inr (Request v)"
proof -
  obtain qj hj cj where j: "jc_map J (cr_query v) = Some qj" "jc_map J (cr_headers v) = Some hj" "jc_cookies J (cr_cookies v) = Some cj"
    using assms(1) by (auto simp: sqlite_Write_def writeCapturedRequest_def split: option.splits)
  show thesis
    by (rule that) (use assms j in \<open>auto simp: sqlite_Write_def writeCapturedRequest_def codec_ok_def map_ok_def scan_request_def
      scanRequestRow_def UnixNano_id dest!: insert_request_cases\<close>)
qed

lemma written_event:
  assumes "sqlite_Write J ok r s = Inr s'" and "codec_ok J r" and "in_int64 (RecordTimestamp r)" and "\<not> is_request r"
  obtains row where "s' = s\<lparr>sq_events := sq_events s @ [row]\<rparr>" and "v_id row \<notin> v_id ` set (sq_events s)"
    and "scanEventRow J row = Inr (persisted r)"
proof (cases r)
  case (Response v)
  then obtain hj where j: "jc_map J (re_headers v) = Some hj"
    using assms(1) by (auto simp: sqlite_Write_def writeResponseEvent_def split: option.splits)
  then have h: "headers_of J (Some hj) = Some (re_headers v)" using assms(2) Response by (simp add: codec_ok_def headers_of_ok)
  show thesis
    by (rule that) (use assms Response j h in \<open>auto simp: sqlite_Write_def writeResponseEvent_def scanEventRow_def persisted_def UnixNano_id
      dest!: insert_event_cases\<close>)
next
  case (Outbound v)
  then obtain hj where j: "jc_map J (oq_headers (oe_request v)) = Some hj"
    using assms(1) by (auto simp: sqlite_Write_def writeOutboundEvent_def split: option.splits)
  then have h: "headers_of J (Some hj) = Some (oq_headers (oe_request v))" using assms(2) Outbound by (simp add: codec_ok_def headers_of_ok)
  show thesis
  proof (cases "oe_response v")
    case None
    show thesis
      by (rule that) (use assms Outbound j h None in \<open>auto simp: sqlite_Write_def writeOutboundEvent_def scanEventRow_def persisted_def UnixNano_id
        dest!: insert_event_cases\<close>)
  next
    case (Some p)
    then obtain pj where pj: "jc_map J (or_headers p) = Some pj"
      using assms(1) Outbound j by (auto simp: sqlite_Write_def writeOutboundEvent_def split: option.splits)
    then have ph: "headers_of J (Some pj) = Some (or_headers p)" using assms(2) Outbound Some by (simp add: codec_ok_def headers_of_ok)
    show thesis
      by (rule that) (use assms Outbound j h Some pj ph in \<open>auto simp: sqlite_Write_def writeOutboundEvent_def scanEventRow_def persisted_def UnixNano_id
        dest!: insert_event_cases\<close>)
  qed
qed (use assms(4) in simp)

section \<open>Histories of a store\<close>

text \<open>
  Every store the program can reach by writes and sweeps, with the records it should hold: a
  failed write changes nothing, a sweep keeps the records of the rows it keeps.
\<close>

inductive reaches :: "json_codec \<Rightarrow> sqlite_sink \<Rightarrow> capture_record list \<Rightarrow> bool" for J where
  opened: "reaches J empty_store []"
| wrote: "reaches J s rs \<Longrightarrow> codec_ok J r \<Longrightarrow> in_int64 (RecordTimestamp r) \<Longrightarrow>
    sqlite_Write J ok r s = Inr s' \<Longrightarrow> reaches J s' (persisted r # rs)"
| failed: "reaches J s rs \<Longrightarrow> sqlite_Write J ok r s = Inl e \<Longrightarrow> reaches J s rs"
| swept: "reaches J s rs \<Longrightarrow> Sweep qsort vsort ok now pol s = (n, s') \<Longrightarrow>
    reaches J s' (filter (\<lambda>r. r \<in> set (stored J s')) rs)"

inductive_cases reaches_emptyE: "reaches J s []"

lemma isl_request: "isl (scanRequestRow J row) = isl (scan_request J row)"
  by (simp add: scan_request_def split: sum.split)

lemma store_ok_empty: "store_ok J empty_store"
  by (simp add: store_ok_def empty_store_def)

lemma write_store_ok:
  assumes "store_ok J s" and "codec_ok J r" and "in_int64 (RecordTimestamp r)" and "sqlite_Write J ok r s = Inr s'"
  shows "store_ok J s'" and "mset (stored J s') = add_mset (persisted r) (mset (stored J s))"
proof -
  have "store_ok J s' \<and> mset (stored J s') = add_mset (persisted r) (mset (stored J s))"
  proof (cases "is_request r")
    case True
    then obtain v where r: "r = Request v" by (cases r) auto
    with assms(3) have t: "in_int64 (cr_timestamp v)" by simp
    obtain row where row: "s' = s\<lparr>sq_requests := sq_requests s @ [row]\<rparr>" "q_id row \<notin> q_id ` set (sq_requests s)"
      "scan_request J row = Inr (Request v)"
      using written_request [OF assms(4) [unfolded r] assms(2) [unfolded r] t] by metis
    moreover have "in_int64 (q_timestamp row)" using t scan_request_row(3) [OF row(3)] by simp
    ultimately show ?thesis using assms(1) r
      by (auto simp: store_ok_def stored_def stored_requests_def stored_events_def isl_request persisted_def)
  next
    case False
    obtain row where row: "s' = s\<lparr>sq_events := sq_events s @ [row]\<rparr>" "v_id row \<notin> v_id ` set (sq_events s)"
      "scanEventRow J row = Inr (persisted r)"
      using written_event [OF assms(4,2,3) False] by metis
    moreover have "in_int64 (v_timestamp row)" using assms(3) scan_event_row(3) [OF row(3)] by simp
    ultimately show ?thesis using assms(1)
      by (auto simp: store_ok_def stored_def stored_requests_def stored_events_def)
  qed
  then show "store_ok J s'" and "mset (stored J s') = add_mset (persisted r) (mset (stored J s))" by auto
qed

text \<open>A sweep filters each table by a predicate on keys and timestamps.\<close>

lemma Sweep_filters:
  assumes "Sweep qsort vsort ok now pol s = (n, s')"
  obtains P Q where "sq_requests s' = filter P (sq_requests s)" and "sq_events s' = filter Q (sq_events s)"
proof (cases "(sp_max_age pol = 0 \<and> sp_max_count pol = 0) \<or> \<not> ok")
  case True
  then have "s' = s" using assms by (auto simp: Sweep_def split: if_splits)
  then show thesis using that [of "\<lambda>_. True" "\<lambda>_. True"] by simp
next
  case False
  then show thesis using assms that by (cases "sp_max_age pol > 0") (auto simp: Sweep_def Let_def)
qed

lemma stored_requests_ids:
  "store_ok J s \<Longrightarrow> map RecordID (stored_requests J s) = map q_id (sq_requests s)"
proof -
  assume "store_ok J s"
  then have "RecordID (projr (scan_request J row)) = q_id row" if "row \<in> set (sq_requests s)" for row
    using that scan_request_row(1) [of J row "projr (scan_request J row)"]
    by (auto simp: store_ok_def list_all_iff isl_request split: sum.splits intro!: sum.collapse(2) [symmetric])
  then show ?thesis by (simp add: stored_requests_def)
qed

lemma stored_events_ids:
  "store_ok J s \<Longrightarrow> map RecordID (stored_events J s) = map v_id (sq_events s)"
proof -
  assume "store_ok J s"
  then have "RecordID (projr (scanEventRow J row)) = v_id row" if "row \<in> set (sq_events s)" for row
    using that scan_event_row(1) [of J row "projr (scanEventRow J row)"]
    by (auto simp: store_ok_def list_all_iff split: sum.splits intro!: sum.collapse(2) [symmetric])
  then show ?thesis by (simp add: stored_events_def)
qed

lemma sweep_store_ok:
  assumes "store_ok J s" and "Sweep qsort vsort ok now pol s = (n, s')"
  shows "store_ok J s'"
proof -
  obtain P Q where "sq_requests s' = filter P (sq_requests s)" "sq_events s' = filter Q (sq_events s)"
    using Sweep_filters [OF assms(2)] .
  then show ?thesis using assms(1) by (auto simp: store_ok_def list_all_iff distinct_map_filter)
qed

lemma map_filter_mset:
  assumes "inj_on f (set xs)"
  shows "mset (map f (filter P xs)) = mset (filter (\<lambda>y. y \<in> f ` set (filter P xs)) (map f xs))"
  using assms
proof -
  have "filter (\<lambda>x. f x \<in> f ` set (filter P xs)) xs = filter P xs"
    by (rule filter_cong [OF refl]) (use assms in \<open>auto simp: inj_on_def\<close>)
  then show ?thesis by (simp add: filter_map comp_def)
qed

lemma stored_inj:
  assumes "store_ok J s"
  shows "inj_on (\<lambda>row. projr (scan_request J row)) (set (sq_requests s))" "inj_on (\<lambda>row. projr (scanEventRow J row)) (set (sq_events s))"
  using stored_requests_ids [OF assms] stored_events_ids [OF assms] assms
  by (auto simp: store_ok_def stored_requests_def stored_events_def distinct_map inj_on_def comp_def map_eq_conv)
     (metis (no_types, lifting))+

lemma stored_kinds:
  assumes "store_ok J s"
  shows "r \<in> set (stored_requests J s) \<Longrightarrow> is_request r" and "r \<in> set (stored_events J s) \<Longrightarrow> \<not> is_request r"
proof -
  show "is_request r" if "r \<in> set (stored_requests J s)"
  proof -
    from that obtain row where row: "row \<in> set (sq_requests s)" "r = projr (scan_request J row)"
      by (auto simp: stored_requests_def)
    then have "scan_request J row = Inr r" using assms by (auto simp: store_ok_def list_all_iff isl_request split: sum.splits)
    then show ?thesis by (rule scan_request_row)
  qed
  show "\<not> is_request r" if "r \<in> set (stored_events J s)"
  proof -
    from that obtain row where row: "row \<in> set (sq_events s)" "r = projr (scanEventRow J row)"
      by (auto simp: stored_events_def)
    then have "scanEventRow J row = Inr r" using assms by (auto simp: store_ok_def list_all_iff split: sum.splits)
    then show ?thesis by (rule scan_event_row)
  qed
qed

lemma sweep_stored:
  assumes "store_ok J s" and "Sweep qsort vsort ok now pol s = (n, s')"
  shows "mset (filter (\<lambda>r. r \<in> set (stored J s')) (stored J s)) = mset (stored J s')"
proof -
  obtain P Q where f: "sq_requests s' = filter P (sq_requests s)" "sq_events s' = filter Q (sq_events s)"
    using Sweep_filters [OF assms(2)] .
  have ok': "store_ok J s'" by (rule sweep_store_ok [OF assms])
  have q: "mset (filter (\<lambda>r. r \<in> set (stored_requests J s')) (stored_requests J s)) = mset (stored_requests J s')"
    using map_filter_mset [OF stored_inj(1) [OF assms(1)], of P] by (simp add: stored_requests_def f)
  have v: "mset (filter (\<lambda>r. r \<in> set (stored_events J s')) (stored_events J s)) = mset (stored_events J s')"
    using map_filter_mset [OF stored_inj(2) [OF assms(1)], of Q] by (simp add: stored_events_def f)
  have "filter (\<lambda>r. r \<in> set (stored J s')) (stored_requests J s) = filter (\<lambda>r. r \<in> set (stored_requests J s')) (stored_requests J s)"
    by (rule filter_cong [OF refl]) (use stored_kinds [OF assms(1)] stored_kinds [OF ok'] in \<open>auto simp: stored_def\<close>)
  moreover have "filter (\<lambda>r. r \<in> set (stored J s')) (stored_events J s) = filter (\<lambda>r. r \<in> set (stored_events J s')) (stored_events J s)"
    by (rule filter_cong [OF refl]) (use stored_kinds [OF assms(1)] stored_kinds [OF ok'] in \<open>auto simp: stored_def\<close>)
  ultimately have "filter (\<lambda>r. r \<in> set (stored J s')) (stored J s) =
      filter (\<lambda>r. r \<in> set (stored_requests J s')) (stored_requests J s) @ filter (\<lambda>r. r \<in> set (stored_events J s')) (stored_events J s)"
    by (simp add: stored_def)
  then show ?thesis using q v by (simp add: stored_def)
qed

lemma reaches_ok: "reaches J s rs \<Longrightarrow> store_ok J s \<and> mset (stored J s) = mset rs"
proof (induction rule: reaches.induct)
  case opened
  show ?case using store_ok_empty by (simp add: stored_def stored_requests_def stored_events_def empty_store_def)
next
  case (wrote s rs r ok s')
  then show ?case using write_store_ok by fastforce
next
  case (swept s rs qsort vsort ok now pol n s')
  then have "mset (stored J s') = mset (filter (\<lambda>r. r \<in> set (stored J s')) (stored J s))" using sweep_stored by metis
  also have "\<dots> = mset (filter (\<lambda>r. r \<in> set (stored J s')) rs)" using swept.IH by (metis mset_filter)
  finally show ?case using swept sweep_store_ok by blast
qed simp

section \<open>Detail reads\<close>

interpretation request_row_order: weak_order request_row_lt
  by unfold_locales (auto simp: request_row_lt_def split: if_splits)

interpretation event_row_order: weak_order event_row_lt
  by unfold_locales (auto simp: event_row_lt_def split: if_splits)

lemma scan_all_ok: "\<forall>row \<in> set rows. \<not> isl (f row) \<Longrightarrow> scan_all f rows = Inr (map (\<lambda>row. projr (f row)) rows)"
  by (induction rows) (auto split: sum.splits)

lemma request_rows_ok: "store_ok J s \<Longrightarrow> row \<in> set (sq_requests s) \<Longrightarrow> scan_request J row = Inr (projr (scan_request J row))"
  by (auto simp: store_ok_def list_all_iff isl_request split: sum.splits)

lemma event_rows_ok: "store_ok J s \<Longrightarrow> row \<in> set (sq_events s) \<Longrightarrow> scanEventRow J row = Inr (projr (scanEventRow J row))"
  by (auto simp: store_ok_def list_all_iff split: sum.splits)

lemma mset_scanned_requests:
  assumes ok: "store_ok J s"
  shows "mset (map (\<lambda>row. projr (scan_request J row)) (filter (\<lambda>r. q_correlation_id r = c \<and> q_id r \<noteq> i) (sq_requests s))) =
    filter_mset (\<lambda>r. RecordID r \<noteq> i \<and> RecordCorrelationID r = c) (mset (stored_requests J s))"
proof -
  have "filter (\<lambda>r. q_correlation_id r = c \<and> q_id r \<noteq> i) (sq_requests s) =
      filter (\<lambda>row. RecordID (projr (scan_request J row)) \<noteq> i \<and> RecordCorrelationID (projr (scan_request J row)) = c) (sq_requests s)"
    by (rule filter_cong [OF refl]) (use scan_request_row [OF request_rows_ok [OF ok]] in auto)
  then have "map (\<lambda>row. projr (scan_request J row)) (filter (\<lambda>r. q_correlation_id r = c \<and> q_id r \<noteq> i) (sq_requests s)) =
      filter (\<lambda>r. RecordID r \<noteq> i \<and> RecordCorrelationID r = c) (stored_requests J s)"
    by (simp add: stored_requests_def filter_map comp_def)
  then show ?thesis by (simp only: mset_filter)
qed

lemma mset_scanned_events:
  assumes ok: "store_ok J s"
  shows "mset (map (\<lambda>row. projr (scanEventRow J row)) (filter (\<lambda>r. v_correlation_id r = c \<and> v_id r \<noteq> i) (sq_events s))) =
    filter_mset (\<lambda>r. RecordID r \<noteq> i \<and> RecordCorrelationID r = c) (mset (stored_events J s))"
proof -
  have "filter (\<lambda>r. v_correlation_id r = c \<and> v_id r \<noteq> i) (sq_events s) =
      filter (\<lambda>row. RecordID (projr (scanEventRow J row)) \<noteq> i \<and> RecordCorrelationID (projr (scanEventRow J row)) = c) (sq_events s)"
    by (rule filter_cong [OF refl]) (use scan_event_row [OF event_rows_ok [OF ok]] in auto)
  then have "map (\<lambda>row. projr (scanEventRow J row)) (filter (\<lambda>r. v_correlation_id r = c \<and> v_id r \<noteq> i) (sq_events s)) =
      filter (\<lambda>r. RecordID r \<noteq> i \<and> RecordCorrelationID r = c) (stored_events J s)"
    by (simp add: stored_events_def filter_map comp_def)
  then show ?thesis by (simp only: mset_filter)
qed

lemma siblings_exact:
  assumes ok: "store_ok J s"
  obtains sibs where "sqliteFetchSiblings J s i c = Inr sibs"
    and "mset sibs = filter_mset (\<lambda>r. RecordID r \<noteq> i \<and> RecordCorrelationID r = c) (mset (stored J s))"
    and "sorted_wrt (\<lambda>a b. \<not> record_lt b a) sibs"
proof -
  let ?q = "SliceStable request_row_lt (filter (\<lambda>r. q_correlation_id r = c \<and> q_id r \<noteq> i) (sq_requests s))"
  let ?v = "SliceStable event_row_lt (filter (\<lambda>r. v_correlation_id r = c \<and> v_id r \<noteq> i) (sq_events s))"
  let ?f = "\<lambda>row. projr (scan_request J row)" and ?g = "\<lambda>row. projr (scanEventRow J row)"
  have fq: "scan_all (scan_request J) ?q = Inr (map ?f ?q)"
    by (rule scan_all_ok) (use ok in \<open>auto simp: request_row_order.set_sort store_ok_def list_all_iff isl_request\<close>)
  have fv: "scan_all (scanEventRow J) ?v = Inr (map ?g ?v)"
    by (rule scan_all_ok) (use ok in \<open>auto simp: event_row_order.set_sort store_ok_def list_all_iff\<close>)
  have "mset (map ?f ?q @ map ?g ?v) = filter_mset (\<lambda>r. RecordID r \<noteq> i \<and> RecordCorrelationID r = c) (mset (stored J s))"
    using mset_scanned_requests [OF ok, of c i] mset_scanned_events [OF ok, of c i]
    by (simp add: stored_def request_row_order.mset_sort event_row_order.mset_sort)
  moreover have "sqliteFetchSiblings J s i c = Inr (SliceStable record_lt (map ?f ?q @ map ?g ?v))"
    by (simp add: sqliteFetchSiblings_def Let_def fq fv)
  ultimately show thesis
    by (intro that [of "SliceStable record_lt (map ?f ?q @ map ?g ?v)"]) (simp_all only: record_order.mset_sort record_order.sort_sorted)
qed

lemma find_root:
  assumes ok: "store_ok J s"
  shows "case sqliteFindRoot J s i of
      Inl e \<Rightarrow> e = NotFound \<and> (\<forall>r \<in> set (stored J s). RecordID r \<noteq> i)
    | Inr root \<Rightarrow> root \<in> set (stored J s) \<and> RecordID root = i"
proof (cases "find (\<lambda>row. q_id row = i) (sq_requests s)")
  case (Some row)
  then have row: "row \<in> set (sq_requests s)" "q_id row = i" by (auto simp: find_Some_iff)
  obtain v where "scanRequestRow J row = Inr v" using ok row(1) by (auto simp: store_ok_def list_all_iff split: sum.splits) (metis sum.collapse(2))
  then have "scan_request J row = Inr (Request v)" "sqliteFindRoot J s i = Inr (Request v)"
    using Some by (simp_all add: scan_request_def sqliteFindRoot_def sqliteLoadRequest_def)
  then show ?thesis using row scan_request_row(1) [of J row "Request v"]
    by (force simp: stored_def stored_requests_def)
next
  case None
  then have nq: "\<forall>row \<in> set (sq_requests s). q_id row \<noteq> i" by (auto simp: find_None_iff)
  then have "i \<notin> set (map q_id (sq_requests s))" by auto
  then have q: "\<forall>r \<in> set (stored_requests J s). RecordID r \<noteq> i" unfolding stored_requests_ids [OF ok, symmetric] by auto
  have load: "sqliteFindRoot J s i = sqliteLoadEvent J s i"
    using None by (simp add: sqliteFindRoot_def sqliteLoadRequest_def)
  show ?thesis
  proof (cases "find (\<lambda>row. v_id row = i) (sq_events s)")
    case (Some row)
    then have row: "row \<in> set (sq_events s)" "v_id row = i" by (auto simp: find_Some_iff)
    then have "projr (scanEventRow J row) \<in> set (stored J s)" by (auto simp: stored_def stored_events_def)
    moreover have "sqliteFindRoot J s i = Inr (projr (scanEventRow J row))"
      using load Some event_rows_ok [OF ok row(1)] by (simp add: sqliteLoadEvent_def)
    ultimately show ?thesis using scan_event_row(1) [OF event_rows_ok [OF ok row(1)]] row(2) by simp
  next
    case vNone: None
    then have "i \<notin> set (map v_id (sq_events s))" by (auto simp: find_None_iff)
    then have "\<forall>r \<in> set (stored_events J s). RecordID r \<noteq> i" unfolding stored_events_ids [OF ok, symmetric] by auto
    then show ?thesis using load vNone q by (auto simp: sqliteLoadEvent_def stored_def)
  qed
qed

section \<open>Facts about retention\<close>

definition newest_first :: "('a \<Rightarrow> int) \<Rightarrow> ('a list \<Rightarrow> 'a list) \<Rightarrow> bool" where
  "newest_first ts srt = (\<forall>xs. mset (srt xs) = mset xs \<and> sorted_wrt (\<lambda>a b. ts a \<ge> ts b) (srt xs))"

text \<open>What a sweep may keep of a table with distinct keys: the newest \<open>n\<close> rows.\<close>

definition newest :: "('a \<Rightarrow> int) \<Rightarrow> nat \<Rightarrow> 'a list \<Rightarrow> 'a list \<Rightarrow> bool" where
  "newest ts n xs ys = (mset ys \<subseteq># mset xs \<and> length ys = min n (length xs) \<and>
     (\<forall>x \<in># mset xs - mset ys. \<forall>y \<in> set ys. ts x \<le> ts y))"

lemma keep_newest:
  assumes "distinct (map k xs)" and "newest_first ts srt"
  shows "newest ts n xs (filter (\<lambda>x. k x \<in> k ` set (take n (srt xs))) xs)"
proof -
  have m: "mset (srt xs) = mset xs" and sorted: "sorted_wrt (\<lambda>a b. ts a \<ge> ts b) (srt xs)"
    using assms(2) by (auto simp: newest_first_def)
  have st: "set (srt xs) = set xs" using m by (metis set_mset_mset)
  have inj: "inj_on k (set xs)" and d: "distinct xs" using assms(1) by (auto simp: distinct_map)
  have "filter (\<lambda>x. k x \<in> k ` set (take n (srt xs))) xs = filter (\<lambda>x. x \<in> set (take n (srt xs))) xs"
    by (rule filter_cong [OF refl]) (use inj st in \<open>auto simp: inj_on_def dest: in_set_takeD\<close>)
  moreover have "mset (filter (\<lambda>x. x \<in> set (take n (srt xs))) xs) = mset (take n (srt xs))"
  proof (rule set_eq_iff_mset_eq_distinct [THEN iffD1])
    show "distinct (filter (\<lambda>x. x \<in> set (take n (srt xs))) xs)" using d by simp
    show "distinct (take n (srt xs))" using d m by (metis distinct_take mset_eq_imp_distinct_iff)
    show "set (filter (\<lambda>x. x \<in> set (take n (srt xs))) xs) = set (take n (srt xs))" using st by (auto dest: in_set_takeD)
  qed
  ultimately have keep: "mset (filter (\<lambda>x. k x \<in> k ` set (take n (srt xs))) xs) = mset (take n (srt xs))" by simp
  have rest: "mset xs - mset (take n (srt xs)) = mset (drop n (srt xs))"
    using m append_take_drop_id [of n "srt xs"] by (metis add_diff_cancel_left' mset_append)
  have old: "\<forall>x \<in> set (drop n (srt xs)). \<forall>y \<in> set (take n (srt xs)). ts x \<le> ts y"
    using sorted append_take_drop_id [of n "srt xs"] by (metis sorted_wrt_append)
  show ?thesis unfolding newest_def keep rest
  proof (intro conjI)
    show "mset (take n (srt xs)) \<subseteq># mset xs" using m by (metis append_take_drop_id mset_append mset_subset_eq_add_left)
    show "length (filter (\<lambda>x. k x \<in> k ` set (take n (srt xs))) xs) = min n (length xs)"
      using keep m by (metis length_take min.commute size_mset)
    show "\<forall>x \<in># mset (drop n (srt xs)). \<forall>y \<in> set (filter (\<lambda>x. k x \<in> k ` set (take n (srt xs))) xs). ts x \<le> ts y"
      using old keep by (metis mset_eq_setD set_mset_mset)
  qed
qed

section \<open>Properties\<close>

text \<open>
  C12. The store keeps every record it accepted. After any history of writes, failed writes and
  sweeps, the rows decode to exactly the accepted records the sweeps left (as a multiset),
  each as it was written except for the event fields that have no column; both tables have
  unique keys. A detail read finds a record exactly when it is held, and lists all other
  records of its correlation id from both tables, oldest first.
\<close>

theorem sqlite_detail_exact:
  assumes "reaches J s rs"
  shows "mset (stored J s) = mset rs \<and> distinct (map q_id (sq_requests s)) \<and> distinct (map v_id (sq_events s)) \<and>
    (case sqlite_ReadDetail J s ident of
       Inl e \<Rightarrow> e = NotFound \<and> (\<forall>r \<in> set rs. RecordID r \<noteq> ident)
     | Inr d \<Rightarrow> dr_root d \<in> set rs \<and> RecordID (dr_root d) = ident \<and>
         mset (dr_events d) = filter_mset (\<lambda>r. RecordID r \<noteq> ident \<and>
           RecordCorrelationID r = RecordCorrelationID (dr_root d)) (mset rs) \<and>
         sorted_wrt (\<lambda>a b. \<not> record_lt b a) (dr_events d))"
proof -
  have ok: "store_ok J s" and m: "mset (stored J s) = mset rs" using reaches_ok [OF assms] by auto
  then have sets: "set (stored J s) = set rs" by (metis set_mset_mset)
  have "case sqlite_ReadDetail J s ident of
       Inl e \<Rightarrow> e = NotFound \<and> (\<forall>r \<in> set rs. RecordID r \<noteq> ident)
     | Inr d \<Rightarrow> dr_root d \<in> set rs \<and> RecordID (dr_root d) = ident \<and>
         mset (dr_events d) = filter_mset (\<lambda>r. RecordID r \<noteq> ident \<and>
           RecordCorrelationID r = RecordCorrelationID (dr_root d)) (mset rs) \<and>
         sorted_wrt (\<lambda>a b. \<not> record_lt b a) (dr_events d)"
  proof (cases "sqliteFindRoot J s ident")
    case (Inl e)
    then show ?thesis using find_root [OF ok, of ident] sets by (simp add: sqlite_ReadDetail_def)
  next
    case (Inr root)
    obtain sibs where "sqliteFetchSiblings J s ident (RecordCorrelationID root) = Inr sibs"
      "mset sibs = filter_mset (\<lambda>r. RecordID r \<noteq> ident \<and> RecordCorrelationID r = RecordCorrelationID root) (mset (stored J s))"
      "sorted_wrt (\<lambda>a b. \<not> record_lt b a) sibs"
      by (rule siblings_exact [OF ok])
    then show ?thesis using Inr find_root [OF ok, of ident] sets m by (simp add: sqlite_ReadDetail_def)
  qed
  then show ?thesis using ok m by (simp add: store_ok_def)
qed

text \<open>A codec for the examples: it encodes the empty header map and the empty cookie list.\<close>

definition sample_codec :: json_codec where
  "sample_codec = \<lparr>jc_map = (\<lambda>h. if h = Some [] then Some ''{}'' else None), jc_cookies = (\<lambda>cs. if cs = [] then Some ''[]'' else None),
     jc_unmap = (\<lambda>s. Some (Some [])), jc_uncookies = (\<lambda>s. Some [])\<rparr>"

definition sample_store :: sqlite_sink where
  "sample_store = (let s1 = projr (sqlite_Write sample_codec True (Request (sample_request ''a'' 5 ''c1'')) empty_store)
     in projr (sqlite_Write sample_codec True (Response (sample_response ''b'' 7 ''c1'' 200)) s1))"

lemma sample_store_reached:
  "reaches sample_codec sample_store [persisted (Response (sample_response ''b'' 7 ''c1'' 200)), persisted (Request (sample_request ''a'' 5 ''c1''))]"
proof -
  have c: "codec_ok sample_codec (Request (sample_request ''a'' 5 ''c1''))" "codec_ok sample_codec (Response (sample_response ''b'' 7 ''c1'' 200))"
    by (simp_all add: codec_ok_def map_ok_def sample_codec_def sample_request_def sample_response_def)
  have t: "in_int64 (RecordTimestamp (Request (sample_request ''a'' 5 ''c1'')))" "in_int64 (RecordTimestamp (Response (sample_response ''b'' 7 ''c1'' 200)))"
    by (simp_all add: in_int64_def sample_request_def sample_response_def)
  obtain s1 where s1: "sqlite_Write sample_codec True (Request (sample_request ''a'' 5 ''c1'')) empty_store = Inr s1"
    by (simp add: sqlite_Write_def writeCapturedRequest_def insert_request_def sample_codec_def sample_request_def empty_store_def)
  then have "sq_events s1 = []"
    by (auto simp: sqlite_Write_def writeCapturedRequest_def insert_request_def sample_codec_def sample_request_def empty_store_def)
  then obtain s2 where s2: "sqlite_Write sample_codec True (Response (sample_response ''b'' 7 ''c1'' 200)) s1 = Inr s2"
    by (simp add: sqlite_Write_def writeResponseEvent_def insert_event_def sample_codec_def sample_response_def)
  have "reaches sample_codec s2 [persisted (Response (sample_response ''b'' 7 ''c1'' 200)), persisted (Request (sample_request ''a'' 5 ''c1''))]"
    by (rule wrote [OF wrote [OF opened c(1) t(1) s1] c(2) t(2) s2])
  then show ?thesis by (simp add: sample_store_def s1 s2)
qed

theorem sqlite_detail_exact_witness:
  "sqlite_ReadDetail sample_codec sample_store ''nope'' = Inl NotFound \<and> length (stored sample_codec sample_store) = 2"
proof -
  note p = sqlite_detail_exact [OF sample_store_reached, of "''nope''"]
  have "sqlite_ReadDetail sample_codec sample_store ''nope'' = Inl NotFound"
    using p by (cases "sqlite_ReadDetail sample_codec sample_store ''nope''") (auto simp: sample_request_def sample_response_def)
  moreover have "size (mset (stored sample_codec sample_store)) = 2" using p by simp
  ultimately show ?thesis by simp
qed

text \<open>
  The retention sweep trims exactly what its policy says, and reports the number of rows
  it removed. With an age limit the rows of both tables at or after the cut-off stay, with
  a count limit each table keeps its newest rows up to the limit, whatever order SQLite gives
  to equal timestamps. A sweep that fails removes nothing; without a policy it is a no-op.
\<close>

theorem sweep_trims_exactly:
  assumes "store_ok J s" and "newest_first q_timestamp qsort" and "newest_first v_timestamp vsort"
    and "0 \<le> sp_max_age pol" and "0 \<le> sp_max_count pol"
  shows "case Sweep qsort vsort ok now pol s of
      (None, s') \<Rightarrow> s' = s \<and> \<not> ok
    | (Some n, s') \<Rightarrow>
        n = int (length (sq_requests s)) - int (length (sq_requests s')) + (int (length (sq_events s)) - int (length (sq_events s'))) \<and>
        (if sp_max_age pol > 0 then
           (let cutoff = wrap64 (UnixNano now - sp_max_age pol) in
            sq_requests s' = filter (\<lambda>r. cutoff \<le> q_timestamp r) (sq_requests s) \<and>
            sq_events s' = filter (\<lambda>r. cutoff \<le> v_timestamp r) (sq_events s))
         else if sp_max_count pol > 0 then
           newest q_timestamp (nat (sp_max_count pol)) (sq_requests s) (sq_requests s') \<and>
           newest v_timestamp (nat (sp_max_count pol)) (sq_events s) (sq_events s')
         else s' = s)"
proof -
  have d: "distinct (map q_id (sq_requests s))" "distinct (map v_id (sq_events s))" using assms(1) by (auto simp: store_ok_def)
  have le: "length (filter P (sq_requests s)) \<le> length (sq_requests s)" "length (filter Q (sq_events s)) \<le> length (sq_events s)" for P Q
    by simp_all
  show ?thesis using assms(4,5) keep_newest [OF d(1) assms(2), of "nat (sp_max_count pol)"] keep_newest [OF d(2) assms(3), of "nat (sp_max_count pol)"]
    by (auto simp: Sweep_def Let_def sql_limit_def not_less of_nat_diff [OF le(1)] of_nat_diff [OF le(2)] split: prod.split)
qed

definition desc_sort :: "('a \<Rightarrow> int) \<Rightarrow> 'a list \<Rightarrow> 'a list" where
  "desc_sort ts xs = rev (sort_key ts xs)"

lemma desc_sort_newest: "newest_first ts (desc_sort ts)"
  unfolding newest_first_def desc_sort_def
  by (auto simp: sorted_wrt_rev simp flip: sorted_wrt_map intro: sorted_sort_key)

theorem sweep_trims_exactly_witness:
  "length (sq_requests (snd (Sweep (desc_sort q_timestamp) (desc_sort v_timestamp) True 0 \<lparr>sp_max_age = 0, sp_max_count = 1\<rparr> sample_store))) = 1"
proof -
  have ok: "store_ok sample_codec sample_store" using reaches_ok [OF sample_store_reached] by blast
  have len: "length (sq_requests sample_store) = 1"
    by (simp add: sample_store_def sqlite_Write_def writeCapturedRequest_def writeResponseEvent_def insert_event_def insert_request_def
        sample_codec_def sample_request_def sample_response_def empty_store_def)
  note p = sweep_trims_exactly [OF ok desc_sort_newest desc_sort_newest, of "\<lparr>sp_max_age = 0, sp_max_count = 1\<rparr>" True 0]
  then show ?thesis using len by (auto simp: newest_def split: prod.splits option.splits)
qed

end
