(* ===== verification/Sql_Semantics.thy ===== *)
theory Sql_Semantics
  imports Sql_Compile Sqlite
begin

text \<open>
  The meaning of the SQL the search compiler emits. Every fragment of compile_sql.go is the
  printed form of a predicate \<open>sql_pred\<close>; \<open>term_pred\<close>, \<open>having_pred\<close> and \<open>orphan_pred\<close> give the
  predicate of a term, and the lemmas show that printing them yields exactly the compiler's
  text and arguments. \<open>holds\<close> evaluates a predicate on a row in SQL's three-valued logic
  (None is NULL). SQLite's LIKE, its JSON functions and LOWER on ASCII only are the documented
  operators; LIKE and the JSON lookup are arguments.
\<close>

section \<open>Predicates and their text\<close>

datatype sql_pred =
    EqP string sql_arg
  | LtP string sql_arg
  | GeP string sql_arg
  | LikeP string sql_arg
  | ScanP string sql_arg
  | HeaderP string sql_arg sql_arg
  | BetweenP string sql_arg sql_arg
  | IsResponse string
  | CountP bool
  | OrP sql_pred sql_pred
  | AndP sql_pred sql_pred
  | ParenP sql_pred
  | NotP sql_pred
  | EventExists sql_pred
  | RequestIn "sql_pred list" sql_pred
  | EventIn "sql_pred list"

fun join_with :: "string \<Rightarrow> (string \<times> 'a list) list \<Rightarrow> string \<times> 'a list" where
  "join_with sep [] = ([], [])"
| "join_with sep [p] = p"
| "join_with sep (p # q # ps) = (case join_with sep (q # ps) of (t, a) \<Rightarrow> (fst p @ sep @ t, snd p @ a))"

fun render :: "sql_pred \<Rightarrow> string \<times> sql_arg list" where
  "render (EqP col a) = (col @ '' = ?'', [a])"
| "render (LtP col a) = (col @ '' < ?'', [a])"
| "render (GeP col a) = (col @ '' >= ?'', [a])"
| "render (LikeP col a) = (col @ like_clause, [a])"
| "render (ScanP col a) = (scannedTextLike col, [a])"
| "render (HeaderP col path a) = (header_exists col, [path, a])"
| "render (BetweenP col lo hi) = (col @ '' BETWEEN ? AND ?'', [lo, hi])"
| "render (IsResponse col) = (col @ '' = 'response'' @ [CHR 0x27], [])"
| "render (CountP some) = ((if some then ''COUNT(e.id) > 0'' else ''COUNT(e.id) = 0''), [])"
| "render (OrP p q) = (fst (render p) @ '' OR '' @ fst (render q), snd (render p) @ snd (render q))"
| "render (AndP p q) = (fst (render p) @ '' AND '' @ fst (render q), snd (render p) @ snd (render q))"
| "render (ParenP p) = (''('' @ fst (render p) @ '')'', snd (render p))"
| "render (NotP p) = (''NOT ('' @ fst (render p) @ '')'', snd (render p))"
| "render (EventExists p) =
     (''EXISTS (SELECT 1 FROM events e_h '' @ ''WHERE e_h.correlation_id = cr.correlation_id '' @ ''AND '' @ fst (render p) @ '')'', snd (render p))"
| "render (RequestIn ps q) =
     (let branches = map (\<lambda>p. (''SELECT id FROM captured_requests WHERE '' @ fst (render p), snd (render p))) ps;
          (t, a) = join_with '' UNION '' branches
      in (''cr.id IN ('' @ t @ '' UNION '' @
          ''SELECT cr_ff.id FROM captured_requests cr_ff JOIN events e_ff '' @
          ''ON e_ff.correlation_id = cr_ff.correlation_id '' @ ''WHERE '' @ fst (render q) @ '')'', a @ snd (render q)))"
| "render (EventIn ps) =
     (let branches = map (\<lambda>p. (''SELECT id FROM events WHERE '' @ fst (render p), snd (render p))) ps;
          (t, a) = join_with '' UNION '' branches
      in (''e.id IN ('' @ t @ '')'', a))"

section \<open>The predicates of a term\<close>

definition indexed_pred :: "string \<Rightarrow> qterm \<Rightarrow> sql_pred" where
  "indexed_pred col t = (case t_wildcard t of
      WildcardPrefix \<Rightarrow> LikeP col (SqlText (escapeLike (t_value t) @ ''%''))
    | WildcardSubstring \<Rightarrow> LikeP col (SqlText (''%'' @ escapeLike (t_value t) @ ''%''))
    | WildcardNone \<Rightarrow> EqP col (SqlText (t_value t)))"

definition scan_pred :: "unicode_map \<Rightarrow> string \<Rightarrow> qterm \<Rightarrow> sql_pred" where
  "scan_pred ul col t = ScanP col (SqlText (likeNeedle ul t))"

definition header_pred :: "unicode_map \<Rightarrow> string \<Rightarrow> qterm \<Rightarrow> sql_pred" where
  "header_pred ul col t = HeaderP col (SqlText (jsonHeaderPath (t_header_name t))) (SqlText (likeNeedle ul t))"

definition negated_pred :: "qterm \<Rightarrow> sql_pred \<Rightarrow> sql_pred" where
  "negated_pred t p = (if t_negated t then NotP p else p)"

definition term_pred :: "unicode_map \<Rightarrow> qterm \<Rightarrow> sql_pred option" where
  "term_pred ul t = map_option (negated_pred t) (case t_field t of
      Freeform \<Rightarrow> Some (RequestIn
        [indexed_pred ''host'' t, indexed_pred ''path'' t, indexed_pred ''service'' t, scan_pred ul ''body'' t, scan_pred ul ''headers'' t]
        (OrP (indexed_pred ''e_ff.request_path'' t) (OrP (scan_pred ul ''e_ff.request_body'' t)
          (OrP (scan_pred ul ''e_ff.request_headers'' t) (OrP (scan_pred ul ''e_ff.response_body'' t)
            (scan_pred ul ''e_ff.response_headers'' t))))))
    | FieldHost \<Rightarrow> Some (indexed_pred ''cr.host'' t)
    | FieldPath \<Rightarrow> Some (indexed_pred ''cr.path'' t)
    | FieldService \<Rightarrow> Some (indexed_pred ''cr.service'' t)
    | FieldBody \<Rightarrow> Some (scan_pred ul ''cr.body'' t)
    | FieldHeaders \<Rightarrow> Some (ParenP (OrP (scan_pred ul ''cr.headers'' t) (EventExists (ParenP (OrP
        (scan_pred ul ''e_h.request_headers'' t) (scan_pred ul ''e_h.response_headers'' t))))))
    | FieldHeader \<Rightarrow> Some (ParenP (OrP (header_pred ul ''cr.headers'' t) (EventExists (ParenP (OrP
        (header_pred ul ''e_h.request_headers'' t) (header_pred ul ''e_h.response_headers'' t))))))
    | FieldMethod \<Rightarrow> Some (EqP ''cr.method'' (SqlText (t_value t)))
    | FieldSourceIP \<Rightarrow> Some (EqP ''cr.source_ip'' (SqlText (t_value t)))
    | FieldCorrelationID \<Rightarrow> Some (EqP ''cr.correlation_id'' (SqlText (t_value t)))
    | _ \<Rightarrow> None)"

definition having_pred :: "qterm \<Rightarrow> sql_pred option" where
  "having_pred t = map_option (negated_pred t) (case (t_field t, t_status_filter t, t_has_events t) of
      (FieldStatus, Some sf, _) \<Rightarrow>
        Some (if sf_exact sf \<noteq> 0 then EqP status_column (SqlInt (sf_exact sf))
              else BetweenP status_column (SqlInt (fst (ClassRange sf))) (SqlInt (snd (ClassRange sf))))
    | (FieldHasEvents, _, Some b) \<Rightarrow> Some (CountP b)
    | _ \<Rightarrow> None)"

definition orphan_pred :: "unicode_map \<Rightarrow> qterm \<Rightarrow> sql_pred option" where
  "orphan_pred ul t = map_option (negated_pred t) (case t_field t of
      FieldService \<Rightarrow> Some (indexed_pred ''e.service'' t)
    | FieldCorrelationID \<Rightarrow> Some (EqP ''e.correlation_id'' (SqlText (t_value t)))
    | FieldHeaders \<Rightarrow> Some (ParenP (OrP (scan_pred ul ''e.request_headers'' t) (scan_pred ul ''e.response_headers'' t)))
    | FieldHeader \<Rightarrow> Some (ParenP (OrP (header_pred ul ''e.request_headers'' t) (header_pred ul ''e.response_headers'' t)))
    | FieldStatus \<Rightarrow> map_option (\<lambda>sf. AndP (IsResponse ''e.type'')
        (if sf_exact sf \<noteq> 0 then EqP ''e.status'' (SqlInt (sf_exact sf))
         else BetweenP ''e.status'' (SqlInt (fst (ClassRange sf))) (SqlInt (snd (ClassRange sf))))) (t_status_filter t)
    | Freeform \<Rightarrow> Some (EventIn [indexed_pred ''service'' t, indexed_pred ''request_path'' t, scan_pred ul ''request_body'' t,
        scan_pred ul ''request_headers'' t, scan_pred ul ''response_body'' t, scan_pred ul ''response_headers'' t])
    | _ \<Rightarrow> None)"

section \<open>Printing gives the compiler's output\<close>

lemma render_indexed: "render (indexed_pred col t) = (case indexedPredicate col t of (p, a) \<Rightarrow> (p, [a]))"
  by (simp add: indexed_pred_def indexedPredicate_def split: wildcard.split)

lemma render_negated: "render (negated_pred t p) = (negate t (fst (render p)), snd (render p))"
  by (simp add: negated_pred_def negate_def)

lemmas render_parts = render_indexed render_negated scan_pred_def header_pred_def case_prod_beta

lemma term_text:
  "compileTermSQL ul t = (case term_pred ul t of None \<Rightarrow> ([], []) | Some p \<Rightarrow> render p)"
  by (cases "t_field t")
     (simp_all add: compileTermSQL_def term_pred_def render_parts freeformPredicate_def scannedTextPredicate_def
       headersAnyPredicate_def headerNamedPredicate_def Let_def)

lemma having_text: "having_term t = map_option render (having_pred t)"
  by (cases "t_field t"; cases "t_status_filter t"; cases "t_has_events t")
     (simp_all add: having_term_def having_pred_def render_parts)

lemma orphan_text: "orphan_term ul t = map_option render (orphan_pred ul t)"
  by (cases "t_field t"; cases "t_status_filter t")
     (simp_all add: orphan_term_def orphan_pred_def render_parts freeformOrphanPredicate_def Let_def)

section \<open>Rows in three-valued logic\<close>

datatype sql_value = NullV | TextV string | IntV int

text \<open>
  The columns in scope, by the name the text uses. The compiled predicates name only the
  columns below; every other name is NULL here.
\<close>

type_synonym scope = "string \<Rightarrow> sql_value"

definition text_value :: "string option \<Rightarrow> sql_value" where
  "text_value v = (case v of None \<Rightarrow> NullV | Some s \<Rightarrow> TextV s)"

definition int_value :: "int option \<Rightarrow> sql_value" where
  "int_value v = (case v of None \<Rightarrow> NullV | Some i \<Rightarrow> IntV i)"

definition column_of :: "(string \<times> sql_value) list \<Rightarrow> scope" where
  "column_of cols col = (case map_of cols col of None \<Rightarrow> NullV | Some v \<Rightarrow> v)"

definition request_column :: "request_row \<Rightarrow> scope" where
  "request_column r = column_of
     [(''id'', TextV (q_id r)), (''timestamp'', IntV (q_timestamp r)), (''service'', TextV (q_service r)),
      (''host'', TextV (q_host r)), (''correlation_id'', TextV (q_correlation_id r)), (''method'', TextV (q_method r)),
      (''path'', TextV (q_path r)), (''source_ip'', TextV (q_source_ip r)), (''headers'', TextV (q_headers r)),
      (''body'', TextV (q_body r))]"

definition event_column :: "event_row \<Rightarrow> scope" where
  "event_column e = column_of
     [(''id'', TextV (v_id e)), (''timestamp'', IntV (v_timestamp e)), (''type'', TextV (v_type e)),
      (''service'', TextV (v_service e)), (''correlation_id'', TextV (v_correlation_id e)), (''status'', int_value (v_status e)),
      (''request_path'', text_value (v_request_path e)), (''request_headers'', text_value (v_request_headers e)),
      (''request_body'', text_value (v_request_body e)), (''response_headers'', text_value (v_response_headers e)),
      (''response_body'', text_value (v_response_body e))]"

definition aliased :: "string \<Rightarrow> scope \<Rightarrow> scope" where
  "aliased a sc col = (if has_prefix col a then sc (drop (length a) col) else NullV)"

text \<open>The events a request row is joined with, and the aggregates of its group.\<close>

definition joined_events :: "sqlite_sink \<Rightarrow> request_row \<Rightarrow> event_row list" where
  "joined_events db r = filter (\<lambda>e. v_correlation_id e = q_correlation_id r) (sq_events db)"

definition max_value :: "int option list \<Rightarrow> int option" where
  "max_value vs = fold (\<lambda>v m. case v of None \<Rightarrow> m | Some i \<Rightarrow> Some (case m of None \<Rightarrow> i | Some j \<Rightarrow> max i j)) vs None"

definition response_status :: "event_row \<Rightarrow> int option" where
  "response_status e = (if v_type e = ''response'' then v_status e else None)"

definition group_scope :: "sqlite_sink \<Rightarrow> request_row \<Rightarrow> scope" where
  "group_scope db r = column_of
     [(''COUNT(e.id)'', IntV (int (length (joined_events db r)))),
      (status_column, int_value (max_value (map response_status (joined_events db r))))]"

text \<open>
  The operators SQLite supplies: LIKE with a backslash as the escape character, the values of
  \<open>json_each(json_extract(document, path))\<close>, and the bucket expression of the aggregation.
\<close>

record sql_engine =
  se_like :: "string \<Rightarrow> string \<Rightarrow> bool"
  se_header :: "string \<Rightarrow> string \<Rightarrow> string list"
  se_bucket :: "int \<Rightarrow> int \<Rightarrow> int \<Rightarrow> int"

definition and3 :: "bool option \<Rightarrow> bool option \<Rightarrow> bool option" where
  "and3 p q = (if p = Some False \<or> q = Some False then Some False
     else if p = None \<or> q = None then None else Some True)"

definition or3 :: "bool option \<Rightarrow> bool option \<Rightarrow> bool option" where
  "or3 p q = (if p = Some True \<or> q = Some True then Some True
     else if p = None \<or> q = None then None else Some False)"

definition value_eq :: "sql_value \<Rightarrow> sql_arg \<Rightarrow> bool option" where
  "value_eq v a = (case v of NullV \<Rightarrow> None | TextV s \<Rightarrow> Some (a = SqlText s) | IntV i \<Rightarrow> Some (a = SqlInt i))"

text \<open>An integer is less than any text.\<close>

definition value_lt :: "sql_value \<Rightarrow> sql_arg \<Rightarrow> bool option" where
  "value_lt v a = (case v of
      NullV \<Rightarrow> None
    | TextV s \<Rightarrow> Some (case a of SqlText t \<Rightarrow> s < t | SqlInt j \<Rightarrow> False)
    | IntV i \<Rightarrow> Some (case a of SqlText t \<Rightarrow> True | SqlInt j \<Rightarrow> i < j))"

definition value_ge :: "sql_value \<Rightarrow> sql_arg \<Rightarrow> bool option" where
  "value_ge v a = map_option Not (value_lt v a)"

definition value_le :: "sql_value \<Rightarrow> sql_arg \<Rightarrow> bool option" where
  "value_le v a = or3 (value_lt v a) (value_eq v a)"

definition cast_text :: "sql_value \<Rightarrow> string option" where
  "cast_text v = (case v of NullV \<Rightarrow> None | TextV s \<Rightarrow> Some s | IntV i \<Rightarrow> Some (Itoa i))"

definition arg_text :: "sql_arg \<Rightarrow> string" where
  "arg_text a = (case a of SqlText s \<Rightarrow> s | SqlInt i \<Rightarrow> Itoa i)"

text \<open>LOWER folds the ASCII letters only.\<close>

fun holds :: "sql_engine \<Rightarrow> sqlite_sink \<Rightarrow> scope \<Rightarrow> sql_pred \<Rightarrow> bool option" where
  "holds E db sc (EqP col a) = value_eq (sc col) a"
| "holds E db sc (LtP col a) = value_lt (sc col) a"
| "holds E db sc (GeP col a) = value_ge (sc col) a"
| "holds E db sc (LikeP col a) = map_option (se_like E (arg_text a)) (cast_text (sc col))"
| "holds E db sc (ScanP col a) = map_option (\<lambda>s. se_like E (arg_text a) (map ascii_lower s)) (cast_text (sc col))"
| "holds E db sc (HeaderP col path a) = Some (case cast_text (sc col) of
      None \<Rightarrow> False
    | Some doc \<Rightarrow> list_ex (\<lambda>v. se_like E (arg_text a) (map ascii_lower v)) (se_header E doc (arg_text path)))"
| "holds E db sc (BetweenP col lo hi) = and3 (value_ge (sc col) lo) (value_le (sc col) hi)"
| "holds E db sc (IsResponse col) = value_eq (sc col) (SqlText ''response'')"
| "holds E db sc (CountP some) = Some ((sc ''COUNT(e.id)'' \<noteq> IntV 0) = some)"
| "holds E db sc (OrP p q) = or3 (holds E db sc p) (holds E db sc q)"
| "holds E db sc (AndP p q) = and3 (holds E db sc p) (holds E db sc q)"
| "holds E db sc (ParenP p) = holds E db sc p"
| "holds E db sc (NotP p) = map_option Not (holds E db sc p)"
| "holds E db sc (EventExists p) = Some (list_ex (\<lambda>e. TextV (v_correlation_id e) = sc ''cr.correlation_id'' \<and>
      holds E db (aliased ''e_h.'' (event_column e)) p = Some True) (sq_events db))"
| "holds E db sc (RequestIn ps q) = Some (list_ex (\<lambda>r. TextV (q_id r) = sc ''cr.id'' \<and>
      (list_ex (\<lambda>p. holds E db (request_column r) p = Some True) ps \<or>
       list_ex (\<lambda>e. v_correlation_id e = q_correlation_id r \<and>
         holds E db (aliased ''e_ff.'' (event_column e)) q = Some True) (sq_events db))) (sq_requests db))"
| "holds E db sc (EventIn ps) = Some (list_ex (\<lambda>e. TextV (v_id e) = sc ''e.id'' \<and>
      list_ex (\<lambda>p. holds E db (event_column e) p = Some True) ps) (sq_events db))"

text \<open>WHERE and HAVING keep a row when every conjunct is true, not false and not NULL.\<close>

definition satisfied :: "sql_engine \<Rightarrow> sqlite_sink \<Rightarrow> scope \<Rightarrow> sql_pred list \<Rightarrow> bool" where
  "satisfied E db sc ps = list_all (\<lambda>p. holds E db sc p = Some True) ps"

end
