(* ===== verification/Sqlite_Reader.thy ===== *)
theory Sqlite_Reader
  imports Sql_Semantics
begin

text \<open>
  The listing side of the SQLite sink, internal/sinks/sqlite_reader.go: the UNION of captured
  requests and orphan events with its predicates, pagination, the histogram, the orphan
  gauges and the per-service statistics. \<open>buildRootsUnionSQL\<close> is the text and the arguments
  the source builds; \<open>union_query\<close> is the query this text denotes (the lemma \<open>union_text\<close>
  says that printing it gives the text), and \<open>run_union\<close> evaluates it on a database.
  A driver error or a cancelled context is the boolean argument \<open>ok\<close>.
\<close>

section \<open>The text of the query\<close>

abbreviation nl :: string where "nl \<equiv> [CHR 0x0A]"

definition raw_lines :: "string list \<Rightarrow> string" where
  "raw_lines ls = concat (map (\<lambda>l. nl @ l) ls) @ nl"

definition sqliteReadRootsBase :: string where
  "sqliteReadRootsBase = raw_lines
     [''SELECT'',
      ''    cr.id,'',
      ''    'request'                                AS kind,'',
      ''    cr.timestamp,'',
      ''    cr.service,'',
      ''    cr.method,'',
      ''    cr.path,'',
      ''    cr.correlation_id,'',
      ''    cr.source_ip,'',
      ''    COUNT(e.id)                              AS event_count,'',
      ''    CASE WHEN COUNT(e.id) > 0 THEN 1 ELSE 0 END AS has_events,'',
      ''    MAX(CASE WHEN e.type = 'response' THEN e.status ELSE NULL END) AS status'',
      ''FROM captured_requests cr'',
      ''LEFT JOIN events e ON e.correlation_id = cr.correlation_id'']"

definition sqliteOrphansBase :: string where
  "sqliteOrphansBase = raw_lines
     [''SELECT'',
      ''    e.id,'',
      ''    CASE e.type WHEN 'response' THEN 'orphan_response' ELSE 'orphan_outbound' END AS kind,'',
      ''    e.timestamp,'',
      ''    e.service,'',
      ''    NULL AS method,'',
      ''    NULL AS path,'',
      ''    e.correlation_id,'',
      ''    NULL AS source_ip,'',
      ''    NULL AS event_count,'',
      ''    NULL AS has_events,'',
      ''    CASE e.type WHEN 'response' THEN e.status ELSE NULL END AS status'',
      ''FROM events e'',
      ''LEFT JOIN captured_requests cr ON cr.correlation_id = e.correlation_id'',
      ''WHERE cr.id IS NULL'']"

text \<open>The cursor and window clauses both arms build, with the alias of the arm's table.\<close>

definition window_clauses :: "string \<Rightarrow> inspect_query \<Rightarrow> cursor option \<Rightarrow> (string \<times> sql_arg list) list" where
  "window_clauses a q cur =
     (case cur of
        None \<Rightarrow> []
      | Some c \<Rightarrow> (let nanos = SqlInt (UnixNano (cu_timestamp c)) in
          [(''('' @ a @ ''timestamp < ? OR ('' @ a @ ''timestamp = ? AND '' @ a @ ''id < ?))'', [nanos, nanos, SqlText (cu_id c)])])) @
     (case iq_since q of None \<Rightarrow> [] | Some t \<Rightarrow> [(a @ ''timestamp >= ?'', [SqlInt (UnixNano t)])]) @
     (case iq_until q of None \<Rightarrow> [] | Some t \<Rightarrow> [(a @ ''timestamp < ?'', [SqlInt (UnixNano t)])])"

definition and_line :: string where
  "and_line = nl @ ''  AND ''"

definition nonempty_clause :: "string \<times> sql_arg list \<Rightarrow> (string \<times> sql_arg list) list" where
  "nonempty_clause c = (if fst c \<noteq> [] then [c] else [])"

definition buildRootsUnionSQL :: "unicode_map \<Rightarrow> inspect_query \<Rightarrow> cursor option \<Rightarrow> string \<times> sql_arg list" where
  "buildRootsUnionSQL ul q cur =
     (let reqWhere = window_clauses ''cr.'' q cur @ nonempty_clause (CompileSQL ul (iq_query q));
          reqHaving = nonempty_clause (CompileSQLHaving (iq_query q));
          reqQuery = sqliteReadRootsBase @
            (if reqWhere \<noteq> [] then nl @ ''WHERE '' @ join and_line (map fst reqWhere) else []) @
            nl @ ''GROUP BY cr.id'' @
            (if reqHaving \<noteq> [] then nl @ ''HAVING '' @ join and_line (map fst reqHaving) else []);
          reqArgs = concat (map snd reqWhere) @ concat (map snd reqHaving)
      in if HasRequestOnlyFilter q then (reqQuery, reqArgs)
         else (let orphanWhere = window_clauses ''e.'' q cur @ nonempty_clause (CompileSQLOrphans ul (iq_query q));
                   orphanQuery = sqliteOrphansBase @
                     (if orphanWhere \<noteq> [] then ''  AND '' @ join and_line (map fst orphanWhere) else [])
               in (reqQuery @ nl @ ''UNION ALL'' @ nl @ orphanQuery, reqArgs @ concat (map snd orphanWhere))))"

section \<open>The query\<close>

record roots_query =
  uq_where :: "sql_pred list list"
  uq_having :: "sql_pred list"
  uq_orphans :: "sql_pred list list option"

definition window_preds :: "string \<Rightarrow> inspect_query \<Rightarrow> cursor option \<Rightarrow> sql_pred list" where
  "window_preds a q cur =
     (case cur of
        None \<Rightarrow> []
      | Some c \<Rightarrow> (let nanos = SqlInt (UnixNano (cu_timestamp c)) in
          [ParenP (OrP (LtP (a @ ''timestamp'') nanos)
            (ParenP (AndP (EqP (a @ ''timestamp'') nanos) (LtP (a @ ''id'') (SqlText (cu_id c))))))])) @
     (case iq_since q of None \<Rightarrow> [] | Some t \<Rightarrow> [GeP (a @ ''timestamp'') (SqlInt (UnixNano t))]) @
     (case iq_until q of None \<Rightarrow> [] | Some t \<Rightarrow> [LtP (a @ ''timestamp'') (SqlInt (UnixNano t))])"

definition clause_group :: "sql_pred list \<Rightarrow> sql_pred list list" where
  "clause_group ps = (if ps = [] then [] else [ps])"

definition union_query :: "unicode_map \<Rightarrow> inspect_query \<Rightarrow> cursor option \<Rightarrow> roots_query" where
  "union_query ul q cur =
     \<lparr>uq_where = map (\<lambda>p. [p]) (window_preds ''cr.'' q cur) @ clause_group (List.map_filter (term_pred ul) (iq_query q)),
      uq_having = List.map_filter having_pred (iq_query q),
      uq_orphans = (if HasRequestOnlyFilter q then None
        else Some (map (\<lambda>p. [p]) (window_preds ''e.'' q cur) @ clause_group (List.map_filter (orphan_pred ul) (iq_query q))))\<rparr>"

text \<open>A row of the UNION; a column that is NULL is None.\<close>

record union_row =
  ur_id :: string
  ur_kind :: string
  ur_timestamp :: int
  ur_service :: string
  ur_method :: "string option"
  ur_path :: "string option"
  ur_correlation_id :: string
  ur_source_ip :: "string option"
  ur_event_count :: "int option"
  ur_has_events :: "int option"
  ur_status :: "int option"

definition request_union_row :: "sqlite_sink \<Rightarrow> request_row \<Rightarrow> union_row" where
  "request_union_row db r =
     (let n = int (length (joined_events db r)) in
      \<lparr>ur_id = q_id r, ur_kind = ''request'', ur_timestamp = q_timestamp r, ur_service = q_service r,
       ur_method = Some (q_method r), ur_path = Some (q_path r), ur_correlation_id = q_correlation_id r,
       ur_source_ip = Some (q_source_ip r), ur_event_count = Some n, ur_has_events = Some (if n > 0 then 1 else 0),
       ur_status = max_value (map response_status (joined_events db r))\<rparr>)"

definition orphan_union_row :: "event_row \<Rightarrow> union_row" where
  "orphan_union_row e =
     \<lparr>ur_id = v_id e, ur_kind = (if v_type e = ''response'' then ''orphan_response'' else ''orphan_outbound''),
      ur_timestamp = v_timestamp e, ur_service = v_service e, ur_method = None, ur_path = None,
      ur_correlation_id = v_correlation_id e, ur_source_ip = None, ur_event_count = None, ur_has_events = None,
      ur_status = response_status e\<rparr>"

definition is_orphan :: "sqlite_sink \<Rightarrow> event_row \<Rightarrow> bool" where
  "is_orphan db e = (\<not> list_ex (\<lambda>r. q_correlation_id r = v_correlation_id e) (sq_requests db))"

definition run_union :: "sql_engine \<Rightarrow> sqlite_sink \<Rightarrow> roots_query \<Rightarrow> union_row list" where
  "run_union E db u =
     map (request_union_row db) (filter (\<lambda>r. satisfied E db (aliased ''cr.'' (request_column r)) (concat (uq_where u)) \<and>
       satisfied E db (group_scope db r) (uq_having u)) (sq_requests db)) @
     (case uq_orphans u of
        None \<Rightarrow> []
      | Some ps \<Rightarrow> map orphan_union_row (filter (\<lambda>e. is_orphan db e \<and>
          satisfied E db (aliased ''e.'' (event_column e)) (concat ps)) (sq_events db)))"

section \<open>Listing\<close>

definition scan_root :: "union_row \<Rightarrow> root_row" where
  "scan_root u =
     \<lparr>rr_id = ur_id u, rr_kind = ur_kind u, rr_timestamp = ur_timestamp u, rr_service = ur_service u,
      rr_method = null_text (ur_method u), rr_path = null_text (ur_path u), rr_correlation_id = ur_correlation_id u,
      rr_source_ip = null_text (ur_source_ip u), rr_event_count = ur_event_count u,
      rr_has_events = map_option (\<lambda>v. v \<noteq> 0) (ur_has_events u), rr_status = ur_status u\<rparr>"

text \<open>
  ORDER BY timestamp DESC, id DESC: rows that agree in both (the same id in both tables) come
  in the order of the UNION. A negative LIMIT is no limit.
\<close>

definition union_row_lt :: "union_row \<Rightarrow> union_row \<Rightarrow> bool" where
  "union_row_lt a b = (if ur_timestamp a \<noteq> ur_timestamp b then ur_timestamp a > ur_timestamp b else ur_id a > ur_id b)"

definition sqlite_ReadRoots ::
  "sql_engine \<Rightarrow> unicode_map \<Rightarrow> bool \<Rightarrow> sqlite_sink \<Rightarrow> inspect_query \<Rightarrow> int \<Rightarrow> cursor option
   \<Rightarrow> sqlite_error + root_row list \<times> cursor option" where
  "sqlite_ReadRoots E ul ok db q limit cur =
     (let fetch = wrap64 (limit + 1);
          rows = sql_limit fetch (SliceStable union_row_lt (run_union E db (union_query ul q cur)));
          result = map scan_root rows
      in if \<not> ok then Inl (QueryError ''ReadRoots'')
         else if int (length result) > limit then
           (if limit < 1 then Inl SlicePanic
            else Inr (take (nat limit) result, Some (cursor_of (result ! nat (limit - 1)))))
         else Inr (result, None))"

section \<open>The histogram\<close>

definition sql_klass :: "int option \<Rightarrow> int" where
  "sql_klass status = (case status of
      None \<Rightarrow> 0
    | Some s \<Rightarrow> if s \<ge> 200 \<and> s < 300 then 2 else if s \<ge> 300 \<and> s < 400 then 3
        else if s \<ge> 400 \<and> s < 500 then 4 else if s \<ge> 500 \<and> s < 600 then 5 else 0)"

text \<open>GROUP BY bucket, klass with COUNT(*).\<close>

definition bucket_groups :: "sql_engine \<Rightarrow> int \<Rightarrow> int \<Rightarrow> union_row list \<Rightarrow> (int \<times> int \<times> int) list" where
  "bucket_groups E sinceNS width rows =
     (let keys = map (\<lambda>u. (se_bucket E (ur_timestamp u) sinceNS width, sql_klass (ur_status u))) rows in
      map (\<lambda>k. (fst k, snd k, int (length (filter (\<lambda>k'. k' = k) keys)))) (remdups keys))"

definition clamp :: "int \<Rightarrow> int \<Rightarrow> int" where
  "clamp bucketCount idx =
     (let idx1 = (if idx < 0 then 0 else idx) in if idx1 \<ge> bucketCount then bucketCount - 1 else idx1)"

definition add_class :: "int \<Rightarrow> int \<Rightarrow> histogram_bucket \<Rightarrow> histogram_bucket" where
  "add_class klass cnt b =
     (if klass = 2 then b\<lparr>hb_s2xx := hb_s2xx b + cnt\<rparr> else if klass = 3 then b\<lparr>hb_s3xx := hb_s3xx b + cnt\<rparr>
      else if klass = 4 then b\<lparr>hb_s4xx := hb_s4xx b + cnt\<rparr> else if klass = 5 then b\<lparr>hb_s5xx := hb_s5xx b + cnt\<rparr>
      else b\<lparr>hb_other := hb_other b + cnt\<rparr>)"

fun add_groups :: "int \<Rightarrow> (int \<times> int \<times> int) list \<Rightarrow> int \<times> histogram_bucket list \<Rightarrow> int \<times> histogram_bucket list" where
  "add_groups n [] acc = acc"
| "add_groups n ((idx, klass, cnt) # gs) (tot, bs) =
     (let i = nat (clamp n idx) in add_groups n gs (tot + cnt, bs[i := add_class klass cnt (bs ! i)]))"

definition sqlite_AggregateRoots ::
  "sql_engine \<Rightarrow> unicode_map \<Rightarrow> bool \<Rightarrow> sqlite_sink \<Rightarrow> inspect_query \<Rightarrow> int \<Rightarrow> sqlite_error + aggregation" where
  "sqlite_AggregateRoots E ul ok db q bucketCount =
     (let rows = run_union E db (union_query ul q None); bk = bucketing q bucketCount in
      if \<not> ok then Inl (QueryError ''AggregateRoots'')
      else (case bk of
        None \<Rightarrow> Inr \<lparr>ag_total = int (length rows), ag_buckets = []\<rparr>
      | Some (sinceNS, width, n) \<Rightarrow>
          (let (tot, bs) = add_groups n (bucket_groups E sinceNS width rows) (0, empty_buckets bk)
           in Inr \<lparr>ag_total = tot, ag_buckets = bs\<rparr>)))"

section \<open>Gauges and services\<close>

text \<open>A SUM over no rows is NULL, which the source reads as 0.\<close>

definition sqlite_OrphanCounts :: "bool \<Rightarrow> sqlite_sink \<Rightarrow> sqlite_error + int \<times> int" where
  "sqlite_OrphanCounts ok db =
     (if \<not> ok then Inl (QueryError ''OrphanCounts'')
      else (let es = filter (is_orphan db) (sq_events db) in
        Inr (sum_list (map (\<lambda>e. if v_type e = ''response'' then 1 else 0) es),
             sum_list (map (\<lambda>e. if v_type e = ''outbound'' then 1 else 0) es))))"

definition not_before :: "time \<Rightarrow> int \<Rightarrow> bool" where
  "not_before since ts = (since = zero_time \<or> ts \<ge> UnixNano since)"

definition sqlite_ServicesSeen :: "bool \<Rightarrow> sqlite_sink \<Rightarrow> time \<Rightarrow> sqlite_error + string list" where
  "sqlite_ServicesSeen ok db since =
     (if \<not> ok then Inl (QueryError ''ServicesSeen'')
      else Inr (SliceStable (<) (remdups (map q_service (filter (\<lambda>r. not_before since (q_timestamp r)) (sq_requests db))))))"

definition later :: "time \<Rightarrow> service_stat \<Rightarrow> service_stat" where
  "later ts st = (if ts > ss_last_seen st then st\<lparr>ss_last_seen := ts\<rparr> else st)"

text \<open>MAX(timestamp) of a group, which is never empty.\<close>

definition latest :: "int list \<Rightarrow> int" where
  "latest ts = fold max (tl ts) (hd ts)"

definition request_stat :: "request_row list \<Rightarrow> service_stat \<Rightarrow> service_stat" where
  "request_stat g st = later (latest (map q_timestamp g)) (st\<lparr>ss_requests := int (length g)\<rparr>)"

definition class_total :: "(int \<Rightarrow> bool) \<Rightarrow> event_row list \<Rightarrow> int" where
  "class_total P g = sum_list (map (\<lambda>e. case v_status e of None \<Rightarrow> 0 | Some s \<Rightarrow> if P s then 1 else 0) g)"

definition response_stat :: "event_row list \<Rightarrow> service_stat \<Rightarrow> service_stat" where
  "response_stat g st = later (latest (map v_timestamp g))
     (st\<lparr>ss_s2xx := class_total (\<lambda>s. s \<ge> 200 \<and> s < 300) g, ss_s3xx := class_total (\<lambda>s. s \<ge> 300 \<and> s < 400) g,
         ss_s4xx := class_total (\<lambda>s. s \<ge> 400 \<and> s < 500) g, ss_s5xx := class_total (\<lambda>s. s \<ge> 500 \<and> s < 600) g,
         ss_other := class_total (\<lambda>s. s < 200 \<or> s \<ge> 600) g\<rparr>)"

text \<open>GROUP BY service: the groups in some order, each with its rows.\<close>

definition service_groups :: "('a \<Rightarrow> string) \<Rightarrow> 'a list \<Rightarrow> (string \<times> 'a list) list" where
  "service_groups f xs = map (\<lambda>svc. (svc, filter (\<lambda>x. f x = svc) xs)) (remdups (map f xs))"

definition sqlite_ServiceStats :: "bool \<Rightarrow> sqlite_sink \<Rightarrow> time \<Rightarrow> sqlite_error + service_stat list" where
  "sqlite_ServiceStats ok db since =
     (if \<not> ok then Inl (QueryError ''ServiceStats'')
      else (let reqRows = service_groups q_service (filter (\<lambda>r. not_before since (q_timestamp r)) (sq_requests db));
                evRows = service_groups v_service
                  (filter (\<lambda>e. v_type e = ''response'' \<and> not_before since (v_timestamp e)) (sq_events db));
                stats = fold (\<lambda>(svc, g). update_stat svc (request_stat g)) reqRows [];
                stats' = fold (\<lambda>(svc, g). update_stat svc (response_stat g)) evRows stats
            in Inr (SliceStable (\<lambda>a b. ss_name a < ss_name b) stats')))"

section \<open>The text prints the query\<close>

definition print_clause :: "sql_pred list \<Rightarrow> string \<times> sql_arg list" where
  "print_clause ps = assemble (map render ps)"

definition print_union :: "roots_query \<Rightarrow> string \<times> sql_arg list" where
  "print_union u =
     (let reqWhere = map print_clause (uq_where u); reqHaving = map print_clause (clause_group (uq_having u));
          reqQuery = sqliteReadRootsBase @
            (if reqWhere \<noteq> [] then nl @ ''WHERE '' @ join and_line (map fst reqWhere) else []) @ nl @ ''GROUP BY cr.id'' @
            (if reqHaving \<noteq> [] then nl @ ''HAVING '' @ join and_line (map fst reqHaving) else []);
          reqArgs = concat (map snd reqWhere) @ concat (map snd reqHaving)
      in case uq_orphans u of
           None \<Rightarrow> (reqQuery, reqArgs)
         | Some orphans \<Rightarrow>
             (let orphanWhere = map print_clause orphans
              in (reqQuery @ nl @ ''UNION ALL'' @ nl @ sqliteOrphansBase @
                   (if orphanWhere \<noteq> [] then ''  AND '' @ join and_line (map fst orphanWhere) else []),
                  reqArgs @ concat (map snd orphanWhere))))"

lemma render_nonempty: "fst (render p) \<noteq> []"
  by (induction p) (auto simp: like_clause_def scannedTextLike_def header_exists_def Let_def split: prod.split)

lemma map_filter_map: "List.map_filter (\<lambda>x. map_option g (f x)) xs = map g (List.map_filter f xs)"
  by (induction xs) (auto simp: map_filter_simps split: option.split)

lemma where_clauses: "CompileSQL ul q = print_clause (List.map_filter (term_pred ul) q)"
proof -
  have "filter (\<lambda>(clause, vals). clause \<noteq> []) (map (compileTermSQL ul) q) = map render (List.map_filter (term_pred ul) q)"
    by (induction q) (auto simp: term_text map_filter_simps case_prod_beta render_nonempty split: option.split)
  then show ?thesis by (simp add: CompileSQL_def print_clause_def)
qed

lemma having_clauses: "CompileSQLHaving q = print_clause (List.map_filter having_pred q)"
  by (simp add: CompileSQLHaving_def print_clause_def map_filter_map [symmetric] having_text [abs_def])

lemma orphan_clauses: "CompileSQLOrphans ul q = print_clause (List.map_filter (orphan_pred ul) q)"
  by (simp add: CompileSQLOrphans_def print_clause_def map_filter_map [symmetric] orphan_text [abs_def])

lemma join_nonempty: "ps \<noteq> [] \<Longrightarrow> \<forall>p \<in> set ps. p \<noteq> [] \<Longrightarrow> join sep ps \<noteq> []"
  by (induction sep ps rule: join.induct) auto

lemma print_group: "nonempty_clause (print_clause ps) = map print_clause (clause_group ps)"
proof (cases "ps = []")
  case False
  then have "join '' AND '' (map (\<lambda>p. fst (render p)) ps) \<noteq> []" by (intro join_nonempty) (auto simp: render_nonempty)
  with False show ?thesis by (simp add: nonempty_clause_def print_clause_def clause_group_def assemble_def comp_def)
qed (simp add: nonempty_clause_def print_clause_def clause_group_def assemble_def)

lemma print_single: "print_clause [p] = render p"
  by (simp add: print_clause_def assemble_def)

lemma window_text: "window_clauses a q cur = map print_clause (map (\<lambda>p. [p]) (window_preds a q cur))"
  by (simp add: window_clauses_def window_preds_def print_single Let_def split: option.split)

lemma union_text: "buildRootsUnionSQL ul q cur = print_union (union_query ul q cur)"
  by (simp add: buildRootsUnionSQL_def print_union_def union_query_def window_text where_clauses having_clauses
    orphan_clauses print_group Let_def del: map_map)

section \<open>The text does not contain the values\<close>

text \<open>A query with only its shape left: which parts are present, and the shapes of its terms.\<close>

definition shape_query :: "inspect_query \<Rightarrow> inspect_query" where
  "shape_query q = \<lparr>iq_limit = 0, iq_cursor = None, iq_since = map_option (\<lambda>_. 0) (iq_since q),
     iq_until = map_option (\<lambda>_. 0) (iq_until q), iq_query = map shape (iq_query q)\<rparr>"

definition shape_cursor :: "cursor option \<Rightarrow> cursor option" where
  "shape_cursor cur = map_option (\<lambda>_. \<lparr>cu_timestamp = 0, cu_id = []\<rparr>) cur"

lemma window_shape: "map fst (window_clauses a (shape_query q) (shape_cursor cur)) = map fst (window_clauses a q cur)"
  by (simp add: window_clauses_def shape_query_def shape_cursor_def Let_def split: option.split)

lemma balanced_window: "marks a = 0 \<Longrightarrow> c \<in> set (window_clauses a q cur) \<Longrightarrow> balanced c"
  by (auto simp: window_clauses_def balanced_def Let_def split: option.splits)

lemma marks_join: "marks sep = 0 \<Longrightarrow> marks (join sep ps) = sum_list (map marks ps)"
  by (induction sep ps rule: join.induct) auto

lemma balanced_sum: "\<forall>c \<in> set cs. balanced c \<Longrightarrow> sum_list (map marks (map fst cs)) = length (concat (map snd cs))"
  by (induction cs) (auto simp: balanced_def)

lemma marks_base [sql_marks]: "marks sqliteReadRootsBase = 0" "marks sqliteOrphansBase = 0" "marks and_line = 0"
  by (simp_all add: sqliteReadRootsBase_def sqliteOrphansBase_def raw_lines_def and_line_def)

lemma balanced_nonempty: "balanced c \<Longrightarrow> d \<in> set (nonempty_clause c) \<Longrightarrow> balanced d"
  by (auto simp: nonempty_clause_def split: if_splits)

lemma nonempty_shape: "fst c = fst d \<Longrightarrow> map fst (nonempty_clause c) = map fst (nonempty_clause d)"
  by (simp add: nonempty_clause_def)

text \<open>
  C37. No search text becomes SQL. For every query and cursor the statement buildRootsUnionSQL
  sends has exactly as many placeholders as bound arguments, it is the printed form of the
  query \<open>union_query\<close>, and its text is a function of the shape of the query alone (which
  bounds are given, the fields, wildcards, negations and kinds of status filter of the
  terms): values, header names, status codes, times and cursors only occur as arguments.
\<close>

theorem roots_sql_parametrised:
  "balanced (buildRootsUnionSQL ul q cur) \<and>
   fst (buildRootsUnionSQL ul q cur) = fst (buildRootsUnionSQL ul (shape_query q) (shape_cursor cur)) \<and>
   buildRootsUnionSQL ul q cur = print_union (union_query ul q cur)"
proof (intro conjI)
  let ?w = "\<lambda>q cur. window_clauses ''cr.'' q cur @ nonempty_clause (CompileSQL ul (iq_query q))"
  let ?h = "\<lambda>q. nonempty_clause (CompileSQLHaving (iq_query q))"
  let ?o = "\<lambda>q cur. window_clauses ''e.'' q cur @ nonempty_clause (CompileSQLOrphans ul (iq_query q))"
  note c = compiled_sql_parametrised [of ul "iq_query q"]
  have b: "\<forall>c \<in> set (?w q cur). balanced c" "\<forall>c \<in> set (?h q). balanced c" "\<forall>c \<in> set (?o q cur). balanced c"
    using c by (auto dest: balanced_window [rotated] balanced_nonempty)
  note s = balanced_sum [OF b(1)] balanced_sum [OF b(2)] balanced_sum [OF b(3)]
  show "balanced (buildRootsUnionSQL ul q cur)"
    using s by (auto simp: balanced_def buildRootsUnionSQL_def Let_def sql_marks marks_join simp del: map_append)
  have e: "iq_query (shape_query q) = map shape (iq_query q)" "HasRequestOnlyFilter (shape_query q) = HasRequestOnlyFilter q"
    by (simp_all add: shape_query_def HasRequestOnlyFilter_def HasRequestOnlyTerm_def list_ex_iff)
  have t: "map fst (?w (shape_query q) (shape_cursor cur)) = map fst (?w q cur)"
    "map fst (?h (shape_query q)) = map fst (?h q)" "map fst (?o (shape_query q) (shape_cursor cur)) = map fst (?o q cur)"
    using c by (auto simp: window_shape e intro!: nonempty_shape)
  then have n: "?w (shape_query q) (shape_cursor cur) = [] \<longleftrightarrow> ?w q cur = []" "?h (shape_query q) = [] \<longleftrightarrow> ?h q = []"
    "?o (shape_query q) (shape_cursor cur) = [] \<longleftrightarrow> ?o q cur = []"
    by (metis map_is_Nil_conv)+
  show "fst (buildRootsUnionSQL ul q cur) = fst (buildRootsUnionSQL ul (shape_query q) (shape_cursor cur))"
    unfolding buildRootsUnionSQL_def Let_def using t n e(2) by (simp only: fst_conv split: if_split) simp
  show "buildRootsUnionSQL ul q cur = print_union (union_query ul q cur)" by (rule union_text)
qed

section \<open>Pages\<close>

lemma three_true:
  "and3 p q = Some True \<longleftrightarrow> p = Some True \<and> q = Some True" "or3 p q = Some True \<longleftrightarrow> p = Some True \<or> q = Some True"
  by (auto simp: and3_def or3_def)

lemma satisfied_append [simp]: "satisfied E db sc (ps @ qs) \<longleftrightarrow> satisfied E db sc ps \<and> satisfied E db sc qs"
  by (simp add: satisfied_def)

lemma satisfied_Cons [simp]:
  "satisfied E db sc [] \<longleftrightarrow> True" "satisfied E db sc (p # ps) \<longleftrightarrow> holds E db sc p = Some True \<and> satisfied E db sc ps"
  by (simp_all add: satisfied_def)

lemma concat_groups: "concat (clause_group qs) = qs" "concat (map (\<lambda>p. [p]) ps) = ps"
  by (simp_all add: clause_group_def)

lemma request_scope:
  "aliased ''cr.'' (request_column r) ''cr.id'' = TextV (q_id r)"
  "aliased ''cr.'' (request_column r) ''cr.timestamp'' = IntV (q_timestamp r)"
  "aliased ''cr.'' (request_column r) ''cr.service'' = TextV (q_service r)"
  "aliased ''cr.'' (request_column r) ''cr.host'' = TextV (q_host r)"
  "aliased ''cr.'' (request_column r) ''cr.correlation_id'' = TextV (q_correlation_id r)"
  "aliased ''cr.'' (request_column r) ''cr.method'' = TextV (q_method r)"
  "aliased ''cr.'' (request_column r) ''cr.path'' = TextV (q_path r)"
  "aliased ''cr.'' (request_column r) ''cr.source_ip'' = TextV (q_source_ip r)"
  "aliased ''cr.'' (request_column r) ''cr.body'' = TextV (q_body r)"
  by (simp_all add: aliased_def request_column_def column_of_def has_prefix_def)

lemma event_scope:
  "aliased ''e.'' (event_column e) ''e.id'' = TextV (v_id e)"
  "aliased ''e.'' (event_column e) ''e.timestamp'' = IntV (v_timestamp e)"
  "aliased ''e.'' (event_column e) ''e.service'' = TextV (v_service e)"
  "aliased ''e.'' (event_column e) ''e.correlation_id'' = TextV (v_correlation_id e)"
  by (simp_all add: aliased_def event_column_def column_of_def has_prefix_def)

text \<open>The time window of a query, in the nanoseconds SQLite compares.\<close>

definition nano_window :: "inspect_query \<Rightarrow> int \<Rightarrow> bool" where
  "nano_window q ts = ((case iq_since q of None \<Rightarrow> True | Some t \<Rightarrow> UnixNano t \<le> ts) \<and>
     (case iq_until q of None \<Rightarrow> True | Some t \<Rightarrow> ts < UnixNano t))"

definition nano_past :: "cursor option \<Rightarrow> int \<Rightarrow> string \<Rightarrow> bool" where
  "nano_past cur ts i = (case cur of
      None \<Rightarrow> True
    | Some c \<Rightarrow> ts < UnixNano (cu_timestamp c) \<or> (ts = UnixNano (cu_timestamp c) \<and> i < cu_id c))"

lemma satisfied_window:
  "satisfied E db sc (window_preds a q cur) \<longleftrightarrow> nano_window q ts \<and> nano_past cur ts i"
  if "sc (a @ ''timestamp'') = IntV ts" and "sc (a @ ''id'') = TextV i"
  using that by (auto simp: window_preds_def nano_window_def nano_past_def Let_def three_true value_lt_def value_eq_def value_ge_def
    split: option.splits)

definition request_hit :: "sql_engine \<Rightarrow> unicode_map \<Rightarrow> sqlite_sink \<Rightarrow> inspect_query \<Rightarrow> request_row \<Rightarrow> bool" where
  "request_hit E ul db q r = (nano_window q (q_timestamp r) \<and>
     satisfied E db (aliased ''cr.'' (request_column r)) (List.map_filter (term_pred ul) (iq_query q)) \<and>
     satisfied E db (group_scope db r) (List.map_filter having_pred (iq_query q)))"

definition orphan_hit :: "sql_engine \<Rightarrow> unicode_map \<Rightarrow> sqlite_sink \<Rightarrow> inspect_query \<Rightarrow> event_row \<Rightarrow> bool" where
  "orphan_hit E ul db q e = (\<not> HasRequestOnlyFilter q \<and> is_orphan db e \<and> nano_window q (v_timestamp e) \<and>
     satisfied E db (aliased ''e.'' (event_column e)) (List.map_filter (orphan_pred ul) (iq_query q)))"

definition union_rows :: "sql_engine \<Rightarrow> unicode_map \<Rightarrow> sqlite_sink \<Rightarrow> inspect_query \<Rightarrow> union_row list" where
  "union_rows E ul db q = map (request_union_row db) (filter (request_hit E ul db q) (sq_requests db)) @
     map orphan_union_row (filter (orphan_hit E ul db q) (sq_events db))"

lemma union_row_keys [simp]:
  "ur_timestamp (request_union_row db r) = q_timestamp r" "ur_id (request_union_row db r) = q_id r"
  "ur_timestamp (orphan_union_row e) = v_timestamp e" "ur_id (orphan_union_row e) = v_id e"
  by (simp_all add: request_union_row_def orphan_union_row_def Let_def)

lemma run_union_rows:
  "run_union E db (union_query ul q cur) = filter (\<lambda>u. nano_past cur (ur_timestamp u) (ur_id u)) (union_rows E ul db q)"
proof -
  have "satisfied E db (aliased ''cr.'' (request_column r)) (window_preds ''cr.'' q cur) \<longleftrightarrow>
      nano_window q (q_timestamp r) \<and> nano_past cur (q_timestamp r) (q_id r)" for r
    by (rule satisfied_window) (simp_all add: request_scope)
  moreover have "satisfied E db (aliased ''e.'' (event_column e)) (window_preds ''e.'' q cur) \<longleftrightarrow>
      nano_window q (v_timestamp e) \<and> nano_past cur (v_timestamp e) (v_id e)" for e
    by (rule satisfied_window) (simp_all add: event_scope)
  ultimately show ?thesis
    by (auto simp: run_union_def union_query_def union_rows_def concat_groups filter_map comp_def request_hit_def orphan_hit_def
      conj_ac intro!: filter_cong)
qed

lemma run_union_all: "run_union E db (union_query ul q None) = union_rows E ul db q"
  by (simp add: run_union_rows nano_past_def)

interpretation union_order: weak_order union_row_lt
  by unfold_locales (auto simp: union_row_lt_def split: if_splits)

definition sqlite_rows :: "sql_engine \<Rightarrow> unicode_map \<Rightarrow> sqlite_sink \<Rightarrow> inspect_query \<Rightarrow> root_row list" where
  "sqlite_rows E ul db q = SliceStable row_lt (map scan_root (union_rows E ul db q))"

lemma scan_root_keys [simp]: "rr_id (scan_root u) = ur_id u" "rr_timestamp (scan_root u) = ur_timestamp u"
  by (simp_all add: scan_root_def)

lemma sqlite_ReadRoots_rows:
  assumes "pred_option (\<lambda>c. in_int64 (cu_timestamp c)) cur"
  shows "map scan_root (SliceStable union_row_lt (run_union E db (union_query ul q cur))) = filter (past cur) (sqlite_rows E ul db q)"
proof -
  have p: "nano_past cur (ur_timestamp u) (ur_id u) = past cur (scan_root u)" for u
    using assms by (auto simp: nano_past_def past_def UnixNano_id split: option.splits)
  have "map scan_root (SliceStable union_row_lt us) = SliceStable row_lt (map scan_root us)" for us
    by (rule SliceStable_map [symmetric]) (simp add: row_lt_def union_row_lt_def)
  then show ?thesis
    by (simp add: run_union_rows p sqlite_rows_def row_order.sort_filter filter_map comp_def)
qed

definition sqlite_read :: "sql_engine \<Rightarrow> unicode_map \<Rightarrow> sqlite_sink \<Rightarrow> inspect_query \<Rightarrow> int \<Rightarrow> cursor option \<Rightarrow> (root_row list \<times> cursor option) option" where
  "sqlite_read E ul db q limit cur = (case sqlite_ReadRoots E ul True db q limit cur of Inl _ \<Rightarrow> None | Inr r \<Rightarrow> Some r)"

lemma sqlite_read_page:
  assumes "pred_option (\<lambda>c. in_int64 (cu_timestamp c)) cur" and "1 \<le> limit" and "limit < 2 ^ 63 - 1"
  shows "sqlite_read E ul db q limit cur = take_page limit (filter (past cur) (sqlite_rows E ul db q))"
proof -
  let ?xs = "filter (past cur) (sqlite_rows E ul db q)"
  have m: "map scan_root (sql_limit (limit + 1) (SliceStable union_row_lt (run_union E db (union_query ul q cur)))) = take (nat (limit + 1)) ?xs"
    using assms(2) by (simp add: sql_limit_def take_map [symmetric] sqlite_ReadRoots_rows [OF assms(1)])
  have n: "take (nat (min (limit + 1) (int (length ?xs)))) ?xs = take (nat (limit + 1)) ?xs"
    by (simp add: min_def)
  have l: "length (sql_limit (limit + 1) (SliceStable union_row_lt (run_union E db (union_query ul q cur)))) = length (take (nat (limit + 1)) ?xs)"
    unfolding m [symmetric] by simp
  show ?thesis using assms(2) m n l
    by (simp add: sqlite_read_def sqlite_ReadRoots_def take_page_def limit_wrap [OF assms(2,3)] Let_def)
qed

definition timestamps_ok :: "sqlite_sink \<Rightarrow> bool" where
  "timestamps_ok db = (list_all (\<lambda>r. in_int64 (q_timestamp r)) (sq_requests db) \<and> list_all (\<lambda>e. in_int64 (v_timestamp e)) (sq_events db))"

lemma sqlite_page_reader:
  assumes "timestamps_ok db"
  shows "page_reader (sqlite_read E ul db q) (sqlite_rows E ul db q) (\<lambda>c. in_int64 (cu_timestamp c))"
proof
  show "in_int64 (cu_timestamp (cursor_of row))" if "row \<in> set (sqlite_rows E ul db q)" for row
    using that assms by (auto simp: sqlite_rows_def row_order.set_sort union_rows_def timestamps_ok_def list_all_iff cursor_of_def)
qed (simp_all add: sqlite_read_page take_page_more take_page_last sqlite_rows_def row_order.sort_sorted)

lemma store_timestamps: "store_ok J db \<Longrightarrow> timestamps_ok db"
  by (auto simp: store_ok_def timestamps_ok_def list_all_iff)

text \<open>Ids are unique per table; the program draws them all from one source, so they are distinct overall.\<close>

definition row_ids :: "sqlite_sink \<Rightarrow> string list" where
  "row_ids db = map q_id (sq_requests db) @ map v_id (sq_events db)"

lemma union_ids_distinct: "distinct (row_ids db) \<Longrightarrow> distinct (map rr_id (map scan_root (union_rows E ul db q)))"
proof -
  assume d: "distinct (row_ids db)"
  have "map rr_id (map scan_root (union_rows E ul db q)) =
      map q_id (filter (request_hit E ul db q) (sq_requests db)) @ map v_id (filter (orphan_hit E ul db q) (sq_events db))"
    by (simp add: union_rows_def comp_def)
  then show ?thesis using d by (auto simp: row_ids_def distinct_map_filter)
qed

lemma sqlite_rows_strict:
  assumes "distinct (row_ids db)"
  shows "sorted_wrt row_lt (sqlite_rows E ul db q)"
  unfolding sqlite_rows_def
proof (rule row_order.sort_strict)
  let ?xs = "map scan_root (union_rows E ul db q)"
  from union_ids_distinct [OF assms] have inj: "distinct ?xs" "inj_on rr_id (set ?xs)"
    unfolding distinct_map [of rr_id] by (rule conjunct1, rule conjunct2)
  show "distinct ?xs" by (rule inj)
  fix x y assume "x \<in> set ?xs" "y \<in> set ?xs" "x \<noteq> y"
  then have "rr_id x \<noteq> rr_id y" using inj_onD [OF inj(2)] by blast
  then show "row_lt x y \<or> row_lt y x" by (auto simp: row_lt_def)
qed

lemma sqlite_rows_ids: "distinct (row_ids db) \<Longrightarrow> distinct (map rr_id (sqlite_rows E ul db q))"
  using union_ids_distinct [of db E ul q] unfolding sqlite_rows_def
  by (metis mset_eq_imp_distinct_iff mset_map row_order.mset_sort)

lemma length_union_rows: "length (union_rows E ul db q) \<le> length (sq_requests db) + length (sq_events db)"
  by (simp add: union_rows_def add_mono)

text \<open>
  C14. Following the cursors of the SQLite reader visits every row of the query exactly once,
  newest first: for any query and any page size from 1 up, on a database whose ids are
  distinct and whose timestamps fit int64, the pages concatenate to the sorted list of the
  captured requests in the time window that pass every WHERE and HAVING predicate and of the
  orphan events that pass theirs, unless the query has a request-only filter. The read never
  panics and the walk ends after at most one page per row and one more.
\<close>

theorem sqlite_pages_complete:
  assumes "1 \<le> limit" and "limit < 2 ^ 63 - 1" and "timestamps_ok db" and "distinct (row_ids db)"
  shows "\<exists>rows. walk_pages (sqlite_read E ul db q limit) (Suc (length (row_ids db))) None = Some rows \<and>
    sorted_wrt row_lt rows \<and>
    mset rows = mset (map (\<lambda>r. scan_root (request_union_row db r)) (filter (request_hit E ul db q) (sq_requests db))) +
      mset (map (\<lambda>e. scan_root (orphan_union_row e)) (filter (orphan_hit E ul db q) (sq_events db)))"
proof -
  let ?rows = "sqlite_rows E ul db q"
  have sorted: "sorted_wrt row_lt ?rows" by (rule sqlite_rows_strict [OF assms(4)])
  have "length ?rows - 0 < Suc (length (row_ids db))"
    using length_union_rows [of E ul db q] by (simp add: sqlite_rows_def row_order.length_sort row_ids_def)
  from page_reader.walk_from [OF sqlite_page_reader [OF assms(3)] assms(1,2) sorted _ _ this, of None]
  have "walk_pages (sqlite_read E ul db q limit) (Suc (length (row_ids db))) None = Some ?rows" by (simp add: past_def)
  with sorted show ?thesis by (auto simp: sqlite_rows_def row_order.mset_sort union_rows_def comp_def)
qed

text \<open>SQLite's operators for the examples: the LIKE of the documentation, JSON documents without headers, exact division.\<close>

definition sample_engine :: sql_engine where
  "sample_engine = \<lparr>se_like = sql_like, se_header = (\<lambda>doc path. []), se_bucket = (\<lambda>ts since width. go_div (ts - since) width)\<rparr>"

definition responded :: inspect_query where
  "responded = \<lparr>iq_limit = 50, iq_cursor = None, iq_since = Some 1, iq_until = Some 9,
     iq_query = [(plain_term FieldStatus ''2xx'' WildcardNone False False [])\<lparr>t_status_filter := Some \<lparr>sf_exact = 0, sf_class = ''2xx''\<rparr>\<rparr>]\<rparr>"

theorem sqlite_pages_complete_witness:
  "\<exists>rows. walk_pages (sqlite_read sample_engine id sample_store responded 1) 3 None = Some rows \<and> map rr_id rows = [''a'']"
proof -
  have t: "timestamps_ok sample_store" and d: "distinct (row_ids sample_store)" and n: "length (row_ids sample_store) = 2" by code_simp+
  have m: "map (\<lambda>r. rr_id (scan_root (request_union_row sample_store r))) (filter (request_hit sample_engine id sample_store responded) (sq_requests sample_store)) = [''a'']"
    "filter (orphan_hit sample_engine id sample_store responded) (sq_events sample_store) = []" by code_simp+
  obtain rows where rows: "walk_pages (sqlite_read sample_engine id sample_store responded 1) 3 None = Some rows"
    "mset rows = mset (map (\<lambda>r. scan_root (request_union_row sample_store r)) (filter (request_hit sample_engine id sample_store responded) (sq_requests sample_store)))"
    using sqlite_pages_complete [of 1 sample_store sample_engine id responded, OF _ _ t d] n m(2) by (auto simp: numeral_eq_Suc)
  have "mset (map rr_id rows) = mset (map rr_id (map (\<lambda>r. scan_root (request_union_row sample_store r))
      (filter (request_hit sample_engine id sample_store responded) (sq_requests sample_store))))"
    by (simp only: mset_map rows(2))
  also have "\<dots> = mset [''a'']" unfolding map_map comp_def m(1) ..
  finally have "map rr_id rows = [''a'']" by (simp del: mset_map)
  show ?thesis by (rule exI [of _ rows], rule conjI) fact+
qed

section \<open>Facts about the histogram\<close>

definition class_of :: "int \<Rightarrow> histogram_bucket \<Rightarrow> int" where
  "class_of c b = (if c = 2 then hb_s2xx b else if c = 3 then hb_s3xx b else if c = 4 then hb_s4xx b
     else if c = 5 then hb_s5xx b else hb_other b)"

definition class_codes :: "int set" where "class_codes = {0, 2, 3, 4, 5}"

lemma class_of_add: "c \<in> class_codes \<Longrightarrow> k \<in> class_codes \<Longrightarrow> class_of c (add_class k m b) = class_of c b + (if k = c then m else 0)"
  by (auto simp: class_of_def add_class_def class_codes_def)

lemma clamp_range: "0 < n \<Longrightarrow> 0 \<le> clamp n i \<and> clamp n i < n"
  by (simp add: clamp_def Let_def)

lemma add_groups_class:
  assumes "0 < n" and "c \<in> class_codes"
  shows "length bs = nat n \<Longrightarrow> \<forall>(idx, k, m) \<in> set gs. k \<in> class_codes \<Longrightarrow> i < nat n \<Longrightarrow>
    length (snd (add_groups n gs (tot, bs))) = nat n \<and>
    class_of c (snd (add_groups n gs (tot, bs)) ! i) = class_of c (bs ! i) +
      sum_list (map (\<lambda>(idx, k, m). m) (filter (\<lambda>(idx, k, m). nat (clamp n idx) = i \<and> k = c) gs))"
proof (induction gs arbitrary: tot bs)
  case (Cons g gs)
  obtain idx k m where g: "g = (idx, k, m)" by (cases g)
  have "nat (clamp n idx) < length bs" using clamp_range [OF assms(1), of idx] Cons.prems(1) by simp
  with Cons assms(2) g show ?case by (auto simp: Let_def class_of_add nth_list_update)
qed simp

lemma add_groups_total: "fst (add_groups n gs (tot, bs)) = tot + sum_list (map (\<lambda>(idx, k, m). m) gs)"
  by (induction gs arbitrary: tot bs) (auto simp: Let_def)

lemma count_groups: "sum_list (map (\<lambda>k. int (length (filter (\<lambda>k'. k' = k) ks))) (filter P (remdups ks))) = int (length (filter P ks))"
proof -
  have "(\<Sum>k \<leftarrow> filter P (remdups ks). int (length (filter (\<lambda>k'. k' = k) ks))) = (\<Sum>k \<in> set (filter P ks). int (count (mset (filter P ks)) k))"
  proof -
    have "int (length (filter (\<lambda>k'. k' = k) ks)) = int (count (mset (filter P ks)) k)" if "P k" for k
    proof -
      have "length (filter (\<lambda>k'. k' = k) ks) = count (mset (filter P ks)) k"
        using that by (induction ks) auto
      then show ?thesis by simp
    qed
    then have "map (\<lambda>k. int (length (filter (\<lambda>k'. k' = k) ks))) (filter P (remdups ks)) =
        map (\<lambda>k. int (count (mset (filter P ks)) k)) (filter P (remdups ks))" by simp
    then show ?thesis by (simp add: sum_list_distinct_conv_sum_set)
  qed
  also have "\<dots> = int (size (mset (filter P ks)))" by (simp only: size_multiset_overloaded_eq of_nat_sum set_mset_mset)
  finally show ?thesis by (simp only: size_mset)
qed

text \<open>The row keys of the aggregation, and how many rows have a key.\<close>

definition key_of :: "sql_engine \<Rightarrow> int \<Rightarrow> int \<Rightarrow> union_row \<Rightarrow> int \<times> int" where
  "key_of E sinceNS width u = (se_bucket E (ur_timestamp u) sinceNS width, sql_klass (ur_status u))"

definition bucket_count :: "sql_engine \<Rightarrow> int \<Rightarrow> int \<Rightarrow> int \<Rightarrow> union_row list \<Rightarrow> nat \<Rightarrow> int \<Rightarrow> int" where
  "bucket_count E sinceNS width n rows i c =
     int (length (filter (\<lambda>u. nat (clamp n (se_bucket E (ur_timestamp u) sinceNS width)) = i \<and> sql_klass (ur_status u) = c) rows))"

lemma klass_codes: "sql_klass s \<in> class_codes"
  by (auto simp: sql_klass_def class_codes_def split: option.split)

lemma groups_classes: "\<forall>(idx, k, m) \<in> set (bucket_groups E sinceNS width rows). k \<in> class_codes"
  by (auto simp: bucket_groups_def klass_codes)

lemma groups_sum:
  "sum_list (map (\<lambda>(idx, k, m). m) (filter (\<lambda>(idx, k, m). P (idx, k)) (bucket_groups E sinceNS width rows))) =
     int (length (filter (\<lambda>u. P (key_of E sinceNS width u)) rows))"
proof -
  let ?ks = "map (key_of E sinceNS width) rows"
  have "map (\<lambda>(idx, k, m). m) (filter (\<lambda>(idx, k, m). P (idx, k)) (bucket_groups E sinceNS width rows)) =
      map (\<lambda>k. int (length (filter (\<lambda>k'. k' = k) ?ks))) (filter P (remdups ?ks))"
    by (simp add: bucket_groups_def key_of_def [abs_def] Let_def filter_map comp_def case_prod_beta)
  then show ?thesis using count_groups [of ?ks P] by (simp add: filter_map comp_def)
qed

lemma groups_total: "sum_list (map (\<lambda>(idx, k, m). m) (bucket_groups E sinceNS width rows)) = int (length rows)"
  using groups_sum [of "\<lambda>_. True" E sinceNS width rows] by (simp add: case_prod_beta)

text \<open>
  C38. The SQLite aggregation agrees with the listing. It returns an aggregation for every query
  and bucket count; its total is the number of rows that paging through the same query
  yields, and with a time window and a positive bucket count it has exactly that many
  buckets, and every class counter of every bucket is the number of listed rows of that
  status class whose bucket number, clamped to the histogram, is that bucket.
\<close>

theorem sqlite_aggregate_exact:
  "\<exists>agg. sqlite_AggregateRoots E ul True db q n = Inr agg \<and> ag_total agg = int (length (sqlite_rows E ul db q)) \<and>
   (case bucketing q n of
      None \<Rightarrow> ag_buckets agg = []
    | Some (sinceNS, width, _) \<Rightarrow> int (length (ag_buckets agg)) = n \<and>
        list_all (\<lambda>i. list_all (\<lambda>c. class_of c (ag_buckets agg ! i) = bucket_count E sinceNS width n (union_rows E ul db q) i c)
          [0, 2, 3, 4, 5]) [0..<nat n])"
proof (cases "bucketing q n")
  case None
  then show ?thesis
    by (simp add: sqlite_AggregateRoots_def run_union_all sqlite_rows_def row_order.length_sort Let_def)
next
  case (Some bk)
  obtain since w m where bk: "bk = (since, w, m)" by (cases bk)
  have m: "m = n" "0 < n" using bucketing_pos Some bk by blast+
  define rows where "rows = union_rows E ul db q"
  let ?r = "add_groups n (bucket_groups E since w rows) (0, empty_buckets (Some (since, w, n)))"
  have e: "length (empty_buckets (Some (since, w, n))) = nat n" by (simp add: empty_buckets_def)
  have z: "class_of c (empty_buckets (Some (since, w, n)) ! i) = 0" if "i < nat n" for c i
    using that by (simp add: empty_buckets_def class_of_def)
  have c: "length (snd ?r) = nat n \<and> class_of c (snd ?r ! i) = bucket_count E since w n rows i c"
    if "c \<in> class_codes" "i < nat n" for c i
    using add_groups_class [OF m(2) that(1) e groups_classes that(2), of E since w rows 0] z [OF that(2), of c]
      groups_sum [of "\<lambda>(idx, k). nat (clamp n idx) = i \<and> k = c" E since w rows]
    by (simp add: bucket_count_def key_of_def)
  have "0 < nat n" using m(2) by simp
  then have len: "int (length (snd ?r)) = n" using c [of 0 0] m(2) by (simp add: class_codes_def)
  have "sqlite_AggregateRoots E ul True db q n = Inr \<lparr>ag_total = fst ?r, ag_buckets = snd ?r\<rparr>"
    using Some bk m(1) by (simp add: sqlite_AggregateRoots_def run_union_all rows_def [symmetric] Let_def case_prod_beta)
  moreover have "fst ?r = int (length (sqlite_rows E ul db q))"
    by (simp add: add_groups_total groups_total rows_def sqlite_rows_def row_order.length_sort)
  moreover have "list_all (\<lambda>i. list_all (\<lambda>c. class_of c (snd ?r ! i) = bucket_count E since w n rows i c) [0, 2, 3, 4, 5]) [0..<nat n]"
    using c by (simp add: list_all_iff class_codes_def)
  ultimately show ?thesis using Some bk len by (simp add: rows_def)
qed

section \<open>Facts about services\<close>

definition stat_at :: "service_stat list \<Rightarrow> string \<Rightarrow> service_stat" where
  "stat_at sts svc = (case find (\<lambda>st. ss_name st = svc) sts of None \<Rightarrow> fresh_stat svc | Some st \<Rightarrow> st)"

lemma stat_at_member: "distinct (map ss_name sts) \<Longrightarrow> st \<in> set sts \<Longrightarrow> stat_at sts (ss_name st) = st"
  by (induction sts) (auto simp: stat_at_def image_iff split: option.splits)

lemma update_stat_names:
  assumes "\<And>st. ss_name (f st) = ss_name st"
  shows "map ss_name (update_stat svc f sts) = (if svc \<in> ss_name ` set sts then map ss_name sts else map ss_name sts @ [svc])"
  using assms by (induction sts) auto

lemma stat_at_update:
  assumes "\<And>st. ss_name (f st) = ss_name st"
  shows "stat_at (update_stat svc f sts) n = (if n = svc then f (stat_at sts svc) else stat_at sts n)"
  using assms by (induction sts) (auto simp: stat_at_def)

lemma fold_groups:
  assumes "\<And>g st. ss_name (F g st) = ss_name st"
  shows "distinct ns \<Longrightarrow> distinct (map ss_name sts) \<Longrightarrow>
    (let r = fold (\<lambda>(svc, g). update_stat svc (F g)) (map (\<lambda>svc. (svc, G svc)) ns) sts in
     distinct (map ss_name r) \<and> ss_name ` set r = ss_name ` set sts \<union> set ns \<and>
     (\<forall>n. stat_at r n = (if n \<in> set ns then F (G n) (stat_at sts n) else stat_at sts n)))"
proof (induction ns arbitrary: sts)
  case (Cons a ns)
  let ?s = "update_stat a (F (G a)) sts"
  have "map ss_name ?s = (if a \<in> ss_name ` set sts then map ss_name sts else map ss_name sts @ [a])"
    by (rule update_stat_names) (rule assms)
  then have n: "distinct (map ss_name ?s)" "ss_name ` set ?s = insert a (ss_name ` set sts)"
    using Cons.prems(2) by (auto simp del: set_map simp: set_map [symmetric])
  have "stat_at ?s n = (if n = a then F (G a) (stat_at sts a) else stat_at sts n)" for n
    by (rule stat_at_update) (rule assms)
  with Cons.IH [OF _ n(1)] n(2) Cons.prems(1) show ?case by (auto simp: Let_def)
qed simp

lemma name_later [simp]: "ss_name (later ts st) = ss_name st"
  by (simp add: later_def)

lemma name_group_stats [simp]: "ss_name (request_stat g st) = ss_name st" "ss_name (response_stat g' st) = ss_name st"
  by (simp_all add: request_stat_def response_stat_def)

lemma later_last [simp]: "ss_last_seen (later ts st) = max ts (ss_last_seen st)"
  by (simp add: later_def max_def)

lemma later_frame [simp]:
  "ss_requests (later ts st) = ss_requests st" "ss_s2xx (later ts st) = ss_s2xx st" "ss_s3xx (later ts st) = ss_s3xx st"
  "ss_s4xx (later ts st) = ss_s4xx st" "ss_s5xx (later ts st) = ss_s5xx st" "ss_other (later ts st) = ss_other st"
  by (simp_all add: later_def)

lemma fold_max_init: "fold max ts (max t (z :: int)) = max t (fold max ts z)"
  by (induction ts arbitrary: t z) (simp_all add: max.left_commute)

lemma fold_max_latest: "ts \<noteq> [] \<Longrightarrow> fold max ts z = max (latest ts) z"
  using fold_max_init [of "tl ts" z "hd ts"] by (cases ts) (simp_all add: latest_def max.commute)

definition in_class :: "int \<Rightarrow> event_row \<Rightarrow> bool" where
  "in_class c e = (v_status e \<noteq> None \<and> sql_klass (v_status e) = c)"

lemma class_total_count: "(\<And>s. P s \<longleftrightarrow> sql_klass (Some s) = c) \<Longrightarrow> class_total P g = int (length (filter (in_class c) g))"
  by (induction g) (auto simp: class_total_def in_class_def split: option.split)

lemma response_classes:
  "ss_s2xx (response_stat g st) = int (length (filter (in_class 2) g))"
  "ss_s3xx (response_stat g st) = int (length (filter (in_class 3) g))"
  "ss_s4xx (response_stat g st) = int (length (filter (in_class 4) g))"
  "ss_s5xx (response_stat g st) = int (length (filter (in_class 5) g))"
  "ss_other (response_stat g st) = int (length (filter (in_class 0) g))"
  "ss_requests (response_stat g st) = ss_requests st"
  "ss_last_seen (response_stat g st) = max (latest (map v_timestamp g)) (ss_last_seen st)"
  by (simp_all add: response_stat_def) (rule class_total_count; auto simp: sql_klass_def)+

lemma request_fields:
  "ss_requests (request_stat g st) = int (length g)" "ss_s2xx (request_stat g st) = ss_s2xx st" "ss_s3xx (request_stat g st) = ss_s3xx st"
  "ss_s4xx (request_stat g st) = ss_s4xx st" "ss_s5xx (request_stat g st) = ss_s5xx st" "ss_other (request_stat g st) = ss_other st"
  "ss_last_seen (request_stat g st) = max (latest (map q_timestamp g)) (ss_last_seen st)"
  by (simp_all add: request_stat_def)

definition window_requests :: "time \<Rightarrow> sqlite_sink \<Rightarrow> request_row list" where
  "window_requests since db = filter (\<lambda>r. not_before since (q_timestamp r)) (sq_requests db)"

definition window_responses :: "time \<Rightarrow> sqlite_sink \<Rightarrow> event_row list" where
  "window_responses since db = filter (\<lambda>e. v_type e = ''response'' \<and> not_before since (v_timestamp e)) (sq_events db)"

lemma group_of: "n \<in> f ` set xs \<longleftrightarrow> filter (\<lambda>x. f x = n) xs \<noteq> []"
  by (auto simp: filter_empty_conv)

text \<open>What the entry of a service says about its requests and its responses.\<close>

definition exact_stat :: "request_row list \<Rightarrow> event_row list \<Rightarrow> service_stat \<Rightarrow> bool" where
  "exact_stat rq ev st = (ss_requests st = int (length rq) \<and>
     ss_s2xx st = int (length (filter (in_class 2) ev)) \<and> ss_s3xx st = int (length (filter (in_class 3) ev)) \<and>
     ss_s4xx st = int (length (filter (in_class 4) ev)) \<and> ss_s5xx st = int (length (filter (in_class 5) ev)) \<and>
     ss_other st = int (length (filter (in_class 0) ev)) \<and>
     ss_last_seen st = fold max (map v_timestamp ev) (fold max (map q_timestamp rq) zero_time))"

lemma exact_groups:
  "exact_stat rq ev (let st = (if rq \<noteq> [] then request_stat rq (fresh_stat n) else fresh_stat n)
     in if ev \<noteq> [] then response_stat ev st else st)"
  by (cases "rq = []"; cases "ev = []")
     (simp_all add: exact_stat_def response_classes request_fields fold_max_latest fresh_stat_def)

lemma service_stats_entries:
  assumes "R = window_requests since db" and "V = window_responses since db"
  obtains sts where "sqlite_ServiceStats True db since = Inr (SliceStable (\<lambda>a b. ss_name a < ss_name b) sts)"
    and "distinct (map ss_name sts)" and "ss_name ` set sts = q_service ` set R \<union> v_service ` set V"
    and "\<forall>n. exact_stat (filter (\<lambda>r. q_service r = n) R) (filter (\<lambda>e. v_service e = n) V) (stat_at sts n)"
proof -
  let ?rq = "\<lambda>n. filter (\<lambda>r. q_service r = n) R" and ?ev = "\<lambda>n. filter (\<lambda>e. v_service e = n) V"
  define s1 where "s1 = fold (\<lambda>(svc, g). update_stat svc (request_stat g)) (service_groups q_service R) []"
  define s2 where "s2 = fold (\<lambda>(svc, g). update_stat svc (response_stat g)) (service_groups v_service V) s1"
  have 1: "distinct (map ss_name s1)" "ss_name ` set s1 = q_service ` set R"
    "stat_at s1 n = (if ?rq n \<noteq> [] then request_stat (?rq n) (fresh_stat n) else fresh_stat n)" for n
    using fold_groups [of request_stat "remdups (map q_service R)" "[]" ?rq]
    by (simp_all add: s1_def service_groups_def Let_def stat_at_def group_of)
  have 2: "distinct (map ss_name s2)" "ss_name ` set s2 = q_service ` set R \<union> v_service ` set V"
    "stat_at s2 n = (if ?ev n \<noteq> [] then response_stat (?ev n) (stat_at s1 n) else stat_at s1 n)" for n
    using fold_groups [of response_stat "remdups (map v_service V)" s1 ?ev] 1(1,2)
    by (simp_all add: s2_def service_groups_def Let_def group_of)
  have "sqlite_ServiceStats True db since = Inr (SliceStable (\<lambda>a b. ss_name a < ss_name b) s2)"
    by (simp add: sqlite_ServiceStats_def s1_def s2_def assms window_requests_def window_responses_def Let_def)
  then show thesis
  proof (rule that)
    show "\<forall>n. exact_stat (?rq n) (?ev n) (stat_at s2 n)"
      unfolding 2(3) 1(3) using exact_groups by (simp only: Let_def) simp
  qed (rule 2)+
qed

text \<open>
  The service queries are exact. ServicesSeen lists each service of a captured request in
  the window once, alphabetically. ServiceStats has one entry for every service of a captured
  request or response event in the window, strictly alphabetical, with the exact number of
  its requests, its responses counted by status class (every response with a status in one
  class) and the newest timestamp among them.
\<close>

theorem sqlite_services_exact:
  "(\<exists>names. sqlite_ServicesSeen True db since = Inr names \<and> sorted_wrt (<) names \<and>
     set names = q_service ` set (window_requests since db)) \<and>
   (\<exists>sts. sqlite_ServiceStats True db since = Inr sts \<and> sorted_wrt (\<lambda>a b. ss_name a < ss_name b) sts \<and>
     ss_name ` set sts = q_service ` set (window_requests since db) \<union> v_service ` set (window_responses since db) \<and>
     list_all (\<lambda>st. exact_stat (filter (\<lambda>r. q_service r = ss_name st) (window_requests since db))
       (filter (\<lambda>e. v_service e = ss_name st) (window_responses since db)) st) sts)"
proof
  show "\<exists>names. sqlite_ServicesSeen True db since = Inr names \<and> sorted_wrt (<) names \<and> set names = q_service ` set (window_requests since db)"
    by (auto simp: sqlite_ServicesSeen_def name_order.set_sort window_requests_def intro!: name_order.sort_strict)
  obtain sts where s: "sqlite_ServiceStats True db since = Inr (SliceStable (\<lambda>a b. ss_name a < ss_name b) sts)"
      "distinct (map ss_name sts)" "ss_name ` set sts = q_service ` set (window_requests since db) \<union> v_service ` set (window_responses since db)"
    and e: "\<forall>n. exact_stat (filter (\<lambda>r. q_service r = n) (window_requests since db))
      (filter (\<lambda>e. v_service e = n) (window_responses since db)) (stat_at sts n)"
    using service_stats_entries [OF refl refl, of db since] .
  have "sorted_wrt (\<lambda>a b. ss_name a < ss_name b) (SliceStable (\<lambda>a b. ss_name a < ss_name b) sts)"
  proof (rule stat_order.sort_strict)
    show "distinct sts" using s(2) by (simp add: distinct_map)
    fix x y assume "x \<in> set sts" "y \<in> set sts" "x \<noteq> y"
    then have "ss_name x \<noteq> ss_name y" using s(2) by (auto simp: distinct_map inj_on_def)
    then show "ss_name x < ss_name y \<or> ss_name y < ss_name x" by (simp add: neq_iff)
  qed
  moreover have "list_all (\<lambda>st. exact_stat (filter (\<lambda>r. q_service r = ss_name st) (window_requests since db))
       (filter (\<lambda>e. v_service e = ss_name st) (window_responses since db)) st) (SliceStable (\<lambda>a b. ss_name a < ss_name b) sts)"
    unfolding list_all_iff stat_order.set_sort
  proof
    fix st assume "st \<in> set sts"
    then have "stat_at sts (ss_name st) = st" by (rule stat_at_member [OF s(2)])
    then show "exact_stat (filter (\<lambda>r. q_service r = ss_name st) (window_requests since db))
       (filter (\<lambda>e. v_service e = ss_name st) (window_responses since db)) st" using e by metis
  qed
  ultimately show "\<exists>sts. sqlite_ServiceStats True db since = Inr sts \<and> sorted_wrt (\<lambda>a b. ss_name a < ss_name b) sts \<and>
     ss_name ` set sts = q_service ` set (window_requests since db) \<union> v_service ` set (window_responses since db) \<and>
     list_all (\<lambda>st. exact_stat (filter (\<lambda>r. q_service r = ss_name st) (window_requests since db))
       (filter (\<lambda>e. v_service e = ss_name st) (window_responses since db)) st) sts"
    using s(1,3) by (simp add: stat_order.set_sort)
qed

end
