(* ===== verification/Reader_Agreement.thy ===== *)
theory Reader_Agreement
  imports Sqlite_Reader Inspect
begin

text \<open>
  The two readers side by side. The inspect handlers merge what the memory sink and the SQLite
  sink list, so both must list the same rows for the same records: the lemmas below compare the
  SQL predicates with the in-memory matcher, row by row, and carry the result to whole pages.
  The one column on which the readers differ by design, the status of a captured request, is
  set aside by \<open>without_status\<close>.
\<close>

section \<open>Columns of a reached database\<close>

text \<open>
  What the writes establish beyond \<open>store_ok\<close>: the host column repeats the Host header, and a
  response event has a status.
\<close>

definition host_ok :: "json_codec \<Rightarrow> request_row \<Rightarrow> bool" where
  "host_ok J row = (case scanRequestRow J row of Inl _ \<Rightarrow> False | Inr v \<Rightarrow> q_host row = hostOf v)"

definition status_ok :: "event_row \<Rightarrow> bool" where
  "status_ok e = (if v_type e = ''response'' then v_status e \<noteq> None else True)"

definition columns_ok :: "json_codec \<Rightarrow> sqlite_sink \<Rightarrow> bool" where
  "columns_ok J db = (list_all (host_ok J) (sq_requests db) \<and> list_all status_ok (sq_events db))"

lemma insert_columns_ok:
  "insert_request ok row s = Inr s' \<Longrightarrow> columns_ok J s \<Longrightarrow> host_ok J row \<Longrightarrow> columns_ok J s'"
  "insert_event ok e s = Inr s' \<Longrightarrow> columns_ok J s \<Longrightarrow> status_ok e \<Longrightarrow> columns_ok J s'"
  by (auto simp: columns_ok_def dest!: insert_request_cases insert_event_cases)

lemma write_columns_ok:
  assumes "columns_ok J s" and "codec_ok J r" and "sqlite_Write J ok r s = Inr s'"
  shows "columns_ok J s'"
proof (cases r)
  case (Request v)
  show ?thesis using assms Request
    by (auto simp: sqlite_Write_def writeCapturedRequest_def codec_ok_def map_ok_def split: option.splits
      elim!: insert_columns_ok) (simp add: host_ok_def scanRequestRow_def host_column_def hostOf_def)
next
  case (Response v)
  show ?thesis using assms Response
    by (auto simp: sqlite_Write_def writeResponseEvent_def status_ok_def split: option.splits elim!: insert_columns_ok)
next
  case (Outbound v)
  show ?thesis using assms Outbound
    by (auto simp: sqlite_Write_def writeOutboundEvent_def status_ok_def split: option.splits elim!: insert_columns_ok)
qed

lemma reaches_columns: "reaches J s rs \<Longrightarrow> columns_ok J s"
proof (induction rule: reaches.induct)
  case opened
  show ?case by (simp add: columns_ok_def empty_store_def)
next
  case (swept s rs qsort vsort ok now pol n s')
  obtain P Q where "sq_requests s' = filter P (sq_requests s)" "sq_events s' = filter Q (sq_events s)"
    using Sweep_filters [OF swept.hyps(2)] .
  with swept.IH show ?case by (auto simp: columns_ok_def list_all_iff)
qed (auto intro: write_columns_ok)

lemma scanned_request:
  "scanRequestRow J row = Inr v \<Longrightarrow> cr_id v = q_id row \<and> cr_timestamp v = q_timestamp row \<and> cr_service v = q_service row \<and>
   cr_method v = q_method row \<and> cr_path v = q_path row \<and> cr_source_ip v = q_source_ip row \<and>
   cr_correlation_id v = q_correlation_id row \<and> cr_body v = q_body row"
  by (auto simp: scanRequestRow_def split: option.splits)

lemma scanned_event:
  assumes "scanEventRow J e = Inr r"
  shows "(v_type e = ''response'' \<and> (\<exists>v. r = Response v \<and> re_id v = v_id e \<and> re_timestamp v = v_timestamp e \<and>
        re_service v = v_service e \<and> re_correlation_id v = v_correlation_id e \<and> re_status v = null_int (v_status e))) \<or>
    (v_type e = ''outbound'' \<and> (\<exists>v. r = Outbound v \<and> oe_id v = v_id e \<and> oe_timestamp v = v_timestamp e \<and>
        oe_service v = v_service e \<and> oe_correlation_id v = v_correlation_id e))"
  using assms by (auto simp: scanEventRow_def split: if_splits option.splits)

section \<open>Predicates against the matcher\<close>

definition request_fields_only :: "field list" where
  "request_fields_only = [FieldHost, FieldPath, FieldService, FieldMethod, FieldSourceIP, FieldCorrelationID]"

text \<open>
  The queries on which SQL and the matcher are compared: the indexed fields, and the body
  field where every stored body is ASCII (SQLite folds the case of ASCII letters only).
\<close>

definition comparable :: "sqlite_sink \<Rightarrow> query \<Rightarrow> bool" where
  "comparable db q = list_all (\<lambda>t. t_field t \<in> set request_fields_only \<or>
     (t_field t = FieldBody \<and> list_all (\<lambda>r. is_ascii (q_body r)) (sq_requests db))) q"

lemma holds_indexed:
  assumes "like_operator (se_like E)" and "sc col = TextV s"
  shows "holds E db sc (indexed_pred col t) = Some (matchString s t)"
  using assms(2) like_operator.like_prefix [OF assms(1), of "t_value t" s] like_operator.like_contains [OF assms(1), of "t_value t" s]
  by (auto simp: indexed_pred_def matchString_def cast_text_def arg_text_def value_eq_def split: wildcard.split)

lemma holds_scan:
  assumes "like_operator (se_like E)" and "sc col = TextV s" and "is_ascii s"
  shows "holds E db sc (scan_pred ul col t) = Some (bodyContainsFold ul s (ToLower ul (t_value t)))"
  using assms(2,3) like_operator.like_contains [OF assms(1), of "ToLower ul (t_value t)" "map ascii_lower s"]
  by (auto simp: scan_pred_def cast_text_def arg_text_def likeNeedle_def bodyContainsFold_def ToLower_ascii contains_sublist)

lemma holds_negated:
  "holds E db sc p = Some b \<Longrightarrow> holds E db sc (negated_pred t p) = Some (if t_negated t then \<not> b else b)"
  by (simp add: negated_pred_def)

lemma term_matches:
  assumes "like_operator (se_like E)" and "scanRequestRow J r = Inr v" and "host_ok J r"
    and "t_field t \<in> set request_fields_only \<or> (t_field t = FieldBody \<and> is_ascii (q_body r))"
  shows "\<exists>p. term_pred ul t = Some p \<and> holds E db (aliased ''cr.'' (request_column r)) p = Some (satisfies ul v t)"
proof -
  note v = scanned_request [OF assms(2)]
  have h: "q_host r = hostOf v" using assms(2,3) by (simp add: host_ok_def)
  let ?sc = "aliased ''cr.'' (request_column r)"
  have eq: "holds E db ?sc (EqP col (SqlText (t_value t))) = Some (s = t_value t)" if "?sc col = TextV s" for col s
    using that by (auto simp: value_eq_def)
  have ix: "holds E db ?sc (indexed_pred col t) = Some (matchString s t)" if "?sc col = TextV s" for col s
    using holds_indexed [where sc = ?sc and col = col, OF assms(1) that] .
  have sc: "holds E db ?sc (scan_pred ul ''cr.body'' t) = Some (bodyContainsFold ul (q_body r) (ToLower ul (t_value t)))"
    if "is_ascii (q_body r)" by (rule holds_scan [where sc = ?sc, OF assms(1) _ that]) (simp add: request_scope)
  from assms(4) consider "t_field t = FieldHost" | "t_field t = FieldPath" | "t_field t = FieldService" | "t_field t = FieldMethod"
    | "t_field t = FieldSourceIP" | "t_field t = FieldCorrelationID" | "t_field t = FieldBody" "is_ascii (q_body r)"
    by (auto simp: request_fields_only_def)
  then show ?thesis
    by cases (use v h in \<open>simp_all add: term_pred_def satisfies_def matchTerm_def evaluateTerm_def needle_of_def
      holds_negated [OF ix [OF request_scope(4)]] holds_negated [OF ix [OF request_scope(7)]] holds_negated [OF ix [OF request_scope(3)]]
      holds_negated [OF eq [OF request_scope(6)]] holds_negated [OF eq [OF request_scope(8)]] holds_negated [OF eq [OF request_scope(5)]]
      holds_negated [OF sc]\<close>)
qed

lemma satisfied_map_filter:
  "satisfied E db sc (List.map_filter f ts) \<longleftrightarrow> (\<forall>t \<in> set ts. case f t of None \<Rightarrow> True | Some p \<Rightarrow> holds E db sc p = Some True)"
  by (induction ts) (auto simp: map_filter_simps split: option.splits)

lemma comparable_having: "comparable db q \<Longrightarrow> List.map_filter having_pred q = []"
  by (induction q) (auto simp: comparable_def request_fields_only_def having_pred_def map_filter_simps)

lemma request_hit_iff:
  assumes "like_operator (se_like E)" and "scanRequestRow J r = Inr v" and "host_ok J r" and "r \<in> set (sq_requests db)"
    and "comparable db (iq_query q)"
  shows "request_hit E ul db q r \<longleftrightarrow> nano_window q (q_timestamp r) \<and> CompilePredicate ul (iq_query q) v"
proof -
  have "(case term_pred ul t of None \<Rightarrow> True | Some p \<Rightarrow> holds E db (aliased ''cr.'' (request_column r)) p = Some True) \<longleftrightarrow> satisfies ul v t"
    if t: "t \<in> set (iq_query q)" for t
  proof -
    have "t_field t \<in> set request_fields_only \<or> (t_field t = FieldBody \<and> is_ascii (q_body r))"
      using t assms(4,5) by (auto simp: comparable_def list_all_iff)
    from term_matches [OF assms(1-3) this] obtain p where
      "term_pred ul t = Some p" "holds E db (aliased ''cr.'' (request_column r)) p = Some (satisfies ul v t)" by blast
    then show ?thesis by simp
  qed
  then show ?thesis using comparable_having [OF assms(5)]
    by (simp add: request_hit_def satisfied_map_filter CompilePredicate_iff)
qed

text \<open>What an orphan event must satisfy when only its service and correlation id are asked for.\<close>

definition orphan_value :: "string \<Rightarrow> string \<Rightarrow> qterm \<Rightarrow> bool" where
  "orphan_value svc cid t = (if t_field t = FieldService then matchString svc t else cid = t_value t)"

definition orphan_matches :: "string \<Rightarrow> string \<Rightarrow> qterm \<Rightarrow> bool" where
  "orphan_matches svc cid t = (if t_negated t then \<not> orphan_value svc cid t else orphan_value svc cid t)"

lemma comparable_common:
  "comparable db q \<Longrightarrow> \<not> HasRequestOnlyTerm q \<Longrightarrow> t \<in> set q \<Longrightarrow> t_field t = FieldService \<or> t_field t = FieldCorrelationID"
  by (auto simp: comparable_def HasRequestOnlyTerm_def request_fields_only_def list_all_iff list_ex_iff)

lemma orphan_common:
  assumes "t_field t = FieldService \<or> t_field t = FieldCorrelationID"
  shows "evaluateOrphanResponseTerm ul t ev = (orphan_value (re_service ev) (re_correlation_id ev) t, True)"
    and "evaluateOutboundOrphanTerm ul t ov = (orphan_value (oe_service ov) (oe_correlation_id ov) t, True)"
    and "t_field t \<noteq> FieldStatus"
  using assms by (auto simp: evaluateOrphanResponseTerm_def evaluateOutboundOrphanTerm_def evaluateOrphanCommonTerm_def
    orphan_value_def matchOrphanString_def matchString_def)

lemma matchOrphan_iff:
  assumes "\<And>t. t \<in> set q \<Longrightarrow> t_field t = FieldService \<or> t_field t = FieldCorrelationID"
  shows "matchOrphanResponse ul q ev \<longleftrightarrow> (\<forall>t \<in> set q. orphan_matches (re_service ev) (re_correlation_id ev) t)"
    and "matchOrphanOutbound ul q ov \<longleftrightarrow> (\<forall>t \<in> set q. orphan_matches (oe_service ov) (oe_correlation_id ov) t)"
  using assms by (induction q) (simp_all add: orphan_common orphan_matches_def)

lemma orphan_hit_iff:
  assumes "like_operator (se_like E)" and "comparable db (iq_query q)"
  shows "orphan_hit E ul db q e \<longleftrightarrow> \<not> HasRequestOnlyFilter q \<and> is_orphan db e \<and> nano_window q (v_timestamp e) \<and>
    (\<forall>t \<in> set (iq_query q). orphan_matches (v_service e) (v_correlation_id e) t)"
proof -
  let ?sc = "aliased ''e.'' (event_column e)"
  have "(case orphan_pred ul t of None \<Rightarrow> True | Some p \<Rightarrow> holds E db ?sc p = Some True) \<longleftrightarrow> orphan_matches (v_service e) (v_correlation_id e) t"
    if "\<not> HasRequestOnlyTerm (iq_query q)" "t \<in> set (iq_query q)" for t
  proof -
    have ix: "holds E db ?sc (indexed_pred ''e.service'' t) = Some (matchString (v_service e) t)"
      by (rule holds_indexed [where sc = ?sc, OF assms(1)]) (simp add: event_scope)
    have eq: "holds E db ?sc (EqP ''e.correlation_id'' (SqlText (t_value t))) = Some (v_correlation_id e = t_value t)"
      by (auto simp: value_eq_def event_scope)
    from comparable_common [OF assms(2) that] show ?thesis
      by (auto simp: orphan_pred_def orphan_matches_def orphan_value_def holds_negated [OF ix] holds_negated [OF eq])
  qed
  then show ?thesis by (auto simp: orphan_hit_def satisfied_map_filter HasRequestOnlyFilter_def)
qed

section \<open>Rows\<close>

definition without_status :: "root_row \<Rightarrow> root_row" where
  "without_status row = (if rr_kind row = ''request'' then row\<lparr>rr_status := None\<rparr> else row)"

lemma without_status_keys [simp]: "rr_id (without_status row) = rr_id row" "rr_timestamp (without_status row) = rr_timestamp row"
  by (simp_all add: without_status_def)

lemma nano_window_iff:
  assumes "pred_option in_int64 (iq_since q)" and "pred_option in_int64 (iq_until q)"
  shows "nano_window q ts = in_window q ts"
  using assms by (auto simp: nano_window_def in_window_def UnixNano_id split: option.splits)

lemma map_filter_cong_list:
  "(\<And>x. x \<in> set xs \<Longrightarrow> g (h x) = (if P x then Some (k x) else None)) \<Longrightarrow> List.map_filter g (map h xs) = map k (filter P xs)"
  by (induction xs) (auto simp: map_filter_simps)

lemma stored_corrs:
  assumes "store_ok J db"
  shows "request_corrs (stored J db) = q_correlation_id ` set (sq_requests db)"
    and "event_count (stored J db) cid = int (length (filter (\<lambda>e. v_correlation_id e = cid) (sq_events db)))"
proof -
  have r: "is_request (projr (scan_request J row)) \<and> RecordCorrelationID (projr (scan_request J row)) = q_correlation_id row"
    if "row \<in> set (sq_requests db)" for row
    using scan_request_row [OF request_rows_ok [OF assms that]] by simp
  have e: "\<not> is_request (projr (scanEventRow J row)) \<and> RecordCorrelationID (projr (scanEventRow J row)) = v_correlation_id row"
    if "row \<in> set (sq_events db)" for row
    using scan_event_row [of J row "projr (scanEventRow J row)"] assms that
    by (auto simp: store_ok_def list_all_iff split: sum.splits)
  have "filter is_request (stored J db) = stored_requests J db"
    using r e by (auto simp: stored_def stored_requests_def stored_events_def filter_empty_conv filter_id_conv)
  then show "request_corrs (stored J db) = q_correlation_id ` set (sq_requests db)"
    using r by (auto simp: request_corrs_def stored_requests_def image_iff)
  have "filter (\<lambda>r. \<not> is_request r \<and> RecordCorrelationID r = cid) (stored_requests J db) = []"
    using r by (auto simp: stored_requests_def filter_empty_conv)
  moreover have "length (filter (\<lambda>r. \<not> is_request r \<and> RecordCorrelationID r = cid) (stored_events J db)) =
      length (filter (\<lambda>e. v_correlation_id e = cid) (sq_events db))"
    unfolding stored_events_def filter_map length_map comp_def
    by (rule arg_cong [where f = length], rule filter_cong [OF refl]) (use e in auto)
  ultimately show "event_count (stored J db) cid = int (length (filter (\<lambda>e. v_correlation_id e = cid) (sq_events db)))"
    by (simp add: event_count_def stored_def)
qed

lemma request_rows_agree:
  assumes "like_operator (se_like E)" and "store_ok J db" and "columns_ok J db" and "comparable db (iq_query q)"
    and "pred_option in_int64 (iq_since q)" and "pred_option in_int64 (iq_until q)"
  shows "List.map_filter (emit_row ul q (stored J db)) (stored_requests J db) =
    map (\<lambda>r. without_status (scan_root (request_union_row db r))) (filter (request_hit E ul db q) (sq_requests db))"
  unfolding stored_requests_def
proof (rule map_filter_cong_list)
  fix r assume r: "r \<in> set (sq_requests db)"
  have ok: "scan_request J r = Inr (projr (scan_request J r))" by (rule request_rows_ok [OF assms(2) r])
  then obtain v where v: "scanRequestRow J r = Inr v" "projr (scan_request J r) = Request v"
    by (auto simp: scan_request_def split: sum.splits)
  have "host_ok J r" using assms(3) r by (simp add: columns_ok_def list_all_iff)
  note hit = request_hit_iff [OF assms(1) v(1) this r assms(4), of ul]
  show "emit_row ul q (stored J db) (projr (scan_request J r)) =
      (if request_hit E ul db q r then Some (without_status (scan_root (request_union_row db r))) else None)"
    using v(2) scanned_request [OF v(1)] hit nano_window_iff [OF assms(5,6)]
    by (simp add: emit_row_def stored_corrs [OF assms(2)] without_status_def scan_root_def request_union_row_def joined_events_def Let_def)
qed

lemma orphan_rows_agree:
  assumes "like_operator (se_like E)" and "store_ok J db" and "columns_ok J db" and "comparable db (iq_query q)"
    and "pred_option in_int64 (iq_since q)" and "pred_option in_int64 (iq_until q)"
  shows "List.map_filter (emit_row ul q (stored J db)) (stored_events J db) =
    map (\<lambda>e. without_status (scan_root (orphan_union_row e))) (filter (orphan_hit E ul db q) (sq_events db))"
  unfolding stored_events_def
proof (rule map_filter_cong_list)
  fix e assume e: "e \<in> set (sq_events db)"
  then have ok: "scanEventRow J e = Inr (projr (scanEventRow J e))" using assms(2) by (auto simp: store_ok_def list_all_iff split: sum.splits)
  note hit = orphan_hit_iff [OF assms(1,4), of ul e]
  have orph: "v_correlation_id e \<in> request_corrs (stored J db) \<longleftrightarrow> \<not> is_orphan db e"
    by (auto simp: stored_corrs [OF assms(2)] is_orphan_def list_ex_iff image_iff) metis
  have st: "v_type e = ''response'' \<Longrightarrow> v_status e = Some (null_int (v_status e))"
  proof -
    assume "v_type e = ''response''"
    then have "v_status e \<noteq> None" using assms(3) e unfolding columns_ok_def list_all_iff status_ok_def by metis
    then show "v_status e = Some (null_int (v_status e))" by auto
  qed
  have m: "\<not> HasRequestOnlyFilter q \<Longrightarrow> matchOrphanResponse ul (iq_query q) ev \<longleftrightarrow> (\<forall>t \<in> set (iq_query q). orphan_matches (re_service ev) (re_correlation_id ev) t)"
    "\<not> HasRequestOnlyFilter q \<Longrightarrow> matchOrphanOutbound ul (iq_query q) ov \<longleftrightarrow> (\<forall>t \<in> set (iq_query q). orphan_matches (oe_service ov) (oe_correlation_id ov) t)" for ev ov
    using matchOrphan_iff [OF comparable_common [OF assms(4)]] by (simp_all add: HasRequestOnlyFilter_def)
  show "emit_row ul q (stored J db) (projr (scanEventRow J e)) =
      (if orphan_hit E ul db q e then Some (without_status (scan_root (orphan_union_row e))) else None)"
    using scanned_event [OF ok] hit nano_window_iff [OF assms(5,6)] orph st m
    by (auto simp: emit_row_def without_status_def scan_root_def orphan_union_row_def response_status_def)
qed

lemma stored_rows_agree:
  assumes "like_operator (se_like E)" and "store_ok J db" and "columns_ok J db" and "comparable db (iq_query q)"
    and "pred_option in_int64 (iq_since q)" and "pred_option in_int64 (iq_until q)"
  shows "List.map_filter (emit_row ul q (stored J db)) (stored J db) = map (\<lambda>u. without_status (scan_root u)) (union_rows E ul db q)"
  using request_rows_agree [OF assms] orphan_rows_agree [OF assms]
  by (simp add: stored_def [of J db] map_filter_append union_rows_def comp_def)

section \<open>Pages\<close>

text \<open>A row depends on the other records only through their correlation ids.\<close>

lemma emit_row_perm:
  assumes "mset (map persisted all) = mset all'"
  shows "emit_row ul q all = emit_row ul q all'"
proof -
  have "image_mset persisted (mset all) = mset all'" using assms by simp
  then have "filter_mset P (mset all') = filter_mset P (image_mset persisted (mset all))" for P by simp
  then have f: "mset (filter P all') = image_mset persisted (mset (filter (\<lambda>r. P (persisted r)) all))" for P
    by (simp add: filter_mset_image_mset)
  have "mset (map RecordCorrelationID (filter is_request all')) = mset (map RecordCorrelationID (filter is_request all))"
    using f [of is_request] by (simp add: multiset.map_comp comp_def)
  then have c: "request_corrs all = request_corrs all'" unfolding request_corrs_def by (metis set_mset_mset)
  have "size (mset (filter (\<lambda>r. \<not> is_request r \<and> RecordCorrelationID r = cid) all')) =
      size (mset (filter (\<lambda>r. \<not> is_request r \<and> RecordCorrelationID r = cid) all))" for cid
    using f [of "\<lambda>r. \<not> is_request r \<and> RecordCorrelationID r = cid"] by simp
  then have e: "event_count all cid = event_count all' cid" for cid by (simp only: event_count_def size_mset)
  show ?thesis
  proof
    fix r
    show "emit_row ul q all r = emit_row ul q all' r" by (cases r) (simp_all add: emit_row_def c e)
  qed
qed

lemma emit_row_persisted:
  assumes "comparable db (iq_query q)"
  shows "emit_row ul q all (persisted r) = emit_row ul q all r"
proof (cases "HasRequestOnlyFilter q")
  case True
  then show ?thesis by (cases r) (simp_all add: emit_row_def persisted_def)
next
  case False
  then have "matchOrphanResponse ul (iq_query q) ev \<longleftrightarrow> (\<forall>t \<in> set (iq_query q). orphan_matches (re_service ev) (re_correlation_id ev) t)"
    "matchOrphanOutbound ul (iq_query q) ov \<longleftrightarrow> (\<forall>t \<in> set (iq_query q). orphan_matches (oe_service ov) (oe_correlation_id ov) t)" for ev ov
    using matchOrphan_iff [OF comparable_common [OF assms]] by (simp_all add: HasRequestOnlyFilter_def)
  then show ?thesis by (cases r) (simp_all add: emit_row_def persisted_def)
qed

lemma map_filter_mset_cong:
  "mset (map h xs) = mset ys \<Longrightarrow> (\<And>x. g (h x) = f x) \<Longrightarrow> mset (List.map_filter f xs) = mset (List.map_filter g ys)"
proof -
  assume m: "mset (map h xs) = mset ys" and g: "\<And>x. g (h x) = f x"
  have "mset (List.map_filter g ys) = image_mset (the \<circ> g) (filter_mset (\<lambda>y. g y \<noteq> None) (mset ys))"
    by (simp add: List.map_filter_def)
  also have "\<dots> = mset (List.map_filter f xs)"
    unfolding m [symmetric] by (simp add: List.map_filter_def g filter_mset_image_mset multiset.map_comp comp_def)
  finally show ?thesis ..
qed

lemma rows_agree:
  assumes "like_operator (se_like E)" and "reaches J db rs" and "mset (map persisted (snapshot s)) = mset rs"
    and "distinct (map RecordID (snapshot s))" and "comparable db (iq_query q)"
    and "pred_option in_int64 (iq_since q)" and "pred_option in_int64 (iq_until q)"
  shows "matching_rows ul s q = map without_status (sqlite_rows E ul db q)"
proof -
  have ok: "store_ok J db" and m: "mset (stored J db) = mset rs" using reaches_ok [OF assms(2)] by auto
  have st: "mset (map persisted (snapshot s)) = mset (stored J db)" using assms(3) m by simp
  let ?A = "List.map_filter (emit_row ul q (snapshot s)) (snapshot s)" and ?B = "map (\<lambda>u. without_status (scan_root u)) (union_rows E ul db q)"
  have "emit_row ul q (stored J db) (persisted r) = emit_row ul q (snapshot s) r" for r
    using emit_row_persisted [OF assms(5)] emit_row_perm [OF st] by simp
  from map_filter_mset_cong [where h = persisted and g = "emit_row ul q (stored J db)", OF st this] have AB: "mset ?A = mset ?B"
    using stored_rows_agree [OF assms(1) ok reaches_columns [OF assms(2)] assms(5-7)] by simp
  have sorted: "sorted_wrt row_lt (SliceStable row_lt ?A)" using matching_rows_strict [OF assms(4)] by (simp add: matching_rows_def)
  have "mset (map rr_id ?B) = mset (map rr_id ?A)" unfolding mset_map AB ..
  then have "distinct (map rr_id ?B)" using map_filter_ids [OF assms(4)] by (metis mset_eq_imp_distinct_iff)
  then have "sorted_wrt row_lt (SliceStable row_lt ?B)" by (rule sort_rows_strict)
  then have "SliceStable row_lt ?A = SliceStable row_lt ?B"
    by (rule row_order.strict_unique [OF sorted]) (use AB in \<open>metis row_order.set_sort set_mset_mset\<close>)
  moreover have "SliceStable row_lt (map without_status (map scan_root (union_rows E ul db q))) = map without_status (sqlite_rows E ul db q)"
    unfolding sqlite_rows_def by (rule SliceStable_map) (simp add: row_lt_def)
  ultimately show ?thesis by (simp add: matching_rows_def comp_def)
qed

lemma take_page_map:
  assumes "\<And>x. rr_id (f x) = rr_id x \<and> rr_timestamp (f x) = rr_timestamp x" and "1 \<le> limit" and "limit < 2 ^ 63 - 1"
  shows "take_page limit (map f xs) = map_option (\<lambda>(page, nx). (map f page, nx)) (take_page limit xs)"
proof (cases "nat limit < length xs")
  case True
  then have "cursor_of (map f xs ! (nat limit - 1)) = cursor_of (xs ! (nat limit - 1))"
    using assms(1) by (simp add: cursor_of_def)
  with True show ?thesis using assms(2,3) by (simp add: take_page_more take_map)
next
  case False
  then show ?thesis using assms(2,3) by (simp add: take_page_last)
qed

text \<open>
  C4. The two readers agree. Take any history of writes and retention sweeps that leaves the
  database with the records the memory ring holds, with distinct ids. For every query on host,
  path, service, method, source address or correlation id (with wildcards, negations and a
  time window, and on the body where all stored bodies are ASCII), every page size and every
  cursor, both readers return a page, with the same rows in the same order and the same next
  cursor; only the status of a captured request is filled in by SQLite alone. So the in-memory
  matcher and the compiled SQL decide the same way, and merging their pages by id is sound.
\<close>

theorem readers_agree:
  assumes "like_operator (se_like E)" and "reaches J db rs" and "mset (map persisted (snapshot s)) = mset rs"
    and "distinct (map RecordID (snapshot s))" and "comparable db (iq_query q)"
    and "pred_option in_int64 (iq_since q)" and "pred_option in_int64 (iq_until q)"
    and "pred_option (\<lambda>c. in_int64 (cu_timestamp c)) cur" and "1 \<le> limit" and "limit < 2 ^ 63 - 1"
  shows "\<exists>rows next. sqlite_ReadRoots E ul True db q limit cur = Inr (rows, next) \<and>
    ReadRoots ul s q limit cur = Some (map without_status rows, next)"
proof -
  have rows: "matching_rows ul s q = map without_status (sqlite_rows E ul db q)" by (rule rows_agree [OF assms(1-7)])
  have "past cur (without_status x) = past cur x" for x by (simp add: past_def split: option.split)
  then have "filter (past cur) (matching_rows ul s q) = map without_status (filter (past cur) (sqlite_rows E ul db q))"
    by (simp add: rows filter_map comp_def)
  then have mem: "ReadRoots ul s q limit cur = map_option (\<lambda>(page, nx). (map without_status page, nx))
      (take_page limit (filter (past cur) (sqlite_rows E ul db q)))"
    using assms(9,10) by (simp add: ReadRoots_matching take_page_map)
  have sql: "sqlite_read E ul db q limit cur = take_page limit (filter (past cur) (sqlite_rows E ul db q))"
    by (rule sqlite_read_page [OF assms(8-10)])
  obtain rows nx where page: "take_page limit (filter (past cur) (sqlite_rows E ul db q)) = Some (rows, nx)"
    using take_page_more [OF assms(9,10)] take_page_last [OF assms(9,10)] by (metis not_less)
  then have "sqlite_ReadRoots E ul True db q limit cur = Inr (rows, nx)"
    using sql by (simp add: sqlite_read_def split: sum.splits)
  with mem page show ?thesis by simp
qed

definition recent_copy :: memory_sink where
  "recent_copy = foldl Write (NewMemorySink 9) [Request (sample_request ''a'' 5 ''c1''), Response (sample_response ''b'' 7 ''c1'' 200)]"

definition by_service :: inspect_query where
  "by_service = \<lparr>iq_limit = 50, iq_cursor = None, iq_since = Some 1, iq_until = None,
     iq_query = [plain_term FieldService ''ap'' WildcardPrefix False False []]\<rparr>"

theorem readers_agree_witness:
  "\<exists>rows next. sqlite_ReadRoots sample_engine id True sample_store by_service 10 None = Inr (rows, next) \<and>
    ReadRoots id recent_copy by_service 10 None = Some (map without_status rows, next) \<and> map rr_id rows = [''a'']"
proof -
  have snap: "snapshot recent_copy = [Response (sample_response ''b'' 7 ''c1'' 200), Request (sample_request ''a'' 5 ''c1'')]" by code_simp
  have d: "distinct (map RecordID (snapshot recent_copy))" unfolding snap by code_simp
  have l: "like_operator (se_like sample_engine)" using sqlite.like_operator_axioms by (simp add: sample_engine_def)
  have c: "comparable sample_store (iq_query by_service)" by code_simp
  obtain rows nx where r: "sqlite_ReadRoots sample_engine id True sample_store by_service 10 None = Inr (rows, nx)"
      "ReadRoots id recent_copy by_service 10 None = Some (map without_status rows, nx)"
    using readers_agree [OF l sample_store_reached _ d c, of None 10 id] by (auto simp: snap by_service_def in_int64_def)
  have "map rr_id (fst (the (ReadRoots id recent_copy by_service 10 None))) = [''a'']" by code_simp
  with r have "map rr_id rows = [''a'']" by (simp add: comp_def)
  with r show ?thesis by (intro exI conjI)
qed

section \<open>The listing over both stores\<close>

text \<open>The SQLite sink as a reader of the inspect handlers.\<close>

definition sqlite_reader :: "sql_engine \<Rightarrow> json_codec \<Rightarrow> unicode_map \<Rightarrow> bool \<Rightarrow> sqlite_sink \<Rightarrow> inspect_reader" where
  "sqlite_reader E J ul ok db =
     \<lparr>ir_roots = (\<lambda>q limit cur. case sqlite_ReadRoots E ul ok db q limit cur of Inl _ \<Rightarrow> Inl (ErrRead ''sqlite'') | Inr r \<Rightarrow> Inr r),
      ir_detail = (\<lambda>ident. case sqlite_ReadDetail J db ident of
          Inl e \<Rightarrow> Inl (if e = NotFound then ErrNotFound else ErrRead ''sqlite'') | Inr d \<Rightarrow> Inr d),
      ir_services_seen = (\<lambda>since. case sqlite_ServicesSeen ok db since of Inl _ \<Rightarrow> Inl (ErrRead ''sqlite'') | Inr r \<Rightarrow> Inr r),
      ir_service_stats = (\<lambda>since. case sqlite_ServiceStats ok db since of Inl _ \<Rightarrow> Inl (ErrRead ''sqlite'') | Inr r \<Rightarrow> Inr r),
      ir_aggregate = (\<lambda>q n. case sqlite_AggregateRoots E ul ok db q n of Inl _ \<Rightarrow> Inl (ErrRead ''sqlite'') | Inr a \<Rightarrow> Inr a)\<rparr>"

lemma sqlite_reader_page:
  assumes "timestamps_ok db" and "pred_option (\<lambda>c. in_int64 (cu_timestamp c)) cur" and "1 \<le> limit" and "limit < 2 ^ 63 - 1"
  obtains nx where "ir_roots (sqlite_reader E J ul True db) q limit cur =
    Inr (take (nat limit) (filter (past cur) (sqlite_rows E ul db q)), nx)"
proof -
  obtain nx where "sqlite_read E ul db q limit cur = Some (take (nat limit) (filter (past cur) (sqlite_rows E ul db q)), nx)"
    using page_reader.read_page [OF sqlite_page_reader [OF assms(1)] assms(3,4,2)] by metis
  then show thesis using that by (auto simp: sqlite_reader_def sqlite_read_def split: sum.splits)
qed

lemma memory_reader_page:
  assumes "1 \<le> limit" and "limit < 2 ^ 63 - 1" and "int (length (filter (past cur) (matching_rows ul s q))) < limit"
  shows "ir_roots (memory_reader ul s) q limit cur = Inr (filter (past cur) (matching_rows ul s q), None)"
  using assms by (simp add: memory_reader_def ReadRoots_matching take_page_last)

lemma matching_row_source:
  "row \<in> set (matching_rows ul s q) \<Longrightarrow> \<exists>r \<in> set (snapshot s). RecordID r = rr_id row \<and> RecordTimestamp r = rr_timestamp row"
proof -
  assume "row \<in> set (matching_rows ul s q)"
  then obtain r where r: "r \<in> set (snapshot s)" "emit_row ul q (snapshot s) r = Some row"
    by (auto simp: matching_rows_def row_order.set_sort List.map_filter_def)
  then show ?thesis using emit_row_id [OF r(2)] by auto
qed

lemma sqlite_row_source:
  "row \<in> set (sqlite_rows E ul db q) \<Longrightarrow> (rr_id row, rr_timestamp row) \<in>
     set (map (\<lambda>r. (q_id r, q_timestamp r)) (sq_requests db) @ map (\<lambda>e. (v_id e, v_timestamp e)) (sq_events db))"
  by (auto simp: sqlite_rows_def row_order.set_sort union_rows_def)

text \<open>The ring and the database agree on the timestamp of every id they share.\<close>

definition same_times :: "memory_sink \<Rightarrow> sqlite_sink \<Rightarrow> bool" where
  "same_times s db = list_all (\<lambda>r. list_all (\<lambda>row. RecordID r \<noteq> q_id row \<or> RecordTimestamp r = q_timestamp row) (sq_requests db) \<and>
     list_all (\<lambda>e. RecordID r \<noteq> v_id e \<or> RecordTimestamp r = v_timestamp e) (sq_events db)) (snapshot s)"

lemma stores_keyed:
  assumes "distinct (map RecordID (snapshot s))" and "distinct (row_ids db)" and "same_times s db"
  shows "distinct (map rr_id (matching_rows ul s q))" and "keyed_rows (matching_rows ul s q @ sqlite_rows E ul db q)"
proof -
  show m: "distinct (map rr_id (matching_rows ul s q))"
    using map_filter_ids [OF assms(1), of ul q] unfolding matching_rows_def
    by (metis mset_eq_imp_distinct_iff mset_map row_order.mset_sort)
  note d = sqlite_rows_ids [OF assms(2), of E ul q]
  have "rr_timestamp a = rr_timestamp b" if "a \<in> set (matching_rows ul s q)" "b \<in> set (sqlite_rows E ul db q)" "rr_id a = rr_id b" for a b
    using matching_row_source [OF that(1)] sqlite_row_source [OF that(2)] that(3) assms(3) by (auto simp: same_times_def list_all_iff)
  moreover have "rr_timestamp a = rr_timestamp b" if "a \<in> set xs" "b \<in> set xs" "rr_id a = rr_id b" "distinct (map rr_id xs)" for a b xs
  proof -
    have "inj_on rr_id (set xs)" using that(4) unfolding distinct_map by (rule conjunct2)
    from inj_onD [OF this that(3,1,2)] have "a = b" .
    then show ?thesis by simp
  qed
  ultimately show "keyed_rows (matching_rows ul s q @ sqlite_rows E ul db q)"
    using m d unfolding keyed_rows_def set_append by (metis Un_iff)
qed

text \<open>
  C24. A listing over both sinks misses no row. For a query without search terms, when the rows
  of the memory ring behind the cursor do not fill the page, the page gathered from the ring
  and the database is exactly the first \<open>limit\<close> rows of all rows of both stores behind the
  cursor, one per id (the ring's copy where both have it), newest first: the database page the
  merge starts from is long enough. Nothing is asked of the two stores but distinct ids in
  each, int64 timestamps and the same timestamp for an id both hold.
\<close>

theorem listing_merges_stores:
  assumes "iq_query q = []" and "1 \<le> iq_limit q" and "iq_limit q < 2 ^ 63 - 1"
    and "pred_option (\<lambda>c. in_int64 (cu_timestamp c)) (iq_cursor q)" and "timestamps_ok db"
    and "distinct (map RecordID (snapshot s))" and "distinct (row_ids db)" and "same_times s db"
    and "int (length (filter (past (iq_cursor q)) (matching_rows ul s q))) < iq_limit q"
  shows "\<exists>page next source. gatherRoots q (Some (memory_reader ul s)) (Some (sqlite_reader E J ul True db)) = Inr (page, next, source) \<and>
    page = take (nat (iq_limit q)) (filter (past (iq_cursor q)) (merge_rows (matching_rows ul s q) (sqlite_rows E ul db q))) \<and>
    sorted_wrt row_lt page"
proof -
  let ?p = "past (iq_cursor q)" and ?M = "matching_rows ul s q" and ?S = "sqlite_rows E ul db q"
  note k = stores_keyed(1) [OF assms(6-8), of ul q] stores_keyed(2) [OF assms(6-8), of ul q E]
  have keyed: "keyed_rows (filter ?p ?M @ filter ?p ?S)" using k(2) by (auto simp: keyed_rows_def)
  have d: "distinct (map rr_id (filter ?p ?M))" "distinct (map rr_id (filter ?p ?S))"
    using k(1) sqlite_rows_ids [OF assms(7), of E ul q] by (simp_all add: distinct_map_filter)
  obtain nx where sql: "ir_roots (sqlite_reader E J ul True db) q (iq_limit q) (iq_cursor q) = Inr (take (nat (iq_limit q)) (filter ?p ?S), nx)"
    using sqlite_reader_page [OF assms(5,4,2,3)] .
  have "sorted_wrt row_lt (filter ?p ?S)" using sqlite_rows_strict [OF assms(7)] by (rule sorted_wrt_filter)
  from gatherRoots_merges [OF assms(1,2) memory_reader_page [OF assms(2,3,9)] assms(9) sql d this keyed]
  obtain nxt source where g: "gatherRoots q (Some (memory_reader ul s)) (Some (sqlite_reader E J ul True db)) =
      Inr (take (nat (iq_limit q)) (SliceStable row_lt (filter ?p ?M @ fresh_rows (filter ?p ?M) (filter ?p ?S))), nxt, source)" by blast
  have "rr_id row \<in> rr_id ` set (filter ?p ?M) \<longleftrightarrow> rr_id row \<in> rr_id ` set ?M" if "row \<in> set (filter ?p ?S)" for row
  proof
    assume "rr_id row \<in> rr_id ` set ?M"
    then obtain m where m: "m \<in> set ?M" "rr_id m = rr_id row" by force
    moreover have "rr_timestamp m = rr_timestamp row" using k(2) m that by (auto simp: keyed_rows_def)
    ultimately have "?p m" using that by (simp add: past_def split: option.splits)
    with m show "rr_id row \<in> rr_id ` set (filter ?p ?M)" by (force simp: image_iff)
  qed auto
  then have "fresh_rows (filter ?p ?M) (filter ?p ?S) = filter ?p (fresh_rows ?M ?S)"
    by (auto simp: filter_filter conj_commute intro!: filter_cong)
  then have m: "SliceStable row_lt (filter ?p ?M @ fresh_rows (filter ?p ?M) (filter ?p ?S)) = filter ?p (merge_rows ?M ?S)"
    by (simp add: merge_rows_def row_order.sort_filter)
  have "sorted_wrt row_lt (SliceStable row_lt (?M @ fresh_rows ?M ?S))"
    by (rule sort_rows_strict [OF fresh_distinct [OF k(1) sqlite_rows_ids [OF assms(7)]]])
  then have "sorted_wrt row_lt (filter ?p (merge_rows ?M ?S))" by (simp add: merge_rows_def sorted_wrt_filter)
  with g m show ?thesis by (auto simp: sorted_wrt_take)
qed

theorem listing_merges_stores_witness:
  "\<exists>page next source. gatherRoots two_rows (Some (memory_reader id recent_sink)) (Some (sqlite_reader sample_engine sample_codec id True sample_store)) =
     Inr (page, next, source) \<and> map rr_id page = [''a'', ''c'']"
proof -
  have h: "timestamps_ok sample_store" "distinct (map RecordID (snapshot recent_sink))" "distinct (row_ids sample_store)"
    "same_times recent_sink sample_store" by code_simp+
  have n: "length (filter (past None) (matching_rows id recent_sink two_rows)) = 1" by code_simp
  have q: "iq_query two_rows = []" "iq_limit two_rows = 2" "iq_cursor two_rows = None" by (simp_all add: two_rows_def)
  have p: "map rr_id (take 2 (filter (past None) (merge_rows (matching_rows id recent_sink two_rows) (sqlite_rows sample_engine id sample_store two_rows)))) = [''a'', ''c'']"
    by code_simp
  obtain page nxt source where g: "gatherRoots two_rows (Some (memory_reader id recent_sink)) (Some (sqlite_reader sample_engine sample_codec id True sample_store)) =
     Inr (page, nxt, source)" "page = take 2 (filter (past None) (merge_rows (matching_rows id recent_sink two_rows) (sqlite_rows sample_engine id sample_store two_rows)))"
    using listing_merges_stores [of two_rows sample_store recent_sink id sample_engine sample_codec] h n q by auto
  with p show ?thesis by (intro exI conjI) simp_all
qed

end
