(* ===== verification/App.thy ===== *)
theory App
  imports Lifecycle Stdout Redact Admin_Server Reader_Agreement
begin

text \<open>
  The composition of internal/app/app.go: \<open>Build\<close> and the startup warnings; \<open>Serve\<close> and
  \<open>shutdown\<close> are in Lifecycle. An application is the state of all its parts; pointers the Go
  objects share (the queue, the sinks behind the readers, the counters behind the metrics)
  are one field each, and the derived views below read it. \<open>app_capture\<close> and \<open>app_work\<close> run one
  capture request and one worker iteration on that state. Opening the database file is the
  argument \<open>lb_open\<close>.
\<close>

section \<open>The application\<close>

record app_libs =
  lb_server :: server_libs
  lb_redact :: redact_libs
  lb_sql :: sql_engine
  lb_codec :: json_codec
  lb_enc :: "envelope \<Rightarrow> string option"
  lb_open :: "string \<Rightarrow> sqlite_error + sqlite_sink"

record app =
  ap_cfg :: config
  ap_workers :: worker_pool
  ap_counters :: counters
  ap_handler :: handler_options
  ap_stdout :: "stdout_sink option"
  ap_memory :: "memory_sink option"
  ap_sqlite :: "sqlite_sink option"
  ap_ruleset :: ruleset
  ap_redaction_errors :: counter
  ap_events :: events_counters
  ap_server :: server
  ap_admin :: admin_state

datatype build_error = SQLiteError sqlite_error | RulesetError rule_error | AdminError server_error

abbreviation ap_queue :: "app \<Rightarrow> queue" where
  "ap_queue a \<equiv> wp_queue (ap_workers a)"

abbreviation ap_sinks :: "app \<Rightarrow> string list" where
  "ap_sinks a \<equiv> wp_sinks (ap_workers a)"

definition make_readers :: "app_libs \<Rightarrow> memory_sink option \<Rightarrow> sqlite_sink option \<Rightarrow> read_sources" where
  "make_readers L m db =
     \<lparr>src_memory = map_option (memory_reader (sl_lower (lb_server L))) m,
      src_sqlite = map_option (sqlite_reader (lb_sql L) (lb_codec L) (sl_lower (lb_server L)) True) db\<rparr>"

definition orphan_gauges :: "memory_sink option \<Rightarrow> sqlite_sink option \<Rightarrow> int option \<times> int option" where
  "orphan_gauges m db =
     (case m of
        Some ms \<Rightarrow> (Some (int (fst (OrphanCounts ms))), Some (int (snd (OrphanCounts ms))))
      | None \<Rightarrow>
          (case db of
             Some d \<Rightarrow> (case sqlite_OrphanCounts True d of
                 Inl _ \<Rightarrow> (Some 0, Some 0) | Inr (r, ob) \<Rightarrow> (Some r, Some ob))
           | None \<Rightarrow> (None, None)))"

text \<open>The accessors \<open>Build\<close> hands to the admin server, read off the parts.\<close>

definition make_sources ::
  "counters \<Rightarrow> worker_pool \<Rightarrow> ruleset \<Rightarrow> counter \<Rightarrow> events_counters \<Rightarrow> int option \<times> int option \<Rightarrow> metric_sources" where
  "make_sources cn p rules redaction_errors ec orphans =
     \<lparr>mt_captured = Some (cn_captured cn), mt_dropped = Some (q_dropped (wp_queue p)),
      mt_capture_errors = Some (cn_bodyReadErrors cn), mt_without_correlation = Some (cn_withoutCorrelation cn),
      mt_without_service = Some (cn_withoutService cn), mt_redaction_errors = Some redaction_errors,
      mt_worker_panics = Some (wp_panics p), mt_unredacted = Some (IsUnredacted rules),
      mt_ingested_response = Some (ec_ingestedResponse ec), mt_ingested_outbound = Some (ec_ingestedOutbound ec),
      mt_rejected_invalid_json = Some (ec_rejectedInvalidJSON ec), mt_rejected_payload_too_large = Some (ec_rejectedPayloadTooLarge ec),
      mt_rejected_unknown_type = Some (ec_rejectedUnknownType ec), mt_rejected_missing_type = Some (ec_rejectedMissingType ec),
      mt_rejected_missing_required_field = Some (ec_rejectedMissingRequiredField ec), mt_rejected_empty_batch = Some (ec_rejectedEmptyBatch ec),
      mt_rejected_batch_too_large = Some (ec_rejectedBatchTooLarge ec), mt_rejected_body_too_large = Some (ec_rejectedBodyTooLarge ec),
      mt_dropped_queue_full = Some (ec_droppedQueueFull ec), mt_orphans_response = fst orphans, mt_orphans_outbound = snd orphans,
      mt_auth_invalid_token = None, mt_auth_rate_limited = None, mt_auth_csrf_blocked = None,
      mt_sink_errors_memory = map_option se_memory (wp_errors p), mt_sink_errors_sqlite = map_option se_sqlite (wp_errors p),
      mt_sink_errors_stdout = map_option se_stdout (wp_errors p)\<rparr>"

definition Build :: "app_libs \<Rightarrow> config \<Rightarrow> string list \<Rightarrow> build_error + app" where
  "Build L cfg extraSinks =
     (let sk = cf_sinks cfg;
          so = (if sk_stdout sk then Some (NewWriterSink (lb_enc L)) else None);
          mem = (if sk_memory sk then Some (NewMemorySink (sk_memory_capacity sk)) else None)
      in case (if sk_sqlite sk then (case lb_open L (sk_sqlite_path sk) of Inl e \<Rightarrow> Inl e | Inr d \<Rightarrow> Inr (Some d)) else Inr None) of
           Inl e \<Rightarrow> Inl (SQLiteError e)
         | Inr db \<Rightarrow>
             (case NewRuleset (lb_redact L) (cf_redaction cfg) of
                Inl e \<Rightarrow> Inl (RulesetError e)
              | Inr rules \<Rightarrow>
                  (let ss = (if sk_stdout sk then [NameStdout] else []) @ (if sk_memory sk then [''memory''] else []) @
                         (if sk_sqlite sk then [''sqlite''] else []) @ extraSinks;
                       q = NewQueue (cf_queue_size cfg);
                       pool = NewWorkerPool (cf_workers cfg) q ss (Some NewSinkErrorCounters)
                   in case New_server (lb_server L) (cf_admin cfg)
                          (make_sources NewCounters pool rules 0 NewEventsCounters (orphan_gauges mem db))
                          \<lparr>so_readers = make_readers L mem db,
                           so_events = \<lparr>ev_body_cap = cf_body_cap cfg, ev_max_payload = cf_max_events_payload cfg,
                             ev_max_batch = cf_max_events_per_batch cfg\<rparr>,
                           so_effective = cfg\<rparr> (Some q) (Some NewEventsCounters) of
                        Inl e \<Rightarrow> Inl (AdminError e)
                      | Inr (S, s) \<Rightarrow>
                          Inr \<lparr>ap_cfg = cfg, ap_workers = pool, ap_counters = NewCounters,
                            ap_handler = \<lparr>ho_service_header = cf_service_header cfg, ho_body_cap = cf_body_cap cfg\<rparr>,
                            ap_stdout = so, ap_memory = mem, ap_sqlite = db, ap_ruleset = rules, ap_redaction_errors = 0,
                            ap_events = NewEventsCounters, ap_server = S, ap_admin = ss_admin s\<rparr>)))"

section \<open>Startup\<close>

datatype warning =
    ZeroSinksWarning | UnredactedWarning | UnboundedBodyCapWarning | UnboundedEventsPayloadWarning
  | UnboundedEventsBatchWarning | PlaintextSessionCookieWarning

definition EmitStartupWarnings :: "app_libs \<Rightarrow> app \<Rightarrow> warning list" where
  "EmitStartupWarnings L a =
     (let cfg = ap_cfg a; ad = cf_admin cfg in
      (if ap_sinks a = [] then [ZeroSinksWarning] else []) @
      (if IsUnredacted (ap_ruleset a) then [UnredactedWarning] else []) @
      (if cf_body_cap cfg = 0 then [UnboundedBodyCapWarning] else []) @
      (if cf_max_events_payload cfg = 0 then [UnboundedEventsPayloadWarning] else []) @
      (if cf_max_events_per_batch cfg = 0 then [UnboundedEventsBatchWarning] else []) @
      (if Guard (sl_ip_loopback (lb_server L)) (ad_bind ad) (ad_token ad \<noteq> []) (ad_insecure_listen ad) = Inr ReasonTokenConfigured \<and>
          \<not> ad_session_secure ad then [PlaintextSessionCookieWarning] else []))"

text \<open>The sweeper Serve starts: its policy and its interval.\<close>

definition app_sweeper :: "app \<Rightarrow> (sweeper_policy \<times> int) option" where
  "app_sweeper a =
     (let ret = sk_retention (cf_sinks (ap_cfg a)) in
      if ap_sqlite a \<noteq> None \<and> (rt_max_age ret > 0 \<or> rt_max_count ret > 0)
      then Some (\<lparr>sp_max_age = rt_max_age ret, sp_max_count = rt_max_count ret\<rparr>, rt_interval ret) else None)"

definition capture_addr :: "config \<Rightarrow> string" where
  "capture_addr cfg = (if cf_capture_bind cfg = [] then ''0.0.0.0:'' @ Itoa (cf_capture_port cfg) else cf_capture_bind cfg)"

section \<open>The running application\<close>

definition app_server :: "app_libs \<Rightarrow> app \<Rightarrow> server" where
  "app_server L a = (ap_server a)\<lparr>se_options := (se_options (ap_server a))\<lparr>so_readers := make_readers L (ap_memory a) (ap_sqlite a)\<rparr>\<rparr>"

definition app_server_state :: "app \<Rightarrow> server_state" where
  "app_server_state a =
     \<lparr>ss_admin = ap_admin a, ss_queue = Some (ap_queue a), ss_events = Some (ap_events a),
      ss_sources = make_sources (ap_counters a) (ap_workers a) (ap_ruleset a) (ap_redaction_errors a) (ap_events a)
        (orphan_gauges (ap_memory a) (ap_sqlite a))\<rparr>"

definition app_capture :: "app_libs \<Rightarrow> stamp \<Rightarrow> http_request \<Rightarrow> app \<Rightarrow> (nat \<times> app) option" where
  "app_capture L st r a =
     map_option (\<lambda>(code, cs). (code, a\<lparr>ap_workers := (ap_workers a)\<lparr>wp_queue := cs_queue cs\<rparr>, ap_counters := cs_counters cs\<rparr>))
       (captureHandler (sl_lower (lb_server L)) (ap_handler a) st r \<lparr>cs_queue = ap_queue a, cs_counters = ap_counters a\<rparr>)"

text \<open>\<open>io\<close> says whether the I/O of a sink succeeds; a sink that is not one of the three answers by it alone.\<close>

definition sink_answer :: "app_libs \<Rightarrow> (string \<Rightarrow> bool) \<Rightarrow> app \<Rightarrow> capture_record \<Rightarrow> string \<Rightarrow> write_result" where
  "sink_answer L io a red nm =
     (if nm = ''memory'' then WriteOk
      else if nm = ''sqlite'' then
        (case ap_sqlite a of None \<Rightarrow> WriteOk
         | Some db \<Rightarrow> (case sqlite_Write (lb_codec L) (io nm) red db of Inl _ \<Rightarrow> WriteErr | Inr _ \<Rightarrow> WriteOk))
      else if nm = NameStdout then
        (case ap_stdout a of None \<Rightarrow> WriteOk
         | Some so \<Rightarrow> (if fst (stdout_Write (io nm) red so) = None then WriteOk else WriteErr))
      else if io nm then WriteOk else WriteErr)"

definition app_work :: "app_libs \<Rightarrow> (string \<Rightarrow> bool) \<Rightarrow> app \<Rightarrow> app option" where
  "app_work L io a =
     (case receive (ap_queue a) of
        Item rec q \<Rightarrow>
          (let (red, errs) = Redact (lb_redact L) (ap_ruleset a) rec (ap_redaction_errors a);
               (pool, ws) = process (\<lambda>_. Some red) (sink_answer L io a red) ((ap_workers a)\<lparr>wp_queue := q\<rparr>) rec
           in Some (a\<lparr>ap_workers := pool, ap_redaction_errors := errs,
               ap_memory := map_option (\<lambda>m. if ''memory'' \<in> set ws then Write m red else m) (ap_memory a),
               ap_sqlite := map_option (\<lambda>db. if ''sqlite'' \<in> set ws
                 then (case sqlite_Write (lb_codec L) (io ''sqlite'') red db of Inl _ \<Rightarrow> db | Inr db' \<Rightarrow> db') else db) (ap_sqlite a),
               ap_stdout := map_option (\<lambda>so. if NameStdout \<in> set ws then snd (stdout_Write (io NameStdout) red so) else so) (ap_stdout a)\<rparr>))
      | _ \<Rightarrow> None)"

section \<open>Runs of the application\<close>

text \<open>From the application as built: captured requests and worker iterations in any order.\<close>

inductive app_runs :: "app_libs \<Rightarrow> app \<Rightarrow> app \<Rightarrow> bool" for L a0 where
  built: "app_runs L a0 a0"
| captured: "app_runs L a0 a \<Longrightarrow> app_capture L st r a = Some (code, a') \<Longrightarrow> app_runs L a0 a'"
| worked: "app_runs L a0 a \<Longrightarrow> app_work L io a = Some a' \<Longrightarrow> app_runs L a0 a'"

lemma sink_answer_no_panic: "sink_answer L io a red nm \<noteq> WritePanic"
  by (simp add: sink_answer_def split: option.split sum.split)

lemma write_loop_all:
  assumes "\<forall>s \<in> set ss. out s \<noteq> WritePanic"
  shows "snd (write_loop out ss p) = ss"
  using assms by (simp add: write_loop_sinks takeWhile_eq_all_conv [THEN iffD2] dropWhile_eq_Nil_conv [THEN iffD2])

lemma write_loop_pool:
  "wp_queue (fst (write_loop out ss p)) = wp_queue p \<and> wp_sinks (fst (write_loop out ss p)) = wp_sinks p"
  by (induction ss arbitrary: p) (auto simp: case_prod_beta split: write_result.split)

lemma app_work_result:
  assumes "app_work L io a = Some a'"
  obtains rec q red where "receive (ap_queue a) = Item rec q" "ap_queue a' = q" "ap_sinks a' = ap_sinks a"
    "ap_ruleset a' = ap_ruleset a" "ap_counters a' = ap_counters a" "ap_handler a' = ap_handler a"
    "red = fst (Redact (lb_redact L) (ap_ruleset a) rec (ap_redaction_errors a))"
    "ap_memory a' = map_option (\<lambda>m. if ''memory'' \<in> set (ap_sinks a) then Write m red else m) (ap_memory a)"
proof -
  obtain rec q where rq: "receive (ap_queue a) = Item rec q" using assms by (auto simp: app_work_def split: received.splits)
  obtain red errs where red: "Redact (lb_redact L) (ap_ruleset a) rec (ap_redaction_errors a) = (red, errs)" by fastforce
  obtain pool ws where p: "write_loop (sink_answer L io a red) (ap_sinks a) ((ap_workers a)\<lparr>wp_queue := q\<rparr>) = (pool, ws)" by fastforce
  have "ws = ap_sinks a" using write_loop_all [of "ap_sinks a" "sink_answer L io a red"] sink_answer_no_panic p by (metis snd_conv)
  moreover have "wp_queue pool = q" "wp_sinks pool = ap_sinks a"
    using write_loop_pool [of "sink_answer L io a red" "ap_sinks a" "(ap_workers a)\<lparr>wp_queue := q\<rparr>"] p by simp_all
  ultimately show thesis using that [OF rq, where red = red] assms rq red p by (auto simp: app_work_def process_def Let_def)
qed

text \<open>What every run keeps: the ring, the sinks, and a queue that is open and has room for one record.\<close>

definition app_inv :: "app \<Rightarrow> bool" where
  "app_inv a \<longleftrightarrow> (case ap_memory a of None \<Rightarrow> False | Some m \<Rightarrow> ring_inv m) \<and> ''memory'' \<in> set (ap_sinks a) \<and>
     \<not> q_closed (ap_queue a) \<and> 0 < q_cap (ap_queue a)"

lemma build_inv:
  assumes "Build L cfg extra = Inr a" "sk_memory (cf_sinks cfg)"
  shows "app_inv a" "ap_handler a = \<lparr>ho_service_header = cf_service_header cfg, ho_body_cap = cf_body_cap cfg\<rparr>"
    "q_c (ap_queue a) = []"
  using assms by (auto simp: Build_def Let_def app_inv_def ring_inv_New NewWorkerPool_def NewQueue_def split: sum.splits if_splits)

lemma receive_keeps: "receive q = Item rec q' \<Longrightarrow> q_closed q' = q_closed q \<and> q_cap q' = q_cap q"
  by (auto simp: receive_Item)

lemma Enqueue_keeps: "Enqueue q rec = Some (q', ok) \<Longrightarrow> q_closed q' = q_closed q \<and> q_cap q' = q_cap q"
  by (auto simp: Enqueue_def split: if_splits)

lemma captureHandler_queue:
  assumes "captureHandler ul opts st r cs = Some (code, cs')"
  shows "q_closed (cs_queue cs') = q_closed (cs_queue cs)" "q_cap (cs_queue cs') = q_cap (cs_queue cs)"
  using assms Enqueue_keeps by (auto simp: captureHandler_def Let_def split: option.splits prod.splits)

lemma app_runs_inv:
  assumes "app_runs L a0 a" "app_inv a0" shows "app_inv a \<and> ap_handler a = ap_handler a0 \<and> ap_ruleset a = ap_ruleset a0"
  using assms(1)
proof induction
  case (captured a st r code a')
  then show ?case using captureHandler_queue
    by (fastforce simp: app_capture_def app_inv_def)
next
  case (worked a io a')
  obtain rec q red where w: "receive (ap_queue a) = Item rec q" "ap_queue a' = q" "ap_sinks a' = ap_sinks a"
    "ap_ruleset a' = ap_ruleset a" "ap_handler a' = ap_handler a"
    "ap_memory a' = map_option (\<lambda>m. if ''memory'' \<in> set (ap_sinks a) then Write m red else m) (ap_memory a)"
    by (rule app_work_result [OF worked(2)])
  with worked(3) receive_keeps [OF w(1)] show ?case
    by (auto simp: app_inv_def ring_inv_Write split: option.splits)
qed (simp add: assms(2))

lemma detail_after_Write:
  assumes "ring_inv m"
  shows "\<exists>d. ReadDetail (Write m red) (RecordID red) = Some d \<and> dr_root d = red"
proof -
  have "0 < ms_capacity m" using assms by (simp add: ring_inv_def)
  then obtain k where "ms_capacity m = Suc k" by (cases "ms_capacity m") auto
  then have "snapshot (Write m red) = red # take k (contents m)"
    using snapshot_contents [OF ring_inv_Write [OF assms]] contents_Write [OF assms] by simp
  then show ?thesis by (simp add: ReadDetail_def Let_def)
qed

lemma detail_from_memory:
  assumes "ir_detail mr ident = Inr d" "src_memory rs = Some mr"
  shows "\<exists>d'. rs_status (requestDetailHandler rs ident) = 200 \<and> rs_body (requestDetailHandler rs ident) = DetailBody d' \<and> dr_root d' = dr_root d"
  using assms by (auto simp: requestDetailHandler_def gatherDetail_def mergeDetailSiblings_def Let_def split: option.split sum.split)

text \<open>
  C3. End to end: what is captured can be inspected, and only in redacted form. In any state an
  application with the memory sink reaches by capturing and working, once the queue has been
  worked off, a request whose body can be read is answered 202 and counted, the next worker
  iteration stores it, whatever the other sinks answer, and GET /requests/{id} with the id it was
  given answers 200 with exactly the redacted record: values under redacted header names are
  gone from it.
\<close>

theorem captured_request_retrievable:
  assumes "Build L cfg extra = Inr a0" and "sk_memory (cf_sinks cfg)" and "app_runs L a0 a" and "q_c (ap_queue a) = []"
    and "CapBody (rq_body r) (cf_body_cap cfg) = Some (body, n, t)"
  shows "\<exists>a1 a2 d. app_capture L st r a = Some (202, a1) \<and> cn_captured (ap_counters a1) = cn_captured (ap_counters a) + 1 \<and>
    app_work L io a1 = Some a2 \<and> q_c (ap_queue a2) = [] \<and>
    (let red = fst (Redact (lb_redact L) (ap_ruleset a0)
           (Request (buildRecord (sl_lower (lb_server L)) st r body n t (cf_service_header cfg))) (ap_redaction_errors a));
         resp = requestDetailHandler (make_readers L (ap_memory a2) (ap_sqlite a2)) (st_uuid st)
     in rs_status resp = 200 \<and> rs_body resp = DetailBody d \<and> dr_root d = red \<and>
        (IsUnredacted (ap_ruleset a0) \<or> all_hidden (lb_redact L) (ap_ruleset a0) red))"
proof -
  let ?rec = "buildRecord (sl_lower (lb_server L)) st r body n t (cf_service_header cfg)"
  let ?red = "fst (Redact (lb_redact L) (ap_ruleset a0) (Request ?rec) (ap_redaction_errors a))"
  have inv: "app_inv a" "ap_handler a = \<lparr>ho_service_header = cf_service_header cfg, ho_body_cap = cf_body_cap cfg\<rparr>" "ap_ruleset a = ap_ruleset a0"
    using app_runs_inv [OF assms(3)] build_inv [OF assms(1,2)] by simp_all
  then obtain m where m: "ap_memory a = Some m" "ring_inv m" "''memory'' \<in> set (ap_sinks a)" "\<not> q_closed (ap_queue a)" "0 < q_cap (ap_queue a)"
    by (auto simp: app_inv_def split: option.splits)
  have enq: "Enqueue (ap_queue a) (Request ?rec) = Some ((ap_queue a)\<lparr>q_c := [Request ?rec]\<rparr>, True)"
    using m(4,5) assms(4) by (simp add: Enqueue_def)
  obtain a1 where a1: "app_capture L st r a = Some (202, a1)" "cn_captured (ap_counters a1) = cn_captured (ap_counters a) + 1"
    "ap_queue a1 = (ap_queue a)\<lparr>q_c := [Request ?rec]\<rparr>" "ap_memory a1 = ap_memory a" "ap_sinks a1 = ap_sinks a" "ap_ruleset a1 = ap_ruleset a"
    "ap_redaction_errors a1 = ap_redaction_errors a"
    using enq by (simp add: app_capture_def captureHandler_def inv(2) assms(5) Let_def incCaptured_def incWithoutService_def incWithoutCorrelation_def)
  have item: "receive (ap_queue a1) = Item (Request ?rec) ((ap_queue a)\<lparr>q_c := []\<rparr>)" by (simp add: receive_def a1(3))
  then obtain a2 where a2: "app_work L io a1 = Some a2" by (simp add: app_work_def case_prod_beta)
  obtain rec q red where w: "receive (ap_queue a1) = Item rec q" "ap_queue a2 = q"
    "red = fst (Redact (lb_redact L) (ap_ruleset a1) rec (ap_redaction_errors a1))"
    "ap_memory a2 = map_option (\<lambda>m. if ''memory'' \<in> set (ap_sinks a1) then Write m red else m) (ap_memory a1)"
    by (rule app_work_result [OF a2])
  have red: "red = ?red" "q_c q = []" "ap_memory a2 = Some (Write m ?red)"
    using w a1 m(1,3) inv(3) item by auto
  have ident: "RecordID ?red = st_uuid st" by (simp add: Redact_identity buildRecord_def Let_def case_prod_beta)
  obtain d where d: "ReadDetail (Write m ?red) (st_uuid st) = Some d" "dr_root d = ?red"
    using detail_after_Write [OF m(2), of ?red] ident by auto
  have "\<exists>d'. rs_status (requestDetailHandler (make_readers L (ap_memory a2) (ap_sqlite a2)) (st_uuid st)) = 200 \<and>
      rs_body (requestDetailHandler (make_readers L (ap_memory a2) (ap_sqlite a2)) (st_uuid st)) = DetailBody d' \<and> dr_root d' = dr_root d"
    by (rule detail_from_memory [where mr = "memory_reader (sl_lower (lb_server L)) (Write m ?red)"])
      (simp_all add: make_readers_def red(3) memory_reader_def d(1))
  moreover have "IsUnredacted (ap_ruleset a0) \<or> all_hidden (lb_redact L) (ap_ruleset a0) ?red" using Redact_hides by blast
  ultimately show ?thesis using a1(1,2) a2 w(2) red(2) d(2) by (auto simp: Let_def)
qed

definition stub_app_libs :: app_libs where
  "stub_app_libs = \<lparr>lb_server = stub_libs, lb_redact = libs, lb_sql = sample_engine, lb_codec = sample_codec,
     lb_enc = (\<lambda>_. None), lb_open = (\<lambda>_. Inr empty_store)\<rparr>"

definition stub_config :: config where
  "stub_config = (Defaults 2)\<lparr>cf_sinks := (cf_sinks (Defaults 2))\<lparr>sk_memory := True\<rparr>,
     cf_redaction := (cf_redaction (Defaults 2))\<lparr>rc_headers := [''Authorization'']\<rparr>\<rparr>"

definition stub_request :: http_request where
  "stub_request = \<lparr>rq_method = ''GET'', rq_path = ''/a'', rq_query = [], rq_header = [(''Authorization'', [''secret''])],
     rq_host = ''h'', rq_remote_addr = ''10.0.0.1:5'', rq_cookies = [], rq_body = \<lparr>rd_data = [], rd_fails = False\<rparr>\<rparr>"

theorem captured_request_retrievable_witness:
  "\<exists>a0 a1 a2 d. Build stub_app_libs stub_config [] = Inr a0 \<and>
     app_capture stub_app_libs \<lparr>st_uuid = ''u1'', st_corr_uuid = ''c1'', st_now = 5\<rparr> stub_request a0 = Some (202, a1) \<and>
     app_work stub_app_libs (\<lambda>_. False) a1 = Some a2 \<and>
     rs_body (requestDetailHandler (make_readers stub_app_libs (ap_memory a2) (ap_sqlite a2)) ''u1'') = DetailBody d \<and>
     all_hidden libs (ap_ruleset a0) (dr_root d)"
proof -
  have g: "Guard (sl_ip_loopback stub_libs) (ad_bind (cf_admin stub_config)) (ad_token (cf_admin stub_config) \<noteq> []) (ad_insecure_listen (cf_admin stub_config)) = Inr ReasonLoopbackDefault"
    by code_simp
  have r: "\<exists>rules. NewRuleset libs (cf_redaction stub_config) = Inr rules \<and> \<not> IsUnredacted rules"
    by (simp add: NewRuleset_def stub_config_def Defaults_def IsUnredacted_def)
  then obtain a0 where a0: "Build stub_app_libs stub_config [] = Inr a0" "\<not> IsUnredacted (ap_ruleset a0)"
    using g by (auto simp: Build_def stub_app_libs_def Let_def New_server_def configurationUIHandler_def stub_libs_def stub_config_def Defaults_def split: sum.splits)
  have b: "CapBody (rq_body stub_request) (cf_body_cap stub_config) = Some ([], 0, False)" by code_simp
  have m: "sk_memory (cf_sinks stub_config)" by (simp add: stub_config_def)
  note q = build_inv(3) [OF a0(1) m]
  have l: "lb_redact stub_app_libs = libs" by (simp add: stub_app_libs_def)
  from captured_request_retrievable [OF a0(1) m built q b, of "\<lparr>st_uuid = ''u1'', st_corr_uuid = ''c1'', st_now = 5\<rparr>" "\<lambda>_. False"] a0 l
  show ?thesis by (auto simp: Let_def)
qed

lemma Build_fields:
  assumes "Build L cfg extra = Inr a"
  shows "ap_workers a = NewWorkerPool (cf_workers cfg) (NewQueue (cf_queue_size cfg))
      ((if sk_stdout (cf_sinks cfg) then [NameStdout] else []) @ (if sk_memory (cf_sinks cfg) then [''memory''] else []) @
       (if sk_sqlite (cf_sinks cfg) then [''sqlite''] else []) @ extra) (Some NewSinkErrorCounters)"
    "ap_counters a = NewCounters" "ap_events a = NewEventsCounters" "ap_redaction_errors a = 0"
    "ap_admin a = \<lparr>as_limiter = NewAuthLimiter, as_sessions = NewSessionStore\<rparr>"
    "ap_memory a = (if sk_memory (cf_sinks cfg) then Some (NewMemorySink (sk_memory_capacity (cf_sinks cfg))) else None)"
    "ap_sqlite a = None \<longleftrightarrow> \<not> sk_sqlite (cf_sinks cfg)"
    "so_readers (se_options (ap_server a)) = make_readers L (ap_memory a) (ap_sqlite a)"
  using assms by (auto simp: Build_def New_server_def Let_def split: sum.splits if_splits option.splits)

lemma orphans_New: "OrphanCounts (NewMemorySink c) = (0, 0)"
  by (simp add: OrphanCounts_def snapshot_def Recent_def mem_len_def NewMemorySink_def Let_def)

lemma fresh_exposition:
  assumes "rnd 0 = 0" "ap_sqlite a = None" "ap_counters a = NewCounters" "ap_events a = NewEventsCounters" "ap_redaction_errors a = 0"
    "ap_admin a = \<lparr>as_limiter = NewAuthLimiter, as_sessions = NewSessionStore\<rparr>"
    "ap_workers a = NewWorkerPool n (NewQueue c) ss (Some NewSinkErrorCounters)"
    "ap_memory a = None \<or> ap_memory a = Some (NewMemorySink k)"
  shows "\<exists>ms. Collect_metrics rnd newCollector (promSources v b (live_sources (app_server_state a))) = Some ms \<and>
      list_all (\<lambda>m. me_value m = (if de_name (me_desc m) = ''httpcatch_build_info'' then 1 else 0)) ms"
proof -
  have z: "countUint rnd (Some 0) = 0" "countInt rnd (Some 0) = 0" "countUint rnd None = 0" "countInt rnd None = 0"
    using assms(1) by (simp_all add: countUint_def countInt_def)
  have o: "orphan_gauges (ap_memory a) None = (None, None) \<or> orphan_gauges (ap_memory a) None = (Some 0, Some 0)"
    using assms(8) by (auto simp: orphan_gauges_def orphans_New)
  show ?thesis
    by (rule disjE [OF o]) (simp_all add: collect_defs promSources_def live_sources_def normalize_def wire_auth_def app_server_state_def make_sources_def
        assms NewCounters_def NewEventsCounters_def NewAuthLimiter_def NewWorkerPool_def NewQueue_def NewSinkErrorCounters_def z)
qed


end
