(* ===== verification/Redact_Heap.thy ===== *)
theory Redact_Heap
  imports Redact "HOL-Library.AList"
begin

text \<open>
  The redactor of internal/redact/ruleset.go at the level of its memory. The functions of the
  source write into slices and maps in place, on a copy that \<open>shallowCopyCapturedRequest\<close> and its two
  siblings make first; Redact describes their result on values. Here a map and the backing array
  of a slice are objects of a heap, so that sharing between records and the in-place loops
  (the compaction of Set-Cookie values into the array being read, above all) are explicit. Strings
  are immutable, and the program never writes into the bytes of a body or into the cookies of
  a record it did not copy; both stay values. The theorem says that the copies are enough: the
  result is the one of Redact and nothing that existed before the call has changed.
\<close>

section \<open>The heap\<close>

text \<open>A slice starts at the beginning of its array; its capacity is the length of the array.\<close>

record slice =
  sl_addr :: nat
  sl_len :: nat

record heap =
  hp_arrays :: "nat \<Rightarrow> string list"
  hp_maps :: "nat \<Rightarrow> (string \<times> slice) list"
  hp_lim :: nat

definition slice_view :: "heap \<Rightarrow> slice \<Rightarrow> string list" where
  "slice_view h s = take (sl_len s) (hp_arrays h (sl_addr s))"

definition slice_get :: "heap \<Rightarrow> slice \<Rightarrow> nat \<Rightarrow> string" where
  "slice_get h s i = hp_arrays h (sl_addr s) ! i"

definition slice_set :: "slice \<Rightarrow> nat \<Rightarrow> string \<Rightarrow> heap \<Rightarrow> heap" where
  "slice_set s i v h = h\<lparr>hp_arrays := (hp_arrays h)(sl_addr s := (hp_arrays h (sl_addr s))[i := v])\<rparr>"

text \<open>\<open>make\<close> followed by \<open>copy\<close>: a new array with these contents.\<close>

definition new_slice :: "string list \<Rightarrow> heap \<Rightarrow> slice \<times> heap" where
  "new_slice vs h = (\<lparr>sl_addr = hp_lim h, sl_len = length vs\<rparr>,
     h\<lparr>hp_arrays := (hp_arrays h)(hp_lim h := vs), hp_lim := Suc (hp_lim h)\<rparr>)"

text \<open>\<open>append\<close>: in place while there is room, into a new array otherwise.\<close>

definition slice_append :: "slice \<Rightarrow> string \<Rightarrow> heap \<Rightarrow> slice \<times> heap" where
  "slice_append s v h =
     (if sl_len s < length (hp_arrays h (sl_addr s))
      then (s\<lparr>sl_len := Suc (sl_len s)\<rparr>, slice_set s (sl_len s) v h)
      else new_slice (slice_view h s @ [v]) h)"

definition new_map :: "heap \<Rightarrow> nat \<times> heap" where
  "new_map h = (hp_lim h, h\<lparr>hp_maps := (hp_maps h)(hp_lim h := []), hp_lim := Suc (hp_lim h)\<rparr>)"

definition map_assign :: "nat \<Rightarrow> string \<Rightarrow> slice \<Rightarrow> heap \<Rightarrow> heap" where
  "map_assign a k s h = h\<lparr>hp_maps := (hp_maps h)(a := AList.update k s (hp_maps h a))\<rparr>"

definition map_delete :: "nat \<Rightarrow> string \<Rightarrow> heap \<Rightarrow> heap" where
  "map_delete a k h = h\<lparr>hp_maps := (hp_maps h)(a := filter (\<lambda>e. fst e \<noteq> k) (hp_maps h a))\<rparr>"

definition map_view :: "heap \<Rightarrow> nat \<Rightarrow> hmap" where
  "map_view h a = map (\<lambda>(k, s). (k, slice_view h s)) (hp_maps h a)"

section \<open>The rules in place\<close>

text \<open>\<open>for k, vs := range m\<close> with a copy of every slice; a nil map stays nil.\<close>

fun copy_loop :: "nat \<Rightarrow> (string \<times> slice) list \<Rightarrow> heap \<Rightarrow> heap" where
  "copy_loop out [] h = h"
| "copy_loop out ((k, vs) # m) h =
     (case new_slice (slice_view h vs) h of (vsCopy, h1) \<Rightarrow> copy_loop out m (map_assign out k vsCopy h1))"

definition copyStringSliceMap :: "nat option \<Rightarrow> heap \<Rightarrow> nat option \<times> heap" where
  "copyStringSliceMap m h =
     (case m of None \<Rightarrow> (None, h)
      | Some a \<Rightarrow> (case new_map h of (out, h1) \<Rightarrow> (Some out, copy_loop out (hp_maps h a) h1)))"

text \<open>\<open>for i, v := range vals { vals[i] = f(v) }\<close>; the length is read once, each element when it is reached.\<close>

fun set_each :: "(string \<Rightarrow> string) \<Rightarrow> slice \<Rightarrow> nat list \<Rightarrow> heap \<Rightarrow> heap" where
  "set_each f s [] h = h"
| "set_each f s (i # is) h = set_each f s is (slice_set s i (f (slice_get h s i)) h)"

definition rewrite_slice :: "(string \<Rightarrow> string) \<Rightarrow> slice \<Rightarrow> heap \<Rightarrow> heap" where
  "rewrite_slice f s h = set_each f s [0..<sl_len s] h"

fun name_rules_loop :: "redact_libs \<Rightarrow> string list \<Rightarrow> (string \<times> slice) list \<Rightarrow> heap \<Rightarrow> heap" where
  "name_rules_loop L rules [] h = h"
| "name_rules_loop L rules ((key, vals) # m) h =
     name_rules_loop L rules m
       (if ToLower (lib_lower L) key \<in> set rules then rewrite_slice (\<lambda>_. Redacted) vals h else h)"

definition applyHeaderRules_heap :: "redact_libs \<Rightarrow> string list \<Rightarrow> nat \<Rightarrow> heap \<Rightarrow> heap" where
  "applyHeaderRules_heap L rules a h = name_rules_loop L rules (hp_maps h a) h"

definition applyQueryRules_heap :: "redact_libs \<Rightarrow> string list \<Rightarrow> nat \<Rightarrow> heap \<Rightarrow> heap" where
  "applyQueryRules_heap L rules a h = name_rules_loop L rules (hp_maps h a) h"

text \<open>The innermost loop over the rules keeps the value and the element in step.\<close>

fun regex_cell :: "regex_rule list \<Rightarrow> slice \<Rightarrow> nat \<Rightarrow> string \<Rightarrow> heap \<Rightarrow> heap" where
  "regex_cell [] s i v h = h"
| "regex_cell (rule # rules) s i v h =
     (let h1 = slice_set s i (rx_replace rule v) h in regex_cell rules s i (slice_get h1 s i) h1)"

fun regex_cells :: "regex_rule list \<Rightarrow> slice \<Rightarrow> nat list \<Rightarrow> heap \<Rightarrow> heap" where
  "regex_cells rules s [] h = h"
| "regex_cells rules s (i # is) h = regex_cells rules s is (regex_cell rules s i (slice_get h s i) h)"

fun regex_map_loop :: "regex_rule list \<Rightarrow> (string \<times> slice) list \<Rightarrow> heap \<Rightarrow> heap" where
  "regex_map_loop rules [] h = h"
| "regex_map_loop rules ((key, vals) # m) h = regex_map_loop rules m (regex_cells rules vals [0..<sl_len vals] h)"

definition applyRegexRulesHeaderMap_heap :: "regex_rule list \<Rightarrow> nat \<Rightarrow> heap \<Rightarrow> heap" where
  "applyRegexRulesHeaderMap_heap rules a h = (if rules = [] then h else regex_map_loop rules (hp_maps h a) h)"

fun regex_query_loop :: "regex_rule \<Rightarrow> (string \<times> slice) list \<Rightarrow> heap \<Rightarrow> heap" where
  "regex_query_loop rule [] h = h"
| "regex_query_loop rule ((key, vals) # m) h = regex_query_loop rule m (rewrite_slice (rx_replace rule) vals h)"

section \<open>Cookie rules in place\<close>

definition allEmpty :: "string list \<Rightarrow> bool" where
  "allEmpty vals = list_all (\<lambda>v. v = []) vals"

definition cookie_step :: "cookie_rule \<Rightarrow> nat \<Rightarrow> string \<Rightarrow> heap \<Rightarrow> string \<times> heap" where
  "cookie_step rule a cookieKey h =
     (if cookieKey = [] then (cookieKey, h)
      else (case map_of (hp_maps h a) cookieKey of
          None \<Rightarrow> ([], map_delete a cookieKey h)
        | Some vals \<Rightarrow>
            (let h1 = rewrite_slice (applyRuleToCookieHeader rule) vals h in
             if allEmpty (slice_view h1 vals) then ([], map_delete a cookieKey h1) else (cookieKey, h1))))"

text \<open>\<open>kept\<close> shares the array of \<open>vals\<close>, which is still being read.\<close>

fun compact_loop :: "cookie_rule \<Rightarrow> slice \<Rightarrow> nat list \<Rightarrow> slice \<Rightarrow> heap \<Rightarrow> slice \<times> heap" where
  "compact_loop rule vals [] kept h = (kept, h)"
| "compact_loop rule vals (i # is) kept h =
     (case applyRuleToSetCookieHeader rule (slice_get h vals i) of
        None \<Rightarrow> compact_loop rule vals is kept h
      | Some redacted \<Rightarrow> (case slice_append kept redacted h of (kept', h') \<Rightarrow> compact_loop rule vals is kept' h'))"

definition set_cookie_step :: "cookie_rule \<Rightarrow> nat \<Rightarrow> string \<Rightarrow> heap \<Rightarrow> string \<times> heap" where
  "set_cookie_step rule a setCookieKey h =
     (if setCookieKey = [] then (setCookieKey, h)
      else (case map_of (hp_maps h a) setCookieKey of
          None \<Rightarrow> ([], map_delete a setCookieKey h)
        | Some vals \<Rightarrow>
            (case compact_loop rule vals [0..<sl_len vals] (vals\<lparr>sl_len := 0\<rparr>) h of (kept, h1) \<Rightarrow>
             if sl_len kept = 0 then ([], map_delete a setCookieKey h1)
             else (setCookieKey, map_assign a setCookieKey kept h1))))"

fun cookie_rules_loop :: "cookie_rule list \<Rightarrow> nat \<Rightarrow> string \<Rightarrow> string \<Rightarrow> heap \<Rightarrow> heap" where
  "cookie_rules_loop [] a ck sck h = h"
| "cookie_rules_loop (rule # rules) a ck sck h =
     (case cookie_step rule a ck h of (ck1, h1) \<Rightarrow>
      case set_cookie_step rule a sck h1 of (sck1, h2) \<Rightarrow> cookie_rules_loop rules a ck1 sck1 h2)"

definition heap_key :: "nat \<Rightarrow> string \<Rightarrow> heap \<Rightarrow> string" where
  "heap_key a canonical h = findHeaderKey (map_view h a) canonical"

definition applyCookieRulesToHeaders_heap :: "cookie_rule list \<Rightarrow> nat \<Rightarrow> heap \<Rightarrow> heap" where
  "applyCookieRulesToHeaders_heap rules a h =
     (if rules = [] then h
      else cookie_rules_loop rules a (heap_key a ''Cookie'' h) (heap_key a ''Set-Cookie'' h) h)"

section \<open>Records in the heap\<close>

text \<open>The pointers of a record beside its values; the maps among the values are not looked at.\<close>

record heap_request =
  hq_value :: captured_request
  hq_headers :: "nat option"
  hq_query :: "nat option"

record heap_response =
  hv_value :: response_event
  hv_headers :: "nat option"

record heap_outbound =
  hb_value :: outbound_event
  hb_request_headers :: "nat option"
  hb_response_headers :: "nat option"

datatype heap_record = HeapRequest heap_request | HeapResponse heap_response | HeapOutbound heap_outbound

definition on_map :: "(nat \<Rightarrow> heap \<Rightarrow> heap) \<Rightarrow> nat option \<Rightarrow> heap \<Rightarrow> heap" where
  "on_map f m h = (case m of None \<Rightarrow> h | Some a \<Rightarrow> f a h)"

definition shallowCopyCapturedRequest :: "heap_request \<Rightarrow> heap \<Rightarrow> heap_request \<times> heap" where
  "shallowCopyCapturedRequest rec h =
     (case copyStringSliceMap (hq_headers rec) h of (hd', h1) \<Rightarrow>
      case copyStringSliceMap (hq_query rec) h1 of (q, h2) \<Rightarrow> (rec\<lparr>hq_headers := hd', hq_query := q\<rparr>, h2))"

definition shallowCopyResponseEvent :: "heap_response \<Rightarrow> heap \<Rightarrow> heap_response \<times> heap" where
  "shallowCopyResponseEvent rec h =
     (case copyStringSliceMap (hv_headers rec) h of (hd', h1) \<Rightarrow> (rec\<lparr>hv_headers := hd'\<rparr>, h1))"

definition shallowCopyOutboundEvent :: "heap_outbound \<Rightarrow> heap \<Rightarrow> heap_outbound \<times> heap" where
  "shallowCopyOutboundEvent rec h =
     (case copyStringSliceMap (hb_request_headers rec) h of (hd', h1) \<Rightarrow>
      if oe_response (hb_value rec) = None then (rec\<lparr>hb_request_headers := hd'\<rparr>, h1)
      else (case copyStringSliceMap (hb_response_headers rec) h1 of (rd, h2) \<Rightarrow>
        (rec\<lparr>hb_request_headers := hd', hb_response_headers := rd\<rparr>, h2)))"

text \<open>Cookies of a record are rewritten only when its header map is not nil.\<close>

definition applyCookieRules_heap :: "cookie_rule list \<Rightarrow> heap_request \<Rightarrow> heap \<Rightarrow> heap_request \<times> heap" where
  "applyCookieRules_heap rules out h =
     (case hq_headers out of
        None \<Rightarrow> (out, h)
      | Some a \<Rightarrow>
          if rules = [] then (out, h)
          else (out\<lparr>hq_value := (hq_value out)\<lparr>cr_cookies :=
                  (if cr_cookies (hq_value out) \<noteq> [] then redactCookieSlice rules (cr_cookies (hq_value out)) else [])\<rparr>\<rparr>,
                applyCookieRulesToHeaders_heap rules a h))"

fun regex_captured_heap :: "bool \<Rightarrow> regex_rule list \<Rightarrow> nat option \<Rightarrow> nat option \<Rightarrow> string \<Rightarrow> heap \<Rightarrow> string \<times> heap" where
  "regex_captured_heap eligible [] hd' q body h = (body, h)"
| "regex_captured_heap eligible (rule # rules) hd' q body h =
     regex_captured_heap eligible rules hd' q (if eligible then rx_replace rule body else body)
       (on_map (\<lambda>a h. regex_query_loop rule (hp_maps h a) h) q (on_map (applyRegexRulesHeaderMap_heap [rule]) hd' h))"

definition redactCapturedRequest_heap ::
  "redact_libs \<Rightarrow> ruleset \<Rightarrow> heap_request \<Rightarrow> heap \<Rightarrow> counter \<Rightarrow> heap_request \<times> heap \<times> counter" where
  "redactCapturedRequest_heap L r rec h errs =
     (let (o0, h0) = shallowCopyCapturedRequest rec h;
          (o1, h1) = applyCookieRules_heap (rs_cookies r) o0 h0;
          h2 = on_map (applyHeaderRules_heap L (rs_header_names r)) (hq_headers o1) h1;
          h3 = on_map (applyQueryRules_heap L (rs_query_params r)) (hq_query o1) h2;
          (body, errs') = applyJSONPathRulesBody L (rs_json_paths r) (cr_content_type (hq_value o1)) (cr_body (hq_value o1), errs);
          (body', h4) = (if rs_regex r = [] then (body, h3)
            else regex_captured_heap (body \<noteq> []) (rs_regex r) (hq_headers o1) (hq_query o1) body h3)
      in (o1\<lparr>hq_value := (hq_value o1)\<lparr>cr_body := body'\<rparr>\<rparr>, h4, errs'))"

text \<open>The rules on a header map, a body and a content type, as the two event variants apply them.\<close>

definition redact_half_heap ::
  "redact_libs \<Rightarrow> ruleset \<Rightarrow> nat option \<Rightarrow> string \<Rightarrow> string \<Rightarrow> heap \<Rightarrow> counter \<Rightarrow> string \<times> heap \<times> counter" where
  "redact_half_heap L r headers body contentType h errs =
     (let h1 = on_map (applyCookieRulesToHeaders_heap (rs_cookies r)) headers h;
          h2 = on_map (applyHeaderRules_heap L (rs_header_names r)) headers h1;
          (b, errs') = applyJSONPathRulesBody L (rs_json_paths r) contentType (body, errs)
      in (applyRegexRulesBody (rs_regex r) b, on_map (applyRegexRulesHeaderMap_heap (rs_regex r)) headers h2, errs'))"

definition redactResponseEvent_heap ::
  "redact_libs \<Rightarrow> ruleset \<Rightarrow> heap_response \<Rightarrow> heap \<Rightarrow> counter \<Rightarrow> heap_response \<times> heap \<times> counter" where
  "redactResponseEvent_heap L r rec h errs =
     (let (o0, h0) = shallowCopyResponseEvent rec h;
          (b, h1, errs') = redact_half_heap L r (hv_headers o0) (re_body (hv_value o0)) (re_content_type (hv_value o0)) h0 errs
      in (o0\<lparr>hv_value := (hv_value o0)\<lparr>re_body := b\<rparr>\<rparr>, h1, errs'))"

definition redactOutboundEvent_heap ::
  "redact_libs \<Rightarrow> ruleset \<Rightarrow> heap_outbound \<Rightarrow> heap \<Rightarrow> counter \<Rightarrow> heap_outbound \<times> heap \<times> counter" where
  "redactOutboundEvent_heap L r rec h errs =
     (let (o0, h0) = shallowCopyOutboundEvent rec h;
          q = oe_request (hb_value o0);
          (b, h1, errs1) = redact_half_heap L r (hb_request_headers o0) (oq_body q) (oq_content_type q) h0 errs;
          o1 = o0\<lparr>hb_value := (hb_value o0)\<lparr>oe_request := q\<lparr>oq_body := b\<rparr>\<rparr>\<rparr>
      in case oe_response (hb_value o1) of
           None \<Rightarrow> (o1, h1, errs1)
         | Some p \<Rightarrow>
             (let (b', h2, errs2) = redact_half_heap L r (hb_response_headers o1) (or_body p) (or_content_type p) h1 errs1
              in (o1\<lparr>hb_value := (hb_value o1)\<lparr>oe_response := Some (p\<lparr>or_body := b'\<rparr>)\<rparr>\<rparr>, h2, errs2)))"

definition Redact_heap :: "redact_libs \<Rightarrow> ruleset \<Rightarrow> heap_record \<Rightarrow> heap \<Rightarrow> counter \<Rightarrow> heap_record \<times> heap \<times> counter" where
  "Redact_heap L r rec h errs =
     (if IsUnredacted r then (rec, h, errs)
      else (case rec of
        HeapRequest v \<Rightarrow> (let (v', h', e) = redactCapturedRequest_heap L r v h errs in (HeapRequest v', h', e))
      | HeapResponse v \<Rightarrow> (let (v', h', e) = redactResponseEvent_heap L r v h errs in (HeapResponse v', h', e))
      | HeapOutbound v \<Rightarrow> (let (v', h', e) = redactOutboundEvent_heap L r v h errs in (HeapOutbound v', h', e))))"

text \<open>The record a pointer denotes.\<close>

definition half_view :: "heap \<Rightarrow> nat option \<Rightarrow> hmap option" where
  "half_view h m = map_option (map_view h) m"

fun record_view :: "heap \<Rightarrow> heap_record \<Rightarrow> capture_record" where
  "record_view h (HeapRequest v) = Request ((hq_value v)\<lparr>cr_headers := half_view h (hq_headers v), cr_query := half_view h (hq_query v)\<rparr>)"
| "record_view h (HeapResponse v) = Response ((hv_value v)\<lparr>re_headers := half_view h (hv_headers v)\<rparr>)"
| "record_view h (HeapOutbound v) =
     Outbound ((hb_value v)\<lparr>oe_request := (oe_request (hb_value v))\<lparr>oq_headers := half_view h (hb_request_headers v)\<rparr>,
       oe_response := map_option (\<lambda>p. p\<lparr>or_headers := half_view h (hb_response_headers v)\<rparr>) (oe_response (hb_value v))\<rparr>)"

section \<open>Writing into one array\<close>

definition put :: "nat \<Rightarrow> string list \<Rightarrow> heap \<Rightarrow> heap" where
  "put x vs h = h\<lparr>hp_arrays := (hp_arrays h)(x := vs)\<rparr>"

lemma put_simps [simp]:
  "hp_arrays (put x vs h) y = (if y = x then vs else hp_arrays h y)" "hp_maps (put x vs h) = hp_maps h" "hp_lim (put x vs h) = hp_lim h"
  "put x vs (put x ws h) = put x vs h" "put x (hp_arrays h x) h = h"
  by (simp_all add: put_def)

lemma slice_set_put: "slice_set s i v h = put (sl_addr s) ((hp_arrays h (sl_addr s))[i := v]) h"
  by (simp add: slice_set_def put_def)

lemma set_each_append: "set_each f s (is @ js) h = set_each f s js (set_each f s is h)"
  by (induction f s "is" h rule: set_each.induct) simp_all

lemma set_each_upt:
  "n \<le> length (hp_arrays h (sl_addr s)) \<Longrightarrow>
   set_each f s [0..<n] h = put (sl_addr s) (map f (take n (hp_arrays h (sl_addr s))) @ drop n (hp_arrays h (sl_addr s))) h"
proof (induction n)
  case (Suc n)
  let ?xs = "hp_arrays h (sl_addr s)"
  have "(map f (take n ?xs) @ drop n ?xs)[n := f (?xs ! n)] = map f (take (Suc n) ?xs) @ drop (Suc n) ?xs"
    using Suc.prems by (simp add: list_update_append take_Suc_conv_app_nth Cons_nth_drop_Suc [symmetric] min_def)
  with Suc show ?case by (simp add: set_each_append slice_set_put slice_get_def nth_append min_def)
qed simp

definition in_bounds :: "heap \<Rightarrow> slice \<Rightarrow> bool" where
  "in_bounds h s = (sl_len s \<le> length (hp_arrays h (sl_addr s)))"

lemma rewrite_slice_put:
  "in_bounds h s \<Longrightarrow> rewrite_slice f s h = put (sl_addr s) (map f (slice_view h s) @ drop (sl_len s) (hp_arrays h (sl_addr s))) h"
  by (simp add: rewrite_slice_def set_each_upt in_bounds_def slice_view_def)

lemma view_put_other: "sl_addr s \<noteq> x \<Longrightarrow> slice_view (put x vs h) s = slice_view h s"
  by (simp add: slice_view_def)

lemma view_put_same: "sl_addr s = x \<Longrightarrow> slice_view (put x vs h) s = take (sl_len s) vs"
  by (simp add: slice_view_def)

lemma regex_cell_put:
  "rules \<noteq> [] \<Longrightarrow> i < length (hp_arrays h (sl_addr s)) \<Longrightarrow>
   regex_cell rules s i v h = slice_set s i (apply_regexes rules v) h"
proof (induction rules arbitrary: v h)
  case (Cons rule rules)
  show ?case
  proof (cases "rules = []")
    case True
    then show ?thesis by (simp add: apply_regexes_def Let_def)
  next
    case False
    with Cons show ?thesis
      by (simp add: Let_def slice_set_put slice_get_def apply_regexes_def)
  qed
qed simp

lemma regex_cells_eq:
  "rules \<noteq> [] \<Longrightarrow> \<forall>i \<in> set is. i < length (hp_arrays h (sl_addr s)) \<Longrightarrow>
   regex_cells rules s is h = set_each (apply_regexes rules) s is h"
  by (induction "is" arbitrary: h) (simp_all add: regex_cell_put slice_set_put)

section \<open>Loops over the entries of a map\<close>

definition each_entry :: "(string \<Rightarrow> string \<Rightarrow> string) \<Rightarrow> (string \<times> slice) list \<Rightarrow> heap \<Rightarrow> heap" where
  "each_entry g m h = fold (\<lambda>(k, s) h. rewrite_slice (g k) s h) m h"

lemma rewrite_slice_id: "rewrite_slice (\<lambda>v. v) s h = h"
proof -
  have "set_each (\<lambda>v. v) s is h = h" for "is"
    by (induction "is") (simp_all add: slice_set_put slice_get_def)
  then show ?thesis by (simp add: rewrite_slice_def)
qed

lemma name_rules_each:
  "name_rules_loop L rules m h = each_entry (\<lambda>k. if ToLower (lib_lower L) k \<in> set rules then (\<lambda>_. Redacted) else (\<lambda>v. v)) m h"
  by (induction L rules m h rule: name_rules_loop.induct) (simp_all add: each_entry_def rewrite_slice_id)

lemma regex_query_each: "regex_query_loop rule m h = each_entry (\<lambda>_. rx_replace rule) m h"
  by (induction rule m h rule: regex_query_loop.induct) (simp_all add: each_entry_def)

lemma in_bounds_rewrite [simp]: "in_bounds h s \<Longrightarrow> in_bounds (rewrite_slice f s h) t = in_bounds h t"
  by (simp add: rewrite_slice_put) (auto simp: in_bounds_def slice_view_def)

lemma regex_map_each:
  "rules \<noteq> [] \<Longrightarrow> list_all (\<lambda>e. in_bounds h (snd e)) m \<Longrightarrow> regex_map_loop rules m h = each_entry (\<lambda>_. apply_regexes rules) m h"
proof (induction rules m h rule: regex_map_loop.induct)
  case (2 rules key vals m h)
  then have "regex_cells rules vals [0..<sl_len vals] h = rewrite_slice (apply_regexes rules) vals h"
    by (simp add: rewrite_slice_def regex_cells_eq in_bounds_def)
  with 2 show ?case by (simp add: each_entry_def)
qed (simp add: each_entry_def)

lemma each_entry_frame: "hp_maps (each_entry g m h) = hp_maps h \<and> hp_lim (each_entry g m h) = hp_lim h"
proof -
  have s: "hp_maps (set_each f s is h) = hp_maps h \<and> hp_lim (set_each f s is h) = hp_lim h" for f s "is" h
    by (induction "is" arbitrary: h) (simp_all add: slice_set_put)
  show ?thesis by (induction m arbitrary: h) (auto simp: each_entry_def rewrite_slice_def s)
qed

lemma each_entry_other:
  "list_all (\<lambda>e. in_bounds h (snd e)) m \<Longrightarrow> x \<notin> (\<lambda>e. sl_addr (snd e)) ` set m \<Longrightarrow> hp_arrays (each_entry g m h) x = hp_arrays h x"
proof (induction m arbitrary: h)
  case (Cons e m)
  obtain k s where e: "e = (k, s)" by fastforce
  let ?h = "rewrite_slice (g k) s h"
  have "each_entry g (e # m) h = each_entry g m ?h" by (simp add: each_entry_def e)
  moreover have "hp_arrays (each_entry g m ?h) x = hp_arrays ?h x" using Cons by (simp add: e)
  moreover have "hp_arrays ?h x = hp_arrays h x" using Cons.prems by (simp add: e rewrite_slice_put)
  ultimately show ?case by simp
qed (simp add: each_entry_def)

lemma each_entry_at:
  "list_all (\<lambda>e. in_bounds h (snd e)) m \<Longrightarrow> distinct (map (\<lambda>e. sl_addr (snd e)) m) \<Longrightarrow> (k, s) \<in> set m \<Longrightarrow>
   hp_arrays (each_entry g m h) (sl_addr s) = map (g k) (slice_view h s) @ drop (sl_len s) (hp_arrays h (sl_addr s))"
proof (induction m arbitrary: h)
  case (Cons e m)
  obtain k' s' where e: "e = (k', s')" by fastforce
  let ?h = "rewrite_slice (g k') s' h"
  have b: "in_bounds h s'" "list_all (\<lambda>e. in_bounds ?h (snd e)) m" using Cons.prems(1) by (simp_all add: e)
  have step: "each_entry g (e # m) h = each_entry g m ?h" by (simp add: each_entry_def e)
  show ?case
  proof (cases "(k, s) \<in> set m")
    case True
    then have "sl_addr s \<noteq> sl_addr s'" using Cons.prems(2) by (force simp: e)
    with Cons.IH [OF b(2) _ True] Cons.prems(2) b(1) show ?thesis unfolding step
      by (simp add: rewrite_slice_put view_put_other)
  next
    case False
    with Cons.prems(3) have "k = k'" "s = s'" by (auto simp: e)
    moreover have "sl_addr s' \<notin> (\<lambda>e. sl_addr (snd e)) ` set m" using Cons.prems(2) by (simp add: e)
    ultimately show ?thesis unfolding step using each_entry_other [OF b(2)] b(1) by (simp add: rewrite_slice_put)
  qed
qed simp

section \<open>Ownership\<close>

text \<open>
  A map owned by a region: its address and those of its arrays lie there, no two entries share an
  array, and no key comes twice.
\<close>

definition owns :: "nat \<Rightarrow> nat \<Rightarrow> nat \<Rightarrow> heap \<Rightarrow> bool" where
  "owns lo hi a h \<longleftrightarrow> lo \<le> a \<and> a < hi \<and> hi \<le> hp_lim h \<and> distinct (map fst (hp_maps h a)) \<and>
     distinct (map (\<lambda>e. sl_addr (snd e)) (hp_maps h a)) \<and>
     list_all (\<lambda>e. lo \<le> sl_addr (snd e) \<and> sl_addr (snd e) < hi) (hp_maps h a) \<and>
     list_all (\<lambda>e. in_bounds h (snd e)) (hp_maps h a)"

definition same_outside :: "nat \<Rightarrow> nat \<Rightarrow> heap \<Rightarrow> heap \<Rightarrow> bool" where
  "same_outside lo hi h h' \<longleftrightarrow> hp_lim h' = hp_lim h \<and>
     (\<forall>x. x < lo \<or> hi \<le> x \<longrightarrow> hp_arrays h' x = hp_arrays h x \<and> hp_maps h' x = hp_maps h x)"

lemma same_outside_refl [simp]: "same_outside lo hi h h"
  by (simp add: same_outside_def)

lemma same_outside_trans: "same_outside lo hi h h' \<Longrightarrow> same_outside lo hi h' h'' \<Longrightarrow> same_outside lo hi h h''"
  by (simp add: same_outside_def)

lemma map_view_cong:
  "hp_maps h' a = hp_maps h a \<Longrightarrow> (\<And>e. e \<in> set (hp_maps h a) \<Longrightarrow> hp_arrays h' (sl_addr (snd e)) = hp_arrays h (sl_addr (snd e))) \<Longrightarrow>
   map_view h' a = map_view h a"
  by (auto simp: map_view_def slice_view_def)

lemma owns_elsewhere:
  assumes "owns lo hi a h" "same_outside lo' hi' h h'" "hi \<le> lo' \<or> hi' \<le> lo"
  shows "owns lo hi a h'" "map_view h' a = map_view h a"
proof -
  have m: "hp_maps h' a = hp_maps h a" using assms by (auto simp: owns_def same_outside_def)
  have x: "e \<in> set (hp_maps h a) \<Longrightarrow> hp_arrays h' (sl_addr (snd e)) = hp_arrays h (sl_addr (snd e))" for e
    using assms by (auto simp: owns_def same_outside_def list_all_iff)
  show "map_view h' a = map_view h a" by (rule map_view_cong [OF m x])
  show "owns lo hi a h'" using assms x by (auto simp: owns_def same_outside_def m list_all_iff in_bounds_def)
qed

definition own_opt :: "nat \<Rightarrow> nat \<Rightarrow> nat option \<Rightarrow> heap \<Rightarrow> bool" where
  "own_opt lo hi m h = (case m of None \<Rightarrow> True | Some a \<Rightarrow> owns lo hi a h)"

lemma own_opt_elsewhere:
  assumes "own_opt lo hi m h" "same_outside lo' hi' h h'" "hi \<le> lo' \<or> hi' \<le> lo"
  shows "own_opt lo hi m h'" "half_view h' m = half_view h m"
  using assms(1) owns_elsewhere [OF _ assms(2,3)] by (auto simp: own_opt_def half_view_def split: option.splits)

text \<open>
  What the redactor asks of a procedure on a map: on an owned map it has the effect of a function
  on values, keeps the map owned, allocates nothing and touches nothing else.
\<close>

locale map_procedure =
  fixes proc :: "nat \<Rightarrow> heap \<Rightarrow> heap" and f :: "hmap \<Rightarrow> hmap"
  assumes owned: "owns lo hi a h \<Longrightarrow> owns lo hi a (proc a h)"
    and framed: "owns lo hi a h \<Longrightarrow> same_outside lo hi h (proc a h)"
    and viewed: "owns lo hi a h \<Longrightarrow> map_view (proc a h) a = f (map_view h a)"
begin

lemma on_option:
  assumes "own_opt lo hi m h"
  shows "own_opt lo hi m (on_map proc m h)" "same_outside lo hi h (on_map proc m h)"
    "half_view (on_map proc m h) m = map_option f (half_view h m)"
  using assms owned framed viewed by (auto simp: own_opt_def on_map_def half_view_def split: option.splits)

text \<open>On one of two maps in separate regions.\<close>

lemma beside:
  assumes "own_opt lo hi m h" "own_opt lo' hi' m' h" "hi \<le> lo' \<or> hi' \<le> lo"
  shows "own_opt lo' hi' m' (on_map proc m h)" "half_view (on_map proc m h) m' = half_view h m'"
  using own_opt_elsewhere [OF assms(2) on_option(2) [OF assms(1)]] assms(3) by auto

end

text \<open>Procedures compose.\<close>

lemma map_procedure_comp:
  assumes "map_procedure p f" "map_procedure q g"
  shows "map_procedure (\<lambda>a h. q a (p a h)) (\<lambda>m. g (f m))"
proof -
  note p = map_procedure.owned [OF assms(1)] map_procedure.framed [OF assms(1)] map_procedure.viewed [OF assms(1)]
  note q = map_procedure.owned [OF assms(2)] map_procedure.framed [OF assms(2)] map_procedure.viewed [OF assms(2)]
  show ?thesis
  proof unfold_locales
    fix lo hi a h assume o: "owns lo hi a h"
    note o1 = p(1) [OF o]
    show "owns lo hi a (q a (p a h))" by (rule q(1) [OF o1])
    show "same_outside lo hi h (q a (p a h))" by (rule same_outside_trans [OF p(2) [OF o] q(2) [OF o1]])
    show "map_view (q a (p a h)) a = g (f (map_view h a))" by (simp add: p(3) [OF o] q(3) [OF o1])
  qed
qed

section \<open>Name rules and regex rules\<close>

lemma each_entry_procedure: "map_procedure (\<lambda>a h. each_entry g (hp_maps h a) h) (map (\<lambda>(k, vs). (k, map (g k) vs)))"
proof unfold_locales
  fix lo hi a h assume o: "owns lo hi a h"
  let ?m = "hp_maps h a"
  have b: "list_all (\<lambda>e. in_bounds h (snd e)) ?m" and d: "distinct (map (\<lambda>e. sl_addr (snd e)) ?m)"
    and r: "\<forall>e \<in> set ?m. lo \<le> sl_addr (snd e) \<and> sl_addr (snd e) < hi" using o by (auto simp: owns_def list_all_iff)
  note f = each_entry_frame [of g ?m h]
  note at = each_entry_at [OF b d]
  have len: "e \<in> set ?m \<Longrightarrow> in_bounds (each_entry g ?m h) (snd e)" for e
    using at [of "fst e" "snd e" g] b by (auto simp: in_bounds_def slice_view_def list_all_iff)
  show "owns lo hi a (each_entry g ?m h)" using o f len by (simp add: owns_def list_all_iff)
  show "same_outside lo hi h (each_entry g ?m h)"
    unfolding same_outside_def
  proof (intro conjI allI impI)
    fix x assume x: "x < lo \<or> hi \<le> x"
    with r have "x \<notin> (\<lambda>e. sl_addr (snd e)) ` set ?m" by fastforce
    then show "hp_arrays (each_entry g ?m h) x = hp_arrays h x" by (rule each_entry_other [OF b])
  qed (simp_all add: f)
  show "map_view (each_entry g ?m h) a = map (\<lambda>(k, vs). (k, map (g k) vs)) (map_view h a)"
    using at [of _ _ g] b by (auto simp: map_view_def f slice_view_def in_bounds_def list_all_iff)
qed

interpretation header_rules: map_procedure "applyHeaderRules_heap L rules" "applyHeaderRulesMap L rules" for L rules
proof -
  have "applyHeaderRulesMap L rules = map (\<lambda>(k, vs). (k, map (if ToLower (lib_lower L) k \<in> set rules then (\<lambda>_. Redacted) else (\<lambda>v. v)) vs))"
    by (auto simp: applyHeaderRulesMap_def redact_values_def fun_eq_iff)
  then show "map_procedure (applyHeaderRules_heap L rules) (applyHeaderRulesMap L rules)"
    using each_entry_procedure [of "\<lambda>k. if ToLower (lib_lower L) k \<in> set rules then (\<lambda>_. Redacted) else (\<lambda>v. v)"]
    by (simp add: applyHeaderRules_heap_def [abs_def] name_rules_each)
qed

interpretation query_rules: map_procedure "applyQueryRules_heap L rules" "applyQueryRules L rules" for L rules
proof -
  have "applyQueryRules_heap L rules = applyHeaderRules_heap L rules" "applyQueryRules L rules = applyHeaderRulesMap L rules"
    by (simp_all add: fun_eq_iff applyQueryRules_heap_def applyHeaderRules_heap_def applyQueryRules_def applyHeaderRulesMap_def)
  then show "map_procedure (applyQueryRules_heap L rules) (applyQueryRules L rules)" using header_rules.map_procedure_axioms by simp
qed

interpretation regex_query: map_procedure "\<lambda>a h. regex_query_loop rule (hp_maps h a) h" "map (\<lambda>(key, vals). (key, map (rx_replace rule) vals))" for rule
  using each_entry_procedure [of "\<lambda>_. rx_replace rule"] by (simp add: regex_query_each)

lemma regex_headers_eq:
  "owns lo hi a h \<Longrightarrow> rules \<noteq> [] \<Longrightarrow> applyRegexRulesHeaderMap_heap rules a h = each_entry (\<lambda>_. apply_regexes rules) (hp_maps h a) h"
  by (simp add: applyRegexRulesHeaderMap_heap_def regex_map_each owns_def)

interpretation regex_headers: map_procedure "applyRegexRulesHeaderMap_heap rules" "applyRegexRulesHeaderMap rules" for rules
proof (cases "rules = []")
  case True
  then have "applyRegexRulesHeaderMap_heap rules = (\<lambda>a h. h)" "applyRegexRulesHeaderMap rules = (\<lambda>m. m)"
    by (simp_all add: fun_eq_iff applyRegexRulesHeaderMap_heap_def applyRegexRulesHeaderMap_def)
  then show "map_procedure (applyRegexRulesHeaderMap_heap rules) (applyRegexRulesHeaderMap rules)" by (simp add: map_procedure_def)
next
  case False
  note p = each_entry_procedure [of "\<lambda>_. apply_regexes rules"]
  show "map_procedure (applyRegexRulesHeaderMap_heap rules) (applyRegexRulesHeaderMap rules)"
    by unfold_locales (simp_all add: regex_headers_eq False map_procedure.owned [OF p] map_procedure.framed [OF p]
        map_procedure.viewed [OF p] applyRegexRulesHeaderMap_def)
qed

section \<open>Cookie rules\<close>

lemma update_present:
  "k \<in> fst ` set m \<Longrightarrow> distinct (map fst m) \<Longrightarrow> AList.update k v m = map (\<lambda>(k', w). (k', if k' = k then v else w)) m"
proof (induction m)
  case (Cons e m)
  have "k \<notin> fst ` set m \<Longrightarrow> map (\<lambda>(k', w). (k', if k' = k then v else w)) m = m" by (rule map_idI) force
  with Cons show ?case by (cases e) auto
qed simp

lemma map_values_cases:
  "distinct (map fst m) \<Longrightarrow> map_values k f m =
     (case map_of m k of None \<Rightarrow> m
      | Some vs \<Rightarrow> (case f vs of None \<Rightarrow> filter (\<lambda>e. fst e \<noteq> k) m | Some ws \<Rightarrow> AList.update k ws m))"
proof (induction m)
  case (Cons e m)
  obtain k' vs where e: "e = (k', vs)" by fastforce
  have none: "k \<notin> fst ` set m \<Longrightarrow> map_values k f m = m \<and> filter (\<lambda>e. fst e \<noteq> k) m = m"
    by (induction m) (auto simp: map_values_def List.map_filter_def)
  show ?case
  proof (cases "k' = k")
    case True
    with Cons.prems have "k \<notin> fst ` set m" by (simp add: e)
    with none True show ?thesis by (auto simp: e map_values_def map_filter_simps split: option.split)
  next
    case False
    with Cons show ?thesis by (auto simp: e map_values_def map_filter_simps split: option.split)
  qed
qed (simp add: map_values_def map_filter_simps)

lemma filter_update: "filter (\<lambda>e. fst e \<noteq> k) (AList.update k v m) = filter (\<lambda>e. fst e \<noteq> k) m"
  by (induction m) auto

lemma map_of_view: "map_of (map_view h a) k = map_option (slice_view h) (map_of (hp_maps h a) k)"
  by (simp add: map_view_def map_of_map)

lemma view_keys [simp]: "map fst (map_view h a) = map fst (hp_maps h a)"
  by (simp add: map_view_def comp_def case_prod_beta)

lemma view_key_set [simp]: "fst ` set (map_view h a) = fst ` set (hp_maps h a)"
  using view_keys [of h a] by (metis image_set)

lemma owns_inj:
  "owns lo hi a h \<Longrightarrow> x \<in> set (hp_maps h a) \<Longrightarrow> y \<in> set (hp_maps h a) \<Longrightarrow>
   fst x = fst y \<or> sl_addr (snd x) = sl_addr (snd y) \<Longrightarrow> x = y"
  unfolding owns_def distinct_map by (metis (no_types, lifting) inj_onD)

lemma owns_put:
  assumes "owns lo hi a h" "map_of (hp_maps h a) k = Some s" "length vs = length (hp_arrays h (sl_addr s))"
  shows "owns lo hi a (put (sl_addr s) vs h)" "same_outside lo hi h (put (sl_addr s) vs h)"
    "map_view (put (sl_addr s) vs h) a = AList.update k (take (sl_len s) vs) (map_view h a)"
proof -
  have e: "(k, s) \<in> set (hp_maps h a)" using assms(2) by (rule map_of_SomeD)
  show "owns lo hi a (put (sl_addr s) vs h)" using assms(1,3) by (auto simp: owns_def list_all_iff in_bounds_def)
  show "same_outside lo hi h (put (sl_addr s) vs h)" using assms(1) e by (auto simp: same_outside_def owns_def list_all_iff)
  have k: "k \<in> fst ` set (map_view h a)" "distinct (map fst (map_view h a))" using assms(1) e by (force simp: owns_def)+
  have inj1: "b = s" if "(k, b) \<in> set (hp_maps h a)" for b
    using owns_inj [OF assms(1) that e] by simp
  have inj2: "k' = k" if "(k', b) \<in> set (hp_maps h a)" "sl_addr b = sl_addr s" for k' b
    using owns_inj [OF assms(1) that(1) e] that(2) by simp
  show "map_view (put (sl_addr s) vs h) a = AList.update k (take (sl_len s) vs) (map_view h a)"
    unfolding update_present [OF k] by (auto simp: map_view_def slice_view_def dest: inj1 inj2)
qed

lemma owns_delete:
  assumes "owns lo hi a h"
  shows "owns lo hi a (map_delete a k h)" "same_outside lo hi h (map_delete a k h)"
    "map_view (map_delete a k h) a = filter (\<lambda>e. fst e \<noteq> k) (map_view h a)"
  using assms by (auto simp: owns_def map_delete_def same_outside_def list_all_iff in_bounds_def map_view_def slice_view_def
      filter_map comp_def case_prod_beta distinct_map_filter)

lemma owns_shrink:
  assumes "owns lo hi a h" "map_of (hp_maps h a) k = Some s" "n \<le> length (hp_arrays h (sl_addr s))"
  shows "owns lo hi a (map_assign a k (s\<lparr>sl_len := n\<rparr>) h)" "same_outside lo hi h (map_assign a k (s\<lparr>sl_len := n\<rparr>) h)"
    "map_view (map_assign a k (s\<lparr>sl_len := n\<rparr>) h) a = AList.update k (take n (hp_arrays h (sl_addr s))) (map_view h a)"
proof -
  let ?h = "map_assign a k (s\<lparr>sl_len := n\<rparr>) h"
  have e: "(k, s) \<in> set (hp_maps h a)" using assms(2) by (rule map_of_SomeD)
  have d: "distinct (map fst (hp_maps h a))" "distinct (map fst (map_view h a))" using assms(1) by (simp_all add: owns_def)
  have k: "k \<in> fst ` set (hp_maps h a)" "k \<in> fst ` set (map_view h a)" using e by force+
  have only: "b = s" if "(k, b) \<in> set (hp_maps h a)" for b
    using owns_inj [OF assms(1) that e] by simp
  have m: "hp_maps ?h a = map (\<lambda>(k', w). (k', if k' = k then s\<lparr>sl_len := n\<rparr> else w)) (hp_maps h a)"
    by (simp add: map_assign_def update_present [OF k(1) d(1)])
  have "map (\<lambda>e. sl_addr (snd e)) (hp_maps ?h a) = map (\<lambda>e. sl_addr (snd e)) (hp_maps h a)"
    unfolding m by (auto dest: only)
  moreover have "map fst (hp_maps ?h a) = map fst (hp_maps h a)" unfolding m by auto
  moreover have "hp_arrays ?h = hp_arrays h" "hp_lim ?h = hp_lim h" by (simp_all add: map_assign_def)
  moreover have "list_all (\<lambda>e. lo \<le> sl_addr (snd e) \<and> sl_addr (snd e) < hi) (hp_maps ?h a)"
    "list_all (\<lambda>e. in_bounds h (snd e)) (hp_maps ?h a)"
    using assms(1,3) e unfolding m by (fastforce simp: owns_def list_all_iff in_bounds_def)+
  ultimately show "owns lo hi a ?h" using assms(1) by (simp add: owns_def in_bounds_def)
  show "same_outside lo hi h ?h" using assms(1) by (auto simp: same_outside_def owns_def map_assign_def)
  show "map_view ?h a = AList.update k (take n (hp_arrays h (sl_addr s))) (map_view h a)"
    unfolding update_present [OF k(2) d(2)] by (auto simp: map_view_def m slice_view_def) (auto simp: map_assign_def)
qed

lemma missing_key:
  assumes "owns lo hi a h" "map_of (hp_maps h a) k = None"
  shows "map_view (map_delete a k h) a = map_view h a" "map_values k f (map_view h a) = map_view h a" "k \<notin> fst ` set (hp_maps h a)"
proof -
  show k: "k \<notin> fst ` set (hp_maps h a)" using assms(2) by (simp add: map_of_eq_None_iff)
  then show "map_view (map_delete a k h) a = map_view h a"
    unfolding owns_delete(3) [OF assms(1)] by (force simp: filter_id_conv map_view_def)
  show "map_values k f (map_view h a) = map_view h a"
    using assms by (simp add: map_values_cases owns_def map_of_view)
qed

definition key_left :: "string \<Rightarrow> hmap \<Rightarrow> string" where
  "key_left k m = (if k \<in> set (map fst m) then k else [])"

lemma key_left_view: "key_left k (map_view h a) = (if k \<in> fst ` set (hp_maps h a) then k else [])"
  by (simp add: key_left_def)

lemma key_left_update [simp]: "key_left k (AList.update k v m) = k"
  by (simp add: key_left_def dom_update)

lemma key_left_filter [simp]: "key_left k (filter (\<lambda>e. fst e \<noteq> k) m) = []"
  by (auto simp: key_left_def)

lemma cookie_step_refines:
  assumes "owns lo hi a h" "cookie_step rule a ck h = (ck', h')"
  shows "owns lo hi a h'" "same_outside lo hi h h'"
    "map_view h' a = (if ck \<noteq> [] then map_values ck (cookie_values rule) (map_view h a) else map_view h a)"
    "ck' = key_left ck (map_view h' a)"
proof -
  have d: "distinct (map fst (map_view h a))" using assms(1) by (simp add: owns_def)
  have "owns lo hi a h' \<and> same_outside lo hi h h' \<and>
    map_view h' a = (if ck \<noteq> [] then map_values ck (cookie_values rule) (map_view h a) else map_view h a) \<and> ck' = key_left ck (map_view h' a)"
  proof (cases "ck = []")
    case True
    with assms show ?thesis by (simp add: cookie_step_def key_left_def)
  next
    case ck: False
    show ?thesis
    proof (cases "map_of (hp_maps h a) ck")
      case None
      note k = missing_key [OF assms(1) None]
      show ?thesis using None ck assms(2) owns_delete [OF assms(1), of ck] k by (auto simp: cookie_step_def key_left_view)
    next
      case (Some s)
      let ?ws = "map (applyRuleToCookieHeader rule) (slice_view h s)"
      let ?vs = "?ws @ drop (sl_len s) (hp_arrays h (sl_addr s))"
      have b: "in_bounds h s" using assms(1) map_of_SomeD [OF Some] by (force simp: owns_def list_all_iff)
      note r = rewrite_slice_put [OF b, of "applyRuleToCookieHeader rule"]
      have l: "length ?vs = length (hp_arrays h (sl_addr s))" "take (sl_len s) ?vs = ?ws" using b by (auto simp: in_bounds_def slice_view_def)
      note p = owns_put [OF assms(1) Some l(1)]
      have v: "slice_view (put (sl_addr s) ?vs h) s = ?ws" using l(2) by (simp add: view_put_same)
      have k: "ck \<in> fst ` set (hp_maps h a)" using map_of_SomeD [OF Some] by force
      have mv: "map_values ck (cookie_values rule) (map_view h a) =
          (if list_all (\<lambda>v. v = []) ?ws then filter (\<lambda>e. fst e \<noteq> ck) (map_view h a) else AList.update ck ?ws (map_view h a))"
        by (simp add: map_values_cases [OF d] map_of_view Some cookie_values_def Let_def)
      show ?thesis
      proof (cases "list_all (\<lambda>v. v = []) ?ws")
        case True
        then have e: "ck' = []" "h' = map_delete a ck (put (sl_addr s) ?vs h)"
          using assms(2) ck Some by (simp_all add: cookie_step_def Let_def r v allEmpty_def)
        show ?thesis unfolding e mv using True ck owns_delete [OF p(1), of ck] same_outside_trans [OF p(2)]
          by (simp add: p(3) l(2) filter_update)
      next
        case False
        then have e: "ck' = ck" "h' = put (sl_addr s) ?vs h"
          using assms(2) ck Some by (simp_all add: cookie_step_def Let_def r v allEmpty_def)
        show ?thesis unfolding e mv p(3) l(2) using False ck p(1,2) by simp
      qed
    qed
  qed
  then show "owns lo hi a h'" "same_outside lo hi h h'"
    "map_view h' a = (if ck \<noteq> [] then map_values ck (cookie_values rule) (map_view h a) else map_view h a)"
    "ck' = key_left ck (map_view h' a)" by blast+
qed

text \<open>The compaction: what is read has not been overwritten yet, since the writes never pass the reads.\<close>

lemma compact_loop_put:
  assumes "j \<le> i" "i \<le> n" "n \<le> length (hp_arrays h (sl_addr s))"
  shows "\<exists>vs. compact_loop rule s [i..<n] (s\<lparr>sl_len := j\<rparr>) h =
      (s\<lparr>sl_len := j + length (List.map_filter (applyRuleToSetCookieHeader rule) (drop i (take n (hp_arrays h (sl_addr s)))))\<rparr>, put (sl_addr s) vs h) \<and>
    length vs = length (hp_arrays h (sl_addr s)) \<and>
    take (j + length (List.map_filter (applyRuleToSetCookieHeader rule) (drop i (take n (hp_arrays h (sl_addr s)))))) vs =
      take j (hp_arrays h (sl_addr s)) @ List.map_filter (applyRuleToSetCookieHeader rule) (drop i (take n (hp_arrays h (sl_addr s))))"
  using assms
proof (induction "n - i" arbitrary: i j h)
  case 0
  then show ?case by (intro exI [of _ "hp_arrays h (sl_addr s)"]) (simp add: map_filter_simps)
next
  case (Suc m)
  let ?xs = "hp_arrays h (sl_addr s)" and ?f = "applyRuleToSetCookieHeader rule"
  have i: "i < n" using Suc.hyps(2) by simp
  have dr: "drop i (take n ?xs) = ?xs ! i # drop (Suc i) (take n ?xs)" using i Suc.prems(3) by (simp add: Cons_nth_drop_Suc [symmetric])
  have upt: "[i..<n] = i # [Suc i..<n]" using i by (rule upt_conv_Cons)
  show ?case
  proof (cases "?f (?xs ! i)")
    case None
    have "m = n - Suc i" "j \<le> Suc i" "Suc i \<le> n" using Suc.hyps(2) Suc.prems by simp_all
    from Suc.hyps(1) [OF this Suc.prems(3)] show ?thesis by (simp add: upt dr None slice_get_def map_filter_simps)
  next
    case (Some r)
    let ?h = "put (sl_addr s) (?xs[j := r]) h"
    have ap: "slice_append (s\<lparr>sl_len := j\<rparr>) r h = (s\<lparr>sl_len := Suc j\<rparr>, ?h)"
      using Suc.prems i by (simp add: slice_append_def slice_set_put)
    have "m = n - Suc i" "Suc j \<le> Suc i" "Suc i \<le> n" "n \<le> length (hp_arrays ?h (sl_addr s))" using Suc.hyps(2) Suc.prems by simp_all
    note IH = Suc.hyps(1) [OF this]
    have rest: "drop (Suc i) (take n (?xs[j := r])) = drop (Suc i) (take n ?xs)"
      using Suc.prems(1) by (simp add: take_update_swap drop_update_cancel)
    have tk: "take (Suc j) (?xs[j := r]) = take j ?xs @ [r]" using Suc.prems i by (simp add: take_Suc_conv_app_nth)
    from IH show ?thesis by (auto simp: upt dr Some slice_get_def map_filter_simps ap rest tk)
  qed
qed

lemma set_cookie_step_refines:
  assumes "owns lo hi a h" "set_cookie_step rule a ck h = (ck', h')"
  shows "owns lo hi a h'" "same_outside lo hi h h'"
    "map_view h' a = (if ck \<noteq> [] then map_values ck (set_cookie_values rule) (map_view h a) else map_view h a)"
    "ck' = key_left ck (map_view h' a)"
proof -
  have d: "distinct (map fst (map_view h a))" using assms(1) by (simp add: owns_def)
  have "owns lo hi a h' \<and> same_outside lo hi h h' \<and>
    map_view h' a = (if ck \<noteq> [] then map_values ck (set_cookie_values rule) (map_view h a) else map_view h a) \<and> ck' = key_left ck (map_view h' a)"
  proof (cases "ck = []")
    case True
    with assms show ?thesis by (simp add: set_cookie_step_def key_left_def)
  next
    case ck: False
    show ?thesis
    proof (cases "map_of (hp_maps h a) ck")
      case None
      note k = missing_key [OF assms(1) None]
      show ?thesis using None ck assms(2) owns_delete [OF assms(1), of ck] k by (auto simp: set_cookie_step_def key_left_view)
    next
      case (Some s)
      let ?xs = "hp_arrays h (sl_addr s)"
      let ?ws = "List.map_filter (applyRuleToSetCookieHeader rule) (slice_view h s)"
      have b: "sl_len s \<le> length ?xs" using assms(1) map_of_SomeD [OF Some] by (force simp: owns_def list_all_iff in_bounds_def)
      from compact_loop_put [of 0 0 "sl_len s" h s rule] b obtain vs where
        c: "compact_loop rule s [0..<sl_len s] (s\<lparr>sl_len := 0\<rparr>) h = (s\<lparr>sl_len := length ?ws\<rparr>, put (sl_addr s) vs h)"
        and vs: "length vs = length ?xs" "take (length ?ws) vs = ?ws" by (auto simp: slice_view_def)
      note p = owns_put [OF assms(1) Some vs(1)]
      have k: "ck \<in> fst ` set (hp_maps h a)" using map_of_SomeD [OF Some] by force
      have mv: "map_values ck (set_cookie_values rule) (map_view h a) =
          (if ?ws = [] then filter (\<lambda>e. fst e \<noteq> ck) (map_view h a) else AList.update ck ?ws (map_view h a))"
        by (simp add: map_values_cases [OF d] map_of_view Some set_cookie_values_def Let_def)
      show ?thesis
      proof (cases "?ws = []")
        case True
        then have e: "ck' = []" "h' = map_delete a ck (put (sl_addr s) vs h)"
          using assms(2) ck Some by (simp_all add: set_cookie_step_def c)
        show ?thesis unfolding e mv using True ck owns_delete [OF p(1), of ck] same_outside_trans [OF p(2)]
          by (simp add: p(3) filter_update)
      next
        case False
        have s: "map_of (hp_maps (put (sl_addr s) vs h) a) ck = Some s" "length ?ws \<le> length (hp_arrays (put (sl_addr s) vs h) (sl_addr s))"
          using Some vs by (simp_all, metis length_take min.cobounded2 min.commute)
        note q = owns_shrink [OF p(1) s]
        have "map_view (map_assign a ck (s\<lparr>sl_len := length ?ws\<rparr>) (put (sl_addr s) vs h)) a = AList.update ck ?ws (map_view h a)"
          by (simp add: q(3) p(3) vs(2))
        moreover have "ck' = ck" "h' = map_assign a ck (s\<lparr>sl_len := length ?ws\<rparr>) (put (sl_addr s) vs h)"
          using assms(2) ck Some False by (auto simp: set_cookie_step_def c)
        ultimately show ?thesis using ck False q(1) same_outside_trans [OF p(2) q(2)] by (simp add: mv)
      qed
    qed
  qed
  then show "owns lo hi a h'" "same_outside lo hi h h'"
    "map_view h' a = (if ck \<noteq> [] then map_values ck (set_cookie_values rule) (map_view h a) else map_view h a)"
    "ck' = key_left ck (map_view h' a)" by blast+
qed

lemma cookie_rules_loop_refines:
  assumes "owns lo hi a h"
  shows "owns lo hi a (cookie_rules_loop rules a ck sck h) \<and> same_outside lo hi h (cookie_rules_loop rules a ck sck h) \<and>
    map_view (cookie_rules_loop rules a ck sck h) a = cookie_header_loop ck sck rules (map_view h a)"
  using assms
proof (induction rules arbitrary: ck sck h)
  case (Cons rule rules)
  obtain ck1 h1 where c: "cookie_step rule a ck h = (ck1, h1)" by fastforce
  obtain sck1 h2 where s: "set_cookie_step rule a sck h1 = (sck1, h2)" by fastforce
  note C = cookie_step_refines [OF Cons.prems c]
  note S = set_cookie_step_refines [OF C(1) s]
  from Cons.IH [OF S(1), of ck1 sck1] same_outside_trans [OF same_outside_trans [OF C(2) S(2)]] show ?case
    unfolding cookie_header_loop.simps Let_def key_left_def [symmetric] C(3) [symmetric] S(3) [symmetric] C(4) [symmetric] S(4) [symmetric]
    by (simp add: c s)
qed simp

interpretation cookie_rules: map_procedure "applyCookieRulesToHeaders_heap rules" "applyCookieRulesToHeaders rules" for rules
  by unfold_locales
    (simp_all add: applyCookieRulesToHeaders_heap_def applyCookieRulesToHeaders_def heap_key_def cookie_rules_loop_refines)

section \<open>Copies\<close>

text \<open>A heap that extends another: nothing below the old limit has changed.\<close>

definition extends :: "heap \<Rightarrow> heap \<Rightarrow> bool" where
  "extends h h' \<longleftrightarrow> hp_lim h \<le> hp_lim h' \<and>
     (\<forall>x < hp_lim h. hp_arrays h' x = hp_arrays h x \<and> hp_maps h' x = hp_maps h x)"

lemma extends_refl [simp]: "extends h h"
  by (simp add: extends_def)

lemma extends_trans: "extends h h' \<Longrightarrow> extends h' h'' \<Longrightarrow> extends h h''"
  by (auto simp: extends_def)

lemma extends_outside: "extends h h' \<Longrightarrow> same_outside lo hi h' h'' \<Longrightarrow> hp_lim h \<le> lo \<Longrightarrow> extends h h''"
  by (auto simp: extends_def same_outside_def)

text \<open>A map of an existing record: a Go map, whose slices exist. Entries and records may share them.\<close>

definition valid_map :: "heap \<Rightarrow> nat option \<Rightarrow> bool" where
  "valid_map h m = (case m of None \<Rightarrow> True
     | Some a \<Rightarrow> a < hp_lim h \<and> distinct (map fst (hp_maps h a)) \<and> list_all (\<lambda>e. sl_addr (snd e) < hp_lim h) (hp_maps h a))"

lemma valid_extends: "valid_map h m \<Longrightarrow> extends h h' \<Longrightarrow> valid_map h' m \<and> half_view h' m = half_view h m"
  by (auto simp: valid_map_def extends_def half_view_def map_view_def slice_view_def list_all_iff split: option.splits)

lemma owns_add:
  assumes "owns lo (hp_lim h) out h" "k \<notin> fst ` set (hp_maps h out)" "new_slice vs h = (s, h1)"
  shows "owns lo (hp_lim (map_assign out k s h1)) out (map_assign out k s h1)"
    "map_view (map_assign out k s h1) out = map_view h out @ [(k, vs)]"
    "\<forall>x < lo. hp_arrays (map_assign out k s h1) x = hp_arrays h x \<and> hp_maps (map_assign out k s h1) x = hp_maps h x"
    "hp_maps (map_assign out k s h1) out = hp_maps h out @ [(k, s)]" "hp_lim (map_assign out k s h1) = Suc (hp_lim h)"
proof -
  let ?h = "map_assign out k s h1"
  have s: "s = \<lparr>sl_addr = hp_lim h, sl_len = length vs\<rparr>" and h1: "h1 = h\<lparr>hp_arrays := (hp_arrays h)(hp_lim h := vs), hp_lim := Suc (hp_lim h)\<rparr>"
    using assms(3) by (auto simp: new_slice_def)
  have new: "k \<notin> fst ` set m \<Longrightarrow> AList.update k s m = m @ [(k, s)]" for m by (induction m) auto
  show m: "hp_maps ?h out = hp_maps h out @ [(k, s)]" by (simp add: map_assign_def h1 new [OF assms(2)])
  show l: "hp_lim ?h = Suc (hp_lim h)" by (simp add: map_assign_def h1)
  have a: "hp_arrays (map_assign out k t h1) = (hp_arrays h)(hp_lim h := vs)" for t by (simp add: map_assign_def h1)
  have old: "e \<in> set (hp_maps h out) \<Longrightarrow> lo \<le> sl_addr (snd e) \<and> sl_addr (snd e) < hp_lim h \<and> in_bounds h (snd e)" for e
    using assms(1) by (auto simp: owns_def list_all_iff)
  show "map_view ?h out = map_view h out @ [(k, vs)]"
    unfolding map_view_def m by (auto simp: slice_view_def a s dest: old)
  show "\<forall>x < lo. hp_arrays ?h x = hp_arrays h x \<and> hp_maps ?h x = hp_maps h x"
    using assms(1) by (auto simp: owns_def map_assign_def h1)
  have "\<forall>e \<in> set (hp_maps h out). in_bounds ?h (snd e) \<and> sl_addr (snd e) < Suc (hp_lim h)" using old by (fastforce simp: in_bounds_def a)
  moreover have "hp_lim h \<notin> (\<lambda>e. sl_addr (snd e)) ` set (hp_maps h out)" by (force dest: old)
  ultimately show "owns lo (hp_lim ?h) out ?h"
    using assms(1,2) old unfolding owns_def m l by (auto simp: s list_all_iff in_bounds_def a)
qed

lemma copy_loop_copies:
  assumes "owns lo (hp_lim h) out h" "distinct (map fst m)" "fst ` set m \<inter> fst ` set (hp_maps h out) = {}"
    "list_all (\<lambda>e. sl_addr (snd e) < lo) m"
  shows "owns lo (hp_lim (copy_loop out m h)) out (copy_loop out m h) \<and>
    map_view (copy_loop out m h) out = map_view h out @ map (\<lambda>(k, s). (k, slice_view h s)) m \<and>
    hp_lim h \<le> hp_lim (copy_loop out m h) \<and>
    (\<forall>x < lo. hp_arrays (copy_loop out m h) x = hp_arrays h x \<and> hp_maps (copy_loop out m h) x = hp_maps h x)"
  using assms
proof (induction m arbitrary: h)
  case (Cons e m)
  obtain k vs where e: "e = (k, vs)" by fastforce
  obtain s h1 where n: "new_slice (slice_view h vs) h = (s, h1)" by fastforce
  let ?h = "map_assign out k s h1"
  have "k \<notin> fst ` set (hp_maps h out)" using Cons.prems(3) by (auto simp: e)
  note A = owns_add [OF Cons.prems(1) this n]
  have same: "t \<in> set m \<Longrightarrow> slice_view ?h (snd t) = slice_view h (snd t)" for t
    using A(3) Cons.prems(4) by (auto simp: slice_view_def list_all_iff)
  have "fst ` set m \<inter> fst ` set (hp_maps ?h out) = {}" using Cons.prems(2,3) by (auto simp: A(4) e)
  with Cons.IH [OF A(1)] Cons.prems(2,4) A(2,3,5) same show ?case by (auto simp: e n)
qed simp

lemma copyStringSliceMap_copies:
  assumes "valid_map h m" "copyStringSliceMap m h = (m', h')"
  shows "own_opt (hp_lim h) (hp_lim h') m' h'" "half_view h' m' = half_view h m" "extends h h'"
proof -
  have "own_opt (hp_lim h) (hp_lim h') m' h' \<and> half_view h' m' = half_view h m \<and> extends h h'"
  proof (cases m)
    case None
    with assms(2) show ?thesis by (simp add: copyStringSliceMap_def own_opt_def half_view_def)
  next
    case (Some a)
    let ?h1 = "h\<lparr>hp_maps := (hp_maps h)(hp_lim h := []), hp_lim := Suc (hp_lim h)\<rparr>"
    have v: "a < hp_lim h" "distinct (map fst (hp_maps h a))" "list_all (\<lambda>e. sl_addr (snd e) < hp_lim h) (hp_maps h a)"
      using assms(1) by (simp_all add: valid_map_def Some)
    have r: "m' = Some (hp_lim h)" "h' = copy_loop (hp_lim h) (hp_maps h a) ?h1"
      using assms(2) by (simp_all add: copyStringSliceMap_def Some new_map_def)
    have o: "owns (hp_lim h) (hp_lim ?h1) (hp_lim h) ?h1" by (simp add: owns_def)
    note C = copy_loop_copies [OF o v(2) _ v(3)]
    have "map_view h' (hp_lim h) = map_view h a"
      using C by (auto simp: r map_view_def slice_view_def)
    with C v(1) show ?thesis
      by (auto simp: r own_opt_def half_view_def extends_def Some)
  qed
  then show "own_opt (hp_lim h) (hp_lim h') m' h'" "half_view h' m' = half_view h m" "extends h h'" by blast+
qed

section \<open>Records\<close>

text \<open>Two maps owned in separate regions above the old limit, as the redactor works on them.\<close>

definition workspace :: "heap \<Rightarrow> nat \<Rightarrow> nat option \<Rightarrow> nat option \<Rightarrow> heap \<Rightarrow> bool" where
  "workspace h0 mid m1 m2 h \<longleftrightarrow> hp_lim h0 \<le> mid \<and> own_opt (hp_lim h0) mid m1 h \<and> own_opt mid (hp_lim h) m2 h \<and> extends h0 h"

context map_procedure
begin

lemma work_first:
  assumes "workspace h0 mid m1 m2 h"
  shows "workspace h0 mid m1 m2 (on_map proc m1 h)" "half_view (on_map proc m1 h) m1 = map_option f (half_view h m1)"
    "half_view (on_map proc m1 h) m2 = half_view h m2"
proof -
  have w: "hp_lim h0 \<le> mid" "own_opt (hp_lim h0) mid m1 h" "own_opt mid (hp_lim h) m2 h" "extends h0 h"
    using assms by (simp_all add: workspace_def)
  note o = on_option [OF w(2)] and b = beside [OF w(2,3)]
  show "half_view (on_map proc m1 h) m1 = map_option f (half_view h m1)" by (rule o(3))
  show "half_view (on_map proc m1 h) m2 = half_view h m2" by (rule b(2)) simp
  show "workspace h0 mid m1 m2 (on_map proc m1 h)"
    using w o b(1) extends_outside [OF w(4) o(2)] by (simp add: workspace_def same_outside_def)
qed

lemma work_second:
  assumes "workspace h0 mid m1 m2 h"
  shows "workspace h0 mid m1 m2 (on_map proc m2 h)" "half_view (on_map proc m2 h) m2 = map_option f (half_view h m2)"
    "half_view (on_map proc m2 h) m1 = half_view h m1"
proof -
  have w: "hp_lim h0 \<le> mid" "own_opt (hp_lim h0) mid m1 h" "own_opt mid (hp_lim h) m2 h" "extends h0 h"
    using assms by (simp_all add: workspace_def)
  note o = on_option [OF w(3)] and b = beside [OF w(3,2)]
  show "half_view (on_map proc m2 h) m2 = map_option f (half_view h m2)" by (rule o(3))
  show "half_view (on_map proc m2 h) m1 = half_view h m1" by (rule b(2)) simp
  show "workspace h0 mid m1 m2 (on_map proc m2 h)"
    using w o b(1) extends_outside [OF w(4) o(2)] by (simp add: workspace_def same_outside_def)
qed

end

lemma workspace_copy:
  assumes "valid_map h m1" "valid_map h m2" "copyStringSliceMap m1 h = (m1', h1)" "copyStringSliceMap m2 h1 = (m2', h2)"
  shows "workspace h (hp_lim h1) m1' m2' h2" "half_view h2 m1' = half_view h m1" "half_view h2 m2' = half_view h m2"
proof -
  note c1 = copyStringSliceMap_copies [OF assms(1,3)]
  have v: "valid_map h1 m2" "half_view h1 m2 = half_view h m2" using valid_extends [OF assms(2) c1(3)] by auto
  note c2 = copyStringSliceMap_copies [OF v(1) assms(4)]
  have o: "own_opt (hp_lim h) (hp_lim h1) m1' h2" "half_view h2 m1' = half_view h1 m1'"
    using c1(1) c2(3) by (auto simp: own_opt_def owns_def extends_def list_all_iff in_bounds_def half_view_def map_view_def slice_view_def split: option.splits)
  show "half_view h2 m1' = half_view h m1" "half_view h2 m2' = half_view h m2" using o(2) c1(2) c2(2) v(2) by simp_all
  show "workspace h (hp_lim h1) m1' m2' h2" using o(1) c1(3) c2(1) extends_trans [OF c1(3) c2(3)]
    by (simp add: workspace_def extends_def)
qed


lemma entries_map_option: "f [] = [] \<Longrightarrow> entries (map_option f m) = f (entries m)"
  by (cases m) (simp_all add: entries_def)

lemma regex_captured_refines:
  assumes "workspace h0 mid m1 m2 h" "regex_captured_heap el rules m1 m2 body h = (body', h')"
    "regex_captured_loop el rules (body, entries (half_view h m1), entries (half_view h m2)) = (b, hh, qq)"
  shows "workspace h0 mid m1 m2 h' \<and> body' = b \<and>
    half_view h' m1 = map_option (\<lambda>_. hh) (half_view h m1) \<and> half_view h' m2 = map_option (\<lambda>_. qq) (half_view h m2)"
  using assms
proof (induction rules arbitrary: body h)
  case Nil
  then show ?case by (cases "half_view h m1"; cases "half_view h m2") (auto simp: entries_def)
next
  case (Cons rule rules)
  let ?h1 = "on_map (applyRegexRulesHeaderMap_heap [rule]) m1 h"
  let ?h2 = "on_map (\<lambda>a h. regex_query_loop rule (hp_maps h a) h) m2 ?h1"
  note A = regex_headers.work_first [OF Cons.prems(1), of "[rule]"]
  note B = regex_query.work_second [OF A(1), of rule]
  have e: "entries (half_view ?h2 m1) = applyRegexRulesHeaderMap [rule] (entries (half_view h m1))"
    "entries (half_view ?h2 m2) = map (\<lambda>(key, vals). (key, map (rx_replace rule) vals)) (entries (half_view h m2))"
    unfolding A B by (simp_all add: entries_map_option applyRegexRulesHeaderMap_def)
  have r: "regex_captured_heap el rules m1 m2 (if el then rx_replace rule body else body) ?h2 = (body', h')"
    "regex_captured_loop el rules (if el then rx_replace rule body else body, entries (half_view ?h2 m1), entries (half_view ?h2 m2)) = (b, hh, qq)"
    using Cons.prems(2,3) by (simp_all add: e)
  from Cons.IH [OF B(1) r] show ?case unfolding A B by (simp add: option.map_comp comp_def)
qed

lemma regex_rules_refine:
  assumes "workspace h0 mid m1 m2 h"
    "(if rules = [] then (body, h) else regex_captured_heap (body \<noteq> []) rules m1 m2 body h) = (body', h')"
    "applyRegexRulesCaptured rules (body, entries (half_view h m1), entries (half_view h m2)) = (b, hh, qq)"
  shows "workspace h0 mid m1 m2 h'" "body' = b" "half_view h' m1 = map_option (\<lambda>_. hh) (half_view h m1)"
    "half_view h' m2 = map_option (\<lambda>_. qq) (half_view h m2)"
proof -
  have "workspace h0 mid m1 m2 h' \<and> body' = b \<and> half_view h' m1 = map_option (\<lambda>_. hh) (half_view h m1) \<and>
      half_view h' m2 = map_option (\<lambda>_. qq) (half_view h m2)"
  proof (cases "rules = []")
    case True
    with assms show ?thesis
      by (cases "half_view h m1"; cases "half_view h m2") (auto simp: applyRegexRulesCaptured_def entries_def)
  next
    case False
    with regex_captured_refines [OF assms(1), of "body \<noteq> []" rules body body' h' b hh qq] assms(2,3) show ?thesis
      by (simp add: applyRegexRulesCaptured_def)
  qed
  then show "workspace h0 mid m1 m2 h'" "body' = b" "half_view h' m1 = map_option (\<lambda>_. hh) (half_view h m1)"
    "half_view h' m2 = map_option (\<lambda>_. qq) (half_view h m2)" by blast+
qed

lemma redactCapturedRequest_refines:
  assumes "valid_map h (hq_headers v)" "valid_map h (hq_query v)" "redactCapturedRequest_heap L r v h errs = (v', h', e)"
  shows "extends h h'" "record_view h' (HeapRequest v') = Request (fst (redactCapturedRequest L r
      ((hq_value v)\<lparr>cr_headers := half_view h (hq_headers v), cr_query := half_view h (hq_query v)\<rparr>) errs))"
    "e = snd (redactCapturedRequest L r ((hq_value v)\<lparr>cr_headers := half_view h (hq_headers v), cr_query := half_view h (hq_query v)\<rparr>) errs)"
proof -
  obtain m1 k1 where c1: "copyStringSliceMap (hq_headers v) h = (m1, k1)" by fastforce
  obtain m2 k2 where c2: "copyStringSliceMap (hq_query v) k1 = (m2, k2)" by fastforce
  note W = workspace_copy [OF assms(1,2) c1 c2]
  let ?o0 = "v\<lparr>hq_headers := m1, hq_query := m2\<rparr>"
  obtain o1 h1 where a: "applyCookieRules_heap (rs_cookies r) ?o0 k2 = (o1, h1)" by fastforce
  have h1: "h1 = on_map (applyCookieRulesToHeaders_heap (rs_cookies r)) m1 k2" and o1: "hq_headers o1 = m1" "hq_query o1 = m2"
    using a by (auto simp: applyCookieRules_heap_def on_map_def applyCookieRulesToHeaders_heap_def split: option.splits if_splits)
  note C = cookie_rules.work_first [OF W(1), of "rs_cookies r", folded h1]
  let ?h2 = "on_map (applyHeaderRules_heap L (rs_header_names r)) m1 h1"
  let ?h3 = "on_map (applyQueryRules_heap L (rs_query_params r)) m2 ?h2"
  note H = header_rules.work_first [OF C(1), of L "rs_header_names r"]
  note Q = query_rules.work_second [OF H(1), of L "rs_query_params r"]
  let ?rec = "(hq_value v)\<lparr>cr_headers := half_view h (hq_headers v), cr_query := half_view h (hq_query v)\<rparr>"
  have hv: "half_view h (hq_headers v) = None \<longleftrightarrow> m1 = None"
    using c1 by (auto simp: half_view_def copyStringSliceMap_def new_map_def split: option.splits)
  have ck: "applyCookieRules (rs_cookies r) ?rec = (hq_value o1)\<lparr>cr_headers := half_view h1 m1, cr_query := half_view h1 m2\<rparr>"
    using a hv unfolding C W by (auto simp: applyCookieRules_heap_def applyCookieRules_def applyCookieRulesToHeaders_def split: option.splits if_splits)
  obtain body e1 where j: "applyJSONPathRulesBody L (rs_json_paths r) (cr_content_type (hq_value o1)) (cr_body (hq_value o1), errs) = (body, e1)" by fastforce
  obtain b hh qq where g: "applyRegexRulesCaptured (rs_regex r) (body, entries (half_view ?h3 m1), entries (half_view ?h3 m2)) = (b, hh, qq)"
    by (metis prod_cases3)
  obtain body' h4 where y: "(if rs_regex r = [] then (body, on_map (applyQueryRules_heap L (rs_query_params r)) (hq_query o1)
        (on_map (applyHeaderRules_heap L (rs_header_names r)) (hq_headers o1) h1))
      else regex_captured_heap (body \<noteq> []) (rs_regex r) (hq_headers o1) (hq_query o1) body
        (on_map (applyQueryRules_heap L (rs_query_params r)) (hq_query o1) (on_map (applyHeaderRules_heap L (rs_header_names r)) (hq_headers o1) h1))) =
      (body', h4)" by fastforce
  note x = y [unfolded o1]
  have res: "v' = o1\<lparr>hq_value := (hq_value o1)\<lparr>cr_body := body'\<rparr>\<rparr>" "h' = h4" "e = e1"
    using assms(3) by (auto simp: redactCapturedRequest_heap_def Let_def shallowCopyCapturedRequest_def c1 c2 a j y)
  note F = regex_rules_refine [OF Q(1) x g]
  show "extends h h'" using F(1) by (simp add: res workspace_def)
  have eq: "redactCapturedRequest L r ?rec errs = ((hq_value o1)\<lparr>cr_headers := half_view h4 m1, cr_query := half_view h4 m2, cr_body := b\<rparr>, e1)"
    using j g by (simp add: redactCapturedRequest_def Let_def ck F(3,4) Q H)
  show "record_view h' (HeapRequest v') = Request (fst (redactCapturedRequest L r ?rec errs))" unfolding eq by (simp add: res o1 F(2))
  show "e = snd (redactCapturedRequest L r ?rec errs)" unfolding eq by (simp add: res)
qed


lemma redact_half_procedure:
  "map_procedure (\<lambda>a h. applyRegexRulesHeaderMap_heap rx a (applyHeaderRules_heap L hs a (applyCookieRulesToHeaders_heap cs a h)))
     (\<lambda>m. applyRegexRulesHeaderMap rx (applyHeaderRulesMap L hs (applyCookieRulesToHeaders cs m)))"
  by (rule map_procedure_comp [OF map_procedure_comp [OF cookie_rules.map_procedure_axioms header_rules.map_procedure_axioms]
        regex_headers.map_procedure_axioms])

interpretation half: map_procedure
    "\<lambda>a h. applyRegexRulesHeaderMap_heap rx a (applyHeaderRules_heap L hs a (applyCookieRulesToHeaders_heap cs a h))"
    "\<lambda>m. applyRegexRulesHeaderMap rx (applyHeaderRulesMap L hs (applyCookieRulesToHeaders cs m))" for rx L hs cs
  by (rule redact_half_procedure)

abbreviation half_proc :: "redact_libs \<Rightarrow> ruleset \<Rightarrow> nat \<Rightarrow> heap \<Rightarrow> heap" where
  "half_proc L r a h \<equiv> applyRegexRulesHeaderMap_heap (rs_regex r) a
     (applyHeaderRules_heap L (rs_header_names r) a (applyCookieRulesToHeaders_heap (rs_cookies r) a h))"

text \<open>The half of an event, in place and on values.\<close>

lemma redact_half_heap_eq:
  assumes "redact_half L r headers body ct errs = (hh, b, e)"
  shows "redact_half_heap L r m body ct h errs = (b, on_map (half_proc L r) m h, e)"
    "hh = map_option (\<lambda>m. applyRegexRulesHeaderMap (rs_regex r) (applyHeaderRulesMap L (rs_header_names r) (applyCookieRulesToHeaders (rs_cookies r) m))) headers"
  using assms by (auto simp: redact_half_heap_def redact_half_def on_map_def Let_def option.map_comp comp_def split: prod.splits option.splits)

lemma redactResponseEvent_refines:
  assumes "valid_map h (hv_headers v)" "redactResponseEvent_heap L r v h errs = (v', h', e)"
  shows "extends h h' \<and> record_view h' (HeapResponse v') = Response (fst (redactResponseEvent L r ((hv_value v)\<lparr>re_headers := half_view h (hv_headers v)\<rparr>) errs)) \<and>
    e = snd (redactResponseEvent L r ((hv_value v)\<lparr>re_headers := half_view h (hv_headers v)\<rparr>) errs)"
proof -
  obtain m1 k1 where c1: "copyStringSliceMap (hv_headers v) h = (m1, k1)" by fastforce
  obtain m2 k2 where c2: "copyStringSliceMap None k1 = (m2, k2)" by fastforce
  have n: "m2 = None" "k2 = k1" "valid_map h None" using c2 by (simp_all add: copyStringSliceMap_def valid_map_def)
  note W = workspace_copy [OF assms(1) n(3) c1 c2, unfolded n]
  obtain hh b e1 where half: "redact_half L r (half_view h (hv_headers v)) (re_body (hv_value v)) (re_content_type (hv_value v)) errs = (hh, b, e1)"
    by (metis prod_cases3)
  note E = redact_half_heap_eq [OF half]
  note P = half.work_first [OF W(1), of "rs_regex r" L "rs_header_names r" "rs_cookies r"]
  show ?thesis using assms(2) P(1,2) half
    by (auto simp: redactResponseEvent_heap_def redactResponseEvent_def shallowCopyResponseEvent_def c1 E(1) E(2) W(2) workspace_def)
qed

lemma redactOutboundEvent_refines:
  assumes "valid_map h (hb_request_headers v)" "valid_map h (hb_response_headers v)" "redactOutboundEvent_heap L r v h errs = (v', h', e)"
    "record_view h (HeapOutbound v) = Outbound rec"
  shows "extends h h' \<and> record_view h' (HeapOutbound v') = Outbound (fst (redactOutboundEvent L r rec errs)) \<and>
    e = snd (redactOutboundEvent L r rec errs)"
proof -
  let ?q = "oe_request (hb_value v)"
  have rec: "rec = (hb_value v)\<lparr>oe_request := ?q\<lparr>oq_headers := half_view h (hb_request_headers v)\<rparr>,
       oe_response := map_option (\<lambda>p. p\<lparr>or_headers := half_view h (hb_response_headers v)\<rparr>) (oe_response (hb_value v))\<rparr>"
    using assms(4) by simp
  obtain m1 k1 where c1: "copyStringSliceMap (hb_request_headers v) h = (m1, k1)" by fastforce
  define src where "src = (if oe_response (hb_value v) = None then None else hb_response_headers v)"
  obtain m2 k2 where c2: "copyStringSliceMap src k1 = (m2, k2)" by fastforce
  have v2: "valid_map h src" using assms(2) by (simp add: src_def valid_map_def)
  note W = workspace_copy [OF assms(1) v2 c1 c2]
  obtain hh b e1 where half: "redact_half L r (half_view h (hb_request_headers v)) (oq_body ?q) (oq_content_type ?q) errs = (hh, b, e1)"
    by (metis prod_cases3)
  note E = redact_half_heap_eq [OF half]
  note P = half.work_first [OF W(1), of "rs_regex r" L "rs_header_names r" "rs_cookies r"]
  show ?thesis
  proof (cases "oe_response (hb_value v)")
    case None
    then have "k2 = k1" "m2 = None" using c2 by (simp_all add: src_def copyStringSliceMap_def)
    with None assms(3) P(1,2) half W(2) show ?thesis
      by (auto simp: redactOutboundEvent_heap_def redactOutboundEvent_def shallowCopyOutboundEvent_def Let_def c1 E(1) E(2) rec workspace_def)
  next
    case (Some p)
    then have s: "src = hb_response_headers v" by (simp add: src_def)
    obtain hh' b' e2 where half': "redact_half L r (half_view h (hb_response_headers v)) (or_body p) (or_content_type p) e1 = (hh', b', e2)"
      by (metis prod_cases3)
    note E' = redact_half_heap_eq [OF half']
    note P' = half.work_second [OF P(1), of "rs_regex r" L "rs_header_names r" "rs_cookies r"]
    show ?thesis using Some assms(3) P(2,3) P' half half' c2 [unfolded s]
      by (auto simp: redactOutboundEvent_heap_def redactOutboundEvent_def shallowCopyOutboundEvent_def Let_def c1 E(1) E(2) E'(1) E'(2) W(2,3) [unfolded s] rec workspace_def)
  qed
qed

section \<open>Properties\<close>

fun valid_record :: "heap \<Rightarrow> heap_record \<Rightarrow> bool" where
  "valid_record h (HeapRequest v) = (valid_map h (hq_headers v) \<and> valid_map h (hq_query v))"
| "valid_record h (HeapResponse v) = valid_map h (hv_headers v)"
| "valid_record h (HeapOutbound v) = (valid_map h (hb_request_headers v) \<and> valid_map h (hb_response_headers v))"

lemma record_extends:
  assumes "valid_record h rec" "extends h h'"
  shows "record_view h' rec = record_view h rec"
proof -
  have "half_view h' m = half_view h m" if "valid_map h m" for m using valid_extends [OF that assms(2)] by simp
  then show ?thesis using assms(1) by (cases rec) (simp_all only: valid_record.simps record_view.simps)
qed

lemma Redact_heap_refines:
  assumes "valid_record h rec" "Redact_heap L r rec h errs = (out, h', e)"
  shows "extends h h' \<and> record_view h' out = fst (Redact L r (record_view h rec) errs) \<and> e = snd (Redact L r (record_view h rec) errs)"
proof (cases "IsUnredacted r")
  case True
  with assms(2) show ?thesis by (simp add: Redact_heap_def Redact_def)
next
  case False
  show ?thesis
  proof (cases rec)
    case (HeapRequest v)
    obtain v' k e' where c: "redactCapturedRequest_heap L r v h errs = (v', k, e')" by (metis prod_cases3)
    have "valid_map h (hq_headers v)" "valid_map h (hq_query v)" using assms(1) by (simp_all add: HeapRequest)
    from redactCapturedRequest_refines [OF this c] show ?thesis
      using assms(2) False c by (auto simp: Redact_heap_def Redact_def HeapRequest Let_def split: prod.splits)
  next
    case (HeapResponse v)
    obtain v' k e' where c: "redactResponseEvent_heap L r v h errs = (v', k, e')" by (metis prod_cases3)
    have "valid_map h (hv_headers v)" using assms(1) by (simp add: HeapResponse)
    from redactResponseEvent_refines [OF this c] show ?thesis
      using assms(2) False c by (auto simp: Redact_heap_def Redact_def HeapResponse Let_def split: prod.splits)
  next
    case (HeapOutbound v)
    obtain v' k e' where c: "redactOutboundEvent_heap L r v h errs = (v', k, e')" by (metis prod_cases3)
    have "valid_map h (hb_request_headers v)" "valid_map h (hb_response_headers v)" using assms(1) by (simp_all add: HeapOutbound)
    from redactOutboundEvent_refines [OF this c] show ?thesis
      using assms(2) False c by (auto simp: Redact_heap_def Redact_def HeapOutbound Let_def split: prod.splits)
  qed
qed

text \<open>
  C7. The redactor works on copies, and its in-place loops compute what Redact describes. However
  the maps and slices of the record are shared, among each other and with other records, the
  record \<open>Redact\<close> returns is the one of the functional description, with the same error count; not
  one array or map that existed before the call has changed, so the record that was passed in
  and every other record of the program still read the same.
\<close>

theorem redact_works_on_copies:
  assumes "valid_record h rec" "valid_record h other" "Redact_heap L r rec h errs = (out, h', e)"
  shows "record_view h' out = fst (Redact L r (record_view h rec) errs) \<and> e = snd (Redact L r (record_view h rec) errs) \<and>
    record_view h' rec = record_view h rec \<and> record_view h' other = record_view h other \<and>
    (\<forall>x < hp_lim h. hp_arrays h' x = hp_arrays h x \<and> hp_maps h' x = hp_maps h x)"
proof -
  note R = Redact_heap_refines [OF assms(1,3)]
  then have x: "extends h h'" by blast
  then show ?thesis using R record_extends [OF assms(1) x] record_extends [OF assms(2) x] unfolding extends_def by blast
qed

text \<open>A heap in which two header names and the query of one request share an array.\<close>

definition shared_heap :: heap where
  "shared_heap = \<lparr>hp_arrays = (\<lambda>x. if x = 0 then [''secret''] else if x = 1 then [''sid=1'', ''lang=en''] else []),
     hp_maps = (\<lambda>x. if x = 2 then [(''Authorization'', \<lparr>sl_addr = 0, sl_len = 1\<rparr>), (''X-Debug'', \<lparr>sl_addr = 0, sl_len = 1\<rparr>),
         (''Set-Cookie'', \<lparr>sl_addr = 1, sl_len = 2\<rparr>)]
       else if x = 3 then [(''q'', \<lparr>sl_addr = 0, sl_len = 1\<rparr>)] else []),
     hp_lim = 4\<rparr>"

definition shared_request :: heap_record where
  "shared_request = HeapRequest \<lparr>hq_value = sample_request ''r1'' 5 ''c1'', hq_headers = Some 2, hq_query = Some 3\<rparr>"

theorem redact_works_on_copies_witness:
  "\<exists>out h' e. Redact_heap libs sample_rules shared_request shared_heap 0 = (out, h', e) \<and>
     record_view h' out = fst (Redact libs sample_rules (record_view shared_heap shared_request) 0) \<and>
     record_view h' shared_request = record_view shared_heap shared_request \<and>
     hp_arrays h' 0 = [''secret''] \<and> hp_maps h' 3 = [(''q'', \<lparr>sl_addr = 0, sl_len = 1\<rparr>)]"
proof -
  obtain out h' e where r: "Redact_heap libs sample_rules shared_request shared_heap 0 = (out, h', e)" by (metis prod_cases3)
  have v: "valid_record shared_heap shared_request"
    by (simp add: shared_request_def shared_heap_def valid_map_def)
  from redact_works_on_copies [OF v v r] r show ?thesis by (auto simp: shared_heap_def)
qed

end
