(* ===== verification/Diff.thy ===== *)
theory Diff
  imports Redact_Heap Config
begin

text \<open>
  The dry run of the redaction rules, internal/cli/redactcmd: the diff of a record before and
  after redaction (diff.go) and the subcommand that prints it (redactcmd.go). A Go map is an
  association list whose order is one possible iteration order. \<open>strconv.Quote\<close> (the verb \<open>%q\<close>,
  which rests on the Unicode tables), the file system and encoding/json are arguments. \<open>Run\<close> is
  described on values; the section on the before-side shows, on the heap of Redact_Heap, that
  its deep copy \<open>cloneRecord\<close> and the redactor leave the two sides as \<open>Run\<close> assumes.
\<close>

section \<open>Counting runes\<close>

definition byte_in :: "nat \<Rightarrow> nat \<Rightarrow> char \<Rightarrow> bool" where
  "byte_in lo hi c = (lo \<le> (of_char c :: nat) \<and> (of_char c :: nat) \<le> hi)"

text \<open>
  The width of the first rune of a non-empty string, after the accept ranges of unicode/utf8:
  a byte that starts no valid sequence is an error rune of width one.
\<close>

definition rune_width :: "string \<Rightarrow> nat" where
  "rune_width s =
     (case s of
        a # b # rest \<Rightarrow>
          if byte_in 0xC2 0xDF a \<and> byte_in 0x80 0xBF b then 2
          else (case rest of
              c # rest' \<Rightarrow>
                if (byte_in 0xE0 0xE0 a \<and> byte_in 0xA0 0xBF b \<or> byte_in 0xE1 0xEC a \<and> byte_in 0x80 0xBF b \<or>
                    byte_in 0xED 0xED a \<and> byte_in 0x80 0x9F b \<or> byte_in 0xEE 0xEF a \<and> byte_in 0x80 0xBF b) \<and> byte_in 0x80 0xBF c then 3
                else (case rest' of
                    d # _ \<Rightarrow>
                      if (byte_in 0xF0 0xF0 a \<and> byte_in 0x90 0xBF b \<or> byte_in 0xF1 0xF3 a \<and> byte_in 0x80 0xBF b \<or>
                          byte_in 0xF4 0xF4 a \<and> byte_in 0x80 0x8F b) \<and> byte_in 0x80 0xBF c \<and> byte_in 0x80 0xBF d then 4 else 1
                  | [] \<Rightarrow> 1)
            | [] \<Rightarrow> 1)
      | _ \<Rightarrow> 1)"

lemma rune_width_pos: "0 < rune_width s"
  by (simp add: rune_width_def split: list.split)

function RuneCount :: "string \<Rightarrow> nat" where
  "RuneCount [] = 0"
| "RuneCount (c # cs) = Suc (RuneCount (drop (rune_width (c # cs)) (c # cs)))"
  by pat_completeness auto
termination by (relation "measure length") (use rune_width_pos in auto)

section \<open>The diff of two records\<close>

record diff_entry =
  df_path :: string
  df_before :: string
  df_after :: string

definition removedMarker :: string where "removedMarker = ''<removed>''"

definition addedMarker :: string where "addedMarker = ''<added>''"

definition arrow :: string where "arrow = '' -> ''"

definition canonicalHeaderKey :: "string \<Rightarrow> string" where
  "canonicalHeaderKey k = CanonicalMIMEHeaderKey k"

definition identityKey :: "string \<Rightarrow> string" where
  "identityKey k = k"

definition masked_value :: "string \<Rightarrow> string" where
  "masked_value v = ''<masked: '' @ Itoa (int (RuneCount v)) @ '' chars>''"

definition formatSliceSide :: "(string \<Rightarrow> string) \<Rightarrow> string list \<Rightarrow> bool \<Rightarrow> string \<Rightarrow> bool \<Rightarrow> string" where
  "formatSliceSide quote vals present absentMarker maskv =
     (if \<not> present then absentMarker
      else if vals = [] then [CHR 0x22, CHR 0x22]
      else join '', '' (map (\<lambda>v. if maskv then masked_value v else quote v) vals))"

fun stringSliceEqual :: "string list \<Rightarrow> string list \<Rightarrow> bool" where
  "stringSliceEqual [] [] = True"
| "stringSliceEqual (a # as) (b # bs) = (a = b \<and> stringSliceEqual as bs)"
| "stringSliceEqual _ _ = False"

text \<open>One side of a merged key; the zero value is the absent side.\<close>

record side =
  sd_display :: string
  sd_vals :: "string list"
  sd_present :: bool

definition no_side :: side where
  "no_side = \<lparr>sd_display = [], sd_vals = [], sd_present = False\<rparr>"

definition some_side :: "string \<times> string list \<Rightarrow> side" where
  "some_side e = \<lparr>sd_display = fst e, sd_vals = snd e, sd_present = True\<rparr>"

definition merge_before :: "(string \<Rightarrow> string) \<Rightarrow> hmap \<Rightarrow> (string \<times> side \<times> side) list" where
  "merge_before normaliseKey before = fold (\<lambda>e m. AList.update (normaliseKey (fst e)) (some_side e, no_side) m) before []"

definition merge_after :: "(string \<Rightarrow> string) \<Rightarrow> hmap \<Rightarrow> (string \<times> side \<times> side) list \<Rightarrow> (string \<times> side \<times> side) list" where
  "merge_after normaliseKey after merged =
     fold (\<lambda>e m. let nk = normaliseKey (fst e) in
         AList.update nk (case map_of m nk of Some p \<Rightarrow> (fst p, some_side e) | None \<Rightarrow> (no_side, some_side e)) m) after merged"

definition unchanged_pair :: "side \<times> side \<Rightarrow> bool" where
  "unchanged_pair p = (sd_present (fst p) \<and> sd_present (snd p) \<and> stringSliceEqual (sd_vals (fst p)) (sd_vals (snd p)))"

definition pair_display :: "side \<times> side \<Rightarrow> string" where
  "pair_display p = (if sd_display (fst p) = [] then sd_display (snd p) else sd_display (fst p))"

definition pair_entry :: "(string \<Rightarrow> string) \<Rightarrow> string \<Rightarrow> bool \<Rightarrow> side \<times> side \<Rightarrow> diff_entry" where
  "pair_entry quote sect maskBefore p =
     \<lparr>df_path = sect @ ''.'' @ pair_display p,
      df_before = formatSliceSide quote (sd_vals (fst p)) (sd_present (fst p)) addedMarker maskBefore,
      df_after = formatSliceSide quote (sd_vals (snd p)) (sd_present (snd p)) removedMarker False\<rparr>"

definition diffStringSliceMap ::
  "(string \<Rightarrow> string) \<Rightarrow> string \<Rightarrow> hmap \<Rightarrow> hmap \<Rightarrow> (string \<Rightarrow> string) \<Rightarrow> bool \<Rightarrow> diff_entry list" where
  "diffStringSliceMap quote sect before after normaliseKey maskBefore =
     (let merged = merge_after normaliseKey after (merge_before normaliseKey before);
          keys = SliceStable (<) (map fst merged)
      in map (\<lambda>nk. pair_entry quote sect maskBefore (the (map_of merged nk)))
           (filter (\<lambda>nk. \<not> unchanged_pair (the (map_of merged nk))) keys))"

text \<open>The map of cookie values by name: a later cookie of the same name wins.\<close>

definition cookie_map :: "cookie list \<Rightarrow> (string \<times> string) list" where
  "cookie_map cs = fold (\<lambda>c m. AList.update (ck_name c) (ck_value c) m) cs []"

definition cookie_entry :: "bool \<Rightarrow> string \<Rightarrow> string option \<Rightarrow> string option \<Rightarrow> diff_entry" where
  "cookie_entry maskBefore n bv av =
     \<lparr>df_path = ''cookies.'' @ n,
      df_before = (case bv of None \<Rightarrow> addedMarker | Some v \<Rightarrow> if maskBefore then masked_value v else v),
      df_after = (case av of None \<Rightarrow> removedMarker | Some v \<Rightarrow> v)\<rparr>"

definition diffCookieSlice :: "cookie list \<Rightarrow> cookie list \<Rightarrow> bool \<Rightarrow> diff_entry list" where
  "diffCookieSlice before after maskBefore =
     (let bm = cookie_map before; am = cookie_map after;
          sorted = SliceStable (<) (remdups (map fst bm @ map fst am))
      in map (\<lambda>n. cookie_entry maskBefore n (map_of bm n) (map_of am n))
           (filter (\<lambda>n. map_of bm n \<noteq> map_of am n) sorted))"

definition bytes_label :: "string \<Rightarrow> string" where
  "bytes_label b = Itoa (int (length b)) @ '' bytes''"

definition entry_lt :: "diff_entry \<Rightarrow> diff_entry \<Rightarrow> bool" where
  "entry_lt e f = (df_path e < df_path f)"

definition diffRecords :: "(string \<Rightarrow> string) \<Rightarrow> captured_request \<Rightarrow> captured_request \<Rightarrow> bool \<Rightarrow> diff_entry list" where
  "diffRecords quote before after maskBefore =
     SliceStable entry_lt
      ((if cr_path before \<noteq> cr_path after
        then [\<lparr>df_path = ''path'', df_before = cr_path before, df_after = cr_path after\<rparr>] else []) @
       diffStringSliceMap quote ''headers'' (entries (cr_headers before)) (entries (cr_headers after)) canonicalHeaderKey maskBefore @
       diffStringSliceMap quote ''query'' (entries (cr_query before)) (entries (cr_query after)) identityKey maskBefore @
       diffCookieSlice (cr_cookies before) (cr_cookies after) maskBefore @
       (if cr_body before \<noteq> cr_body after
        then [\<lparr>df_path = ''body'', df_before = bytes_label (cr_body before), df_after = bytes_label (cr_body after)\<rparr>] else []))"

definition renderDiff :: "diff_entry list \<Rightarrow> string" where
  "renderDiff es =
     (if es = [] then ''no changes'' @ [CHR 0x0A]
      else concat (map (\<lambda>e. df_path e @ '': '' @ df_before e @ arrow @ df_after e @ [CHR 0x0A]) es))"

section \<open>The subcommand\<close>

record redact_flags =
  fl_test :: string
  fl_config :: string
  fl_show_values :: bool

definition ParseBool :: "string \<Rightarrow> bool option" where
  "ParseBool s =
     (if s \<in> set [''1'', ''t'', ''T'', ''TRUE'', ''true'', ''True''] then Some True
      else if s \<in> set [''0'', ''f'', ''F'', ''FALSE'', ''false'', ''False''] then Some False else None)"

text \<open>The name and the value of an argument such as \<open>-config=x\<close>; the first byte of a name is no separator.\<close>

definition split_flag :: "string \<Rightarrow> string \<times> string option" where
  "split_flag nm =
     (case index_byte (drop 1 nm) (CHR ''='') of
        None \<Rightarrow> (nm, None) | Some i \<Rightarrow> (take (Suc i) nm, Some (drop (i + 2) nm)))"

datatype flag_arg = NotAFlag | BadFlag | FlagArg string "string option"

definition flag_arg_of :: "string \<Rightarrow> flag_arg" where
  "flag_arg_of s =
     (if length s < 2 \<or> hd s \<noteq> CHR ''-'' then NotAFlag
      else if s = ''--'' then NotAFlag
      else (let nm = drop (if s ! 1 = CHR ''-'' then 2 else 1) s in
        if nm = [] \<or> hd nm = CHR ''-'' \<or> hd nm = CHR ''='' then BadFlag
        else FlagArg (fst (split_flag nm)) (snd (split_flag nm))))"

definition set_string_flag :: "string \<Rightarrow> string \<Rightarrow> redact_flags \<Rightarrow> redact_flags" where
  "set_string_flag nm v f = (if nm = ''test'' then f\<lparr>fl_test := v\<rparr> else f\<lparr>fl_config := v\<rparr>)"

text \<open>\<open>flag.FlagSet.Parse\<close> for the three flags of the subcommand; None is any error, help included.\<close>

fun parse_flags :: "string list \<Rightarrow> redact_flags \<Rightarrow> redact_flags option" where
  "parse_flags [] f = Some f"
| "parse_flags (s # args) f =
     (case flag_arg_of s of
        NotAFlag \<Rightarrow> Some f
      | BadFlag \<Rightarrow> None
      | FlagArg nm v \<Rightarrow>
          if nm = ''show-values'' then
            (case v of
               None \<Rightarrow> parse_flags args (f\<lparr>fl_show_values := True\<rparr>)
             | Some t \<Rightarrow> (case ParseBool t of None \<Rightarrow> None | Some b \<Rightarrow> parse_flags args (f\<lparr>fl_show_values := b\<rparr>)))
          else if nm = ''test'' \<or> nm = ''config'' then
            (case v of
               Some t \<Rightarrow> parse_flags args (set_string_flag nm t f)
             | None \<Rightarrow> (case args of [] \<Rightarrow> None | t # args' \<Rightarrow> parse_flags args' (set_string_flag nm t f)))
          else None)"

record redact_env =
  rv_load :: load_libs
  rv_redact :: redact_libs
  rv_quote :: "string \<Rightarrow> string"
  rv_read :: "string \<Rightarrow> string option"
  rv_decode :: "string \<Rightarrow> captured_request option"
  rv_write :: "string \<Rightarrow> bool"

definition dry_redact :: "redact_libs \<Rightarrow> ruleset \<Rightarrow> captured_request \<Rightarrow> captured_request option" where
  "dry_redact L rules rec = (case fst (Redact L rules (Request rec) 0) of Request after \<Rightarrow> Some after | _ \<Rightarrow> None)"

text \<open>\<open>Run\<close>: the exit code and the text a completed write put on the standard output.\<close>

definition Run :: "redact_env \<Rightarrow> string list \<Rightarrow> env \<Rightarrow> nat \<times> string" where
  "Run V args env =
     (case parse_flags args \<lparr>fl_test = [], fl_config = [], fl_show_values = False\<rparr> of
        None \<Rightarrow> (2, [])
      | Some f \<Rightarrow>
          if fl_test f = [] then (2, [])
          else (case Load (rv_load V) (fl_config f) env of
            Inl _ \<Rightarrow> (1, [])
          | Inr cfg \<Rightarrow> (case NewRuleset (rv_redact V) (cf_redaction cfg) of
              Inl _ \<Rightarrow> (1, [])
            | Inr rules \<Rightarrow> (case rv_read V (fl_test f) of
                None \<Rightarrow> (1, [])
              | Some data \<Rightarrow> (case rv_decode V data of
                  None \<Rightarrow> (1, [])
                | Some rec \<Rightarrow> (case dry_redact (rv_redact V) rules rec of
                    None \<Rightarrow> (1, [])
                  | Some after \<Rightarrow>
                      (let out = renderDiff (diffRecords (rv_quote V) rec after (\<not> fl_show_values f))
                       in if rv_write V out then (0, out) else (1, []))))))))"

section \<open>The before-side\<close>

text \<open>The text of \<open>cloneStringSliceMap\<close> is that of \<open>copyStringSliceMap\<close> in the redactor.\<close>

definition cloneStringSliceMap :: "nat option \<Rightarrow> heap \<Rightarrow> nat option \<times> heap" where
  "cloneStringSliceMap m h = copyStringSliceMap m h"

definition cloneRecord :: "heap_request \<Rightarrow> heap \<Rightarrow> heap_request \<times> heap" where
  "cloneRecord rec h =
     (case cloneStringSliceMap (hq_headers rec) h of (hd', h1) \<Rightarrow>
      case cloneStringSliceMap (hq_query rec) h1 of (q, h2) \<Rightarrow> (rec\<lparr>hq_headers := hd', hq_query := q\<rparr>, h2))"

definition dry_run_heap :: "redact_libs \<Rightarrow> ruleset \<Rightarrow> heap_request \<Rightarrow> heap \<Rightarrow> heap_request \<times> heap_record \<times> heap" where
  "dry_run_heap L rules rec h =
     (case cloneRecord rec h of (before, h1) \<Rightarrow>
      case Redact_heap L rules (HeapRequest rec) h1 0 of (after, h2, _) \<Rightarrow> (before, after, h2))"

lemma own_valid: "own_opt lo hi m h \<Longrightarrow> valid_map h m"
  by (auto simp: own_opt_def owns_def valid_map_def list_all_iff split: option.splits)

lemma dry_run_sides:
  assumes "valid_record h (HeapRequest rec)" "dry_run_heap L rules rec h = (before, after, h')"
  shows "record_view h' (HeapRequest before) = record_view h (HeapRequest rec)"
    "record_view h' after = fst (Redact L rules (record_view h (HeapRequest rec)) 0)"
proof -
  obtain m1 k1 where c1: "copyStringSliceMap (hq_headers rec) h = (m1, k1)" by fastforce
  obtain m2 k2 where c2: "copyStringSliceMap (hq_query rec) k1 = (m2, k2)" by fastforce
  have v: "valid_map h (hq_headers rec)" "valid_map h (hq_query rec)" using assms(1) by simp_all
  note W = workspace_copy [OF v c1 c2]
  have b: "before = rec\<lparr>hq_headers := m1, hq_query := m2\<rparr>"
    and r: "Redact_heap L rules (HeapRequest rec) k2 0 = (after, h', snd (snd (Redact_heap L rules (HeapRequest rec) k2 0)))"
    using assms(2) by (auto simp: dry_run_heap_def cloneRecord_def cloneStringSliceMap_def c1 c2 split: prod.splits)
  have x: "extends h k2" using W(1) by (simp add: workspace_def)
  have vr: "valid_record k2 (HeapRequest rec)" using v valid_extends [OF _ x] by simp
  have vb: "valid_record k2 (HeapRequest before)" using W(1) own_valid by (simp add: b workspace_def) blast
  note R = Redact_heap_refines [OF vr r]
  show "record_view h' (HeapRequest before) = record_view h (HeapRequest rec)"
    using record_extends [OF vb] R W(2,3) by (simp add: b)
  show "record_view h' after = fst (Redact L rules (record_view h (HeapRequest rec)) 0)"
    using R record_extends [OF assms(1) x] by simp
qed

section \<open>What the merged maps hold\<close>

text \<open>The entry that the loop over a map leaves under a normalised key: the last one of the iteration.\<close>

definition last_entry :: "(string \<Rightarrow> string) \<Rightarrow> hmap \<Rightarrow> string \<Rightarrow> (string \<times> string list) option" where
  "last_entry nf h nk = map_of (rev (map (\<lambda>e. (nf (fst e), e)) h)) nk"

lemma last_entry_Nil [simp]: "last_entry nf [] nk = None"
  by (simp add: last_entry_def)

lemma last_entry_snoc [simp]: "last_entry nf (h @ [e]) nk = (if nf (fst e) = nk then Some e else last_entry nf h nk)"
  by (simp add: last_entry_def)

lemma last_entry_norm: "last_entry nf h nk = Some e \<Longrightarrow> nf (fst e) = nk"
  by (auto simp: last_entry_def dest!: map_of_SomeD)

lemma last_entry_distinct: "distinct (map fst h) \<Longrightarrow> map_option snd (last_entry (\<lambda>k. k) h nk) = map_of h nk"
proof (induction h rule: rev_induct)
  case (snoc e h)
  then have "map_option snd (last_entry (\<lambda>k. k) h nk) = map_of h nk" "map_of h (fst e) = None" by (simp_all add: map_of_eq_None_iff)
  then show ?case by (cases e) (auto simp: map_add_def split: option.split)
qed simp

definition side_of :: "(string \<times> string list) option \<Rightarrow> side" where
  "side_of x = (case x of None \<Rightarrow> no_side | Some e \<Rightarrow> some_side e)"

definition pair_at :: "(string \<Rightarrow> string) \<Rightarrow> hmap \<Rightarrow> hmap \<Rightarrow> string \<Rightarrow> side \<times> side" where
  "pair_at nf b a nk = (side_of (last_entry nf b nk), side_of (last_entry nf a nk))"

lemma map_of_merge_before: "map_of (merge_before nf b) nk = map_option (\<lambda>e. (some_side e, no_side)) (last_entry nf b nk)"
  by (induction b rule: rev_induct) (simp_all add: merge_before_def update_conv)

lemma map_of_merge_after:
  "map_of (merge_after nf a m) nk =
     (case last_entry nf a nk of None \<Rightarrow> map_of m nk
      | Some e \<Rightarrow> Some (case map_of m nk of Some p \<Rightarrow> (fst p, some_side e) | None \<Rightarrow> (no_side, some_side e)))"
proof (induction a rule: rev_induct)
  case (snoc e a)
  have "merge_after nf (a @ [e]) m = AList.update (nf (fst e))
      (case map_of (merge_after nf a m) (nf (fst e)) of Some p \<Rightarrow> (fst p, some_side e) | None \<Rightarrow> (no_side, some_side e)) (merge_after nf a m)"
    by (simp add: merge_after_def Let_def)
  with snoc show ?case by (cases "nf (fst e) = nk") (auto simp: update_conv split: option.split)
qed (simp add: merge_after_def)

lemma map_of_merged:
  "map_of (merge_after nf a (merge_before nf b)) nk =
     (if last_entry nf b nk = None \<and> last_entry nf a nk = None then None else Some (pair_at nf b a nk))"
  by (auto simp: map_of_merge_after map_of_merge_before pair_at_def side_of_def split: option.split)

lemma distinct_merged: "distinct (map fst (merge_after nf a (merge_before nf b)))"
proof -
  have "distinct (map fst (merge_before nf b))"
    by (induction b rule: rev_induct) (simp_all add: merge_before_def distinct_update)
  then show ?thesis
    by (induction a rule: rev_induct) (simp_all add: merge_after_def Let_def distinct_update)
qed

lemma keys_merged:
  "nk \<in> set (map fst (merge_after nf a (merge_before nf b))) \<longleftrightarrow> last_entry nf b nk \<noteq> None \<or> last_entry nf a nk \<noteq> None"
  using map_of_merged [of nf a b nk] map_of_eq_None_iff [of "merge_after nf a (merge_before nf b)" nk] by (auto split: if_splits)

lemma stringSliceEqual_iff [simp]: "stringSliceEqual xs ys \<longleftrightarrow> xs = ys"
  by (induction xs ys rule: stringSliceEqual.induct) auto

definition differ :: "(string \<Rightarrow> string) \<Rightarrow> hmap \<Rightarrow> hmap \<Rightarrow> string \<Rightarrow> bool" where
  "differ nf b a nk = (map_option snd (last_entry nf b nk) \<noteq> map_option snd (last_entry nf a nk))"

lemma changed_pair:
  "last_entry nf b nk \<noteq> None \<or> last_entry nf a nk \<noteq> None \<Longrightarrow> \<not> unchanged_pair (pair_at nf b a nk) \<longleftrightarrow> differ nf b a nk"
  by (auto simp: unchanged_pair_def pair_at_def side_of_def differ_def some_side_def no_side_def split: option.splits)

lemma diffStringSliceMap_alt:
  "diffStringSliceMap quote sect b a nf m =
     map (\<lambda>nk. pair_entry quote sect m (pair_at nf b a nk))
       (filter (differ nf b a) (SliceStable (<) (map fst (merge_after nf a (merge_before nf b)))))"
proof -
  let ?keys = "SliceStable (<) (map fst (merge_after nf a (merge_before nf b)))"
  have "nk \<in> set ?keys \<Longrightarrow> the (map_of (merge_after nf a (merge_before nf b)) nk) = pair_at nf b a nk \<and>
      (\<not> unchanged_pair (pair_at nf b a nk) \<longleftrightarrow> differ nf b a nk)" for nk
    using keys_merged [of nk nf a b] changed_pair [of nf b nk a] by (auto simp: name_order.set_sort map_of_merged)
  then show ?thesis unfolding diffStringSliceMap_def Let_def
    by (intro map_cong filter_cong) auto
qed

lemma set_diffStringSliceMap:
  "set (diffStringSliceMap quote sect b a nf m) = (\<lambda>nk. pair_entry quote sect m (pair_at nf b a nk)) ` {nk. differ nf b a nk}"
proof -
  have "differ nf b a nk \<Longrightarrow> nk \<in> set (map fst (merge_after nf a (merge_before nf b)))" for nk
    unfolding keys_merged by (cases "last_entry nf b nk"; cases "last_entry nf a nk") (simp_all add: differ_def)
  then show ?thesis unfolding diffStringSliceMap_alt by (auto simp: name_order.set_sort)
qed

lemma display_norm: "differ nf b a nk \<Longrightarrow> nf (pair_display (pair_at nf b a nk)) = nk"
  by (auto simp: differ_def pair_display_def pair_at_def side_of_def no_side_def some_side_def dest: last_entry_norm split: option.splits)

lemma distinct_names: "distinct xs \<Longrightarrow> distinct (SliceStable (<) (xs :: string list))"
  using name_order.mset_sort by (metis mset_eq_imp_distinct_iff)

lemma distinct_paths_map: "distinct (map df_path (diffStringSliceMap quote sect b a nf m))"
proof -
  have "inj_on (\<lambda>nk. pair_display (pair_at nf b a nk)) {nk. differ nf b a nk}"
    using display_norm by (metis (mono_tags, lifting) inj_onI mem_Collect_eq)
  moreover have "distinct (filter (differ nf b a) (SliceStable (<) (map fst (merge_after nf a (merge_before nf b)))))"
    by (intro distinct_filter distinct_names distinct_merged)
  ultimately show ?thesis unfolding diffStringSliceMap_alt by (auto simp: distinct_map pair_entry_def inj_on_def)
qed

text \<open>The cookie of a name that the loop over a cookie list leaves: the last one.\<close>

definition last_cookie :: "cookie list \<Rightarrow> string \<Rightarrow> string option" where
  "last_cookie cs n = map_of (rev (map (\<lambda>c. (ck_name c, ck_value c)) cs)) n"

lemma map_of_cookie_map: "map_of (cookie_map cs) = last_cookie cs"
  by (rule ext, induction cs rule: rev_induct) (simp_all add: cookie_map_def last_cookie_def update_conv)

lemma diffCookieSlice_alt:
  "diffCookieSlice b a m = map (\<lambda>n. cookie_entry m n (last_cookie b n) (last_cookie a n))
     (filter (\<lambda>n. last_cookie b n \<noteq> last_cookie a n) (SliceStable (<) (remdups (map fst (cookie_map b) @ map fst (cookie_map a)))))"
  by (simp add: diffCookieSlice_def Let_def map_of_cookie_map)

lemma set_diffCookieSlice:
  "set (diffCookieSlice b a m) = (\<lambda>n. cookie_entry m n (last_cookie b n) (last_cookie a n)) ` {n. last_cookie b n \<noteq> last_cookie a n}"
proof -
  have "last_cookie cs n \<noteq> None \<Longrightarrow> n \<in> set (map fst (cookie_map cs))" for cs n
    using map_of_eq_None_iff [of "cookie_map cs" n] by (auto simp: map_of_cookie_map)
  then have "last_cookie b n \<noteq> last_cookie a n \<Longrightarrow> n \<in> set (remdups (map fst (cookie_map b) @ map fst (cookie_map a)))" for n
    by (metis Un_iff set_append set_remdups)
  then show ?thesis unfolding diffCookieSlice_alt by (auto simp: name_order.set_sort)
qed

lemma distinct_paths_cookies: "distinct (map df_path (diffCookieSlice b a m))"
  unfolding diffCookieSlice_alt
  by (simp add: distinct_map distinct_names inj_on_def cookie_entry_def)

section \<open>The diff of two records\<close>

interpretation entry_order: weak_order entry_lt
  by unfold_locales (auto simp: entry_lt_def)

definition entry_list :: "(string \<Rightarrow> string) \<Rightarrow> captured_request \<Rightarrow> captured_request \<Rightarrow> bool \<Rightarrow> diff_entry list" where
  "entry_list quote b a m =
     (if cr_path b \<noteq> cr_path a then [\<lparr>df_path = ''path'', df_before = cr_path b, df_after = cr_path a\<rparr>] else []) @
     diffStringSliceMap quote ''headers'' (entries (cr_headers b)) (entries (cr_headers a)) canonicalHeaderKey m @
     diffStringSliceMap quote ''query'' (entries (cr_query b)) (entries (cr_query a)) identityKey m @
     diffCookieSlice (cr_cookies b) (cr_cookies a) m @
     (if cr_body b \<noteq> cr_body a then [\<lparr>df_path = ''body'', df_before = bytes_label (cr_body b), df_after = bytes_label (cr_body a)\<rparr>] else [])"

lemma diffRecords_alt: "diffRecords quote b a m = SliceStable entry_lt (entry_list quote b a m)"
  by (simp add: diffRecords_def entry_list_def)

lemma path_of_pair [simp]: "df_path (pair_entry quote sect m p) = sect @ ''.'' @ pair_display p"
  by (simp add: pair_entry_def)

lemma path_of_cookie [simp]: "df_path (cookie_entry m n x y) = ''cookies.'' @ n"
  by (simp add: cookie_entry_def)

lemma distinct_paths: "distinct (map df_path (entry_list quote b a m))"
  using distinct_paths_map distinct_paths_cookies
  by (auto simp: entry_list_def set_diffStringSliceMap set_diffCookieSlice)

lemma diff_sorted: "sorted_wrt entry_lt (diffRecords quote b a m)"
proof -
  have d: "distinct (map df_path (entry_list quote b a m))" by (rule distinct_paths)
  show ?thesis unfolding diffRecords_alt
  proof (rule entry_order.sort_strict)
    show "distinct (entry_list quote b a m)" using d by (simp add: distinct_map)
  next
    fix x y assume "x \<in> set (entry_list quote b a m)" "y \<in> set (entry_list quote b a m)" "x \<noteq> y"
    with d have "df_path x \<noteq> df_path y" by (auto simp: distinct_map inj_on_def)
    then show "entry_lt x y \<or> entry_lt y x" by (auto simp: entry_lt_def)
  qed
qed

lemma set_diffRecords: "set (diffRecords quote b a m) = set (entry_list quote b a m)"
  by (simp add: diffRecords_alt entry_order.set_sort)

lemma in_entry_list:
  "e \<in> set (diffRecords quote b a m) \<longleftrightarrow>
     (cr_path b \<noteq> cr_path a \<and> e = \<lparr>df_path = ''path'', df_before = cr_path b, df_after = cr_path a\<rparr>) \<or>
     e \<in> set (diffStringSliceMap quote ''headers'' (entries (cr_headers b)) (entries (cr_headers a)) canonicalHeaderKey m) \<or>
     e \<in> set (diffStringSliceMap quote ''query'' (entries (cr_query b)) (entries (cr_query a)) identityKey m) \<or>
     e \<in> set (diffCookieSlice (cr_cookies b) (cr_cookies a) m) \<or>
     (cr_body b \<noteq> cr_body a \<and> e = \<lparr>df_path = ''body'', df_before = bytes_label (cr_body b), df_after = bytes_label (cr_body a)\<rparr>)"
  by (auto simp: set_diffRecords entry_list_def)

lemma differ_Canonical: "differ canonicalHeaderKey b a nk \<Longrightarrow> CanonicalMIMEHeaderKey (pair_display (pair_at canonicalHeaderKey b a nk)) = nk"
  using display_norm [of canonicalHeaderKey b a nk] by (simp add: canonicalHeaderKey_def)

lemma differ_identity: "differ identityKey b a nk \<Longrightarrow> pair_display (pair_at identityKey b a nk) = nk"
  using display_norm [of identityKey b a nk] by (simp add: identityKey_def)

lemma paths_diffRecords:
  "''path'' \<in> df_path ` set (diffRecords quote b a m) \<longleftrightarrow> cr_path b \<noteq> cr_path a"
  "''body'' \<in> df_path ` set (diffRecords quote b a m) \<longleftrightarrow> cr_body b \<noteq> cr_body a"
  "''headers.'' @ k \<in> df_path ` set (diffRecords quote b a m) \<longleftrightarrow>
     k \<in> (\<lambda>nk. pair_display (pair_at canonicalHeaderKey (entries (cr_headers b)) (entries (cr_headers a)) nk)) `
       {nk. differ canonicalHeaderKey (entries (cr_headers b)) (entries (cr_headers a)) nk}"
  "''query.'' @ k \<in> df_path ` set (diffRecords quote b a m) \<longleftrightarrow> differ identityKey (entries (cr_query b)) (entries (cr_query a)) k"
  "''cookies.'' @ k \<in> df_path ` set (diffRecords quote b a m) \<longleftrightarrow> last_cookie (cr_cookies b) k \<noteq> last_cookie (cr_cookies a) k"
proof -
  have q: "''query.'' @ k \<in> df_path ` set (diffRecords quote b a m) \<longleftrightarrow>
      k \<in> (\<lambda>nk. pair_display (pair_at identityKey (entries (cr_query b)) (entries (cr_query a)) nk)) ` {nk. differ identityKey (entries (cr_query b)) (entries (cr_query a)) nk}"
    by (auto simp: set_diffRecords entry_list_def set_diffStringSliceMap set_diffCookieSlice image_Un image_image)
  show "''query.'' @ k \<in> df_path ` set (diffRecords quote b a m) \<longleftrightarrow> differ identityKey (entries (cr_query b)) (entries (cr_query a)) k"
    unfolding q using differ_identity by (auto simp: image_iff)
qed (auto simp: set_diffRecords entry_list_def set_diffStringSliceMap set_diffCookieSlice image_Un image_image)

lemma diff_empty_iff:
  "diffRecords quote b a m = [] \<longleftrightarrow> cr_path b = cr_path a \<and> cr_body b = cr_body a \<and>
     (\<forall>nk. \<not> differ canonicalHeaderKey (entries (cr_headers b)) (entries (cr_headers a)) nk) \<and>
     (\<forall>nk. \<not> differ identityKey (entries (cr_query b)) (entries (cr_query a)) nk) \<and>
     (\<forall>n. last_cookie (cr_cookies b) n = last_cookie (cr_cookies a) n)"
proof -
  have "diffRecords quote b a m = [] \<longleftrightarrow> set (entry_list quote b a m) = {}" by (simp flip: set_diffRecords)
  also have "\<dots> \<longleftrightarrow> cr_path b = cr_path a \<and> cr_body b = cr_body a \<and>
     (\<forall>nk. \<not> differ canonicalHeaderKey (entries (cr_headers b)) (entries (cr_headers a)) nk) \<and>
     (\<forall>nk. \<not> differ identityKey (entries (cr_query b)) (entries (cr_query a)) nk) \<and>
     (\<forall>n. last_cookie (cr_cookies b) n = last_cookie (cr_cookies a) n)"
    unfolding entry_list_def set_append set_diffStringSliceMap set_diffCookieSlice by auto
  finally show ?thesis .
qed


section \<open>Masking\<close>

text \<open>Two records that a reader of the masked diff may tell apart only by which fields changed.\<close>

definition blurred_map :: "hmap \<Rightarrow> hmap \<Rightarrow> bool" where
  "blurred_map = list_all2 (\<lambda>e f. fst e = fst f \<and> map RuneCount (snd e) = map RuneCount (snd f))"

definition blurred :: "captured_request \<Rightarrow> captured_request \<Rightarrow> bool" where
  "blurred b c = (cr_path b = cr_path c \<and> length (cr_body b) = length (cr_body c) \<and>
     blurred_map (entries (cr_headers b)) (entries (cr_headers c)) \<and> blurred_map (entries (cr_query b)) (entries (cr_query c)) \<and>
     list_all2 (\<lambda>x y. ck_name x = ck_name y \<and> RuneCount (ck_value x) = RuneCount (ck_value y)) (cr_cookies b) (cr_cookies c))"

lemma blurred_last_entry:
  "blurred_map b c \<Longrightarrow> rel_option (\<lambda>e f. fst e = fst f \<and> map RuneCount (snd e) = map RuneCount (snd f)) (last_entry nf b nk) (last_entry nf c nk)"
proof (induction b arbitrary: c rule: rev_induct)
  case (snoc e b)
  then obtain f c' where "c = c' @ [f]" "blurred_map b c'" "fst e = fst f" "map RuneCount (snd e) = map RuneCount (snd f)"
    by (auto simp: blurred_map_def list_all2_append1 list_all2_Cons1)
  with snoc.IH show ?case by simp
qed (simp add: blurred_map_def)

lemma masked_cong: "map RuneCount vs = map RuneCount ws \<Longrightarrow> map masked_value vs = map masked_value ws"
proof -
  have m: "map masked_value us = map (\<lambda>n. ''<masked: '' @ Itoa (int n) @ '' chars>'') (map RuneCount us)" for us
    unfolding map_map comp_def masked_value_def ..
  show "map RuneCount vs = map RuneCount ws \<Longrightarrow> map masked_value vs = map masked_value ws" unfolding m by (rule arg_cong)
qed

lemma blurred_format:
  assumes "blurred_map b c"
  shows "pair_entry quote sect True (pair_at nf b a nk) = pair_entry quote sect True (pair_at nf c a nk)"
  using blurred_last_entry [OF assms, of nf nk]
  by (cases "last_entry nf b nk"; cases "last_entry nf c nk")
     (auto simp: pair_entry_def pair_at_def side_of_def some_side_def pair_display_def formatSliceSide_def dest: masked_cong)

lemma blurred_cookie:
  assumes "list_all2 (\<lambda>x y. ck_name x = ck_name y \<and> RuneCount (ck_value x) = RuneCount (ck_value y)) b c"
  shows "cookie_entry True n (last_cookie b n) z = cookie_entry True n (last_cookie c n) z"
proof -
  have "rel_option (\<lambda>v w. RuneCount v = RuneCount w) (last_cookie b n) (last_cookie c n)"
    using assms
  proof (induction b arbitrary: c rule: rev_induct)
    case (snoc x b)
    then obtain y c' where "c = c' @ [y]" "list_all2 (\<lambda>x y. ck_name x = ck_name y \<and> RuneCount (ck_value x) = RuneCount (ck_value y)) b c'"
      "ck_name x = ck_name y" "RuneCount (ck_value x) = RuneCount (ck_value y)"
      by (auto simp: list_all2_append1 list_all2_Cons1)
    with snoc.IH [of c'] show ?case by (simp add: last_cookie_def)
  qed (simp add: last_cookie_def)
  then show ?thesis by (auto simp: cookie_entry_def masked_value_def option_rel_Some1 split: option.split)
qed

lemma masked_map_entries:
  assumes "blurred_map b c" "e \<in> set (diffStringSliceMap quote sect b a nf True)" "f \<in> set (diffStringSliceMap quote sect c a nf True)"
    "df_path e = df_path f"
  shows "e = f"
proof -
  obtain nk nk' where e: "e = pair_entry quote sect True (pair_at nf b a nk)" "differ nf b a nk"
    and f: "f = pair_entry quote sect True (pair_at nf c a nk')" "differ nf c a nk'"
    using assms(2,3) by (auto simp: set_diffStringSliceMap)
  have "nk = nk'" using assms(4) display_norm [OF e(2)] display_norm [OF f(2)] by (simp add: e(1) f(1))
  with e(1) f(1) show ?thesis by (simp add: blurred_format [OF assms(1)])
qed

lemma masked_cookie_entries:
  assumes "list_all2 (\<lambda>x y. ck_name x = ck_name y \<and> RuneCount (ck_value x) = RuneCount (ck_value y)) b c"
    "e \<in> set (diffCookieSlice b a True)" "f \<in> set (diffCookieSlice c a True)" "df_path e = df_path f"
  shows "e = f"
  using assms(2-4) blurred_cookie [OF assms(1)] by (auto simp: set_diffCookieSlice)

lemma section_paths:
  "e \<in> set (diffStringSliceMap quote sect b a nf m) \<Longrightarrow> \<exists>d. df_path e = sect @ ''.'' @ d"
  "e \<in> set (diffCookieSlice x y m) \<Longrightarrow> \<exists>d. df_path e = ''cookies.'' @ d"
  by (auto simp: set_diffStringSliceMap set_diffCookieSlice)



text \<open>
  Two spellings of a header name in one sample make the diff depend on the iteration order of a
  Go map: the same two records can print one change or none.
\<close>

lemma diff_order_dependent:
  "let h = [(''authorization'', [''a'']), (''Authorization'', [''b''])]; h' = [(''authorization'', [''x'']), (''Authorization'', [''b''])] in
   map df_path (diffStringSliceMap (\<lambda>s. s) ''headers'' h h' canonicalHeaderKey True) = [] \<and>
   map df_path (diffStringSliceMap (\<lambda>s. s) ''headers'' (rev h) (rev h') canonicalHeaderKey True) = [''headers.authorization'']"
  by code_simp

section \<open>The exit code\<close>

lemma dry_redact_total: "\<exists>after. dry_redact L rules rec = Some after"
  by (auto simp: dry_redact_def Redact_def split: prod.split)

lemma Run_success:
  assumes "Run V args env = (0, out)"
  obtains f cfg rules data rec after where "parse_flags args \<lparr>fl_test = [], fl_config = [], fl_show_values = False\<rparr> = Some f" "fl_test f \<noteq> []"
    "Load (rv_load V) (fl_config f) env = Inr cfg" "NewRuleset (rv_redact V) (cf_redaction cfg) = Inr rules"
    "rv_read V (fl_test f) = Some data" "rv_decode V data = Some rec" "dry_redact (rv_redact V) rules rec = Some after"
    "out = renderDiff (diffRecords (rv_quote V) rec after (\<not> fl_show_values f))"
  using assms by (auto simp: Run_def Let_def split: option.splits if_splits sum.splits)

lemma unredacted_no_changes:
  assumes "dry_redact L rules rec = Some after" "IsUnredacted rules"
  shows "renderDiff (diffRecords quote rec after m) = ''no changes'' @ [CHR 0x0A]"
  using assms diff_empty_iff [of quote rec rec m] by (simp add: dry_redact_def Redact_def renderDiff_def differ_def)

end
