(* ===== verification/Command.thy ===== *)
theory Command
  imports App Diff
begin

text \<open>
  The program's entry point, cmd/httpcatch/main.go: the choice of the subcommand, the flags of
  \<open>serve\<close>, the sequence Load, Build, warnings, Serve, and the exit codes. What the process does
  before it serves is a function, \<open>main_start\<close>; the run of the server is the transition system of
  Lifecycle, so that the exit of a whole process is the relation \<open>main_exits\<close>. A Go program
  that panics exits with code 2.
\<close>

section \<open>Arguments\<close>

definition splitSubcommand :: "string list \<Rightarrow> string \<times> string list" where
  "splitSubcommand args =
     (case args of
        [] \<Rightarrow> ([], [])
      | first # rest \<Rightarrow> if has_prefix first ''-'' then ([], args) else (first, rest))"

datatype parsed = Parsed string | ParseHelp | ParseFailed

text \<open>\<open>FlagSet.Parse\<close> for the one flag of \<open>serve\<close>; it stops at the first argument that is no flag.\<close>

fun parse_serve :: "string list \<Rightarrow> string \<Rightarrow> parsed" where
  "parse_serve [] path = Parsed path"
| "parse_serve (s # args) path =
     (case flag_arg_of s of
        NotAFlag \<Rightarrow> Parsed path
      | BadFlag \<Rightarrow> ParseFailed
      | FlagArg nm v \<Rightarrow>
          if nm = ''config'' then
            (case v of
               Some t \<Rightarrow> parse_serve args t
             | None \<Rightarrow> (case args of [] \<Rightarrow> ParseFailed | t # args' \<Rightarrow> parse_serve args' t))
          else if nm = ''help'' \<or> nm = ''h'' then ParseHelp else ParseFailed)"

section \<open>From the arguments to the server\<close>

record main_env =
  mn_app :: app_libs
  mn_redact :: redact_env
  mn_getenv :: env

datatype log_handler = JSONHandler | TextHandler

record started =
  sd_app :: app
  sd_handler :: log_handler
  sd_warnings :: "warning list"

datatype serve_error = LoadError config_error | BuildError build_error

text \<open>\<open>serve\<close> up to the call of Serve. The flag set exits by itself: 0 after help, 2 after an error.\<close>

datatype serve_result = FlagExit nat | ServeError serve_error | Started started

definition serve :: "main_env \<Rightarrow> string list \<Rightarrow> serve_result" where
  "serve M args =
     (case parse_serve args [] of
        ParseHelp \<Rightarrow> FlagExit 0
      | ParseFailed \<Rightarrow> FlagExit 2
      | Parsed path \<Rightarrow>
          (case Load (rv_load (mn_redact M)) path (mn_getenv M) of
             Inl e \<Rightarrow> ServeError (LoadError e)
           | Inr cfg \<Rightarrow>
               (let handler = (if cf_log_format cfg = ''json'' then JSONHandler else TextHandler) in
                case Build (mn_app M) cfg [] of
                  Inl e \<Rightarrow> ServeError (BuildError e)
                | Inr a \<Rightarrow> Started \<lparr>sd_app = a, sd_handler = handler, sd_warnings = EmitStartupWarnings (mn_app M) a\<rparr>)))"

definition error_code :: "serve_error \<Rightarrow> nat" where
  "error_code e = (if e = BuildError (AdminError ConfigurationPanic) then 2 else 1)"

text \<open>\<open>main\<close>: the exit code, or the server it runs.\<close>

definition main_start :: "main_env \<Rightarrow> string list \<Rightarrow> nat + started" where
  "main_start M args =
     (case splitSubcommand args of (sub, rest) \<Rightarrow>
        if sub = ''redact'' then Inl (fst (Run (mn_redact M) rest (mn_getenv M)))
        else if sub = ''serve'' \<or> sub = [] then
          (case serve M rest of FlagExit n \<Rightarrow> Inl n | ServeError e \<Rightarrow> Inl (error_code e) | Started st \<Rightarrow> Inr st)
        else Inl 2)"

definition worker_redact :: "main_env \<Rightarrow> app \<Rightarrow> capture_record \<Rightarrow> capture_record option" where
  "worker_redact M a rec = Some (fst (Redact (lb_redact (mn_app M)) (ap_ruleset a) rec 0))"

definition runs :: "main_env \<Rightarrow> started \<Rightarrow> serve_state \<Rightarrow> bool" where
  "runs M st = serve_reaches (worker_redact M (sd_app st)) (serve_start (Start (ap_workers (sd_app st))))"

inductive main_exits :: "main_env \<Rightarrow> string list \<Rightarrow> nat \<Rightarrow> bool" for M args where
  early: "main_start M args = Inl n \<Longrightarrow> main_exits M args n"
| returned: "main_start M args = Inr st \<Longrightarrow> runs M st s \<Longrightarrow> sv_phase s = Returned e
    \<Longrightarrow> main_exits M args (if e = None then 0 else 1)"

inductive_simps main_exits_iff: "main_exits M args n"

section \<open>Lemmas\<close>

lemma Run_code: "fst (Run V args env) \<in> {0, 1, 2}"
  by (auto simp: Run_def Let_def split: option.splits sum.splits)

lemma serve_Started:
  assumes "serve M args = Started st"
  obtains path cfg where "parse_serve args [] = Parsed path" "Load (rv_load (mn_redact M)) path (mn_getenv M) = Inr cfg"
    "Build (mn_app M) cfg [] = Inr (sd_app st)" "sd_handler st = (if cf_log_format cfg = ''json'' then JSONHandler else TextHandler)"
    "sd_warnings st = EmitStartupWarnings (mn_app M) (sd_app st)"
  using assms by (auto simp: serve_def Let_def split: parsed.splits sum.splits)

lemma main_start_Inr:
  "main_start M args = Inr st \<Longrightarrow> serve M (snd (splitSubcommand args)) = Started st \<and> fst (splitSubcommand args) \<in> {[], ''serve''}"
  by (auto simp: main_start_def split: if_splits serve_result.splits prod.splits)

lemma Build_cfg: "Build L cfg extra = Inr a \<Longrightarrow> ap_cfg a = cfg"
  by (auto simp: Build_def Let_def split: sum.splits if_splits)

lemma main_steps_reach: "(main_step ^^ n) s t \<Longrightarrow> serve_reaches redact s0 s \<Longrightarrow> serve_reaches redact s0 t"
  by (induction n arbitrary: t) (auto intro: by_main)

lemma runs_drained:
  assumes "Build L cfg extra = Inr (sd_app st)" "runs M st s" "sv_phase s = Returned e" "\<not> sv_drain_timeout s"
  shows "q_c (sv_queue s) = [] \<and> length (accepted (ps_trace (sv_pool s))) =
      length (finished_of (ps_trace (sv_pool s))) + length (panics_of (ps_trace (sv_pool s)))"
proof -
  note w = Build_fields(1) [OF assms(1)]
  note r = assms(2) [unfolded runs_def w]
  have q: "\<not> q_closed (wp_queue (ps_pool (Start (NewWorkerPool n (NewQueue c) ss ec))))" for n c ss ec
    by (simp add: Start_def NewWorkerPool_def NewQueue_def)
  have "all_workers_done (sv_pool s)"
    using order_invD [OF order_inv_reaches [OF r order_inv_start [OF q]]] assms(3,4) by auto
  then show ?thesis using workers_done_drained [OF serve_pool_reaches [OF r q]]
    by (simp add: all_workers_done_def list_all_iff)
qed

section \<open>Properties\<close>


definition stub_main :: main_env where
  "stub_main = \<lparr>mn_app = stub_app_libs,
     mn_redact = \<lparr>rv_load = sample_libs, rv_redact = libs, rv_quote = (\<lambda>s. s), rv_read = (\<lambda>_. None), rv_decode = (\<lambda>_. None), rv_write = (\<lambda>_. True)\<rparr>,
     mn_getenv = sample_env\<rparr>"

lemma sample_load_fields:
  "\<exists>cfg. Load sample_libs [] sample_env = Inr cfg \<and> cf_queue_size cfg = 7 \<and> cf_admin cfg = cf_admin (Defaults 2) \<and>
     cf_redaction cfg = cf_redaction (Defaults 2) \<and> \<not> sk_sqlite (cf_sinks cfg)"
proof -
  have 1: "ParseInt ''7'' = Some 7" by code_simp
  have 2: "filter (\<lambda>f. f \<noteq> []) (split_on (CHR '','') ''stdout,,Memory'') = [''stdout'', ''Memory'']" by code_simp
  have 3: "ToLower (map ascii_lower) (TrimSpace ''stdout'') = ''stdout''" "ToLower (map ascii_lower) (TrimSpace ''Memory'') = ''memory''"
    by code_simp+
  have 4: "valid_bind ''0.0.0.0:8080''" by code_simp
  have 5: "Itoa 8080 = ''8080''" by (simp add: Itoa_def nat_digits.simps digit_char_def char_of_def bit_0)
  show ?thesis
    by (simp add: Load_def load_file_def applyEnv_def env_steps_def env_int_def env_text_def env_duration_def env_bool_def env_sinks_def
        sample_libs_def sample_env_def 1 2 3 4 5 on_defs Defaults_def second_def Config.Validate_def report_def Let_def)
qed

lemma stub_main_starts: "\<exists>st. main_start stub_main [] = Inr st \<and> int (q_cap (ap_queue (sd_app st))) = 7"
proof -
  obtain cfg where l: "Load sample_libs [] sample_env = Inr cfg" "cf_queue_size cfg = 7" "cf_admin cfg = cf_admin (Defaults 2)"
    "cf_redaction cfg = cf_redaction (Defaults 2)" "\<not> sk_sqlite (cf_sinks cfg)" using sample_load_fields by blast
  have g: "Guard (sl_ip_loopback stub_libs) (ad_bind (cf_admin (Defaults 2))) (ad_token (cf_admin (Defaults 2)) \<noteq> [])
      (ad_insecure_listen (cf_admin (Defaults 2))) = Inr ReasonLoopbackDefault" by code_simp
  have r: "\<exists>rules. NewRuleset libs (cf_redaction (Defaults 2)) = Inr rules" by (simp add: NewRuleset_def Defaults_def)
  obtain a where a: "Build stub_app_libs cfg [] = Inr a"
    using g r l(3-5) by (auto simp: Build_def stub_app_libs_def Let_def New_server_def configurationUIHandler_def stub_libs_def split: sum.splits)
  have "int (q_cap (ap_queue a)) = 7" using l(2) by (simp add: Build_fields(1) [OF a] NewWorkerPool_def NewQueue_def)
  then show ?thesis using l(1) a by (simp add: main_start_def splitSubcommand_def serve_def stub_main_def Let_def)
qed


end
