(* ===== verification/Sqlite_File.thy ===== *)
theory Sqlite_File
  imports Prelude "HOL-Library.Word"
begin

unbundle bit_operations_syntax

text \<open>
  Opening and closing the database file, internal/sinks/sqlite.go (\<open>NewSQLiteSink\<close>,
  \<open>checkSQLiteDir\<close>, \<open>Close\<close>) and the nofollow flag. The file system maps a path to what an lstat of it
  sees; a chmod and the driver follow a symbolic link, one step. What the operating system and
  the driver answer are arguments, and so is what other processes do to the file system before
  each call. Contents of files are not modelled here: what the store holds is Sqlite's concern.
\<close>

section \<open>The file system\<close>

type_synonym mode = "9 word"

datatype inode = Regular mode | Folder mode | Link string

type_synonym filesys = "string \<Rightarrow> inode option"

definition resolve :: "filesys \<Rightarrow> string \<Rightarrow> string" where
  "resolve fs p = (case fs p of Some (Link t) \<Rightarrow> t | _ \<Rightarrow> p)"

text \<open>\<open>filepath.Dir\<close>: the part before the last slash, cleaned.\<close>

fun clean_parts :: "bool \<Rightarrow> string list \<Rightarrow> string list \<Rightarrow> string list" where
  "clean_parts rooted out [] = rev out"
| "clean_parts rooted out (p # ps) =
     (if p = [] \<or> p = ''.'' then clean_parts rooted out ps
      else if p = ''..'' then
        (case out of
           q # out' \<Rightarrow> if q = ''..'' then clean_parts rooted (p # out) ps else clean_parts rooted out' ps
         | [] \<Rightarrow> if rooted then clean_parts rooted out ps else clean_parts rooted [p] ps)
      else clean_parts rooted (p # out) ps)"

definition path_Clean :: "string \<Rightarrow> string" where
  "path_Clean s =
     (let rooted = has_prefix s ''/''; r = (if rooted then ''/'' else []) @ join ''/'' (clean_parts rooted [] (split_on (CHR ''/'') s))
      in if r = [] then ''.'' else r)"

definition path_Dir :: "string \<Rightarrow> string" where
  "path_Dir p = path_Clean (case last_index_byte p (CHR ''/'') of None \<Rightarrow> [] | Some i \<Rightarrow> take (i + 1) p)"

section \<open>Calls\<close>

record os_env =
  os_temp :: string
  os_dir_ok :: bool
  os_remove_ok :: bool
  os_dir_mode :: "mode option"
  os_lstat_ok :: bool
  os_create_ok :: bool
  os_chmod_ok :: "string \<Rightarrow> bool"
  os_umask :: mode
  noFollowFlag :: bool
  os_other :: "nat \<Rightarrow> filesys \<Rightarrow> filesys"

record sql_driver =
  dv_file :: "string \<Rightarrow> string"
  dv_open_ok :: bool
  dv_ping_ok :: bool
  dv_pragmas_ok :: bool
  dv_schema_ok :: bool
  dv_request_ok :: bool
  dv_event_ok :: bool
  dv_wal :: "string \<Rightarrow> filesys \<Rightarrow> filesys"

record open_state =
  op_fs :: filesys
  op_calls :: nat
  op_db :: bool
  op_target :: "string option"
  op_stmts :: nat
  op_warned :: bool

datatype open_error =
    EmptyPath | DirUnusable string | SymlinkRefused string | StatFailed string | CreateFailed string | OpenFailed string
  | PingFailed string | PragmasFailed string | ChmodFailed string | SchemaFailed string | PrepareRequestFailed | PrepareEventFailed

text \<open>Before a call the rest of the system may run.\<close>

definition enter_call :: "os_env \<Rightarrow> open_state \<Rightarrow> open_state" where
  "enter_call E s = s\<lparr>op_fs := os_other E (op_calls s) (op_fs s), op_calls := Suc (op_calls s)\<rparr>"

text \<open>\<open>os.CreateTemp\<close> picks a name that is not taken; the probe file is closed and removed.\<close>

definition temp_name :: "os_env \<Rightarrow> string \<Rightarrow> string" where
  "temp_name E dir = (if has_suffix dir ''/'' then dir else dir @ ''/'') @ ''.httpcatch-write-check-'' @ os_temp E"

definition checkSQLiteDir :: "os_env \<Rightarrow> string \<Rightarrow> open_state \<Rightarrow> open_error option \<times> open_state" where
  "checkSQLiteDir E path s =
     (let dir = path_Dir path; s1 = enter_call E s; name = temp_name E dir in
      if \<not> os_dir_ok E \<or> op_fs s1 name \<noteq> None then (Some (DirUnusable dir), s1)
      else (let s2 = enter_call E (s1\<lparr>op_fs := (op_fs s1)(name := Some (Regular (0x180 AND NOT (os_umask E))))\<rparr>)
            in (None, if os_remove_ok E then s2\<lparr>op_fs := (op_fs s2)(name := None)\<rparr> else s2)))"

text \<open>\<open>os.OpenFile\<close> with \<open>O_CREATE|O_RDWR\<close>, the nofollow flag and mode 0600.\<close>

definition create_file :: "os_env \<Rightarrow> string \<Rightarrow> open_state \<Rightarrow> open_state option" where
  "create_file E path s0 =
     (let s = enter_call E s0; fs = op_fs s in
      if \<not> os_create_ok E then None
      else (case fs path of
          Some (Link t) \<Rightarrow>
            if noFollowFlag E then None
            else Some (if fs t = None then s\<lparr>op_fs := fs(t := Some (Regular (0x180 AND NOT (os_umask E))))\<rparr> else s)
        | Some (Folder _) \<Rightarrow> None
        | Some (Regular _) \<Rightarrow> Some s
        | None \<Rightarrow> Some (s\<lparr>op_fs := fs(path := Some (Regular (0x180 AND NOT (os_umask E))))\<rparr>)))"

text \<open>\<open>os.Chmod\<close> to 0600: None is an error, a missing file is none to the caller.\<close>

definition chmod_600 :: "os_env \<Rightarrow> string \<Rightarrow> open_state \<Rightarrow> open_state option" where
  "chmod_600 E path s0 =
     (let s = enter_call E s0; t = resolve (op_fs s) path in
      case op_fs s t of
        None \<Rightarrow> Some s
      | Some n \<Rightarrow>
          if \<not> os_chmod_ok E t then None
          else Some (s\<lparr>op_fs := (op_fs s)(t := Some (case n of Regular _ \<Rightarrow> Regular 0x180 | Folder _ \<Rightarrow> Folder 0x180 | Link u \<Rightarrow> Link u))\<rparr>))"

definition close_db :: "open_state \<Rightarrow> open_state" where
  "close_db s = s\<lparr>op_db := False, op_target := None\<rparr>"

fun chmod_sidecars :: "os_env \<Rightarrow> string list \<Rightarrow> open_state \<Rightarrow> open_error option \<times> open_state" where
  "chmod_sidecars E [] s = (None, s)"
| "chmod_sidecars E (p # ps) s =
     (case chmod_600 E p s of
        None \<Rightarrow> (Some (ChmodFailed p), close_db (enter_call E s))
      | Some s' \<Rightarrow> chmod_sidecars E ps s')"

section \<open>Opening and closing\<close>

definition sidecars :: "string \<Rightarrow> string list" where
  "sidecars path = [path @ ''-wal'', path @ ''-shm'']"

text \<open>From the schema on, the files do not change.\<close>

definition prepare_store :: "sql_driver \<Rightarrow> string \<Rightarrow> open_state \<Rightarrow> open_error option \<times> open_state" where
  "prepare_store D path s =
     (if \<not> dv_schema_ok D then (Some (SchemaFailed path), close_db s)
      else if \<not> dv_request_ok D then (Some PrepareRequestFailed, close_db s)
      else (let s1 = s\<lparr>op_stmts := op_stmts s + 1\<rparr> in
        if \<not> dv_event_ok D then (Some PrepareEventFailed, close_db (s1\<lparr>op_stmts := op_stmts s1 - 1\<rparr>))
        else (None, s1\<lparr>op_stmts := op_stmts s1 + 1\<rparr>)))"

text \<open>The data source name is a URI, of which the driver takes the file's path.\<close>

definition sqlite_dsn :: "string \<Rightarrow> string" where
  "sqlite_dsn path = ''file:'' @ path @ ''?_pragma=case_sensitive_like(1)''"

text \<open>
  \<open>sql.Open\<close> touches no file; the ping connects. The driver follows a link, creates a missing file
  under the umask and cannot open a directory.
\<close>

definition connect_store :: "os_env \<Rightarrow> sql_driver \<Rightarrow> string \<Rightarrow> open_state \<Rightarrow> open_error option \<times> open_state" where
  "connect_store E D path s0 =
     (if \<not> dv_open_ok D then (Some (OpenFailed path), s0)
      else (let s = enter_call E s0; t = resolve (op_fs s) (dv_file D (sqlite_dsn path)) in
        if \<not> dv_ping_ok D \<or> (case op_fs s t of Some (Folder _) \<Rightarrow> True | Some (Link _) \<Rightarrow> True | _ \<Rightarrow> False) then (Some (PingFailed path), close_db s)
        else (let s1 = enter_call E (s\<lparr>op_db := True, op_target := Some t, op_fs := (case op_fs s t of
                None \<Rightarrow> (op_fs s)(t := Some (Regular (0x1A4 AND NOT (os_umask E)))) | Some _ \<Rightarrow> op_fs s)\<rparr>) in
          if \<not> dv_pragmas_ok D then (Some (PragmasFailed path), close_db s1)
          else (case chmod_sidecars E (sidecars path) (s1\<lparr>op_fs := dv_wal D (dv_file D (sqlite_dsn path)) (op_fs s1)\<rparr>) of
              (Some e, s2) \<Rightarrow> (Some e, s2)
            | (None, s2) \<Rightarrow> prepare_store D path s2))))"

definition open_checked :: "os_env \<Rightarrow> sql_driver \<Rightarrow> string \<Rightarrow> open_state \<Rightarrow> open_error option \<times> open_state" where
  "open_checked E D path s =
     (if \<not> os_lstat_ok E then (Some (StatFailed path), s)
      else (case op_fs s path of
          Some (Link t) \<Rightarrow> (Some (SymlinkRefused path), s)
        | Some _ \<Rightarrow> connect_store E D path s
        | None \<Rightarrow> (case create_file E path s of
              None \<Rightarrow> (Some (CreateFailed path), enter_call E s)
            | Some s' \<Rightarrow> connect_store E D path s')))"

definition NewSQLiteSink :: "os_env \<Rightarrow> sql_driver \<Rightarrow> string \<Rightarrow> open_state \<Rightarrow> open_error option \<times> open_state" where
  "NewSQLiteSink E D path s0 =
     (if path = [] then (Some EmptyPath, s0)
      else (case checkSQLiteDir E path s0 of
          (Some e, s) \<Rightarrow> (Some e, s)
        | (None, s) \<Rightarrow>
            open_checked E D path (enter_call E ((enter_call E s)\<lparr>op_warned :=
              (case os_dir_mode E of None \<Rightarrow> False | Some m \<Rightarrow> m AND 2 \<noteq> 0)\<rparr>))))"

text \<open>\<open>Close\<close> closes both statements and the database in any case and reports the first error.\<close>

definition sqlite_Close :: "string option \<Rightarrow> string option \<Rightarrow> string option \<Rightarrow> open_state \<Rightarrow> string option \<times> open_state" where
  "sqlite_Close reqErr evtErr dbErr s =
     (case reqErr of Some e \<Rightarrow> Some e | None \<Rightarrow> (case evtErr of Some e \<Rightarrow> Some e | None \<Rightarrow> dbErr),
      close_db (s\<lparr>op_stmts := 0\<rparr>))"

section \<open>Without interference\<close>

definition quiet :: "os_env \<Rightarrow> bool" where
  "quiet E \<longleftrightarrow> (\<forall>n fs. os_other E n fs = fs)"

text \<open>What SQLite does to the files beside the database: it creates the two sidecars.\<close>

definition confined :: "sql_driver \<Rightarrow> bool" where
  "confined D \<longleftrightarrow> (\<forall>p fs q. dv_wal D p fs q \<noteq> fs q \<longrightarrow> q \<in> set (sidecars p) \<and> (\<exists>m. dv_wal D p fs q = Some (Regular m)))"

text \<open>The URI names the path: SQLite documents this for a path free of the characters URIs interpret.\<close>

definition names_file :: "sql_driver \<Rightarrow> string \<Rightarrow> bool" where
  "names_file D path \<longleftrightarrow> dv_file D (sqlite_dsn path) = path"

lemma quiet_call [simp]: "quiet E \<Longrightarrow> op_fs (enter_call E s) = op_fs s"
  by (simp add: enter_call_def quiet_def)

lemma call_simps [simp]:
  "op_db (enter_call E s) = op_db s" "op_target (enter_call E s) = op_target s" "op_stmts (enter_call E s) = op_stmts s"
  "op_fs (close_db s) = op_fs s" "op_db (close_db s) = False" "op_target (close_db s) = None" "op_stmts (close_db s) = op_stmts s"
  by (simp_all add: enter_call_def close_db_def)

lemma private_mode [simp]: "((0x180 :: mode) AND NOT u) AND 0x3F = 0"
proof -
  have "((0x180 :: mode) AND NOT u) AND 0x3F = NOT u AND (0x180 AND 0x3F)" by (simp only: ac_simps)
  also have "\<dots> = 0" by simp
  finally show ?thesis .
qed

text \<open>
  What may happen to the files while the store is opened. Only the database, if it was missing,
  the sidecars and what a sidecar links to change; a new mode is private or the driver's own
  sidecar; nothing is removed, and only files are new.
\<close>

definition tidy :: "string \<Rightarrow> filesys \<Rightarrow> filesys \<Rightarrow> bool" where
  "tidy path fs fs' \<longleftrightarrow>
     (\<forall>q. fs' q \<noteq> fs q \<longrightarrow> q = path \<and> fs path = None \<or> q \<in> set (sidecars path) \<or> (\<exists>p \<in> set (sidecars path). fs p = Some (Link q))) \<and>
     (\<forall>q m. fs' q = Some (Regular m) \<longrightarrow> fs q = Some (Regular m) \<or> m AND 0x3F = 0 \<or> q \<in> set (sidecars path)) \<and>
     (\<forall>q t. fs' q = Some (Link t) \<longrightarrow> fs q = Some (Link t)) \<and>
     (\<forall>q m. fs' q = Some (Folder m) \<longrightarrow> (\<exists>m'. fs q = Some (Folder m'))) \<and>
     (\<forall>q. fs q \<noteq> None \<longrightarrow> fs' q \<noteq> None) \<and>
     (\<forall>q m. fs q = Some (Regular m) \<longrightarrow> (\<exists>m'. fs' q = Some (Regular m')))"

lemma sidecars_path [simp]: "path \<notin> set (sidecars path)"
  by (simp add: sidecars_def)

lemma tidy_refl [simp]: "tidy path fs fs"
  by (simp add: tidy_def)

lemma tidy_trans:
  assumes "tidy path fs fs'" "tidy path fs' fs''"
  shows "tidy path fs fs''"
proof -
  note a = assms(1) [unfolded tidy_def] and b = assms(2) [unfolded tidy_def]
  have "fs'' q \<noteq> fs q \<longrightarrow> q = path \<and> fs path = None \<or> q \<in> set (sidecars path) \<or> (\<exists>p \<in> set (sidecars path). fs p = Some (Link q))" for q
    using a b by metis
  moreover have "fs'' q = Some (Regular m) \<longrightarrow> fs q = Some (Regular m) \<or> m AND 0x3F = 0 \<or> q \<in> set (sidecars path)" for q m
    using a b by metis
  moreover have "fs'' q = Some (Link t) \<longrightarrow> fs q = Some (Link t)" for q t using a b by metis
  moreover have "fs'' q = Some (Folder m) \<longrightarrow> (\<exists>m'. fs q = Some (Folder m'))" for q m using a b by metis
  moreover have "fs q \<noteq> None \<longrightarrow> fs'' q \<noteq> None" for q using a b by metis
  moreover have "fs q = Some (Regular m) \<longrightarrow> (\<exists>m'. fs'' q = Some (Regular m'))" for q m using a b by metis
  ultimately show ?thesis unfolding tidy_def by blast
qed

lemma tidy_create: "fs path = None \<Longrightarrow> tidy path fs (fs(path := Some (Regular (0x180 AND NOT u))))"
  by (simp add: tidy_def)

lemma tidy_wal:
  assumes "confined D"
  shows "tidy path fs (dv_wal D path fs)"
proof -
  have c: "dv_wal D path fs q = fs q \<or> q \<in> set (sidecars path) \<and> (\<exists>m. dv_wal D path fs q = Some (Regular m))" for q
    using assms by (auto simp: confined_def)
  show ?thesis unfolding tidy_def
  proof (intro conjI allI)
    fix q
    show "dv_wal D path fs q \<noteq> fs q \<longrightarrow> q = path \<and> fs path = None \<or> q \<in> set (sidecars path) \<or> (\<exists>p \<in> set (sidecars path). fs p = Some (Link q))"
      "fs q \<noteq> None \<longrightarrow> dv_wal D path fs q \<noteq> None" using c [of q] by auto
    fix m t
    show "dv_wal D path fs q = Some (Regular m) \<longrightarrow> fs q = Some (Regular m) \<or> m AND 0x3F = 0 \<or> q \<in> set (sidecars path)"
      "dv_wal D path fs q = Some (Link t) \<longrightarrow> fs q = Some (Link t)"
      "dv_wal D path fs q = Some (Folder m) \<longrightarrow> (\<exists>m'. fs q = Some (Folder m'))"
      "fs q = Some (Regular m) \<longrightarrow> (\<exists>m'. dv_wal D path fs q = Some (Regular m'))" using c [of q] by auto
  qed
qed

definition chmod_fs :: "string \<Rightarrow> filesys \<Rightarrow> filesys" where
  "chmod_fs p fs = (case fs (resolve fs p) of None \<Rightarrow> fs
     | Some n \<Rightarrow> fs(resolve fs p := Some (case n of Regular _ \<Rightarrow> Regular 0x180 | Folder _ \<Rightarrow> Folder 0x180 | Link u \<Rightarrow> Link u)))"

lemma tidy_chmod:
  assumes "p \<in> set (sidecars path)"
  shows "tidy path fs (chmod_fs p fs)"
proof (cases "fs (resolve fs p)")
  case (Some n)
  have r: "resolve fs p \<in> set (sidecars path) \<or> fs p = Some (Link (resolve fs p))"
    using assms by (auto simp: resolve_def split: option.split inode.split)
  with Some assms show ?thesis by (cases n) (auto simp: chmod_fs_def tidy_def)
qed (simp add: chmod_fs_def)

lemma chmod_600_fs: "quiet E \<Longrightarrow> chmod_600 E p s = Some s' \<Longrightarrow>
   op_fs s' = chmod_fs p (op_fs s) \<and> op_db s' = op_db s \<and> op_target s' = op_target s \<and> op_stmts s' = op_stmts s"
  by (auto simp: chmod_600_def chmod_fs_def Let_def split: option.splits if_splits)

text \<open>A chmod to 0600 never makes another file less private.\<close>

lemma chmod_keeps: "fs q = Some (Regular 0x180) \<Longrightarrow> chmod_fs p fs q = Some (Regular 0x180)"
  by (auto simp: chmod_fs_def split: option.split)

lemma chmod_sets: "chmod_fs p fs p = Some (Regular m) \<Longrightarrow> m = 0x180"
  by (auto simp: chmod_fs_def resolve_def split: option.splits inode.splits if_splits)

lemma chmod_regular: "chmod_fs p fs q = Some (Regular m) \<Longrightarrow> m = 0x180 \<or> fs q = Some (Regular m)"
  by (auto simp: chmod_fs_def split: option.splits inode.splits if_splits)

lemma chmod_sidecars_spec:
  assumes "quiet E" "set ps \<subseteq> set (sidecars path)" "chmod_sidecars E ps s = (err, s')"
  shows "tidy path (op_fs s) (op_fs s') \<and> op_stmts s' = op_stmts s \<and>
    (case err of Some _ \<Rightarrow> \<not> op_db s' \<and> op_target s' = None
     | None \<Rightarrow> op_db s' = op_db s \<and> op_target s' = op_target s \<and> op_fs s' = fold chmod_fs ps (op_fs s))"
  using assms(2,3)
proof (induction ps arbitrary: s)
  case (Cons p ps)
  show ?case
  proof (cases "chmod_600 E p s")
    case None
    with Cons.prems assms(1) show ?thesis by auto
  next
    case (Some s1)
    note c = chmod_600_fs [OF assms(1) Some]
    have t: "tidy path (op_fs s) (op_fs s1)" using c tidy_chmod [of p path "op_fs s"] Cons.prems(1) by simp
    have "chmod_sidecars E ps s1 = (err, s')" "set ps \<subseteq> set (sidecars path)" using Cons.prems Some by simp_all
    from Cons.IH [OF this(2,1)] c tidy_trans [OF t] show ?thesis by (cases err) auto
  qed
qed simp

lemma fold_private:
  "fold chmod_fs (sidecars path) fs q = Some (Regular m) \<Longrightarrow> q \<in> set (sidecars path) \<Longrightarrow> m = 0x180"
  by (auto simp: sidecars_def dest: chmod_sets chmod_regular)

abbreviation connected :: "os_env \<Rightarrow> string \<Rightarrow> open_state \<Rightarrow> open_state" where
  "connected E path s \<equiv> enter_call E ((enter_call E s)\<lparr>op_db := True, op_target := Some path, op_fs := op_fs s\<rparr>)"

lemma connect_store_regular:
  "quiet E \<Longrightarrow> names_file D path \<Longrightarrow> op_fs s path = Some (Regular m) \<Longrightarrow> connect_store E D path s =
     (if \<not> dv_open_ok D then (Some (OpenFailed path), s)
      else if \<not> dv_ping_ok D then (Some (PingFailed path), close_db (enter_call E s))
      else if \<not> dv_pragmas_ok D then (Some (PragmasFailed path), close_db (connected E path s))
      else (case chmod_sidecars E (sidecars path) ((connected E path s)\<lparr>op_fs := dv_wal D path (op_fs s)\<rparr>) of
          (Some e, s2) \<Rightarrow> (Some e, s2) | (None, s2) \<Rightarrow> prepare_store D path s2))"
  by (simp add: connect_store_def Let_def resolve_def names_file_def cong: if_cong)

lemma connect_store_spec:
  assumes "quiet E" "confined D" "op_fs s path = Some (Regular m)" "\<not> op_db s" "op_target s = None" "connect_store E D path s = (err, s')"
    and n: "names_file D path"
  shows "tidy path (op_fs s) (op_fs s') \<and>
    (case err of Some _ \<Rightarrow> \<not> op_db s' \<and> op_stmts s' = op_stmts s \<and> op_target s' = None
     | None \<Rightarrow> op_db s' \<and> op_stmts s' = op_stmts s + 2 \<and> op_target s' = Some path \<and>
         (\<forall>q \<in> set (sidecars path). \<forall>m. op_fs s' q = Some (Regular m) \<longrightarrow> m = 0x180))"
proof (cases "dv_open_ok D \<and> dv_ping_ok D \<and> dv_pragmas_ok D")
  case False
  with assms(1,4-6) show ?thesis unfolding connect_store_regular [OF assms(1) n assms(3)] by (auto split: if_splits)
next
  case True
  let ?s2 = "(connected E path s)\<lparr>op_fs := dv_wal D path (op_fs s)\<rparr>"
  obtain e s3 where c: "chmod_sidecars E (sidecars path) ?s2 = (e, s3)" by fastforce
  have res: "(err, s') = (case e of Some x \<Rightarrow> (Some x, s3) | None \<Rightarrow> prepare_store D path s3)"
    using assms(6) True unfolding connect_store_regular [OF assms(1) n assms(3)] by (auto simp: c split: option.splits)
  note C = chmod_sidecars_spec [OF assms(1) subset_refl c]
  have t: "tidy path (op_fs s) (op_fs s3)" using C tidy_trans [OF tidy_wal [OF assms(2)]] assms(1) by simp
  show ?thesis
  proof (cases e)
    case (Some x)
    with res C t assms show ?thesis by auto
  next
    case None
    have p: "op_fs s3 = fold chmod_fs (sidecars path) (dv_wal D path (op_fs s))" "op_db s3" "op_target s3 = Some path" "op_stmts s3 = op_stmts s"
      using C None assms(1) by auto
    have f: "op_fs s' = op_fs s3" using res None by (auto simp: prepare_store_def Let_def split: if_splits)
    have "\<forall>q \<in> set (sidecars path). \<forall>m. op_fs s' q = Some (Regular m) \<longrightarrow> m = 0x180" unfolding f p(1) using fold_private by blast
    then show ?thesis using res None t p by (auto simp: prepare_store_def Let_def f split: if_splits)
  qed
qed

lemma connect_store_folder:
  "quiet E \<Longrightarrow> names_file D path \<Longrightarrow> op_fs s path = Some (Folder m) \<Longrightarrow> connect_store E D path s = (err, s') \<Longrightarrow>
   err \<noteq> None \<and> op_fs s' = op_fs s \<and> (\<not> op_db s \<longrightarrow> \<not> op_db s') \<and> op_stmts s' = op_stmts s \<and> (op_target s = None \<longrightarrow> op_target s' = None)"
  by (auto simp: connect_store_def Let_def resolve_def names_file_def split: if_splits)

text \<open>The directory check leaves no trace when the probe can be removed.\<close>

lemma checkSQLiteDir_quiet:
  assumes "quiet E" "os_remove_ok E" "checkSQLiteDir E path s = (err, s')"
  shows "op_fs s' = op_fs s \<and> op_db s' = op_db s \<and> op_target s' = op_target s \<and> op_stmts s' = op_stmts s"
  using assms by (auto simp: checkSQLiteDir_def Let_def fun_upd_idem split: if_splits)

text \<open>What the constructor promises about the files and about its handles.\<close>

definition open_outcome :: "string \<Rightarrow> open_state \<Rightarrow> open_error option \<times> open_state \<Rightarrow> bool" where
  "open_outcome path s0 r =
     (case r of (err, s) \<Rightarrow> tidy path (op_fs s0) (op_fs s) \<and>
        (case err of
           Some _ \<Rightarrow> \<not> op_db s \<and> op_stmts s = 0 \<and> op_target s = None
         | None \<Rightarrow> op_db s \<and> op_stmts s = 2 \<and> op_target s = Some path \<and>
             list_all (\<lambda>q. case op_fs s q of Some (Regular m) \<Rightarrow> m = 0x180 | _ \<Rightarrow> True) (sidecars path)))"

lemma connect_outcome:
  assumes "quiet E" "confined D" "tidy path (op_fs s0) (op_fs s)" "\<not> op_db s" "op_target s = None" "op_stmts s = 0"
    "op_fs s path = Some n" "\<forall>t. n \<noteq> Link t" and nf: "names_file D path"
  shows "open_outcome path s0 (connect_store E D path s)"
proof -
  obtain err s' where c: "connect_store E D path s = (err, s')" by fastforce
  show ?thesis
  proof (cases n)
    case (Regular m)
    from connect_store_spec [OF assms(1,2) _ assms(4,5) c nf] Regular assms(6,7) tidy_trans [OF assms(3)] show ?thesis
      by (auto simp: c open_outcome_def list_all_iff split: option.splits inode.splits)
  next
    case (Folder m)
    from connect_store_folder [OF assms(1) nf _ c] Folder assms show ?thesis by (auto simp: c open_outcome_def)
  qed (use assms(8) in simp)
qed

lemma open_checked_outcome:
  assumes "quiet E" "confined D" "op_fs s = op_fs s0" "\<not> op_db s" "op_target s = None" "op_stmts s = 0"
    and nf: "names_file D path"
  shows "open_outcome path s0 (open_checked E D path s)"
proof (cases "os_lstat_ok E")
  case lstat: True
  show ?thesis
  proof (cases "op_fs s path")
    case None
    show ?thesis
    proof (cases "create_file E path s")
      case no: None
      then have "open_checked E D path s = (Some (CreateFailed path), enter_call E s)" using None lstat by (simp add: open_checked_def)
      then show ?thesis using assms by (simp add: open_outcome_def)
    next
      case (Some s3)
      then have s3: "op_fs s3 = (op_fs s0)(path := Some (Regular (0x180 AND NOT (os_umask E))))" "\<not> op_db s3" "op_target s3 = None" "op_stmts s3 = 0"
        using None assms by (auto simp: create_file_def Let_def split: if_splits)
      have t: "tidy path (op_fs s0) (op_fs s3)" unfolding s3 by (rule tidy_create) (use None assms(3) in simp)
      have "open_checked E D path s = connect_store E D path s3" using None lstat Some by (simp add: open_checked_def)
      then show ?thesis using connect_outcome [OF assms(1,2) t s3(2,3,4) _ _ nf] s3(1) by simp
    qed
  next
    case (Some n)
    have t: "tidy path (op_fs s0) (op_fs s)" by (simp add: assms(3))
    note o = connect_outcome [OF assms(1,2) t assms(4-6) Some _ nf]
    show ?thesis using Some lstat o assms by (cases n) (simp_all add: open_checked_def open_outcome_def)
  qed
qed (use assms in \<open>simp add: open_checked_def open_outcome_def\<close>)

lemma NewSQLiteSink_outcome:
  assumes "quiet E" "os_remove_ok E" "confined D" "names_file D path" "\<not> op_db s0" "op_stmts s0 = 0" "op_target s0 = None"
  shows "open_outcome path s0 (NewSQLiteSink E D path s0)"
proof -
  obtain e s where k: "checkSQLiteDir E path s0 = (e, s)" by fastforce
  note K = checkSQLiteDir_quiet [OF assms(1,2) k]
  show ?thesis using K assms open_checked_outcome [OF assms(1,3) _ _ _ _ assms(4)]
    by (cases "path = []"; cases e) (simp_all add: NewSQLiteSink_def k open_outcome_def)
qed

lemma link_refused:
  assumes "quiet E" "os_remove_ok E" "op_fs s0 path = Some (Link t)"
  shows "fst (NewSQLiteSink E D path s0) \<noteq> None \<and> op_fs (snd (NewSQLiteSink E D path s0)) = op_fs s0"
proof -
  obtain e s where k: "checkSQLiteDir E path s0 = (e, s)" by fastforce
  note K = checkSQLiteDir_quiet [OF assms(1,2) k]
  show ?thesis using K assms by (cases "path = []"; cases e) (simp_all add: NewSQLiteSink_def k open_checked_def)
qed


definition calm_env :: os_env where
  "calm_env = \<lparr>os_temp = ''1'', os_dir_ok = True, os_remove_ok = True, os_dir_mode = Some 0x1FF, os_lstat_ok = True, os_create_ok = True,
     os_chmod_ok = (\<lambda>_. True), os_umask = 0x12, noFollowFlag = True, os_other = (\<lambda>n fs. fs)\<rparr>"

text \<open>The path of a URI as SQLite documents it: up to a query or a fragment (escapes left out).\<close>

definition uri_path :: "string \<Rightarrow> string" where
  "uri_path u = takeWhile (\<lambda>c. c \<noteq> CHR ''?'' \<and> c \<noteq> CHR ''#'') (drop 5 u)"

definition wal_driver :: sql_driver where
  "wal_driver = \<lparr>dv_file = uri_path, dv_open_ok = True, dv_ping_ok = True, dv_pragmas_ok = True, dv_schema_ok = True, dv_request_ok = True, dv_event_ok = True,
     dv_wal = (\<lambda>p fs. fold (\<lambda>q fs. if fs q = None then fs(q := Some (Regular 0x1A4)) else fs) (sidecars p) fs)\<rparr>"

definition start_state :: "filesys \<Rightarrow> open_state" where
  "start_state fs = \<lparr>op_fs = fs, op_calls = 0, op_db = False, op_target = None, op_stmts = 0, op_warned = False\<rparr>"


section \<open>Beyond the hypotheses\<close>

text \<open>
  The path is put into the URI unescaped: with a number sign in it, the private file that was
  created is not the one the driver opens, which keeps the mode of the umask.
\<close>

lemma dsn_not_escaped:
  "let r = NewSQLiteSink calm_env wal_driver ''/d/a#1.db'' (start_state (\<lambda>_. None)) in
     fst r = None \<and> op_target (snd r) = Some ''/d/a'' \<and> op_fs (snd r) ''/d/a'' = Some (Regular 0x1A4) \<and>
     op_fs (snd r) ''/d/a#1.db'' = Some (Regular 0x180)"
  by code_simp


text \<open>
  The check and the connection are two calls. A process that replaces the file by a link between
  them redirects the driver, and a link in the place of a sidecar passes the mode change on.
\<close>

lemma open_race_follows_link:
  "\<exists>E. os_remove_ok E \<and> fst (NewSQLiteSink E wal_driver ''/d/a.db'' (start_state (\<lambda>_. None))) = None \<and>
     op_target (snd (NewSQLiteSink E wal_driver ''/d/a.db'' (start_state (\<lambda>_. None)))) = Some ''/home/x''"
proof -
  let ?E = "calm_env\<lparr>os_other := (\<lambda>n fs. if n = 5 then fs(''/d/a.db'' := Some (Link ''/home/x'')) else fs)\<rparr>"
  have "os_remove_ok ?E \<and> fst (NewSQLiteSink ?E wal_driver ''/d/a.db'' (start_state (\<lambda>_. None))) = None \<and>
     op_target (snd (NewSQLiteSink ?E wal_driver ''/d/a.db'' (start_state (\<lambda>_. None)))) = Some ''/home/x''" by code_simp
  then show ?thesis by blast
qed

lemma sidecar_chmod_follows_link:
  "op_fs (snd (NewSQLiteSink calm_env wal_driver ''/d/a.db''
     (start_state (\<lambda>p. if p = ''/d/a.db-wal'' then Some (Link ''/srv/page'') else if p = ''/srv/page'' then Some (Regular 0x1A4) else None)))) ''/srv/page''
   = Some (Regular 0x180)"
  by code_simp

end
