(* ===== verification/Sweepers.thy ===== *)
theory Sweepers
  imports Auth Sqlite
begin

text \<open>
  The three background sweepers: \<open>StartSweeper\<close> of admin/session.go, admin/authlimit.go and
  sinks/sqlite_sweeper.go. Each is a goroutine that waits on a ticker and on a context, and the
  operations of its component run between its sweeps. A schedule is a list of what happens:
  the ticker fires (its channel holds one tick, a second one is dropped), the goroutine gets a
  turn, the context is cancelled, a client calls an operation. When the tick and the
  cancellation are both ready the select takes either, which the turn says.
\<close>

section \<open>The goroutine\<close>

datatype sweep_log = SweepFailed | SweepCompleted int

datatype ('e, 'op) sched_event = TickFires | SweeperTurn time bool 'e | CtxCancelled | ClientOp time 'op

record 's sweeper_state =
  sw_store :: 's
  sw_tick :: bool
  sw_cancelled :: bool
  sw_exited :: bool
  sw_log :: "sweep_log list"

text \<open>\<open>time.NewTicker\<close> panics, None, for an interval that is not positive.\<close>

definition start_ticker :: "int \<Rightarrow> 's \<Rightarrow> 's sweeper_state option" where
  "start_ticker interval s =
     (if interval \<le> 0 then None
      else Some \<lparr>sw_store = s, sw_tick = False, sw_cancelled = False, sw_exited = False, sw_log = []\<rparr>)"

text \<open>One iteration of the loop around the select; with nothing ready it blocks.\<close>

definition sweeper_turn ::
  "(time \<Rightarrow> 'e \<Rightarrow> 's \<Rightarrow> sweep_log option \<times> 's) \<Rightarrow> time \<Rightarrow> bool \<Rightarrow> 'e \<Rightarrow> 's sweeper_state \<Rightarrow> 's sweeper_state" where
  "sweeper_turn sweep now choice e s =
     (if sw_exited s then s
      else if sw_tick s \<and> (choice \<or> \<not> sw_cancelled s) then
        (case sweep now e (sw_store s) of (line, store) \<Rightarrow>
           s\<lparr>sw_store := store, sw_tick := False, sw_log := sw_log s @ (case line of None \<Rightarrow> [] | Some x \<Rightarrow> [x])\<rparr>)
      else if sw_cancelled s then s\<lparr>sw_exited := True\<rparr>
      else s)"

definition limiter_sweep :: "time \<Rightarrow> unit \<Rightarrow> auth_limiter \<Rightarrow> sweep_log option \<times> auth_limiter" where
  "limiter_sweep now e l = (None, sweep_limiter now l)"

definition limiter_StartSweeper :: "int \<Rightarrow> auth_limiter \<Rightarrow> auth_limiter sweeper_state option" where
  "limiter_StartSweeper interval l = start_ticker interval l"

definition session_sweep :: "time \<Rightarrow> unit \<Rightarrow> session_store \<Rightarrow> sweep_log option \<times> session_store" where
  "session_sweep now e st = (None, Sweep_sessions now st)"

definition session_StartSweeper :: "int \<Rightarrow> session_store \<Rightarrow> session_store sweeper_state option" where
  "session_StartSweeper interval st = start_ticker interval st"

text \<open>A sweep that fails is logged, and so is one that removed rows; the loop goes on after both.\<close>

record sql_turn =
  st_qsort :: "request_row list \<Rightarrow> request_row list"
  st_vsort :: "event_row list \<Rightarrow> event_row list"
  st_ok :: bool

definition sqlite_sweep :: "sweeper_policy \<Rightarrow> time \<Rightarrow> sql_turn \<Rightarrow> sqlite_sink \<Rightarrow> sweep_log option \<times> sqlite_sink" where
  "sqlite_sweep pol now e s =
     (case Sqlite.Sweep (st_qsort e) (st_vsort e) (st_ok e) now pol s of
        (None, s') \<Rightarrow> (Some SweepFailed, s')
      | (Some deleted, s') \<Rightarrow> (if deleted > 0 then Some (SweepCompleted deleted) else None, s'))"

definition sqlite_StartSweeper :: "int \<Rightarrow> sqlite_sink \<Rightarrow> sqlite_sink sweeper_state option" where
  "sqlite_StartSweeper interval s = start_ticker (sweeper_interval interval) s"

section \<open>Schedules\<close>

fun sched_run ::
  "(time \<Rightarrow> 'e \<Rightarrow> 's \<Rightarrow> sweep_log option \<times> 's) \<Rightarrow> (time \<Rightarrow> 'op \<Rightarrow> 's \<Rightarrow> 'out \<times> 's) \<Rightarrow>
   ('e, 'op) sched_event list \<Rightarrow> 's sweeper_state \<Rightarrow> 'out list \<times> 's sweeper_state" where
  "sched_run sweep step [] s = ([], s)"
| "sched_run sweep step (TickFires # es) s = sched_run sweep step es (s\<lparr>sw_tick := True\<rparr>)"
| "sched_run sweep step (SweeperTurn t c e # es) s = sched_run sweep step es (sweeper_turn sweep t c e s)"
| "sched_run sweep step (CtxCancelled # es) s = sched_run sweep step es (s\<lparr>sw_cancelled := True\<rparr>)"
| "sched_run sweep step (ClientOp t op # es) s =
     (case step t op (sw_store s) of (out, store) \<Rightarrow>
      case sched_run sweep step es (s\<lparr>sw_store := store\<rparr>) of (outs, s') \<Rightarrow> (out # outs, s'))"

text \<open>The same operations without any sweeper.\<close>

fun client_run :: "(time \<Rightarrow> 'op \<Rightarrow> 's \<Rightarrow> 'out \<times> 's) \<Rightarrow> ('e, 'op) sched_event list \<Rightarrow> 's \<Rightarrow> 'out list \<times> 's" where
  "client_run step [] s = ([], s)"
| "client_run step (ClientOp t op # es) s =
     (case step t op s of (out, s1) \<Rightarrow> case client_run step es s1 of (outs, s') \<Rightarrow> (out # outs, s'))"
| "client_run step (e # es) s = client_run step es s"

fun event_times :: "('e, 'op) sched_event list \<Rightarrow> time list" where
  "event_times [] = []"
| "event_times (SweeperTurn t c e # es) = t # event_times es"
| "event_times (ClientOp t op # es) = t # event_times es"
| "event_times (e # es) = event_times es"

text \<open>
  A service whose sweeps nobody can observe: states are related when every later operation
  answers alike, and sweeping one side keeps them related.
\<close>

locale swept_service =
  fixes sweep :: "time \<Rightarrow> 'e \<Rightarrow> 's \<Rightarrow> sweep_log option \<times> 's"
    and step :: "time \<Rightarrow> 'op \<Rightarrow> 's \<Rightarrow> 'out \<times> 's"
    and alike :: "time \<Rightarrow> 's \<Rightarrow> 's \<Rightarrow> bool"
  assumes alike_step: "alike t s s' \<Longrightarrow> t \<le> u \<Longrightarrow> fst (step u op s) = fst (step u op s') \<and> alike u (snd (step u op s)) (snd (step u op s'))"
    and alike_sweep: "alike t s s' \<Longrightarrow> t \<le> u \<Longrightarrow> alike u (snd (sweep u e s)) s'"
begin

lemma alike_turn: "alike t (sw_store s) s' \<Longrightarrow> t \<le> u \<Longrightarrow> \<exists>v. t \<le> v \<and> v \<le> u \<and> alike v (sw_store (sweeper_turn sweep u c e s)) s'"
  using alike_sweep [of t "sw_store s" s' u e] by (auto simp: sweeper_turn_def split: prod.split)

lemma sweeps_unobservable:
  "alike t (sw_store s) s' \<Longrightarrow> sorted (t # event_times es) \<Longrightarrow> fst (sched_run sweep step es s) = fst (client_run step es s')"
proof (induction es arbitrary: t s s')
  case (Cons e es)
  show ?case
  proof (cases e)
    case (SweeperTurn u c x)
    with Cons.prems obtain v where "t \<le> v" "v \<le> u" "alike v (sw_store (sweeper_turn sweep u c x s)) s'"
      using alike_turn [of t s s' u c x] by auto
    with Cons.IH [of v] Cons.prems(2) SweeperTurn show ?thesis by force
  next
    case (ClientOp u op)
    obtain o1 s1 o2 s2 where st: "step u op (sw_store s) = (o1, s1)" "step u op s' = (o2, s2)" by fastforce
    have "o1 = o2" "alike u s1 s2" using alike_step [OF Cons.prems(1), of u op] Cons.prems(2) ClientOp st by auto
    then have "fst (sched_run sweep step es (s\<lparr>sw_store := s1\<rparr>)) = fst (client_run step es s2)"
      using Cons.IH [of u "s\<lparr>sw_store := s1\<rparr>" s2] Cons.prems(2) ClientOp by simp
    then show ?thesis using ClientOp st \<open>o1 = o2\<close> by (auto split: prod.splits)
  qed (use Cons in auto)
qed simp

end

section \<open>Sessions\<close>

datatype session_op = OpCreate "string option" int | OpValidate string | OpRevoke string

datatype session_out = Created "session option" | Valid bool | Revoked

fun session_step :: "time \<Rightarrow> session_op \<Rightarrow> session_store \<Rightarrow> session_out \<times> session_store" where
  "session_step t (OpCreate raw ttl) st = (case Create raw t ttl st of None \<Rightarrow> (Created None, st) | Some (sess, st') \<Rightarrow> (Created (Some sess), st'))"
| "session_step t (OpValidate ident) st = (Valid (Auth.Validate t ident st), st)"
| "session_step t (OpRevoke ident) st = (Revoked, Revoke ident st)"

definition session_alike :: "time \<Rightarrow> session_store \<Rightarrow> session_store \<Rightarrow> bool" where
  "session_alike t st st' \<longleftrightarrow> (\<forall>ident u. t \<le> u \<longrightarrow> Auth.Validate u ident st = Auth.Validate u ident st')"

interpretation session_sweeps: swept_service session_sweep session_step session_alike
proof
  fix t u :: time and st st' :: session_store and op and e :: unit
  assume a: "session_alike t st st'" "t \<le> u"
  show "fst (session_step u op st) = fst (session_step u op st') \<and> session_alike u (snd (session_step u op st)) (snd (session_step u op st'))"
  proof (cases op)
    case (OpCreate raw ttl)
    then show ?thesis using a by (cases raw) (auto simp: Create_def Let_def session_alike_def Auth.Validate_def)
  next
    case (OpValidate ident)
    then show ?thesis using a by (auto simp: session_alike_def)
  next
    case (OpRevoke ident)
    then show ?thesis using a by (auto simp: session_alike_def Auth.Validate_def Revoke_def)
  qed
  show "session_alike u (snd (session_sweep u e st)) st'"
    unfolding session_alike_def
  proof (intro allI impI)
    fix ident v
    assume v: "u \<le> v"
    have "Auth.Validate v ident (Sweep_sessions u st) = Auth.Validate v ident st"
      using v by (auto simp: Auth.Validate_def Sweep_sessions_def split: option.split)
    then show "Auth.Validate v ident (snd (session_sweep u e st)) = Auth.Validate v ident st'"
      using a v by (simp add: session_sweep_def session_alike_def)
  qed
qed

section \<open>The rate limiter\<close>

datatype limiter_op = OpAllowed string | OpFailure string | OpRetry string

datatype limiter_out = Permitted bool | Noted | Wait int

fun limiter_step :: "(rat \<Rightarrow> rat) \<Rightarrow> time \<Rightarrow> limiter_op \<Rightarrow> auth_limiter \<Rightarrow> limiter_out \<times> auth_limiter" where
  "limiter_step rnd t (OpAllowed ip) l = (Permitted (fst (Allowed rnd t ip l)), snd (Allowed rnd t ip l))"
| "limiter_step rnd t (OpFailure ip) l = (Noted, RegisterFailure rnd t ip l)"
| "limiter_step rnd t (OpRetry ip) l = (Wait (RetryAfter rnd t ip l), l)"

text \<open>An address without a bucket counts as a full one.\<close>

definition tokens_at :: "(rat \<Rightarrow> rat) \<Rightarrow> auth_bucket option \<Rightarrow> time \<Rightarrow> rat" where
  "tokens_at rnd b t = (case b of None \<Rightarrow> 5 | Some b \<Rightarrow> ip_refill rnd b t)"

definition limiter_alike :: "(rat \<Rightarrow> rat) \<Rightarrow> time \<Rightarrow> auth_limiter \<Rightarrow> auth_limiter \<Rightarrow> bool" where
  "limiter_alike rnd t l l' \<longleftrightarrow> ieee_round rnd \<and> al_global l = al_global l' \<and>
     (\<forall>ip b. al_per_ip l ip = Some b \<longrightarrow> -1 \<le> ab_tokens b) \<and>
     (\<forall>ip u. t \<le> u \<longrightarrow> tokens_at rnd (al_per_ip l ip) u = tokens_at rnd (al_per_ip l' ip) u)"

lemma elapsed_nonneg:
  assumes "ieee_round rnd"
  shows "0 \<le> rnd ((if e < 0 then 0 else e) * perIPRefillRate rnd)"
proof -
  have "0 \<le> perIPRefillRate rnd" using perIPRate [OF assms] eps_small by linarith
  then have "rnd 0 \<le> rnd ((if e < 0 then 0 else e) * perIPRefillRate rnd)" by (intro ieee_mono [OF assms]) simp
  then show ?thesis using ieee_small(1) [OF assms] by simp
qed

lemma refill_above:
  assumes "ieee_round rnd" "of_int n \<le> ab_tokens b" "\<bar>n\<bar> \<le> 5"
  shows "of_int n \<le> ip_refill rnd b t"
proof -
  let ?e = "Seconds rnd (time_sub t (ab_last_seen b))"
  have "of_int n \<le> ab_tokens b + rnd ((if ?e < 0 then 0 else ?e) * perIPRefillRate rnd)"
    using assms(2) elapsed_nonneg [OF assms(1), of ?e] by linarith
  then have "rnd (of_int n) \<le> rnd (ab_tokens b + rnd ((if ?e < 0 then 0 else ?e) * perIPRefillRate rnd))"
    by (rule ieee_mono [OF assms(1)])
  moreover have "rnd (of_int n) = of_int n" using assms(3) by (intro ieee_int [OF assms(1)]) simp
  moreover have "(of_int n :: rat) \<le> 5" using assms(3) by simp
  ultimately show ?thesis by (simp add: refillTokens_def Let_def authLimitPerIPCapacity_def)
qed

lemma refill_le: "ip_refill rnd b t \<le> 5"
  by (simp add: refillTokens_def Let_def authLimitPerIPCapacity_def)

lemma refill_full: "ieee_round rnd \<Longrightarrow> ab_tokens b = 5 \<Longrightarrow> ip_refill rnd b t = 5"
  using refill_above [of rnd 5 b t] refill_le [of rnd b t] by simp

text \<open>Ten idle minutes fill any bucket, whatever the rounding.\<close>

lemma Seconds_long:
  assumes "ieee_round rnd" "600 * Second \<le> d" shows "600 \<le> Seconds rnd d"
proof -
  define s where "s = d div Second"
  define n where "n = d - s * Second"
  have s: "600 \<le> s" unfolding s_def using assms(2) by linarith
  have n: "0 \<le> n" using pos_mod_sign [of Second d] by (simp add: n_def s_def minus_div_mult_eq_mod)
  have "rnd (of_int 600) \<le> rnd (of_int s)" using s by (intro ieee_mono [OF assms(1)]) simp
  moreover have r600: "rnd (of_int 600) = of_int 600" by (rule ieee_int [OF assms(1)]) simp
  moreover have "0 \<le> rnd (of_int n)" using ieee_mono [OF assms(1), of 0 "of_int n"] n ieee_small(1) [OF assms(1)] by simp
  then have "0 \<le> rnd (rnd (of_int n) / 1000000000)"
    using ieee_mono [OF assms(1), of 0 "rnd (of_int n) / 1000000000"] ieee_small(1) [OF assms(1)] by simp
  ultimately have "of_int 600 \<le> rnd (of_int s) + rnd (rnd (of_int n) / 1000000000)" by simp
  from ieee_mono [OF assms(1) this] r600
  have "600 \<le> rnd (rnd (of_int s) + rnd (rnd (of_int n) / 1000000000))" by simp
  then show ?thesis using go_div_pos [of d] assms(2) by (simp add: Seconds_def Let_def s_def n_def)
qed

lemma idle_refill:
  assumes "ieee_round rnd" "-1 \<le> ab_tokens b" "time_sub t (ab_last_seen b) > 600 * Second" "t \<le> u"
  shows "ip_refill rnd b u = 5"
proof -
  let ?e = "Seconds rnd (time_sub u (ab_last_seen b))" and ?r = "perIPRefillRate rnd"
  have "600 * Second \<le> time_sub u (ab_last_seen b)" using assms(3,4) by (simp add: time_sub_def)
  then have e: "600 \<le> ?e" by (rule Seconds_long [OF assms(1)])
  have r: "1 / 10 \<le> ?r" using perIPRate [OF assms(1)] eps_small by linarith
  have "600 * (1 / 10) \<le> ?e * ?r" using e r by (intro mult_mono) simp_all
  then have "rnd (of_int 60) \<le> rnd (?e * ?r)" by (intro ieee_mono [OF assms(1)]) simp
  moreover have i: "rnd (of_int 60) = of_int 60" "rnd (of_int 5) = of_int 5" by (rule ieee_int [OF assms(1)]; simp)+
  ultimately have "of_int 5 \<le> ab_tokens b + rnd (?e * ?r)" using assms(2) by simp
  from ieee_mono [OF assms(1) this] i(2) have "5 \<le> rnd (ab_tokens b + rnd (?e * ?r))" by simp
  then show ?thesis using e by (simp add: refillTokens_def Let_def authLimitPerIPCapacity_def)
qed

lemma Allowed_answer:
  "fst (Allowed rnd t ip l) \<longleftrightarrow>
     \<not> refillTokens rnd (al_global l) authLimitGlobalCapacity (globalRefillRate rnd) t < 1 \<and> 1 \<le> tokens_at rnd (al_per_ip l ip) t"
  by (auto simp: Allowed_def tokens_at_def split: option.split)

lemma Allowed_tokens:
  "ieee_round rnd \<Longrightarrow> tokens_at rnd (al_per_ip (snd (Allowed rnd t ip l)) ip') u = tokens_at rnd (al_per_ip l ip') u"
  by (auto simp: Allowed_def tokens_at_def refill_full [unfolded authLimitPerIPCapacity_def] authLimitPerIPCapacity_def split: option.split)

lemma RegisterFailure_bucket:
  "ieee_round rnd \<Longrightarrow> al_per_ip (RegisterFailure rnd t ip l) =
     (al_per_ip l)(ip \<mapsto> \<lparr>ab_tokens = debit rnd (tokens_at rnd (al_per_ip l ip) t), ab_last_seen = t\<rparr>)"
  by (auto simp: RegisterFailure_def Let_def tokens_at_def refill_full [unfolded authLimitPerIPCapacity_def] authLimitPerIPCapacity_def split: option.split)

lemma RetryAfter_tokens:
  "RetryAfter rnd t ip l =
     (let gt = refillTokens rnd (al_global l) authLimitGlobalCapacity (globalRefillRate rnd) t;
          globalWait = (if gt < 1 \<and> globalRefillRate rnd > 0 then rnd (rnd (1 - gt) / globalRefillRate rnd) else 0);
          bt = tokens_at rnd (al_per_ip l ip) t;
          perIPWait = (if bt < 1 \<and> perIPRefillRate rnd > 0 then rnd (rnd (1 - bt) / perIPRefillRate rnd) else 0)
      in max (go_div (\<lfloor>rnd (max globalWait perIPWait * 1000000000)\<rfloor> + Second - 1) Second * Second) Second)"
  by (simp add: RetryAfter_def Let_def tokens_at_def split: option.split)

lemma limiter_alike_step:
  assumes "limiter_alike rnd t l l'" "t \<le> u"
  shows "fst (limiter_step rnd u op l) = fst (limiter_step rnd u op l') \<and>
    limiter_alike rnd u (snd (limiter_step rnd u op l)) (snd (limiter_step rnd u op l'))"
proof (cases op)
  case (OpAllowed ip)
  have "fst (Allowed rnd u ip l) = fst (Allowed rnd u ip l')" using assms by (simp add: Allowed_answer limiter_alike_def)
  moreover have "al_global (snd (Allowed rnd u ip m)) = al_global m" for m by (simp add: Allowed_def split: option.split)
  moreover have "-1 \<le> ab_tokens b" if "al_per_ip (snd (Allowed rnd u ip l)) k = Some b" for k b
    using that assms(1) by (auto simp: Allowed_def limiter_alike_def authLimitPerIPCapacity_def split: option.splits if_splits)
  ultimately show ?thesis using assms by (auto simp: OpAllowed limiter_alike_def Allowed_tokens)
next
  case (OpFailure ip)
  have r: "ieee_round rnd" "tokens_at rnd (al_per_ip l ip) u = tokens_at rnd (al_per_ip l' ip) u"
    using assms by (simp_all add: limiter_alike_def)
  have "-1 \<le> tokens_at rnd (al_per_ip l ip) u" "tokens_at rnd (al_per_ip l ip) u \<le> 5"
    using assms(1) refill_above [OF r(1), of "-1"] refill_le by (auto simp: tokens_at_def limiter_alike_def split: option.split)
  then have d: "-1 \<le> debit rnd (tokens_at rnd (al_per_ip l' ip) u)" using debit_range(1) [OF r(1)] r(2) by simp
  have g: "al_global (RegisterFailure rnd u ip l) = al_global (RegisterFailure rnd u ip l')"
    using assms(1) by (simp add: RegisterFailure_def Let_def limiter_alike_def)
  then show ?thesis using assms r d by (auto simp: OpFailure limiter_alike_def RegisterFailure_bucket tokens_at_def)
next
  case (OpRetry ip)
  then show ?thesis using assms by (auto simp: limiter_alike_def RetryAfter_tokens)
qed

interpretation limiter_sweeps: swept_service limiter_sweep "limiter_step rnd" "limiter_alike rnd" for rnd
proof
  fix t u :: time and l l' :: auth_limiter and op and e :: unit
  assume a: "limiter_alike rnd t l l'" "t \<le> u"
  then show "fst (limiter_step rnd u op l) = fst (limiter_step rnd u op l') \<and>
    limiter_alike rnd u (snd (limiter_step rnd u op l)) (snd (limiter_step rnd u op l'))" by (rule limiter_alike_step)
  have "tokens_at rnd (al_per_ip (sweep_limiter u l) ip) v = tokens_at rnd (al_per_ip l ip) v" if "u \<le> v" for ip v
    using that a(1) idle_refill [of rnd _ u v] by (auto simp: sweep_limiter_def tokens_at_def limiter_alike_def split: option.split)
  then show "limiter_alike rnd u (snd (limiter_sweep u e l)) l'"
    using a by (auto simp: limiter_alike_def limiter_sweep_def sweep_limiter_def split: option.splits if_splits)
qed

section \<open>Properties\<close>

lemma start_ticker_positive: "0 < interval \<Longrightarrow> start_ticker interval s =
    Some \<lparr>sw_store = s, sw_tick = False, sw_cancelled = False, sw_exited = False, sw_log = []\<rparr>"
  by (simp add: start_ticker_def)

lemma turns_exit:
  assumes "sw_cancelled s"
  shows "sw_exited (sweeper_turn sweep t c e (sweeper_turn sweep u d e' s))"
  using assms by (auto simp: sweeper_turn_def split: prod.split)

lemma exited_stays: "sw_exited s \<Longrightarrow> sweeper_turn sweep t c e s = s"
  by (simp add: sweeper_turn_def)



end
