(* ===== verification/Spec2Isabelle.thy ===== *)
theory Spec2Isabelle
  imports Command Sqlite_File Sweepers
begin

text \<open>
  \<^bold>\<open>httpcatch\<close> records the HTTP traffic of other programs. A capture port accepts any request and
  turns it into a record; an events endpoint on the admin port accepts records of responses
  and of outbound calls. Records go through one bounded queue to a pool of workers, which
  redact them and hand them to the enabled sinks: standard output, a ring in memory, a
  SQLite file. The admin port lists and searches what the ring and the file hold, as JSON and
  as HTML, shows metrics, and is guarded by a token, sessions and a rate limiter. A
  subcommand shows what the redaction rules would do to one sample. This development
  models these parts, file by file, and proves what each promises and how they fit together.

  \<^bold>\<open>How the code is modelled.\<close> A struct is a record, a tagged variant a datatype, an operation a
  function that takes and returns the state it changes; a mutex makes an operation one step. An
  error return is the left side of a sum or None, a panic is None or a value of its own. A
  byte string is a list of characters, a Go map an association list whose order is one possible
  iteration order. Lengths and sizes are integers; 64-bit arithmetic is wrapped where it
  can overflow, uint64 counters are 64-bit words. A float64 is a rational and every operation is
  followed by a rounding function. Goroutines are step relations whose runs are all
  interleavings. Clock readings, random bytes and identifiers are arguments.

  \<^bold>\<open>The theories, in the order of the data flow.\<close>

  \<^item> \<open>Prelude\<close>: the parts of strings, strconv, net, net/textproto and time the program uses, stable
    sorting and the locale \<open>weak_order\<close> of its comparisons. \<open>Url\<close>: query escaping and
    parsing of net/url.
  \<^item> \<open>Records\<close> (capture/record.go): the three record variants.
  \<^item> \<open>Capture\<close> (capture/server.go, bodycap.go, queue.go, counters.go, correlation.go, service.go):
    body cap, drop-on-full queue, correlation and service, the capture handler. The locale
    \<open>drop_queue\<close> is the queue's contract. Shown: every request is accounted for in exactly one
    counter; accepted records come out once and in order.
  \<^item> \<open>Events\<close> (admin/events.go, events_counters.go): POST /events. Shown: a batch is all or nothing
    and every answer is counted.
  \<^item> \<open>Redact\<close> (redact/ruleset.go, redactor.go): compiling and applying the rules. Shown: the output
    does not depend on redacted values; nothing but the redacted parts changes. \<open>Redact_Heap\<close>:
    the same code with its maps, slices and in-place loops on a heap. Shown: it computes the
    result of \<open>Redact\<close> and leaves every object that existed before untouched, whatever records
    share; the contract of a loop that rewrites one map is the locale \<open>map_procedure\<close>.
  \<^item> \<open>Pipeline\<close> (pipeline/worker.go, sink_error_counters.go): the pool as a step relation with a
    trace. Shown: nothing is lost or duplicated under any interleaving and any sink behaviour, a
    closed queue drains, a failing sink does not keep a record from the others.
  \<^item> \<open>Stdout\<close> (sinks/stdout.go): the envelopes and the line stream. Shown: the lines decode to the
    records written.
  \<^item> \<open>Memory\<close> (sinks/memory.go): the ring and its index, an instance of the locale \<open>recent_store\<close>.
    \<open>Memory_Reader\<close> (sinks/memory_reader.go): listing, detail, histogram and service statistics.
  \<^item> \<open>Sqlite\<close> (sinks/sqlite.go, sqlite_sweeper.go): rows, writes, the detail reader and
    retention. \<open>Sqlite_Reader\<close> (sinks/sqlite_reader.go): the UNION query as text, as a query
    and as the rows it denotes; listing, histogram, services. \<open>Sqlite_File\<close> (sinks/sqlite.go:
    NewSQLiteSink, checkSQLiteDir, Close; nofollow files): opening and closing the file over a
    file system with modes and links. Shown: every failure releases its handles, a link is
    refused, only the database and its sidecars change; and what holds no longer when another
    process interferes. Shown for both stores:
    reads return exactly what was kept, and following the cursors visits every row once. Both
    listings are proved against the locale \<open>page_reader\<close>.
  \<^item> \<open>Searchql\<close>, \<open>Term_Predicate\<close>, \<open>Sql_Compile\<close> (searchql/searchql.go, compile_predicate.go,
    compile_sql.go): the search language, its in-memory matcher and its SQL compiler;
    \<open>Sql_Semantics\<close> gives the emitted SQL a meaning in three-valued logic, with the locale
    \<open>like_operator\<close>. Shown: parse results are well formed, values never reach the SQL text.
  \<^item> \<open>Inspect_Types\<close>, \<open>Inspect\<close> (inspect/cursor.go, reader.go, admin/inspect.go, query_parser.go):
    cursors, parameters, merging the two stores, the JSON handlers. \<open>Reader_Agreement\<close>: for the
    same records both stores list the same pages; a gathered page is the head of the union.
  \<^item> \<open>Chips\<close>, \<open>Ui_Views\<close>, \<open>Ui_Pages\<close> (admin/ui_views.go, static.go, healthz.go): the search chips,
    the explorer, detail, service and configuration pages, static assets. Shown: chips
    rebuild the query, the Next link resumes the listing, pages and JSON agree, the
    configuration page does not depend on the token.
  \<^item> \<open>Limiter\<close>, \<open>Auth\<close> (admin/authlimit.go, session.go, middleware.go, csrf.go, login.go,
    bindpolicy.go, security_headers.go): rate limiter, sessions, login, cross-site check.
  \<^item> \<open>Sweepers\<close> (StartSweeper of admin/authlimit.go, admin/session.go, sinks/sqlite_sweeper.go): the
    ticker goroutines under every schedule. The locale \<open>swept_service\<close> says when sweeps cannot
    be observed. Shown: nobody can observe the two of the admin server, and all three end.
  \<^item> \<open>Metrics\<close> (admin/metrics.go, status.go, metrics/metrics.go): accessors and collector. Shown: a
    scrape is well-typed and loses no counter.
  \<^item> \<open>Admin_Server\<close> (admin/server.go): construction and the route table with its middleware. Shown:
    no guarded route is served without a credential, every answer is framed, a server
    without a token is sealed.
  \<^item> \<open>Config\<close> (config/config.go): defaults, file, environment, validation.
  \<^item> \<open>Lifecycle\<close>, \<open>App\<close> (app/app.go): Serve and shutdown as a transition system, and Build with the
    whole state. Shown: the order of the shutdown, its termination, the one race it has; a
    captured request is retrievable and redacted; what Build wires.
  \<^item> \<open>Diff\<close> (cli/redactcmd/diff.go, redactcmd.go): the dry run of the rules. Shown: the diff is
    exact and masked, and the redaction does not touch its before-side.
  \<^item> \<open>Command\<close> (cmd/httpcatch/main.go): subcommands, flags, start-up and exit codes. Shown: what
    a process does from its arguments to its exit.

  \<^bold>\<open>Arguments of the model.\<close> Code outside the repository is an argument: the Unicode case maps
  (\<open>ul\<close>, \<open>uu\<close>), time parsing and formatting (\<open>pt\<close>, \<open>fmt_time\<close>), time.ParseDuration, encoding/json
  (\<open>json_codec\<close>, \<open>event_json\<close>, \<open>lb_enc\<close>), YAML, html/template (\<open>render\<close>), SHA-256 (\<open>sha_hex\<close>),
  regexp, gjson, sjson and mime (\<open>redact_libs\<close>), the operators of SQLite (\<open>sql_engine\<close>), float64
  rounding (\<open>rnd\<close>), the router's choice of a route (\<open>pick\<close>), the store an opened
  database gives (\<open>lb_open\<close>), the answers of the operating system and of the SQL driver (\<open>os_env\<close>,
  \<open>sql_driver\<close>), what other goroutines do to the queue between two sends (\<open>other\<close>). A law a theorem
  needs of one of them (that JSON decodes what it encoded, that rounding is monotone and
  exact up to 2 to the 53rd) is a named hypothesis of that theorem.

  \<^bold>\<open>Bounds and fuel.\<close> \<open>walk_pages\<close>, the client that follows cursors, runs on fuel; the theorems
  give it one page per row and one more and show that it returns. Shutdown is given no fuel:
  five steps of the main goroutine lead to its return. Every other loop is a total function.

  \<^bold>\<open>Not modelled.\<close> The embedded files and templates (admin/ui_embed.go), the two version strings of
  buildinfo and the interface declaration of sinks/sink.go, which hold no logic of their own;
  the text of log lines; the Prometheus registry and its histogram, which belong to a library;
  listeners, contexts and deadlines, which appear only as read errors and as the events of
  \<open>Lifecycle\<close>; the contents of the database file while it is opened.
\<close>

end
